(* ===== verification/PDA_Prelude.thy ===== *)
theory PDA_Prelude
  imports Main "HOL-Library.Word"
begin

unbundle bit_operations_syntax

text \<open>
  Shared vocabulary of the development: the machine integers of the C sources, pointers,
  the error numbers the library returns, the fact collections the component theories feed,
  and generic lemmas on lists and words.

  \<^item> \<open>u8\<close>, \<open>u16\<close>, \<open>u32\<close>, \<open>u64\<close> are the fixed-width unsigned types; \<open>size_t\<close>, \<open>void*\<close> and
    \<open>unsigned long\<close> are 64 bits wide (the library is built for x86\_64).
  \<^item> An \<open>addr\<close> names a heap object (a \<open>struct\<close> obtained from \<open>calloc\<close>); a \<open>ptr\<close> is a pointer
    to one, \<open>None\<close> being \<open>NULL\<close>.
  \<^item> A \<open>PdaDebugReturnCode\<close> is an \<open>int64_t\<close>; all values that occur are small error numbers and
    sums of a few of them, so it is modelled by \<open>int\<close>.
\<close>

section \<open>Types\<close>

type_synonym u8 = "8 word"
type_synonym u16 = "16 word"
type_synonym u32 = "32 word"
type_synonym u64 = "64 word"

type_synonym addr = nat
type_synonym ptr = "addr option"

type_synonym PdaDebugReturnCode = int

section \<open>Constants of the C headers\<close>

abbreviation (input) PDA_SUCCESS :: PdaDebugReturnCode where "PDA_SUCCESS \<equiv> 0"

text \<open>\<open>!PDA_SUCCESS\<close> and \<open>~PDA_SUCCESS\<close> as they evaluate in C.\<close>

abbreviation (input) not_PDA_SUCCESS :: PdaDebugReturnCode where "not_PDA_SUCCESS \<equiv> 1"
abbreviation (input) compl_PDA_SUCCESS :: PdaDebugReturnCode where "compl_PDA_SUCCESS \<equiv> -1"

text \<open>The error numbers of \<open>errno.h\<close> on Linux.\<close>

abbreviation (input) EPERM :: int where "EPERM \<equiv> 1"
abbreviation (input) ENOENT :: int where "ENOENT \<equiv> 2"
abbreviation (input) ENXIO :: int where "ENXIO \<equiv> 6"
abbreviation (input) ECHILD :: int where "ECHILD \<equiv> 10"
abbreviation (input) ENOMEM :: int where "ENOMEM \<equiv> 12"
abbreviation (input) EACCES :: int where "EACCES \<equiv> 13"
abbreviation (input) EFAULT :: int where "EFAULT \<equiv> 14"
abbreviation (input) ENODEV :: int where "ENODEV \<equiv> 19"
abbreviation (input) EINVAL :: int where "EINVAL \<equiv> 22"
abbreviation (input) ENOSYS :: int where "ENOSYS \<equiv> 38"

text \<open>\<open>MAP_FAILED\<close> is \<open>(void*)-1\<close>.\<close>

abbreviation (input) MAP_FAILED :: u64 where "MAP_FAILED \<equiv> -1"

section \<open>Fact collections\<close>

named_theorems sg_simps \<open>unfolding rules of the scatter/gather list\<close>
named_theorems heap_simps \<open>unfolding rules of the buffer heap\<close>
named_theorems word_facts \<open>conversions between words and naturals\<close>

section \<open>Lists\<close>

lemma drop_eq_Cons_nth: "i < length xs \<Longrightarrow> drop i xs = xs ! i # drop (Suc i) xs"
  by (simp add: Cons_nth_drop_Suc)

lemma take_Suc_snoc: "i < length xs \<Longrightarrow> take (Suc i) xs = take i xs @ [xs ! i]"
  by (simp add: take_Suc_conv_app_nth)

lemma upt_append: "a \<le> b \<Longrightarrow> b \<le> c \<Longrightarrow> [a..<b] @ [b..<c] = [a..<c]"
  using upt_add_eq_append[of a b "c - b"] by simp

lemma map_upt_shift: "map f [a..<a + n] = map (\<lambda>k. f (a + k)) [0..<n]"
  by (rule nth_equalityI) auto

lemma update_take_drop:
  "i < length xs \<Longrightarrow> take i xs @ x # drop (Suc i) xs = xs[i := x]"
  by (simp add: upd_conv_take_nth_drop)

text \<open>Reading and writing an element of a C array; outside of the array both are undefined.\<close>

definition list_put :: "'a list \<Rightarrow> nat \<Rightarrow> 'a \<Rightarrow> 'a list option" where
  "list_put xs i x = (if i < length xs then Some (xs[i := x]) else None)"

definition list_get :: "'a list \<Rightarrow> nat \<Rightarrow> 'a option" where
  "list_get xs i = (if i < length xs then Some (xs ! i) else None)"

section \<open>Words\<close>

lemma unat_bound: "unat (w::'a::len word) < 2 ^ LENGTH('a)"
  by (rule unsigned_less)

lemma of_nat_word_eq:
  assumes "a < 2 ^ LENGTH('a)" and "b < 2 ^ LENGTH('a)"
  shows "of_nat a = (of_nat b :: 'a::len word) \<longleftrightarrow> a = b"
  using assms by (simp add: word_of_nat_eq_iff take_bit_nat_eq_self)

lemma unat_add_no_wrap [word_facts]:
  fixes a b :: "'a::len word"
  assumes "unat a + unat b < 2 ^ LENGTH('a)"
  shows "unat (a + b) = unat a + unat b"
  using assms by (simp add: unat_word_ariths)

lemma of_nat_unat_add [word_facts]:
  fixes a :: "'a::len word"
  shows "of_nat (unat a + k) = a + of_nat k"
  by simp

lemma word_neq_0_unat [word_facts]: "(w::'a::len word) \<noteq> 0 \<longleftrightarrow> 0 < unat w"
  by (simp add: unat_gt_0)

section \<open>Step systems\<close>

text \<open>
  The contract between the steps of a component and a property of its states; the library and the
  driver each provide an instance.
\<close>

locale step_system =
  fixes step :: "'s \<Rightarrow> 's \<Rightarrow> bool" and inv :: "'s \<Rightarrow> bool"
  assumes inv_step: "inv s \<Longrightarrow> step s s' \<Longrightarrow> inv s'"
begin

lemma inv_reachable: "step\<^sup>*\<^sup>* s s' \<Longrightarrow> inv s \<Longrightarrow> inv s'"
  by (induction rule: rtranclp_induct) (auto intro: inv_step)

end

text \<open>
  A sequence of calls, on the model (where a call may be undefined) and on an abstract
  specification, with the results of the calls.
\<close>

primrec run_calls :: "('c \<Rightarrow> 's \<Rightarrow> ('r \<times> 's) option) \<Rightarrow> 'c list \<Rightarrow> 's \<Rightarrow> ('r list \<times> 's) option" where
  "run_calls call [] s = Some ([], s)"
| "run_calls call (c # cs) s =
     Option.bind (call c s) (\<lambda>(r, s). Option.bind (run_calls call cs s) (\<lambda>(rs, s). Some (r # rs, s)))"

primrec spec_calls :: "('c \<Rightarrow> 'a \<Rightarrow> 'r \<times> 'a) \<Rightarrow> 'c list \<Rightarrow> 'a \<Rightarrow> 'r list \<times> 'a" where
  "spec_calls spec [] a = ([], a)"
| "spec_calls spec (c # cs) a =
     (case spec c a of (r, a) \<Rightarrow> case spec_calls spec cs a of (rs, a) \<Rightarrow> (r # rs, a))"

text \<open>
  Sequences of calls that the specification permits: each call in the state the calls before it lead to.
\<close>

primrec permitted :: "('c \<Rightarrow> 'a \<Rightarrow> 'r \<times> 'a) \<Rightarrow> ('c \<Rightarrow> 'a \<Rightarrow> bool) \<Rightarrow> 'c list \<Rightarrow> 'a \<Rightarrow> bool" where
  "permitted spec allowed [] a = True"
| "permitted spec allowed (c # cs) a = (allowed c a \<and> permitted spec allowed cs (snd (spec c a)))"

lemma permitted_always: "\<forall>c \<in> set cs. \<forall>a. allowed c a \<Longrightarrow> permitted spec allowed cs a"
  by (induction cs arbitrary: a) auto

text \<open>
  Refinement of a specification, one call at a time: in states that represent a state of the
  specification, and with the supply of \<open>rel\<close>, every call the specification allows returns, with the result the
  specification says, and leaves a state that represents the specification's next state.
\<close>

locale call_refinement =
  fixes call :: "'c \<Rightarrow> 's \<Rightarrow> ('r \<times> 's) option" and spec :: "'c \<Rightarrow> 'a \<Rightarrow> 'r \<times> 'a"
    and rel :: "nat \<Rightarrow> 's \<Rightarrow> 'a \<Rightarrow> bool" and cost :: "'c \<Rightarrow> nat" and allowed :: "'c \<Rightarrow> 'a \<Rightarrow> bool"
  assumes call_step: "rel (cost c + n) s a \<Longrightarrow> allowed c a \<Longrightarrow>
    \<exists>r s' a'. call c s = Some (r, s') \<and> spec c a = (r, a') \<and> rel n s' a'"
begin

lemma calls_refine:
  "rel ((\<Sum>c\<leftarrow>cs. cost c) + n) s a \<Longrightarrow> permitted spec allowed cs a \<Longrightarrow>
   \<exists>rs s' a'. run_calls call cs s = Some (rs, s') \<and> spec_calls spec cs a = (rs, a') \<and> rel n s' a'"
proof (induction cs arbitrary: s a)
  case (Cons c cs)
  then have "rel (cost c + ((\<Sum>c\<leftarrow>cs. cost c) + n)) s a" "allowed c a" by (simp_all add: add.assoc)
  from call_step[OF this] obtain r s1 a1 where
    1: "call c s = Some (r, s1)" "spec c a = (r, a1)" "rel ((\<Sum>c\<leftarrow>cs. cost c) + n) s1 a1" by blast
  from Cons.IH[OF 1(3)] Cons.prems(2) 1(1,2) show ?case by auto
qed simp

end

end
