(* ===== verification/PDA_Strings.thy ===== *)
theory PDA_Strings
  imports PDA_Prelude
begin

text \<open>
  The formatted output and input of the C library, as far as the sources use it: the
  conversions \<open>%0wx\<close>, \<open>%d\<close>, \<open>%lu\<close> of \<open>snprintf\<close>, the conversions \<open>%whx\<close>, \<open>%whhx\<close>, \<open>%lu\<close> of
  \<open>sscanf\<close>, and \<open>atoi\<close>. On top of them stand the textual forms the program exchanges with sysfs:
  the bus/device/function name of a PCI function (\<open>UIO_PATH_FORMAT\<close>) and the directory name of
  a buffer (its index in decimal). The round trips at the end say that what the library prints it
  reads back.
\<close>

section \<open>Digits\<close>

fun nat_digits :: "nat \<Rightarrow> nat \<Rightarrow> nat list" where
  "nat_digits b n = (if b < 2 \<or> n < b then [n] else nat_digits b (n div b) @ [n mod b])"

declare nat_digits.simps [simp del]

definition digits_value :: "nat \<Rightarrow> nat list \<Rightarrow> nat" where
  "digits_value b ds = foldl (\<lambda>a d. a * b + d) 0 ds"

definition digit_char :: "nat \<Rightarrow> char" where
  "digit_char d = (if d < 10 then char_of (48 + d) else char_of (87 + d))"

text \<open>The value of a digit character in bases up to 16, upper and lower case.\<close>

definition char_digit :: "char \<Rightarrow> nat option" where
  "char_digit c =
     (let v = of_char c :: nat in
      if 48 \<le> v \<and> v \<le> 57 then Some (v - 48)
      else if 97 \<le> v \<and> v \<le> 102 then Some (v - 87)
      else if 65 \<le> v \<and> v \<le> 70 then Some (v - 55)
      else None)"

definition is_digit :: "nat \<Rightarrow> char \<Rightarrow> bool" where
  "is_digit b c = (case char_digit c of None \<Rightarrow> False | Some d \<Rightarrow> d < b)"

definition is_space :: "char \<Rightarrow> bool" where
  "is_space c = (c = CHR '' '' \<or> (9 \<le> (of_char c :: nat) \<and> (of_char c :: nat) \<le> 13))"

section \<open>Output conversions\<close>

definition print_nat :: "nat \<Rightarrow> nat \<Rightarrow> string" where
  "print_nat b n = map digit_char (nat_digits b n)"

definition pad_zero :: "nat \<Rightarrow> string \<Rightarrow> string" where
  "pad_zero w s = replicate (w - length s) (CHR ''0'') @ s"

definition fmt_hex :: "nat \<Rightarrow> nat \<Rightarrow> string" where
  "fmt_hex w n = pad_zero w (print_nat 16 n)"

definition fmt_dec :: "nat \<Rightarrow> string" where
  "fmt_dec n = print_nat 10 n"

text \<open>\<open>snprintf\<close> writes at most \<open>n - 1\<close> characters and the terminating zero.\<close>

definition c_snprintf :: "nat \<Rightarrow> string \<Rightarrow> string" where
  "c_snprintf n s = take (n - 1) s"

definition PDA_STRING_LIMIT :: nat where
  "PDA_STRING_LIMIT = 4096"

section \<open>Input conversions\<close>

definition skip_space :: "string \<Rightarrow> string" where
  "skip_space s = dropWhile is_space s"

definition take_sign :: "string \<Rightarrow> bool \<times> string" where
  "take_sign s =
     (case s of
        c # cs \<Rightarrow> if c = CHR ''-'' then (True, cs) else if c = CHR ''+'' then (False, cs) else (False, s)
      | [] \<Rightarrow> (False, s))"

definition string_value :: "nat \<Rightarrow> string \<Rightarrow> nat" where
  "string_value b s = digits_value b (map (\<lambda>c. the (char_digit c)) s)"

text \<open>
  An integer conversion of \<open>sscanf\<close> in base \<open>b\<close> with field width \<open>w\<close> (\<open>None\<close>: no limit): white
  space is skipped and does not count, a sign is accepted and counts, in base 16 the prefix
  \<open>0x\<close> is accepted and counts; then as many digits as the width allows. The result is whether a
  minus sign was read, the magnitude, and the rest of the input; \<open>None\<close> is a matching failure.
\<close>

definition strip_hex_prefix :: "nat \<Rightarrow> string \<Rightarrow> string" where
  "strip_hex_prefix b s =
     (if b = 16 \<and> 2 < length s \<and> s ! 0 = CHR ''0'' \<and> (s ! 1 = CHR ''x'' \<or> s ! 1 = CHR ''X'')
         \<and> is_digit 16 (s ! 2)
      then drop 2 s else s)"

definition scan_int :: "nat \<Rightarrow> nat option \<Rightarrow> string \<Rightarrow> (bool \<times> nat \<times> string) option" where
  "scan_int b w s =
     (let t = skip_space s;
          field = (case w of None \<Rightarrow> t | Some k \<Rightarrow> take k t);
          (neg, body) = take_sign field;
          body' = strip_hex_prefix b body;
          ds = takeWhile (is_digit b) body';
          used = (length field - length body') + length ds
      in if ds = [] then None else Some (neg, string_value b ds, drop used t))"

text \<open>\<open>%lu\<close>: saturates at \<open>ULONG_MAX\<close>, a minus sign negates modulo \<open>2 ^ 64\<close>.\<close>

definition scan_u64 :: "string \<Rightarrow> u64 option" where
  "scan_u64 s =
     (case scan_int 10 None s of
        None \<Rightarrow> None
      | Some (neg, v, _) \<Rightarrow>
          Some (if 2 ^ 64 \<le> v then -1 else if neg then - of_nat v else of_nat v))"

text \<open>\<open>atoi\<close>; a value outside \<open>int\<close> is undefined in C and reduced modulo \<open>2 ^ 32\<close> here.\<close>

definition c_atoi :: "string \<Rightarrow> u32" where
  "c_atoi s =
     (case scan_int 10 None s of
        None \<Rightarrow> 0
      | Some (neg, v, _) \<Rightarrow> if neg then - of_nat v else of_nat v)"

section \<open>The names the program exchanges with sysfs\<close>

definition UIO_DMA_SYSFS_DIR :: string where
  "UIO_DMA_SYSFS_DIR = ''/sys/bus/pci/drivers/uio_pci_dma''"

definition UIO_DEVFS_DIR :: string where
  "UIO_DEVFS_DIR = ''/dev''"

definition UIO_BAR_PATH :: string where
  "UIO_BAR_PATH = ''/sys/bus/pci/devices''"

text \<open>\<open>%04x:%02x:%02x.%1d\<close>\<close>

definition UIO_PATH_FORMAT :: "u16 \<Rightarrow> u8 \<Rightarrow> u8 \<Rightarrow> u8 \<Rightarrow> string" where
  "UIO_PATH_FORMAT domain_id bus_id device_id function_id =
     fmt_hex 4 (unat domain_id) @ '':'' @ fmt_hex 2 (unat bus_id) @ '':'' @
     fmt_hex 2 (unat device_id) @ ''.'' @ fmt_dec (unat function_id)"

text \<open>
  \<open>sscanf(d_name, "%4hx:%2hhx:%2hhx.%1hhx", ...) == 4\<close>, the check and the four values
  \<open>DeviceOperator_new\<close> reads from a directory entry.
\<close>

definition expect_char :: "char \<Rightarrow> string \<Rightarrow> string option" where
  "expect_char c s = (case s of x # xs \<Rightarrow> if x = c then Some xs else None | [] \<Rightarrow> None)"

definition scan_hex_field :: "nat \<Rightarrow> string \<Rightarrow> ('a::len word \<times> string) option" where
  "scan_hex_field w s =
     (case scan_int 16 (Some w) s of
        None \<Rightarrow> None
      | Some (neg, v, rest) \<Rightarrow> Some (if neg then - of_nat v else of_nat v, rest))"

definition parse_bdf :: "string \<Rightarrow> (u16 \<times> u8 \<times> u8 \<times> u8) option" where
  "parse_bdf s0 =
     (case scan_hex_field 4 s0 of None \<Rightarrow> None | Some (domain_id, s1) \<Rightarrow>
      case expect_char (CHR '':'') s1 of None \<Rightarrow> None | Some s2 \<Rightarrow>
      case scan_hex_field 2 s2 of None \<Rightarrow> None | Some (bus_id, s3) \<Rightarrow>
      case expect_char (CHR '':'') s3 of None \<Rightarrow> None | Some s4 \<Rightarrow>
      case scan_hex_field 2 s4 of None \<Rightarrow> None | Some (device_id, s5) \<Rightarrow>
      case expect_char (CHR ''.'') s5 of None \<Rightarrow> None | Some s6 \<Rightarrow>
      case scan_hex_field 1 s6 of None \<Rightarrow> None | Some (function_id, _) \<Rightarrow>
        Some (domain_id, bus_id, device_id, function_id))"

section \<open>Round trips\<close>

lemma digits_value_snoc [simp]: "digits_value b (ds @ [d]) = digits_value b ds * b + d"
  by (simp add: digits_value_def)

lemma digits_value_nat_digits: "digits_value b (nat_digits b n) = n"
proof (induction b n rule: nat_digits.induct)
  case (1 b n)
  then show ?case
    by (cases "b < 2 \<or> n < b") (simp_all add: nat_digits.simps[of b n] digits_value_def[of b "[n]"])
qed

lemma digits_value_zeros: "digits_value b (replicate k 0 @ ds) = digits_value b ds"
  by (induction k) (simp_all add: digits_value_def)

lemma nat_digits_less: "2 \<le> b \<Longrightarrow> d \<in> set (nat_digits b n) \<Longrightarrow> d < b"
proof (induction b n rule: nat_digits.induct)
  case (1 b n)
  then show ?case
    by (cases "n < b") (auto simp: nat_digits.simps[of b n])
qed

lemma nat_digits_nonempty [simp]: "nat_digits b n \<noteq> []"
  by (simp add: nat_digits.simps[of b n])

lemma length_nat_digits: "2 \<le> b \<Longrightarrow> n < b ^ k \<Longrightarrow> 0 < k \<Longrightarrow> length (nat_digits b n) \<le> k"
proof (induction b n arbitrary: k rule: nat_digits.induct)
  case (1 b n)
  show ?case
  proof (cases "n < b")
    case True
    with "1.prems" show ?thesis by (simp add: nat_digits.simps[of b n])
  next
    case False
    with "1.prems" obtain k' where k: "k = Suc k'" "0 < k'"
      by (cases k; cases "k - 1") auto
    with "1.prems" have "n div b < b ^ k'"
      by (simp add: less_mult_imp_div_less mult.commute)
    with False "1.prems"(1) k "1.IH"[of k'] show ?thesis
      by (simp add: nat_digits.simps[of b n])
  qed
qed

lemma char_digit_digit_char: "d < 16 \<Longrightarrow> char_digit (digit_char d) = Some d"
  by (simp add: char_digit_def digit_char_def Let_def)

lemma is_digit_digit_char: "d < b \<Longrightarrow> b \<le> 16 \<Longrightarrow> is_digit b (digit_char d)"
  by (simp add: is_digit_def char_digit_digit_char)

lemma digit_not_other:
  assumes "is_digit b c"
  shows "\<not> is_space c" "c \<noteq> CHR ''-''" "c \<noteq> CHR ''+''" "c \<noteq> CHR ''x''" "c \<noteq> CHR ''X''"
  using assms
  by (auto simp: is_digit_def is_space_def char_digit_def Let_def split: if_splits option.splits)

lemma string_value_digit_chars:
  "\<forall>d \<in> set ds. d < 16 \<Longrightarrow> string_value b (map digit_char ds) = digits_value b ds"
  unfolding string_value_def
  by (rule arg_cong[where f = "digits_value b"]) (induction ds, simp_all add: char_digit_digit_char)

text \<open>Scanning a run of digits that fills the field exactly.\<close>

lemma scan_int_field:
  assumes "ds \<noteq> []" and "\<forall>d \<in> set ds. d < b" and "b \<le> 16"
    and "w = Some (length ds) \<or> (w = None \<and> rest = [])"
  shows "scan_int b w (map digit_char ds @ rest) = Some (False, digits_value b ds, rest)"
proof -
  let ?s = "map digit_char ds"
  have dig: "\<forall>c \<in> set ?s. is_digit b c"
    using assms(2,3) by (auto simp: is_digit_digit_char)
  then obtain c cs where s: "?s = c # cs" and c: "is_digit b c" and cs: "\<forall>x \<in> set cs. is_digit b x"
    using assms(1) by (cases ds) auto
  have sp: "skip_space (?s @ rest) = ?s @ rest"
    using digit_not_other(1)[OF c] by (simp add: s skip_space_def)
  have sign: "take_sign ?s = (False, ?s)"
    using digit_not_other(2,3)[OF c] by (simp add: s take_sign_def)
  have prefix: "strip_hex_prefix b ?s = ?s"
  proof (cases cs)
    case (Cons x xs)
    with cs have "x \<noteq> CHR ''x''" "x \<noteq> CHR ''X''"
      using digit_not_other(4,5)[of b x] by auto
    with Cons s show ?thesis by (simp add: strip_hex_prefix_def)
  qed (simp add: s strip_hex_prefix_def)
  have field: "(case w of None \<Rightarrow> ?s @ rest | Some k \<Rightarrow> take k (?s @ rest)) = ?s"
    using assms(4) by auto
  have run: "takeWhile (is_digit b) ?s = ?s"
    using dig by (simp add: takeWhile_eq_all_conv)
  have val: "string_value b ?s = digits_value b ds"
    using assms(2,3) by (intro string_value_digit_chars) auto
  show ?thesis
    using assms(1)
    by (simp add: scan_int_def Let_def sp field sign prefix run val del: length_map)
qed

lemma pad_zero_digits:
  "pad_zero w (map digit_char ds) = map digit_char (replicate (w - length ds) 0 @ ds)"
proof -
  have "CHR ''0'' = digit_char 0"
    by (simp add: digit_char_def char_of_def bit_Suc_0_iff)
  then show ?thesis by (simp add: pad_zero_def)
qed

text \<open>A number below \<open>16 ^ w\<close>, printed with width \<open>w\<close>, is read back by a field of width \<open>w\<close>.\<close>

lemma scan_fmt_hex:
  assumes "n < 16 ^ w" and "0 < w"
  shows "scan_int 16 (Some w) (fmt_hex w n @ rest) = Some (False, n, rest)"
proof -
  let ?ds = "replicate (w - length (nat_digits 16 n)) 0 @ nat_digits 16 n"
  have len: "length ?ds = w"
    using length_nat_digits[of 16 n w] assms by simp
  have "\<forall>d \<in> set ?ds. d < 16"
    by (auto dest: nat_digits_less[rotated])
  then have "scan_int 16 (Some (length ?ds)) (map digit_char ?ds @ rest)
      = Some (False, digits_value 16 ?ds, rest)"
    by (intro scan_int_field) simp_all
  then show ?thesis
    using len by (simp add: fmt_hex_def print_nat_def pad_zero_digits digits_value_zeros
        digits_value_nat_digits del: map_append map_replicate)
qed

lemma scan_fmt_dec: "scan_int 10 None (fmt_dec n) = Some (False, n, [])"
  using scan_int_field[of "nat_digits 10 n" 10 None "[]"] nat_digits_less[of 10 _ n]
  by (auto simp: fmt_dec_def print_nat_def digits_value_nat_digits)

lemma fmt_dec_single: "n < 10 \<Longrightarrow> fmt_dec n = fmt_hex 1 n"
  by (simp add: fmt_dec_def fmt_hex_def print_nat_def nat_digits.simps pad_zero_def)

lemma unat_less_pow16:
  "unat (a::u16) < 16 ^ 4" "unat (b::u8) < 16 ^ 2"
  using unat_bound[of a] unat_bound[of b] by simp_all

lemma scan_hex_field_fmt_hex:
  assumes "unat (x::'a::len word) < 16 ^ w" and "0 < w"
  shows "scan_hex_field w (fmt_hex w (unat x) @ rest) = Some (x, rest)"
  using scan_fmt_hex[OF assms] by (simp add: scan_hex_field_def)

text \<open>
  The name \<open>PciDevice_new\<close> and the path builders print for a PCI function is read back by the
  parser of \<open>DeviceOperator_new\<close> to the same domain, bus, device and function, for every
  16-bit domain, every 8-bit bus and device and every function number of a PCI device (below 8).
\<close>

lemma parse_bdf_roundtrip:
  assumes "function_id < 8"
  shows "parse_bdf (UIO_PATH_FORMAT domain_id bus_id device_id function_id)
    = Some (domain_id, bus_id, device_id, function_id)"
proof -
  have f: "unat function_id < 8"
    using assms by (simp add: word_less_nat_alt)
  have fmt: "fmt_dec (unat function_id) = fmt_hex 1 (unat function_id) @ []"
    using f by (simp add: fmt_dec_single)
  show ?thesis
    using f unfolding parse_bdf_def UIO_PATH_FORMAT_def fmt
    by (simp add: scan_hex_field_fmt_hex unat_less_pow16[simplified] expect_char_def
        del: append_Nil2)
qed

text \<open>
  The directory name the library gives a buffer, its index in decimal, is read back by the
  \<open>sscanf\<close> of \<open>DMABuffer_findNewIndex\<close>, \<open>DMABuffer_check_persistant\<close> and
  \<open>PciDevice_getListOfBuffers\<close> to the same 64-bit index.
\<close>

lemma buffer_name_roundtrip: "scan_u64 (fmt_dec (unat index)) = Some index"
  using unat_bound[of index] by (simp add: scan_u64_def scan_fmt_dec)

end
