(* ===== verification/PDA_Env.thy ===== *)
theory PDA_Env
  imports PDA_Strings "HOL-Library.Monad_Syntax"
begin

text \<open>
  The platform under the library. The kernel, the C library's allocator and the system calls are
  not part of the sources: they are the fields of a record \<open>'w env\<close> that every operation takes
  as its first argument, each a function on an opaque world \<open>'w\<close>. The record also holds the build
  switches (\<open>config.h\<close>, \<open>-DDEBUG\<close>). A failing call is \<open>Inl e\<close> with the error number it leaves
  in \<open>errno\<close>, a successful one \<open>Inr\<close> of its result; the \<open>c_\<close> wrappers turn that into C's
  conventions (a result of \<open>-1\<close> or \<open>MAP_FAILED\<close>, and \<open>errno\<close> in the state).

  \<open>'w cstate\<close> is the part of the process state all operations share: \<open>errno\<close>, the statics of
  \<open>debug.c\<close>, what was written to the debug channel, and the world. Components extend it.
\<close>

section \<open>The environment\<close>

datatype open_mode = O_RDONLY | O_WRONLY | O_RDWR

datatype lock_mode = LOCK_SH | LOCK_EX

text \<open>A directory entry: its name and whether \<open>d_type\<close> is \<open>DT_DIR\<close>.\<close>

record dirent =
  d_name :: string
  d_is_dir :: bool

text \<open>An entry of the scatter/gather table the driver exports (\<open>struct scatter\<close>).\<close>

record scatter =
  sc_page_link :: u64
  sc_offset :: u32
  sc_length :: u32
  sc_dma_address :: u64

text \<open>What the code reads of a \<open>struct pci_dev\<close> of libpci.\<close>

record pci_dev =
  pd_domain :: u16
  pd_bus :: u8
  pd_dev :: u8
  pd_func :: u8
  pd_base_addr :: "nat \<Rightarrow> u64"
  pd_size :: "nat \<Rightarrow> u64"
  pd_config :: "nat \<Rightarrow> u8"
  pd_name :: string

text \<open>
  What libkmod reports of a module: its info list as pairs of key and value, or \<open>None\<close> when
  \<open>kmod_module_get_info\<close> fails.
\<close>

type_synonym kmod_module = "(string \<times> string) list option"

text \<open>
  The calls, in the order they are declared:
  \<^item> \<open>cfg_DEBUG\<close>, \<open>cfg_NUMA_AVAIL\<close>, \<open>cfg_PDA_SKIP_UNLOCK_FAILURE\<close>: the build switches.
  \<^item> \<open>sys_alloc n\<close>: whether \<open>malloc\<close>/\<open>calloc\<close> obtain a block of \<open>n\<close> bytes.
  \<^item> \<open>sys_opendir\<close> returns the entries the following \<open>readdir\<close> calls will deliver.
  \<^item> \<open>sys_mmap addr len fd\<close>, \<open>sys_munmap addr len\<close>, \<open>sys_mremap old len new\<close>, \<open>sys_mlock\<close>,
    \<open>sys_munlock\<close>, \<open>sys_memalign align len\<close>: memory management; the protection and sharing
    flags are constant in the code and left out.
  \<^item> \<open>sys_scatter a i\<close>: entry \<open>i\<close> of the table mapped at \<open>a\<close>.
  \<^item> \<open>sys_pci_scan\<close>: the devices libpci enumerates, with the fields it fills in.
  \<^item> \<open>sys_interrupt f sequence data\<close>: the effect of the interrupt routine at address \<open>f\<close>, a function
    of the user of the library.
  \<^item> \<open>sys_kmod_modules dir nm\<close>: the modules of that name libkmod finds below \<open>dir\<close> after its builtin
    filter; \<open>None\<close> when one of the calls up to there fails or gives an empty list.
  \<^item> \<open>sys_fread fp n\<close>: the at most \<open>n\<close> characters \<open>fread\<close> delivers.
\<close>

record 'w env =
  cfg_DEBUG :: bool
  cfg_NUMA_AVAIL :: bool
  cfg_PDA_SKIP_UNLOCK_FAILURE :: bool
  PAGE_SIZE :: u64
  sys_alloc :: "nat \<Rightarrow> 'w \<Rightarrow> bool \<times> 'w"
  sys_getenv :: "string \<Rightarrow> 'w \<Rightarrow> string option"
  sys_usleep :: "u32 \<Rightarrow> 'w \<Rightarrow> 'w"
  sys_open :: "string \<Rightarrow> open_mode \<Rightarrow> 'w \<Rightarrow> (int + nat) \<times> 'w"
  sys_close :: "int \<Rightarrow> 'w \<Rightarrow> (int + unit) \<times> 'w"
  sys_read :: "int \<Rightarrow> nat \<Rightarrow> 'w \<Rightarrow> (int + u8 list) \<times> 'w"
  sys_pread :: "int \<Rightarrow> nat \<Rightarrow> nat \<Rightarrow> 'w \<Rightarrow> (int + u8 list) \<times> 'w"
  sys_write :: "int \<Rightarrow> u8 list \<Rightarrow> 'w \<Rightarrow> (int + nat) \<times> 'w"
  sys_pwrite :: "int \<Rightarrow> u8 list \<Rightarrow> nat \<Rightarrow> 'w \<Rightarrow> (int + nat) \<times> 'w"
  sys_access :: "string \<Rightarrow> 'w \<Rightarrow> (int + unit) \<times> 'w"
  sys_stat_size :: "string \<Rightarrow> 'w \<Rightarrow> (int + u64) \<times> 'w"
  sys_opendir :: "string \<Rightarrow> 'w \<Rightarrow> (int + dirent list) \<times> 'w"
  sys_closedir :: "'w \<Rightarrow> 'w"
  sys_flock :: "int \<Rightarrow> lock_mode \<Rightarrow> 'w \<Rightarrow> (int + unit) \<times> 'w"
  sys_mmap :: "u64 \<Rightarrow> u64 \<Rightarrow> int \<Rightarrow> 'w \<Rightarrow> (int + u64) \<times> 'w"
  sys_munmap :: "u64 \<Rightarrow> u64 \<Rightarrow> 'w \<Rightarrow> (int + unit) \<times> 'w"
  sys_mremap :: "u64 \<Rightarrow> u64 \<Rightarrow> u64 \<Rightarrow> 'w \<Rightarrow> (int + u64) \<times> 'w"
  sys_mlock :: "u64 \<Rightarrow> u64 \<Rightarrow> 'w \<Rightarrow> (int + unit) \<times> 'w"
  sys_munlock :: "u64 \<Rightarrow> u64 \<Rightarrow> 'w \<Rightarrow> (int + unit) \<times> 'w"
  sys_memalign :: "u64 \<Rightarrow> u64 \<Rightarrow> 'w \<Rightarrow> (int + u64) \<times> 'w"
  sys_avphys_pages :: "'w \<Rightarrow> u64"
  sys_scatter :: "u64 \<Rightarrow> nat \<Rightarrow> 'w \<Rightarrow> scatter"
  sys_pci_scan :: "'w \<Rightarrow> pci_dev list \<times> 'w"
  sys_numa_available :: "'w \<Rightarrow> bool"
  sys_numa_run_on_node :: "int \<Rightarrow> 'w \<Rightarrow> bool \<times> 'w"
  sys_pthread_create :: "addr \<Rightarrow> 'w \<Rightarrow> (int + u64) \<times> 'w"
  sys_pthread_cancel :: "u64 \<Rightarrow> 'w \<Rightarrow> 'w"
  sys_interrupt :: "addr \<Rightarrow> u32 \<Rightarrow> u64 \<Rightarrow> 'w \<Rightarrow> 'w"
  cfg_KMOD_AVAIL :: bool
  cfg_MODPROBE_MODE :: bool
  sys_uname :: "'w \<Rightarrow> string option"
  sys_kmod_modules :: "string \<Rightarrow> string \<Rightarrow> 'w \<Rightarrow> kmod_module list option"
  sys_system :: "string \<Rightarrow> 'w \<Rightarrow> int \<times> 'w"
  sys_lstat_islnk :: "string \<Rightarrow> 'w \<Rightarrow> (int + bool) \<times> 'w"
  sys_fopen :: "string \<Rightarrow> open_mode \<Rightarrow> 'w \<Rightarrow> (int + nat) \<times> 'w"
  sys_fprintf :: "nat \<Rightarrow> string \<Rightarrow> 'w \<Rightarrow> 'w"
  sys_fread :: "nat \<Rightarrow> nat \<Rightarrow> 'w \<Rightarrow> string \<times> 'w"
  sys_fclose :: "nat \<Rightarrow> 'w \<Rightarrow> 'w"

section \<open>The shared process state\<close>

datatype dbg_msg =
    Error_msg string u64 int "string option"
  | Enter_msg string u64 string
  | Exit_msg string u64 string
  | Text_msg string u64 string
  | Warning_msg string u64 string

record 'w cstate =
  errno :: int
  debug_mask :: u32
  activated :: u32
  channel :: "dbg_msg list"
  world :: 'w

section \<open>A cooperative environment\<close>

text \<open>
  An environment in which every call succeeds, and a fresh process state: the inputs at which the
  witnesses of the component theories evaluate. It is polymorphic in the world.
\<close>

definition calm_env :: "'w env" where
  "calm_env =
     \<lparr>cfg_DEBUG = False, cfg_NUMA_AVAIL = False, cfg_PDA_SKIP_UNLOCK_FAILURE = False, PAGE_SIZE = 4096,
      sys_alloc = (\<lambda>_ w. (True, w)),
      sys_getenv = (\<lambda>_ _. None),
      sys_usleep = (\<lambda>_ w. w),
      sys_open = (\<lambda>_ _ w. (Inr 3, w)),
      sys_close = (\<lambda>_ w. (Inr (), w)),
      sys_read = (\<lambda>_ n w. (Inr (replicate n 0), w)),
      sys_pread = (\<lambda>_ n _ w. (Inr (replicate n 0), w)),
      sys_write = (\<lambda>_ bs w. (Inr (length bs), w)),
      sys_pwrite = (\<lambda>_ bs _ w. (Inr (length bs), w)),
      sys_access = (\<lambda>_ w. (Inr (), w)),
      sys_stat_size = (\<lambda>_ w. (Inr 4096, w)),
      sys_opendir = (\<lambda>_ w. (Inr [], w)),
      sys_closedir = (\<lambda>w. w),
      sys_flock = (\<lambda>_ _ w. (Inr (), w)),
      sys_mmap = (\<lambda>_ _ _ w. (Inr 0x7f0000000000, w)),
      sys_munmap = (\<lambda>_ _ w. (Inr (), w)),
      sys_mremap = (\<lambda>_ _ new w. (Inr (if new = MAP_FAILED then 0 else new), w)),
      sys_mlock = (\<lambda>_ _ w. (Inr (), w)),
      sys_munlock = (\<lambda>_ _ w. (Inr (), w)),
      sys_memalign = (\<lambda>_ _ w. (Inr 0x7e0000000000, w)),
      sys_avphys_pages = (\<lambda>_. 0x100000),
      sys_scatter = (\<lambda>_ i _. \<lparr>sc_page_link = 0, sc_offset = 0, sc_length = 4096, sc_dma_address = 4096 * of_nat i\<rparr>),
      sys_pci_scan = (\<lambda>w. ([], w)),
      sys_numa_available = (\<lambda>_. False),
      sys_numa_run_on_node = (\<lambda>_ w. (True, w)),
      sys_pthread_create = (\<lambda>_ w. (Inr 1, w)),
      sys_pthread_cancel = (\<lambda>_ w. w),
      sys_interrupt = (\<lambda>_ _ _ w. w),
      cfg_KMOD_AVAIL = False, cfg_MODPROBE_MODE = False,
      sys_uname = (\<lambda>_. Some ''6.1.0''),
      sys_kmod_modules = (\<lambda>_ _ _. None),
      sys_system = (\<lambda>_ w. (0, w)),
      sys_lstat_islnk = (\<lambda>_ w. (Inr True, w)),
      sys_fopen = (\<lambda>_ _ w. (Inr 5, w)),
      sys_fprintf = (\<lambda>_ _ w. w),
      sys_fread = (\<lambda>_ _ w. (''0x10dc'', w)),
      sys_fclose = (\<lambda>_ w. w)\<rparr>"

definition calm_cstate :: "unit cstate" where
  "calm_cstate = \<lparr>errno = 0, debug_mask = 0, activated = 0, channel = [], world = ()\<rparr>"

section \<open>C calling conventions\<close>

text \<open>\<open>calloc\<close>/\<open>malloc\<close>: whether a block of that many bytes was obtained; \<open>errno\<close> is \<open>ENOMEM\<close> if not.\<close>

definition c_alloc :: "'w env \<Rightarrow> nat \<Rightarrow> ('w, 'z) cstate_scheme \<Rightarrow> bool \<times> ('w, 'z) cstate_scheme" where
  "c_alloc E n s =
     (case sys_alloc E n (world s) of
        (True, w) \<Rightarrow> (True, s\<lparr>world := w\<rparr>)
      | (False, w) \<Rightarrow> (False, s\<lparr>world := w, errno := ENOMEM\<rparr>))"

definition c_usleep :: "'w env \<Rightarrow> u32 \<Rightarrow> ('w, 'z) cstate_scheme \<Rightarrow> ('w, 'z) cstate_scheme" where
  "c_usleep E t s = s\<lparr>world := sys_usleep E t (world s)\<rparr>"

definition c_open ::
  "'w env \<Rightarrow> string \<Rightarrow> open_mode \<Rightarrow> ('w, 'z) cstate_scheme \<Rightarrow> int \<times> ('w, 'z) cstate_scheme" where
  "c_open E path mode s =
     (case sys_open E path mode (world s) of
        (Inl e, w) \<Rightarrow> (-1, s\<lparr>world := w, errno := e\<rparr>)
      | (Inr fd, w) \<Rightarrow> (int fd, s\<lparr>world := w\<rparr>))"

definition c_close ::
  "'w env \<Rightarrow> int \<Rightarrow> ('w, 'z) cstate_scheme \<Rightarrow> int \<times> ('w, 'z) cstate_scheme" where
  "c_close E fd s =
     (case sys_close E fd (world s) of
        (Inl e, w) \<Rightarrow> (-1, s\<lparr>world := w, errno := e\<rparr>)
      | (Inr _, w) \<Rightarrow> (0, s\<lparr>world := w\<rparr>))"

text \<open>Any other call: \<open>None\<close> and \<open>errno\<close> for a failure.\<close>

definition c_sys ::
  "('w \<Rightarrow> (int + 'a) \<times> 'w) \<Rightarrow> ('w, 'z) cstate_scheme \<Rightarrow> 'a option \<times> ('w, 'z) cstate_scheme" where
  "c_sys f s =
     (case f (world s) of
        (Inl e, w) \<Rightarrow> (None, s\<lparr>world := w, errno := e\<rparr>)
      | (Inr r, w) \<Rightarrow> (Some r, s\<lparr>world := w\<rparr>))"

text \<open>A call whose result the code ignores.\<close>

definition c_void ::
  "('w \<Rightarrow> (int + 'a) \<times> 'w) \<Rightarrow> ('w, 'z) cstate_scheme \<Rightarrow> ('w, 'z) cstate_scheme" where
  "c_void f s = snd (c_sys f s)"

text \<open>\<open>mmap\<close> and \<open>mremap\<close>: the address or \<open>MAP_FAILED\<close>.\<close>

definition c_mmap ::
  "('w \<Rightarrow> (int + u64) \<times> 'w) \<Rightarrow> ('w, 'z) cstate_scheme \<Rightarrow> u64 \<times> ('w, 'z) cstate_scheme" where
  "c_mmap f s = (case c_sys f s of (None, s') \<Rightarrow> (MAP_FAILED, s') | (Some a, s') \<Rightarrow> (a, s'))"

lemma c_alloc_ok:
  "fst (sys_alloc E n (world s)) \<Longrightarrow>
   c_alloc E n s = (True, s\<lparr>world := snd (sys_alloc E n (world s))\<rparr>)"
  by (auto simp: c_alloc_def split: prod.splits bool.splits)

lemma c_open_fd: "c_open E path mode s = (fd, s') \<Longrightarrow> fd = -1 \<or> 0 \<le> fd"
  by (auto simp: c_open_def split: sum.splits prod.splits)

text \<open>
  What POSIX documents: a failing call leaves a positive error number in \<open>errno\<close>, and a successful
  \<open>mmap\<close> or \<open>mremap\<close> does not return \<open>MAP_FAILED\<close>.
\<close>

definition errno_law :: "('w \<Rightarrow> (int + 'a) \<times> 'w) \<Rightarrow> bool" where
  "errno_law f \<longleftrightarrow> (\<forall>w e w'. f w = (Inl e, w') \<longrightarrow> 0 < e)"

definition posix_env :: "'w env \<Rightarrow> bool" where
  "posix_env E \<longleftrightarrow>
     (\<forall>path mode. errno_law (sys_open E path mode)) \<and>
     (\<forall>fd. errno_law (sys_close E fd)) \<and>
     (\<forall>path. errno_law (sys_access E path)) \<and>
     (\<forall>path. errno_law (sys_stat_size E path)) \<and>
     (\<forall>path. errno_law (sys_opendir E path)) \<and>
     (\<forall>fd mode. errno_law (sys_flock E fd mode)) \<and>
     (\<forall>fd n. errno_law (sys_read E fd n)) \<and>
     (\<forall>fd bs. errno_law (sys_write E fd bs)) \<and>
     (\<forall>a n fd. errno_law (sys_mmap E a n fd)) \<and>
     (\<forall>a n. errno_law (sys_munmap E a n)) \<and>
     (\<forall>a n b. errno_law (sys_mremap E a n b)) \<and>
     (\<forall>a n. errno_law (sys_mlock E a n)) \<and>
     (\<forall>a n. errno_law (sys_munlock E a n)) \<and>
     (\<forall>a n fd w r w'. sys_mmap E a n fd w = (Inr r, w') \<longrightarrow> r \<noteq> MAP_FAILED) \<and>
     (\<forall>a n b w r w'. sys_mremap E a n b w = (Inr r, w') \<longrightarrow> r \<noteq> MAP_FAILED)"

lemma calm_env_posix: "posix_env calm_env"
  by (simp add: posix_env_def errno_law_def calm_env_def)

lemma c_sys_errno: "errno_law f \<Longrightarrow> c_sys f s = (None, s') \<Longrightarrow> 0 < errno s'"
  unfolding c_sys_def errno_law_def by (cases "f (world s)") (fastforce split: sum.splits)

lemma posix_mmap:
  assumes "posix_env E"
  shows "errno_law (sys_mmap E a n fd)" and "sys_mmap E a n fd w = (Inr r, w') \<Longrightarrow> r \<noteq> MAP_FAILED"
  using assms unfolding posix_env_def by (simp, metis)

lemma posix_laws:
  assumes "posix_env E"
  shows "errno_law (sys_open E path mode)" "errno_law (sys_close E fd)" "errno_law (sys_stat_size E path)"
    "errno_law (sys_munmap E a n)" "errno_law (sys_munlock E a n)" "errno_law (sys_flock E fd lk)"
    "errno_law (sys_read E fd k)" "errno_law (sys_access E path)" "errno_law (sys_opendir E path)"
  using assms unfolding posix_env_def by simp_all

lemma errno_lawD: "errno_law f \<Longrightarrow> f w = (Inl e, w') \<Longrightarrow> 0 < e"
  unfolding errno_law_def by blast

lemma c_mmap_errno:
  "posix_env E \<Longrightarrow> fst (c_mmap (sys_mmap E a n fd) s) = MAP_FAILED \<Longrightarrow>
   0 < errno (snd (c_mmap (sys_mmap E a n fd) s))"
  by (cases "sys_mmap E a n fd (world s)")
    (auto simp: c_mmap_def c_sys_def split: sum.splits dest: posix_mmap(2) errno_lawD[OF posix_mmap(1)])

lemma c_mmap_mapped:
  "fst (c_mmap f s) \<noteq> MAP_FAILED \<Longrightarrow> \<exists>w w'. f w = (Inr (fst (c_mmap f s)), w')"
  by (cases "f (world s)") (auto simp: c_mmap_def c_sys_def split: sum.splits)

lemma c_open_errno: "posix_env E \<Longrightarrow> c_open E path mode s = (-1, s') \<Longrightarrow> 0 < errno s'"
  by (cases "sys_open E path mode (world s)")
    (auto simp: c_open_def split: sum.splits dest: errno_lawD[OF posix_laws(1)])

lemma c_close_errno: "posix_env E \<Longrightarrow> c_close E fd s = (-1, s') \<Longrightarrow> 0 < errno s'"
  by (cases "sys_close E fd (world s)")
    (auto simp: c_close_def split: sum.splits dest: errno_lawD[OF posix_laws(2)])

text \<open>
  An environment that grants every call: memory is there, no call reports an error, and a write takes
  at least a part of its data. The calls succeed in it, which shows that the theorems about their
  success are not empty.
\<close>

definition granted :: "('w \<Rightarrow> (int + 'a) \<times> 'w) \<Rightarrow> bool" where
  "granted f \<longleftrightarrow> (\<forall>w e w'. f w \<noteq> (Inl e, w'))"

definition granting :: "'w env \<Rightarrow> bool" where
  "granting E \<longleftrightarrow>
     (\<forall>n w. fst (sys_alloc E n w)) \<and>
     (\<forall>path mode. granted (sys_open E path mode)) \<and>
     (\<forall>fd. granted (sys_close E fd)) \<and>
     (\<forall>path. granted (sys_access E path)) \<and>
     (\<forall>path. granted (sys_stat_size E path)) \<and>
     (\<forall>path. granted (sys_opendir E path)) \<and>
     (\<forall>fd mode. granted (sys_flock E fd mode)) \<and>
     (\<forall>fd bs. granted (sys_write E fd bs)) \<and>
     (\<forall>fd bs w w'. bs \<noteq> [] \<longrightarrow> sys_write E fd bs w \<noteq> (Inr 0, w')) \<and>
     (\<forall>a n fd. granted (sys_mmap E a n fd)) \<and>
     (\<forall>a n. granted (sys_munmap E a n)) \<and>
     (\<forall>a n. granted (sys_mlock E a n)) \<and>
     (\<forall>a n. granted (sys_munlock E a n))"

lemma calm_granting: "granting calm_env"
  by (simp add: granting_def granted_def calm_env_def)

lemma granting_laws:
  assumes "granting E"
  shows "granted (sys_open E path mode)" "granted (sys_close E fd)" "granted (sys_access E path)"
    "granted (sys_stat_size E path)" "granted (sys_opendir E path)" "granted (sys_flock E fd lk)"
    "granted (sys_write E fd bs)" "granted (sys_mmap E a n fd)" "granted (sys_munmap E a n)"
    "granted (sys_mlock E a n)" "granted (sys_munlock E a n)" "fst (sys_alloc E k w)"
    "bs \<noteq> [] \<Longrightarrow> sys_write E fd bs w \<noteq> (Inr 0, w')"
  using assms unfolding granting_def by simp_all

lemma c_sys_granted: "granted f \<Longrightarrow> c_sys f s = (r, s') \<Longrightarrow> r \<noteq> None"
  unfolding granted_def by (cases "f (world s)") (auto simp: c_sys_def split: sum.splits)

lemma c_open_granted: "granting E \<Longrightarrow> c_open E path mode s = (fd, s') \<Longrightarrow> fd \<noteq> -1"
  using granting_laws(1)[of E path mode] unfolding granted_def
  by (cases "sys_open E path mode (world s)") (auto simp: c_open_def split: sum.splits)

lemma c_close_granted: "granting E \<Longrightarrow> c_close E fd s = (r, s') \<Longrightarrow> r \<noteq> -1"
  using granting_laws(2)[of E fd] unfolding granted_def
  by (cases "sys_close E fd (world s)") (auto simp: c_close_def split: sum.splits)

lemma c_write_granted: "granting E \<Longrightarrow> bs \<noteq> [] \<Longrightarrow> c_sys (sys_write E fd bs) s = (r, s') \<Longrightarrow> r \<noteq> None \<and> r \<noteq> Some 0"
  using granting_laws(7)[of E fd bs] granting_laws(13)[of E bs fd] unfolding granted_def
  by (cases "sys_write E fd bs (world s)") (auto simp: c_sys_def split: sum.splits)

lemma c_mmap_granted: "granting E \<Longrightarrow> posix_env E \<Longrightarrow> c_mmap (sys_mmap E a n fd) s = (m, s') \<Longrightarrow> m \<noteq> MAP_FAILED"
  using granting_laws(8)[of E a n fd] posix_mmap(2)[of E a n fd] unfolding granted_def
  by (cases "sys_mmap E a n fd (world s)") (auto simp: c_mmap_def c_sys_def split: sum.splits)

end
