(* ===== verification/PDA_Debug.thy ===== *)
theory PDA_Debug
  imports PDA_Env
begin

text \<open>
  \<open>src/debug.c\<close>: the table of error descriptions, the lazily initialised debug mask, the error
  handler behind the macros \<open>ERROR\<close> and \<open>ERROR_EXIT\<close>, the trace output, and \<open>pda_spinOpen\<close>, the
  retrying \<open>open\<close> with exponential back-off all file accesses of the library go through.
  Messages are recorded with their position and format string; the expansion of the variadic
  arguments is not modelled.
\<close>

section \<open>Error descriptions\<close>

definition codes :: "(int \<times> string option) list" where
  "codes =
    [(EPERM, Some ''Operation not permitted!''),
     (ENOENT, Some ''No such file or directory!''),
     (3, Some ''No such process!''),
     (4, Some ''Interrupted system call!''),
     (5, Some ''I/O error!''),
     (ENXIO, Some ''No such device or address!''),
     (7, Some ''Argument list too long!''),
     (8, Some ''Exec format error!''),
     (9, Some ''Bad file number!''),
     (ECHILD, Some ''No child processes!''),
     (11, Some ''Try again!''),
     (ENOMEM, Some ''Out of memory!''),
     (EACCES, Some ''Permission denied!''),
     (EFAULT, Some ''Bad address!''),
     (15, Some ''Block device required!''),
     (16, Some ''Device or resource busy!''),
     (17, Some ''File exists!''),
     (18, Some ''Cross-device link!''),
     (ENODEV, Some ''No such device!''),
     (20, Some ''Not a directory!''),
     (21, Some ''Is a directory!''),
     (EINVAL, Some ''Invalid argument!''),
     (23, Some ''File table overflow!''),
     (24, Some ''Too many open files!''),
     (25, Some ''Not a typewriter!''),
     (26, Some ''Text file busy!''),
     (27, Some ''File too large!''),
     (28, Some ''No space left on device!''),
     (29, Some ''Illegal seek!''),
     (30, Some ''Read-only file system!''),
     (31, Some ''Too many links!''),
     (32, Some ''Broken pipe!''),
     (33, Some ''Math argument out of domain of func!''),
     (34, Some ''Math result not representable!''),
     (0, None)]"

text \<open>
  The search loop: \<open>code\<close> is the entry looked at last, the loop runs while its description is not
  \<open>NULL\<close>. The outer \<open>None\<close> is a read past the end of the table.
\<close>

function PdaDebugTranslate_loop ::
  "(int \<times> string option) list \<Rightarrow> int \<Rightarrow> nat \<Rightarrow> int \<times> string option \<Rightarrow> string option option" where
  "PdaDebugTranslate_loop tab errorcode i code =
     (if snd code = None then Some None
      else if length tab \<le> i then None
      else let code' = tab ! i in
        if fst code' = errorcode then Some (snd code')
        else PdaDebugTranslate_loop tab errorcode (Suc i) code')"
  by pat_completeness auto
termination
  by (relation "measure (\<lambda>(tab, e, i, c). length tab - i)") auto

declare PdaDebugTranslate_loop.simps [simp del]

definition PdaDebugTranslate :: "int \<Rightarrow> string option option" where
  "PdaDebugTranslate errorcode = PdaDebugTranslate_loop codes errorcode 0 (codes ! 0)"

section \<open>The debug mask\<close>

abbreviation (input) PDADEBUG_ENTER :: u32 where "PDADEBUG_ENTER \<equiv> 1"
abbreviation (input) PDADEBUG_EXIT :: u32 where "PDADEBUG_EXIT \<equiv> 2"
abbreviation (input) PDADEBUG_ERROR :: u32 where "PDADEBUG_ERROR \<equiv> 4"

definition PdaDebugInit :: "'w env \<Rightarrow> ('w, 'z) cstate_scheme \<Rightarrow> ('w, 'z) cstate_scheme" where
  "PdaDebugInit E s =
     (if activated s = 0 then
        (case sys_getenv E ''PDA_DEBUG'' (world s) of
           Some v \<Rightarrow> s\<lparr>activated := 1, debug_mask := c_atoi v\<rparr>
         | None \<Rightarrow> s\<lparr>activated := 1\<rparr>)
      else s)"

definition emit :: "dbg_msg \<Rightarrow> ('w, 'z) cstate_scheme \<Rightarrow> ('w, 'z) cstate_scheme" where
  "emit m s = s\<lparr>channel := channel s @ [m]\<rparr>"

section \<open>Handlers\<close>

definition PdaErrorHandler ::
  "'w env \<Rightarrow> int \<Rightarrow> string \<Rightarrow> u64 \<Rightarrow> string option \<Rightarrow> ('w, 'z) cstate_scheme
   \<Rightarrow> int \<times> ('w, 'z) cstate_scheme" where
  "PdaErrorHandler E errorcode file line fmt s =
     (if cfg_DEBUG E then
        let s = PdaDebugInit E s in
        if debug_mask s AND PDADEBUG_ERROR \<noteq> PDADEBUG_ERROR then (errorcode, s)
        else (errorcode, (emit (Error_msg file line errorcode fmt) s)\<lparr>errno := errorcode\<rparr>)
      else (errorcode, s\<lparr>errno := errorcode\<rparr>))"

definition PdaDebugPrintf ::
  "'w env \<Rightarrow> u32 \<Rightarrow> string \<Rightarrow> u64 \<Rightarrow> string \<Rightarrow> string option \<Rightarrow> ('w, 'z) cstate_scheme
   \<Rightarrow> ('w, 'z) cstate_scheme" where
  "PdaDebugPrintf E msk file line func fmt s =
     (if cfg_DEBUG E then
        let s = PdaDebugInit E s in
        if debug_mask s AND msk \<noteq> msk then s
        else if msk = PDADEBUG_ENTER then emit (Enter_msg file line func) s
        else if msk = PDADEBUG_EXIT then emit (Exit_msg file line func) s
        else (case fmt of Some f \<Rightarrow> emit (Text_msg file line f) s | None \<Rightarrow> s)
      else s)"

definition PdaWarningHandler ::
  "'w env \<Rightarrow> string \<Rightarrow> u64 \<Rightarrow> string option \<Rightarrow> ('w, 'z) cstate_scheme \<Rightarrow> ('w, 'z) cstate_scheme" where
  "PdaWarningHandler E file line fmt s =
     (if cfg_DEBUG E then (case fmt of Some f \<Rightarrow> emit (Warning_msg file line f) s | None \<Rightarrow> s) else s)"

text \<open>
  The macros \<open>ERROR\<close> and \<open>ERROR_EXIT\<close> as the other components use them: the source position and the
  format string only reach the debug channel, so the two are fixed here to empty texts.
\<close>

definition ERROR :: "'w env \<Rightarrow> int \<Rightarrow> ('w, 'z) cstate_scheme \<Rightarrow> int \<times> ('w, 'z) cstate_scheme" where
  "ERROR E code s = PdaErrorHandler E code [] 0 (Some []) s"

text \<open>
  The macros with the source position as the compiler fills it in: \<open>ERROR_EXIT\<close> before its jump, and the three that trace. In a
  release build these are empty, and \<open>RETURN\<close> is a plain return.
\<close>

definition ERROR_EXIT ::
  "'w env \<Rightarrow> string \<Rightarrow> u64 \<Rightarrow> int \<Rightarrow> string option \<Rightarrow> ('w, 'z) cstate_scheme \<Rightarrow> ('w, 'z) cstate_scheme" where
  "ERROR_EXIT E file line errorcode fmt s = snd (PdaErrorHandler E errorcode file line fmt s)"

definition DEBUG_PRINTF ::
  "'w env \<Rightarrow> string \<Rightarrow> u64 \<Rightarrow> string \<Rightarrow> u32 \<Rightarrow> string option \<Rightarrow> ('w, 'z) cstate_scheme \<Rightarrow> ('w, 'z) cstate_scheme" where
  "DEBUG_PRINTF E file line func msk fmt s = (if cfg_DEBUG E then PdaDebugPrintf E msk file line func fmt s else s)"

definition RETURN ::
  "'w env \<Rightarrow> string \<Rightarrow> u64 \<Rightarrow> string \<Rightarrow> 'r \<Rightarrow> ('w, 'z) cstate_scheme \<Rightarrow> 'r \<times> ('w, 'z) cstate_scheme" where
  "RETURN E file line func errorcode s =
     (errorcode, if cfg_DEBUG E then PdaDebugPrintf E PDADEBUG_EXIT file line func (Some []) s else s)"

definition WARN :: "'w env \<Rightarrow> string \<Rightarrow> u64 \<Rightarrow> string option \<Rightarrow> ('w, 'z) cstate_scheme \<Rightarrow> ('w, 'z) cstate_scheme" where
  "WARN E file line fmt s = (if cfg_DEBUG E then PdaWarningHandler E file line fmt s else s)"

section \<open>Opening with retries\<close>

text \<open>\<open>usleep(1 << i)\<close> between the attempts; \<open>i\<close> and \<open>spins\<close> are 64 bits wide.\<close>

function pda_spinOpen_loop ::
  "'w env \<Rightarrow> string \<Rightarrow> open_mode \<Rightarrow> u64 \<Rightarrow> u64 \<Rightarrow> int \<Rightarrow> ('w, 'z) cstate_scheme
   \<Rightarrow> int \<times> ('w, 'z) cstate_scheme" where
  "pda_spinOpen_loop E path flags spins i fd s =
     (if i < spins then
        (case c_open E path flags s of
           (fd', s') \<Rightarrow>
             if fd' \<noteq> -1 then (fd', s')
             else pda_spinOpen_loop E path flags spins (i + 1) fd' (c_usleep E (push_bit (unat i) 1) s'))
      else (fd, s))"
  by pat_completeness auto
termination
proof (relation "measure (\<lambda>(E, path, flags, spins, i, fd, s). unat spins - unat i)")
  fix E :: "'a env" and path flags and spins i :: u64 and fd x y and s s' :: "('a, 'b) cstate_scheme"
  assume "i < spins"
  then have "unat i < unat spins" "unat (i + 1) = Suc (unat i)"
    using unat_bound[of spins] by (auto simp: word_less_nat_alt unat_word_ariths)
  then show "((E, path, flags, spins, i + 1, x, c_usleep E (push_bit (unat i) 1) y), E, path, flags, spins, i, fd, s)
      \<in> measure (\<lambda>(E, path, flags, spins, i, fd, s). unat spins - unat i)"
    by simp
qed auto

declare pda_spinOpen_loop.simps [simp del]

definition PDA_OPEN_DEFAULT_SPIN :: u64 where
  "PDA_OPEN_DEFAULT_SPIN = 21"

definition pda_spinOpen ::
  "'w env \<Rightarrow> string \<Rightarrow> open_mode \<Rightarrow> u64 \<Rightarrow> ('w, 'z) cstate_scheme \<Rightarrow> int \<times> ('w, 'z) cstate_scheme" where
  "pda_spinOpen E path flags spins s = pda_spinOpen_loop E path flags spins 0 (-1) s"

section \<open>Properties\<close>

lemma PdaDebugTranslate_loop_map_of:
  assumes "snd code \<noteq> None"
    and "drop i tab = xs @ [(0, None)]" and "\<forall>x \<in> set xs. snd x \<noteq> None"
  shows "PdaDebugTranslate_loop tab e i code = Some (Option.bind (map_of (drop i tab) e) (\<lambda>d. d))"
  using assms
proof (induction xs arbitrary: i code)
  case Nil
  then have "i < length tab" "tab ! i = (0, None)" "drop (Suc i) tab = []"
    using drop_eq_Cons_nth[of i tab] by (cases "i < length tab"; auto)+
  with Nil show ?case
    by (auto simp: PdaDebugTranslate_loop.simps[of tab e i] PdaDebugTranslate_loop.simps[of tab e "Suc i"]
        Let_def)
next
  case (Cons x xs)
  then have i: "i < length tab" "tab ! i = x" "drop (Suc i) tab = xs @ [(0, None)]"
    using drop_eq_Cons_nth[of i tab] by (cases "i < length tab"; auto)+
  have step: "PdaDebugTranslate_loop tab e (Suc i) x = Some (Option.bind (map_of (drop (Suc i) tab) e) (\<lambda>d. d))"
    using Cons.prems(3) i(3) by (intro Cons.IH) auto
  show ?case
    using Cons.prems(1,2) i step
    by (cases x) (auto simp: PdaDebugTranslate_loop.simps[of tab e i] Let_def)
qed

lemma PdaDebugTranslate_map_of: "PdaDebugTranslate e = Some (Option.bind (map_of codes e) (\<lambda>d. d))"
proof -
  have "drop 0 codes = butlast codes @ [(0, None)]"
    by (simp add: codes_def)
  moreover have "\<forall>x \<in> set (butlast codes). snd x \<noteq> None" "snd (codes ! 0) \<noteq> None"
    by (simp_all add: codes_def)
  ultimately show ?thesis
    unfolding PdaDebugTranslate_def
    using PdaDebugTranslate_loop_map_of[of "codes ! 0" 0 codes "butlast codes" e] by simp
qed

text \<open>
  \<open>PdaDebugTranslate\<close> never reads past its table, and it has a description for exactly the
  error numbers 1 to 34; for every other code, success included, it returns \<open>NULL\<close>.
\<close>

lemma PdaDebugTranslate_total:
  "\<exists>d. PdaDebugTranslate e = Some d \<and> (d = None \<longleftrightarrow> e < 1 \<or> 34 < e)"
proof -
  have keys: "map fst codes = [1..34] @ [0]"
    by (simp add: codes_def upto.simps)
  have desc: "\<forall>(k, v) \<in> set codes. v = None \<longleftrightarrow> k = 0"
    by (simp add: codes_def)
  have "Option.bind (map_of codes e) (\<lambda>d. d) = None \<longleftrightarrow> e < 1 \<or> 34 < e"
  proof (cases "map_of codes e")
    case None
    then have "e \<notin> set (map fst codes)"
      by (simp add: map_of_eq_None_iff)
    with None show ?thesis
      by (simp only: keys) auto
  next
    case (Some v)
    then have "(e, v) \<in> set codes" "e \<in> set (map fst codes)"
      by (auto dest: map_of_SomeD intro: rev_image_eqI)
    then show ?thesis
      using Some desc by (simp only: keys) auto
  qed
  then show ?thesis by (simp add: PdaDebugTranslate_map_of)
qed

subsection \<open>The error handler\<close>

lemma PdaErrorHandler_code: "fst (PdaErrorHandler E code file line fmt s) = code"
  by (simp add: PdaErrorHandler_def Let_def)

lemma ERROR_release [simp]: "\<not> cfg_DEBUG E \<Longrightarrow> ERROR E code s = (code, s\<lparr>errno := code\<rparr>)"
  by (simp add: ERROR_def PdaErrorHandler_def)

lemma ERROR_code [simp]: "fst (ERROR E code s) = code"
  by (simp add: ERROR_def PdaErrorHandler_code)

lemma ERROR_world [simp]: "world (snd (ERROR E code s)) = world s"
  by (simp add: ERROR_def PdaErrorHandler_def PdaDebugInit_def emit_def Let_def split: option.split)

subsection \<open>Tracing\<close>

text \<open>
  Two states that differ in the output so far and in whether the mask has been read: what tracing can change.
\<close>

definition traced :: "'w env \<Rightarrow> ('w, 'z) cstate_scheme \<Rightarrow> ('w, 'z) cstate_scheme \<Rightarrow> bool" where
  "traced E s s' \<longleftrightarrow> (\<exists>ch. s' = s\<lparr>channel := ch\<rparr> \<or> s' = (PdaDebugInit E s)\<lparr>channel := ch\<rparr>)"

lemma PdaDebugInit_channel: "PdaDebugInit E (s\<lparr>channel := ch\<rparr>) = (PdaDebugInit E s)\<lparr>channel := ch\<rparr>"
  by (auto simp: PdaDebugInit_def split: option.split)

lemma PdaDebugInit_idem: "PdaDebugInit E (PdaDebugInit E s) = PdaDebugInit E s"
  by (auto simp: PdaDebugInit_def split: option.split)

lemma traced_intros [simp]:
  "traced E s s" "traced E s (PdaDebugInit E s)" "traced E s (emit m s)" "traced E s (emit m (PdaDebugInit E s))"
proof -
  show "traced E s s" unfolding traced_def by (rule exI[of _ "channel s"]) simp
  show "traced E s (PdaDebugInit E s)" unfolding traced_def by (rule exI[of _ "channel (PdaDebugInit E s)"]) simp
  show "traced E s (emit m s)" "traced E s (emit m (PdaDebugInit E s))" unfolding traced_def emit_def by blast+
qed

text \<open>
  The trace of the library is transparent: the macros change nothing but the output and the mask, which they read in case it was
  not, \<open>RETURN\<close> returns its argument, and the error handler behaves after a trace as without it. The other theories
  leave the trace out.
\<close>

lemma trace_transparent:
  "traced E s (DEBUG_PRINTF E file line func msk fmt s)" "traced E s (WARN E file line fmt s)"
  "fst (RETURN E file line func r s) = r" "traced E s (snd (RETURN E file line func r s))"
  by (simp_all add: DEBUG_PRINTF_def WARN_def RETURN_def PdaDebugPrintf_def PdaWarningHandler_def Let_def split: option.split)

lemma traced_error:
  assumes "traced E s s'" and "cfg_DEBUG E"
  shows "\<exists>ch. ERROR_EXIT E file line code fmt s' = (ERROR_EXIT E file line code fmt s)\<lparr>channel := ch\<rparr>"
proof -
  obtain ch where "PdaDebugInit E s' = (PdaDebugInit E s)\<lparr>channel := ch\<rparr>"
    using assms(1) PdaDebugInit_idem[of E s] by (auto simp: traced_def PdaDebugInit_channel)
  with assms(2) show ?thesis
    by (auto simp: ERROR_EXIT_def PdaErrorHandler_def emit_def Let_def intro: exI[of _ "ch @ [Error_msg file line code fmt]"])
qed

subsection \<open>Retries\<close>

text \<open>The state before attempt \<open>k\<close> when the \<open>k\<close> attempts before it failed.\<close>

primrec retry_state ::
  "'w env \<Rightarrow> string \<Rightarrow> open_mode \<Rightarrow> nat \<Rightarrow> ('w, 'z) cstate_scheme \<Rightarrow> ('w, 'z) cstate_scheme" where
  "retry_state E path flags 0 s = s"
| "retry_state E path flags (Suc k) s =
     c_usleep E (push_bit k 1) (snd (c_open E path flags (retry_state E path flags k s)))"

lemma unat_of_nat_below: "k < unat (n::u64) \<Longrightarrow> unat (of_nat k :: u64) = k"
  using unat_bound[of n] by (simp add: unat_of_nat)

lemma pda_spinOpen_loop_retry:
  assumes "k < unat spins" and "fst (c_open E path flags (retry_state E path flags k s)) = -1"
  shows "pda_spinOpen_loop E path flags spins (of_nat k) fd (retry_state E path flags k s)
    = pda_spinOpen_loop E path flags spins (of_nat (Suc k)) (-1) (retry_state E path flags (Suc k) s)"
  using assms unat_of_nat_below[OF assms(1)]
  by (cases "c_open E path flags (retry_state E path flags k s)")
    (simp add: pda_spinOpen_loop.simps[of E path flags spins "of_nat k"] word_less_nat_alt add.commute)

lemma pda_spinOpen_loop_failed:
  assumes "k \<le> unat spins"
    and "\<forall>j < k. fst (c_open E path flags (retry_state E path flags j s)) = -1"
  shows "pda_spinOpen E path flags spins s
    = pda_spinOpen_loop E path flags spins (of_nat k) (-1) (retry_state E path flags k s)"
  using assms
proof (induction k)
  case 0
  then show ?case by (simp add: pda_spinOpen_def)
next
  case (Suc k)
  then have "pda_spinOpen E path flags spins s
      = pda_spinOpen_loop E path flags spins (of_nat k) (-1) (retry_state E path flags k s)"
    by simp
  also have "\<dots> = pda_spinOpen_loop E path flags spins (of_nat (Suc k)) (-1)
      (retry_state E path flags (Suc k) s)"
    using Suc.prems by (intro pda_spinOpen_loop_retry) auto
  finally show ?case .
qed

text \<open>
  \<open>pda_spinOpen\<close> is the first successful attempt among at most \<open>spins\<close> attempts, where attempt
  \<open>k\<close> runs after \<open>k\<close> failures and the back-off sleeps of \<open>1, 2, ..., 2 ^ (k - 1)\<close> microseconds;
  when every attempt fails it returns \<open>-1\<close> after exactly \<open>spins\<close> attempts.
\<close>

lemma pda_spinOpen_first_success:
  "pda_spinOpen E path flags spins s =
     (case find (\<lambda>k. fst (c_open E path flags (retry_state E path flags k s)) \<noteq> -1) [0..<unat spins] of
        None \<Rightarrow> (-1, retry_state E path flags (unat spins) s)
      | Some k \<Rightarrow> c_open E path flags (retry_state E path flags k s))"
proof (cases "find (\<lambda>k. fst (c_open E path flags (retry_state E path flags k s)) \<noteq> -1) [0..<unat spins]")
  case None
  then have "\<forall>j < unat spins. fst (c_open E path flags (retry_state E path flags j s)) = -1"
    by (auto simp: find_None_iff)
  then have "pda_spinOpen E path flags spins s
      = pda_spinOpen_loop E path flags spins spins (-1) (retry_state E path flags (unat spins) s)"
    using pda_spinOpen_loop_failed[of "unat spins" spins] by simp
  with None show ?thesis
    by (simp add: pda_spinOpen_loop.simps[of E path flags spins spins])
next
  case (Some k)
  then have k: "k < unat spins" "fst (c_open E path flags (retry_state E path flags k s)) \<noteq> -1"
    "\<forall>j < k. fst (c_open E path flags (retry_state E path flags j s)) = -1"
    by (auto simp: find_Some_iff)
  then have "pda_spinOpen E path flags spins s
      = pda_spinOpen_loop E path flags spins (of_nat k) (-1) (retry_state E path flags k s)"
    by (intro pda_spinOpen_loop_failed) auto
  with Some k show ?thesis
    using unat_of_nat_below[OF k(1)]
    by (cases "c_open E path flags (retry_state E path flags k s)")
      (simp add: pda_spinOpen_loop.simps[of E path flags spins "of_nat k"] word_less_nat_alt)
qed

text \<open>A file descriptor obtained this way is \<open>-1\<close> or a real one.\<close>

lemma pda_spinOpen_loop_fd:
  "fd = -1 \<or> 0 \<le> fd \<Longrightarrow> pda_spinOpen_loop E path flags spins i fd s = (fd', s') \<Longrightarrow> fd' = -1 \<or> 0 \<le> fd'"
proof (induction E path flags spins i fd s rule: pda_spinOpen_loop.induct)
  case (1 E path flags spins i fd s)
  then show ?case
    by (cases "c_open E path flags s")
      (auto simp: pda_spinOpen_loop.simps[of E path flags spins i fd s] dest: c_open_fd split: if_splits)
qed

lemma pda_spinOpen_fd: "pda_spinOpen E path flags spins s = (fd, s') \<Longrightarrow> fd = -1 \<or> 0 \<le> fd"
  unfolding pda_spinOpen_def by (rule pda_spinOpen_loop_fd[OF disjI1[OF refl]])

lemma pda_spinOpen_granted:
  assumes "granting E" and "pda_spinOpen E path flags PDA_OPEN_DEFAULT_SPIN s = (fd, s')"
  shows "fd \<noteq> -1"
proof -
  obtain fd1 s1 where co: "c_open E path flags s = (fd1, s1)" by fastforce
  with c_open_granted[OF assms(1) co] assms(2) show ?thesis
    by (auto simp: pda_spinOpen_def pda_spinOpen_loop.simps[of E path flags _ 0] PDA_OPEN_DEFAULT_SPIN_def split: if_splits)
qed

text \<open>When every attempt failed, \<open>errno\<close> says why.\<close>

lemma pda_spinOpen_loop_errno:
  "posix_env E \<Longrightarrow> pda_spinOpen_loop E path flags spins i fd s = (-1, s') \<Longrightarrow>
   i < spins \<or> 0 < errno s \<Longrightarrow> 0 < errno s'"
proof (induction E path flags spins i fd s rule: pda_spinOpen_loop.induct)
  case (1 E path flags spins i fd s)
  obtain fd1 s1 where co: "c_open E path flags s = (fd1, s1)" by fastforce
  show ?case
  proof (cases "i < spins \<and> fd1 = -1")
    case True
    then have "0 < errno (c_usleep E t s1)" for t
      using c_open_errno[OF 1(2)] co by (simp add: c_usleep_def)
    with 1 True co show ?thesis
      by (auto simp: pda_spinOpen_loop.simps[of E path flags spins i fd s])
  next
    case False
    with 1 co show ?thesis
      by (auto simp: pda_spinOpen_loop.simps[of E path flags spins i fd s] split: if_splits)
  qed
qed

lemma pda_spinOpen_errno:
  assumes "posix_env E" and "pda_spinOpen E path flags PDA_OPEN_DEFAULT_SPIN s = (-1, s')"
  shows "0 < errno s'"
  using pda_spinOpen_loop_errno[OF assms(1)] assms(2)
  by (fastforce simp: pda_spinOpen_def PDA_OPEN_DEFAULT_SPIN_def)

lemma ERROR_errno [simp]: "errno (snd (ERROR E (errno s) s)) = errno s"
  by (simp add: ERROR_def PdaErrorHandler_def PdaDebugInit_def emit_def Let_def split: option.split)

end
