(* ===== verification/PDA_SGList.thy ===== *)
theory PDA_SGList
  imports PDA_Debug
begin

text \<open>
  The scatter/gather list of a DMA buffer (\<open>DMABuffer_SGNode\<close>, \<open>include/pda/dma_buffer.h\<close>) and its
  coalescing (\<open>DMABuffer_coalesqueSGlist\<close>, \<open>src/dma_buffer.c\<close>).

  A list is one \<open>calloc\<close>ed block of nodes linked by \<open>next\<close>/\<open>prev\<close>; the block is a HOL list and a
  node pointer an index into it. The loops of the code follow the \<open>next\<close> pointers, so they are
  \<^theory_text>\<open>partial_function\<close>s: \<open>None\<close> means that the loop does not end, that a pointer leaves the
  block, that the new block is written out of bounds, or that the unchecked \<open>calloc\<close> of the code
  returned \<open>NULL\<close>. The theorems show that on a list as \<open>DMABuffer_loadSGList\<close> builds it none of this
  happens, that the translation from user addresses to device addresses is unchanged byte for
  byte, and that the result cannot be coalesced further.
\<close>

section \<open>Nodes\<close>

record DMABuffer_SGNode =
  sg_length :: u64
  u_pointer :: u64
  d_pointer :: u64
  k_pointer :: u64
  sg_next :: "nat option"
  sg_prev :: "nat option"

type_synonym sgblock = "DMABuffer_SGNode list"

definition sizeof_SGNode :: nat where
  "sizeof_SGNode = 48"

definition zero_node :: DMABuffer_SGNode where
  "zero_node = \<lparr>sg_length = 0, u_pointer = 0, d_pointer = 0, k_pointer = 0,
     sg_next = None, sg_prev = None\<rparr>"

section \<open>DMABuffer\_coalesqueSGlist\<close>

text \<open>The number of entries.\<close>

partial_function (option) sg_count :: "sgblock \<Rightarrow> nat option \<Rightarrow> u64 \<Rightarrow> u64 option" where
  "sg_count b p n =
     (case p of
        None \<Rightarrow> Some n
      | Some i \<Rightarrow> if i < length b then sg_count b (sg_next (b ! i)) (n + 1) else None)"

declare sg_count.simps [code]

text \<open>One coalescing pass. A merged node keeps its place with length 0.\<close>

partial_function (option) sg_merge :: "sgblock \<Rightarrow> nat option \<Rightarrow> u64 \<Rightarrow> (sgblock \<times> u64) option" where
  "sg_merge b p n =
     (case p of
        None \<Rightarrow> Some (b, n)
      | Some i \<Rightarrow>
          if length b \<le> i then None
          else if sg_length (b ! i) = 0 then sg_merge b (sg_next (b ! i)) n
          else (case sg_next (b ! i) of
              None \<Rightarrow> sg_merge b None n
            | Some k \<Rightarrow>
                if length b \<le> k then None
                else if d_pointer (b ! i) + sg_length (b ! i) = d_pointer (b ! k) then
                  let b1 = b[i := (b ! i)\<lparr>sg_length := sg_length (b ! i) + sg_length (b ! k)\<rparr>];
                      b2 = b1[k := (b1 ! k)\<lparr>sg_length := 0\<rparr>]
                  in sg_merge b2 (sg_next (b2 ! i)) (n - 1)
                else sg_merge b (sg_next (b ! i)) n))"

declare sg_merge.simps [code]

text \<open>Copying the nodes that are left into the new block, at index \<open>j\<close>.\<close>

partial_function (option) sg_copy ::
  "sgblock \<Rightarrow> nat option \<Rightarrow> sgblock \<Rightarrow> u64 \<Rightarrow> (sgblock \<times> u64) option" where
  "sg_copy b p new_sglist j =
     (case p of
        None \<Rightarrow> Some (new_sglist, j)
      | Some i \<Rightarrow>
          if length b \<le> i then None
          else if sg_length (b ! i) = 0 then sg_copy b (sg_next (b ! i)) new_sglist j
          else if length new_sglist \<le> unat j then None
          else sg_copy b (sg_next (b ! i)) (new_sglist[unat j := b ! i]) (j + 1))"

declare sg_copy.simps [code]

text \<open>Readjusting the pointers of the first \<open>j\<close> nodes.\<close>

definition relink_node :: "nat \<Rightarrow> nat \<Rightarrow> DMABuffer_SGNode \<Rightarrow> DMABuffer_SGNode" where
  "relink_node j i nd =
     nd\<lparr>sg_prev := (if i = 0 then None else Some (i - 1)),
        sg_next := (if i = j - 1 then None else Some (i + 1))\<rparr>"

function sg_relink :: "nat \<Rightarrow> nat \<Rightarrow> sgblock \<Rightarrow> sgblock" where
  "sg_relink i j b = (if i < j then sg_relink (Suc i) j (b[i := relink_node j i (b ! i)]) else b)"
  by pat_completeness auto
termination
  by (relation "measure (\<lambda>(i, j, b). j - i)") auto

declare sg_relink.simps [simp del]

text \<open>
  The function: its result is the return code and the list \<open>*sglist_in\<close> points to afterwards
  (\<open>None\<close> inside: \<open>NULL\<close>).
\<close>

partial_function (option) DMABuffer_coalesqueSGlist ::
  "'w env \<Rightarrow> sgblock option \<Rightarrow> ('w, 'z) cstate_scheme
   \<Rightarrow> (PdaDebugReturnCode \<times> sgblock option \<times> ('w, 'z) cstate_scheme) option" where
  "DMABuffer_coalesqueSGlist E sglist_in s =
     (let b = (case sglist_in of None \<Rightarrow> [] | Some b \<Rightarrow> b);
          hd_ptr = (case sglist_in of None \<Rightarrow> None | Some _ \<Rightarrow> Some 0)
      in Option.bind (sg_count b hd_ptr 0) (\<lambda>number_entries.
         Option.bind (sg_merge b hd_ptr number_entries) (\<lambda>(b', new_number_entries).
           if number_entries = new_number_entries
           then Some (PDA_SUCCESS, map_option (\<lambda>_. b') sglist_in, s)
           else (case c_alloc E (unat new_number_entries * sizeof_SGNode) s of
               (ok, s') \<Rightarrow> if \<not> ok then None else
                 Option.bind (sg_copy b' hd_ptr (replicate (unat new_number_entries) zero_node) 0)
                   (\<lambda>(new_sglist, j).
                     if j \<noteq> new_number_entries
                     then Some (not_PDA_SUCCESS, map_option (\<lambda>_. b') sglist_in, s')
                     else DMABuffer_coalesqueSGlist E (Some (sg_relink 0 (unat j) new_sglist)) s')))))"

declare DMABuffer_coalesqueSGlist.simps [code]

section \<open>The linked block\<close>

text \<open>The pointer to node \<open>i\<close> of a block of \<open>n\<close> nodes, \<open>NULL\<close> behind the last.\<close>

definition idx_ptr :: "nat \<Rightarrow> nat \<Rightarrow> nat option" where
  "idx_ptr n i = (if i < n then Some i else None)"

definition sg_linked :: "sgblock \<Rightarrow> bool" where
  "sg_linked b \<longleftrightarrow>
     (\<forall>i < length b. sg_next (b ! i) = idx_ptr (length b) (Suc i) \<and>
        sg_prev (b ! i) = (if i = 0 then None else Some (i - 1)))"

lemma idx_ptr_simps [simp]:
  "i < n \<Longrightarrow> idx_ptr n i = Some i"
  "n \<le> i \<Longrightarrow> idx_ptr n i = None"
  by (simp_all add: idx_ptr_def)

lemma sg_linked_update:
  "sg_linked b \<Longrightarrow> i < length b \<Longrightarrow> sg_linked (b[i := (b ! i)\<lparr>sg_length := l\<rparr>])"
  by (auto simp: sg_linked_def nth_list_update)

lemma sg_linked_next [simp]: "sg_linked b \<Longrightarrow> i < length b \<Longrightarrow> sg_next (b ! i) = idx_ptr (length b) (Suc i)"
  by (simp add: sg_linked_def)

section \<open>The passes as functions on lists\<close>

fun merge_pass :: "sgblock \<Rightarrow> sgblock \<times> nat" where
  "merge_pass [] = ([], 0)"
| "merge_pass [x] = ([x], 0)"
| "merge_pass (x # y # zs) =
     (if sg_length x \<noteq> 0 \<and> d_pointer x + sg_length x = d_pointer y
      then (case merge_pass (y\<lparr>sg_length := 0\<rparr> # zs) of
              (r, m) \<Rightarrow> (x\<lparr>sg_length := sg_length x + sg_length y\<rparr> # r, Suc m))
      else (case merge_pass (y # zs) of (r, m) \<Rightarrow> (x # r, m)))"

lemma sg_count_linked:
  assumes "sg_linked b" and "i \<le> length b"
  shows "sg_count b (idx_ptr (length b) i) n = Some (n + of_nat (length b - i))"
  using assms(2)
proof (induction "length b - i" arbitrary: i n)
  case 0
  then show ?case by (simp add: sg_count.simps)
next
  case (Suc m)
  then have i: "i < length b" and m: "m = length b - Suc i" by auto
  from Suc.hyps(1)[OF m] i have
    "sg_count b (idx_ptr (length b) (Suc i)) (n + 1) = Some (n + 1 + of_nat (length b - Suc i))"
    by simp
  moreover have "length b - i = Suc (length b - Suc i)" using i by simp
  ultimately show ?case
    using i assms(1) by (subst sg_count.simps) (simp add: algebra_simps)
qed

text \<open>One turn of the merging loop at an entry that is not the last.\<close>

definition continues :: "sgblock \<Rightarrow> nat \<Rightarrow> bool" where
  "continues b i \<longleftrightarrow> sg_length (b ! i) \<noteq> 0 \<and> d_pointer (b ! i) + sg_length (b ! i) = d_pointer (b ! Suc i)"

definition folded :: "sgblock \<Rightarrow> nat \<Rightarrow> sgblock" where
  "folded b i = b[i := (b ! i)\<lparr>sg_length := sg_length (b ! i) + sg_length (b ! Suc i)\<rparr>, Suc i := (b ! Suc i)\<lparr>sg_length := 0\<rparr>]"

lemma sg_merge_turn:
  assumes "sg_linked b" and "Suc i < length b"
  shows "sg_merge b (Some i) n = (if continues b i then sg_merge (folded b i) (Some (Suc i)) (n - 1) else sg_merge b (Some (Suc i)) n)"
proof -
  have "sg_next (b ! i) = Some (Suc i)" using assms by simp
  with assms show ?thesis by (subst sg_merge.simps) (auto simp: continues_def folded_def Let_def)
qed

lemma folded_facts:
  assumes "sg_linked b" and "Suc i < length b"
  shows "sg_linked (folded b i)" "length (folded b i) = length b"
    "take (Suc i) (folded b i) = take i b @ [(b ! i)\<lparr>sg_length := sg_length (b ! i) + sg_length (b ! Suc i)\<rparr>]"
    "drop (Suc i) (folded b i) = (b ! Suc i)\<lparr>sg_length := 0\<rparr> # drop (Suc (Suc i)) b"
proof -
  let ?b1 = "b[i := (b ! i)\<lparr>sg_length := sg_length (b ! i) + sg_length (b ! Suc i)\<rparr>]"
  show "sg_linked (folded b i)"
    using sg_linked_update[of ?b1 "Suc i" 0] sg_linked_update[of b i] assms by (simp add: folded_def)
qed (use assms in \<open>simp_all add: folded_def take_Suc_snoc drop_eq_Cons_nth\<close>)

lemma sg_merge_linked:
  assumes "sg_linked b" and "i \<le> length b"
  shows "sg_merge b (idx_ptr (length b) i) n =
    Some (take i b @ fst (merge_pass (drop i b)), n - of_nat (snd (merge_pass (drop i b))))"
  using assms
proof (induction "length b - i" arbitrary: b i n)
  case 0
  then show ?case by (simp add: sg_merge.simps)
next
  case (Suc m)
  then have i: "i < length b" and m: "m = length b - Suc i" by auto
  show ?case
  proof (cases "Suc i < length b")
    case last: False
    then have d: "drop i b = [b ! i]" using i by (simp add: drop_eq_Cons_nth)
    have n: "sg_next (b ! i) = None" using Suc.prems(1) i last by simp
    have b: "take i b @ [b ! i] = b" using i last by (metis d append_take_drop_id)
    show ?thesis using i last b by (subst sg_merge.simps) (simp add: d n sg_merge.simps)
  next
    case True
    then have d: "drop i b = b ! i # b ! Suc i # drop (Suc (Suc i)) b" "drop (Suc i) b = b ! Suc i # drop (Suc (Suc i)) b"
      using i by (simp_all add: drop_eq_Cons_nth)
    note turn = sg_merge_turn[OF Suc.prems(1) True, of n]
    show ?thesis
    proof (cases "continues b i")
      case False
      with Suc.hyps(1)[OF m Suc.prems(1)] i True turn show ?thesis
        by (auto simp: d continues_def take_Suc_snoc split: prod.splits)
    next
      case mrg: True
      note f = folded_facts[OF Suc.prems(1) True]
      have "sg_merge (folded b i) (idx_ptr (length b) (Suc i)) (n - 1) =
          Some (take (Suc i) (folded b i) @ fst (merge_pass (drop (Suc i) (folded b i))),
            n - 1 - of_nat (snd (merge_pass (drop (Suc i) (folded b i)))))"
        using Suc.hyps(1)[of "folded b i" "Suc i" "n - 1"] m f(1,2) True by simp
      then show ?thesis using i True mrg turn unfolding f(3,4) by (simp add: d continues_def split: prod.splits)
    qed
  qed
qed

abbreviation nonzero :: "DMABuffer_SGNode \<Rightarrow> bool" where
  "nonzero nd \<equiv> sg_length nd \<noteq> 0"

lemma sg_copy_linked:
  assumes "sg_linked b" and "i \<le> length b"
    and "unat j + length (filter nonzero (drop i b)) \<le> length new" and "length new < 2 ^ 64"
  shows "sg_copy b (idx_ptr (length b) i) new j =
    Some (take (unat j) new @ filter nonzero (drop i b) @
        drop (unat j + length (filter nonzero (drop i b))) new,
      j + of_nat (length (filter nonzero (drop i b))))"
  using assms(2-)
proof (induction "length b - i" arbitrary: i new j)
  case 0
  then show ?case by (simp add: sg_copy.simps)
next
  case (Suc m)
  then have i: "i < length b" and m: "m = length b - Suc i" by auto
  have d: "drop i b = b ! i # drop (Suc i) b"
    using i by (simp add: drop_eq_Cons_nth)
  have nx: "sg_next (b ! i) = idx_ptr (length b) (Suc i)"
    using assms(1) i by simp
  show ?case
  proof (cases "nonzero (b ! i)")
    case False
    then show ?thesis
      using i d nx Suc.hyps(1)[OF m, of j new] Suc.prems by (subst sg_copy.simps) simp
  next
    case True
    then have j: "unat j < length new" and j1: "unat (j + 1) = Suc (unat j)"
      using Suc.prems d by (auto simp: unat_word_ariths)
    let ?new = "new[unat j := b ! i]"
    have "sg_copy b (idx_ptr (length b) (Suc i)) ?new (j + 1) =
      Some (take (unat (j + 1)) ?new @ filter nonzero (drop (Suc i) b) @
          drop (unat (j + 1) + length (filter nonzero (drop (Suc i) b))) ?new,
        j + 1 + of_nat (length (filter nonzero (drop (Suc i) b))))"
      using i d True Suc.prems j1 by (intro Suc.hyps(1)[OF m]) auto
    then show ?thesis
      using i d True j j1 nx by (subst sg_copy.simps) (simp add: take_Suc_snoc algebra_simps)
  qed
qed

lemma sg_relink_eq:
  assumes "i \<le> j" and "j \<le> length b"
  shows "sg_relink i j b = take i b @ map (\<lambda>k. relink_node j k (b ! k)) [i..<j] @ drop j b"
  using assms
proof (induction "j - i" arbitrary: i b)
  case 0
  then show ?case by (simp add: sg_relink.simps[of i i b])
next
  case (Suc m)
  then have i: "i < j" "i < length b" and m: "m = j - Suc i" by auto
  let ?b = "b[i := relink_node j i (b ! i)]"
  have "sg_relink i j b = sg_relink (Suc i) j ?b"
    using i by (simp add: sg_relink.simps[of i j b])
  also have "\<dots> = take (Suc i) ?b @ map (\<lambda>k. relink_node j k (?b ! k)) [Suc i..<j] @ drop j ?b"
    using Suc.prems i by (intro Suc.hyps(1)[OF m]) auto
  also have "take (Suc i) ?b = take i b @ [relink_node j i (b ! i)]"
    using i by (simp add: take_Suc_snoc)
  finally show ?case
    using i by (simp add: upt_conv_Cons)
qed

text \<open>What a node says about memory, without its links.\<close>

definition sg_core :: "DMABuffer_SGNode \<Rightarrow> u64 \<times> u64 \<times> u64 \<times> u64" where
  "sg_core nd = (sg_length nd, u_pointer nd, d_pointer nd, k_pointer nd)"

lemma sg_core_eq:
  "sg_core x = sg_core y \<longleftrightarrow> sg_length x = sg_length y \<and> u_pointer x = u_pointer y \<and>
     d_pointer x = d_pointer y \<and> k_pointer x = k_pointer y"
  by (simp add: sg_core_def)

lemma sg_relink_all:
  "length (sg_relink 0 (length b) b) = length b"
  "sg_linked (sg_relink 0 (length b) b)"
  "map sg_core (sg_relink 0 (length b) b) = map sg_core b"
proof -
  have eq: "sg_relink 0 (length b) b = map (\<lambda>k. relink_node (length b) k (b ! k)) [0..<length b]"
    by (simp add: sg_relink_eq)
  show "length (sg_relink 0 (length b) b) = length b"
    by (simp add: eq)
  show "sg_linked (sg_relink 0 (length b) b)"
    unfolding sg_linked_def by (auto simp: eq relink_node_def idx_ptr_def)
  show "map sg_core (sg_relink 0 (length b) b) = map sg_core b"
    by (rule nth_equalityI) (simp_all add: eq relink_node_def sg_core_def)
qed

text \<open>One pass followed by dropping the emptied nodes merges disjoint adjacent pairs.\<close>

fun pair_merge :: "sgblock \<Rightarrow> sgblock" where
  "pair_merge [] = []"
| "pair_merge [x] = [x]"
| "pair_merge (x # y # zs) =
     (if d_pointer x + sg_length x = d_pointer y
      then x\<lparr>sg_length := sg_length x + sg_length y\<rparr> # pair_merge zs
      else x # pair_merge (y # zs))"

definition sg_total :: "sgblock \<Rightarrow> nat" where
  "sg_total b = sum_list (map (\<lambda>nd. unat (sg_length nd)) b)"

lemma merge_pass_empty_head:
  "sg_length y = 0 \<Longrightarrow> merge_pass (y # zs) = (y # fst (merge_pass zs), snd (merge_pass zs))"
  by (cases zs) (simp_all add: case_prod_beta)

lemma pair_merge_pass:
  assumes "\<forall>nd \<in> set xs. nonzero nd" and "sg_total xs < 2 ^ 64"
  shows "filter nonzero (fst (merge_pass xs)) = pair_merge xs"
    and "snd (merge_pass xs) + length (pair_merge xs) = length xs"
  using assms
proof (induction xs rule: pair_merge.induct)
  case (3 x y zs)
  {
    case 1
    have "unat (sg_length x + sg_length y) = unat (sg_length x) + unat (sg_length y)"
      using 1(2) by (intro unat_add_no_wrap) (simp add: sg_total_def)
    then have "sg_length x + sg_length y \<noteq> 0"
      using 1(1) by (simp add: word_neq_0_unat)
    with 1 3 show ?case
      by (auto simp: merge_pass_empty_head sg_total_def case_prod_beta)
  next
    case 2
    with 3 show ?case
      by (auto simp: merge_pass_empty_head sg_total_def case_prod_beta)
  }
qed simp_all

lemma merge_pass_links:
  "map sg_next (fst (merge_pass xs)) = map sg_next xs"
  "map sg_prev (fst (merge_pass xs)) = map sg_prev xs"
  by (induction xs rule: merge_pass.induct) (auto split: prod.splits)

lemma length_merge_pass [simp]: "length (fst (merge_pass xs)) = length xs"
  using arg_cong[OF merge_pass_links(1), of length xs] by simp

lemma sg_linked_merge_pass: "sg_linked b \<Longrightarrow> sg_linked (fst (merge_pass b))"
  unfolding sg_linked_def
  using merge_pass_links[of b, THEN arg_cong, of "\<lambda>l. l ! _"]
  by (metis length_merge_pass nth_map)

lemma merge_pass_none: "snd (merge_pass xs) = 0 \<Longrightarrow> fst (merge_pass xs) = xs"
  by (induction xs rule: merge_pass.induct) (auto split: prod.splits if_splits)

lemma length_le_sg_total: "\<forall>nd \<in> set xs. nonzero nd \<Longrightarrow> length xs \<le> sg_total xs"
proof (induction xs)
  case (Cons x xs)
  then have "0 < unat (sg_length x)" by (simp add: word_neq_0_unat)
  with Cons show ?case by (simp add: sg_total_def)
qed (simp add: sg_total_def)

lemma pair_merge_nonzero:
  assumes "\<forall>nd \<in> set xs. nonzero nd" and "sg_total xs < 2 ^ 64"
  shows "\<forall>nd \<in> set (pair_merge xs). nonzero nd"
  using pair_merge_pass(1)[OF assms] by (auto simp flip: pair_merge_pass(1)[OF assms])

lemma pair_merge_total: "sg_total xs < 2 ^ 64 \<Longrightarrow> sg_total (pair_merge xs) = sg_total xs"
proof (induction xs rule: pair_merge.induct)
  case (3 x y zs)
  then have "unat (sg_length x + sg_length y) = unat (sg_length x) + unat (sg_length y)"
    by (intro unat_add_no_wrap) (simp add: sg_total_def)
  with 3 show ?case by (auto simp: sg_total_def)
qed simp_all

lemma pair_merge_length: "length (pair_merge xs) \<le> length xs"
  by (induction xs rule: pair_merge.induct) auto

lemma pair_merge_nonempty: "xs \<noteq> [] \<Longrightarrow> pair_merge xs \<noteq> []"
  by (cases xs rule: pair_merge.cases) auto

section \<open>The reference: gluing maximal runs\<close>

abbreviation apart :: "DMABuffer_SGNode \<Rightarrow> DMABuffer_SGNode \<Rightarrow> bool" where
  "apart x y \<equiv> d_pointer x + sg_length x \<noteq> d_pointer y"

fun sg_glue :: "sgblock \<Rightarrow> sgblock" where
  "sg_glue [] = []"
| "sg_glue (x # xs) =
     (case sg_glue xs of
        [] \<Rightarrow> [x]
      | y # ys \<Rightarrow> if apart x y then x # y # ys
                  else x\<lparr>sg_length := sg_length x + sg_length y\<rparr> # ys)"

lemma sg_glue_pair:
  "\<not> apart x y \<Longrightarrow> sg_glue (x # y # zs) = sg_glue (x\<lparr>sg_length := sg_length x + sg_length y\<rparr> # zs)"
  by (auto simp: add.assoc[symmetric] split: list.splits)

lemma sg_glue_pair_merge: "sg_glue (pair_merge xs) = sg_glue xs"
proof (induction xs rule: pair_merge.induct)
  case (3 x y zs)
  show ?case
  proof (cases "apart x y")
    case True
    then show ?thesis using 3(2) by simp
  next
    case False
    then have "pair_merge (x # y # zs) = x\<lparr>sg_length := sg_length x + sg_length y\<rparr> # pair_merge zs"
      by simp
    then have "sg_glue (pair_merge (x # y # zs)) = sg_glue (x\<lparr>sg_length := sg_length x + sg_length y\<rparr> # zs)"
      using 3(1) False by simp
    then show ?thesis
      using sg_glue_pair[OF False, of zs] by simp
  qed
qed simp_all

lemma sg_glue_apart: "successively apart (sg_glue xs)"
  by (induction xs) (auto split: list.splits simp: successively_Cons add.assoc[symmetric])

lemma sg_glue_id: "successively apart xs \<Longrightarrow> sg_glue xs = xs"
  by (induction xs) (auto split: list.splits simp: successively_Cons)

lemma pair_merge_fixed: "length (pair_merge xs) = length xs \<Longrightarrow> successively apart xs"
proof (induction xs rule: pair_merge.induct)
  case (3 x y zs)
  then show ?case
    using pair_merge_length[of zs] by (auto split: if_splits)
qed simp_all

lemma sg_glue_core:
  "map sg_core xs = map sg_core ys \<Longrightarrow> map sg_core (sg_glue xs) = map sg_core (sg_glue ys)"
proof (induction xs arbitrary: ys)
  case (Cons x xs)
  then obtain y ys' where ys: "ys = y # ys'" "sg_core x = sg_core y" "map sg_core xs = map sg_core ys'"
    by (cases ys) auto
  with Cons.IH have "map sg_core (sg_glue xs) = map sg_core (sg_glue ys')" by simp
  with ys show ?case
    by (cases "sg_glue xs"; cases "sg_glue ys'") (auto simp: sg_core_eq)
qed simp

lemma sg_total_core:
  assumes "map sg_core xs = map sg_core ys"
  shows "sg_total xs = sg_total ys"
proof -
  have "sg_total b = sum_list (map (unat \<circ> fst) (map sg_core b))" for b
    by (simp add: sg_total_def sg_core_def comp_def)
  with assms show ?thesis by metis
qed

lemma nonzero_core:
  assumes "map sg_core xs = map sg_core ys" and "\<forall>nd \<in> set ys. nonzero nd"
  shows "\<forall>nd \<in> set xs. nonzero nd"
proof -
  have "(\<forall>nd \<in> set b. nonzero nd) \<longleftrightarrow> (\<forall>c \<in> set (map sg_core b). fst c \<noteq> 0)" for b
    by (simp add: sg_core_def)
  with assms show ?thesis by metis
qed

section \<open>Correctness of the whole function\<close>

text \<open>A well-formed list: linked, not empty, no empty node, and no address overflow in total.\<close>

definition sg_wf :: "sgblock \<Rightarrow> bool" where
  "sg_wf b \<longleftrightarrow> sg_linked b \<and> b \<noteq> [] \<and> (\<forall>nd \<in> set b. nonzero nd) \<and> sg_total b < 2 ^ 64"

lemma sg_wf_length: "sg_wf b \<Longrightarrow> length b < 2 ^ 64"
  unfolding sg_wf_def using length_le_sg_total by (meson le_less_trans)

lemma sg_wf_relink_pair_merge:
  assumes "sg_wf b"
  shows "sg_wf (sg_relink 0 (length (pair_merge b)) (pair_merge b))"
proof -
  let ?p = "pair_merge b"
  have wf: "b \<noteq> []" "\<forall>nd \<in> set b. nonzero nd" "sg_total b < 2 ^ 64"
    using assms by (auto simp: sg_wf_def)
  note core = sg_relink_all(3)[of ?p]
  have "sg_relink 0 (length ?p) ?p \<noteq> []"
    using pair_merge_nonempty[OF wf(1)] sg_relink_all(1)[of ?p] by auto
  moreover have "\<forall>nd \<in> set (sg_relink 0 (length ?p) ?p). nonzero nd"
    by (rule nonzero_core[OF core pair_merge_nonzero[OF wf(2,3)]])
  moreover have "sg_total (sg_relink 0 (length ?p) ?p) < 2 ^ 64"
    using sg_total_core[OF core] pair_merge_total[OF wf(3)] wf(3) by simp
  ultimately show ?thesis
    unfolding sg_wf_def using sg_relink_all(2)[of ?p] by blast
qed

text \<open>
  One call of the function in terms of the list functions, for any linked list: it stops when
  nothing was merged, reports an error when an entry was empty before the merge, and otherwise
  continues with the smaller list.
\<close>

lemma merge_pass_count:
  "length (filter nonzero (fst (merge_pass xs))) + snd (merge_pass xs) \<le> length xs"
proof (induction xs rule: length_induct)
  case (1 xs)
  show ?case
  proof (cases xs rule: merge_pass.cases)
    case (3 x y zs)
    then have "length (filter nonzero (fst (merge_pass zs))) + snd (merge_pass zs) \<le> length zs"
      and "length (filter nonzero (fst (merge_pass (y # zs)))) + snd (merge_pass (y # zs)) \<le> Suc (length zs)"
      using 1[rule_format, of zs] 1[rule_format, of "y # zs"] by auto
    then show ?thesis
      using 3 by (auto simp: merge_pass_empty_head case_prod_beta)
  qed simp_all
qed

lemma coalesque_unfold:
  assumes "sg_linked b" and "b \<noteq> []" and "length b < 2 ^ 64"
    and "\<forall>n. fst (sys_alloc E n (world s))"
  defines "m \<equiv> snd (merge_pass b)" and "f \<equiv> filter nonzero (fst (merge_pass b))"
  shows "m = 0 \<Longrightarrow> DMABuffer_coalesqueSGlist E (Some b) s = Some (PDA_SUCCESS, Some b, s)"
    and "m \<noteq> 0 \<Longrightarrow> \<exists>w. DMABuffer_coalesqueSGlist E (Some b) s =
      (if length f + m = length b
       then DMABuffer_coalesqueSGlist E (Some (sg_relink 0 (length f) f)) (s\<lparr>world := w\<rparr>)
       else Some (not_PDA_SUCCESS, Some (fst (merge_pass b)), s\<lparr>world := w\<rparr>))"
proof -
  have le: "length f + m \<le> length b"
    unfolding m_def f_def by (rule merge_pass_count)
  have cnt: "sg_count b (Some 0) 0 = Some (of_nat (length b))"
    using sg_count_linked[OF assms(1), of 0 0] assms(2) by simp
  have mrg: "sg_merge b (Some 0) (of_nat (length b)) = Some (fst (merge_pass b), of_nat (length b - m))"
    using sg_merge_linked[OF assms(1), of 0] assms(2) le by (simp add: m_def)
  have same: "of_nat (length b) = (of_nat (length b - m) :: u64) \<longleftrightarrow> m = 0"
    using le assms(3) by (subst of_nat_word_eq) auto
  show "m = 0 \<Longrightarrow> DMABuffer_coalesqueSGlist E (Some b) s = Some (PDA_SUCCESS, Some b, s)"
    using cnt mrg merge_pass_none[of b] by (subst DMABuffer_coalesqueSGlist.simps) (simp add: m_def)
  have u: "unat (of_nat (length b - m) :: u64) = length b - m"
    using assms(3) by (simp add: unat_of_nat)
  have cpy: "sg_copy (fst (merge_pass b)) (Some 0) (replicate (length b - m) zero_node) 0
      = Some (f @ replicate (length b - m - length f) zero_node, of_nat (length f))"
    using sg_copy_linked[OF sg_linked_merge_pass[OF assms(1)], of 0 0 "replicate (length b - m) zero_node"]
      le assms(2,3) by (simp add: f_def)
  have eq: "of_nat (length f) = (of_nat (length b - m) :: u64) \<longleftrightarrow> length f + m = length b"
    using le assms(3) by (subst of_nat_word_eq) auto
  assume "m \<noteq> 0"
  then show "\<exists>w. DMABuffer_coalesqueSGlist E (Some b) s =
      (if length f + m = length b
       then DMABuffer_coalesqueSGlist E (Some (sg_relink 0 (length f) f)) (s\<lparr>world := w\<rparr>)
       else Some (not_PDA_SUCCESS, Some (fst (merge_pass b)), s\<lparr>world := w\<rparr>))"
    using cnt mrg same u cpy eq c_alloc_ok[of E _ s] assms(4)
    by (subst DMABuffer_coalesqueSGlist.simps) (auto simp: unat_of_nat take_bit_nat_eq_self)
qed

lemma coalesque_glue:
  assumes alloc: "\<forall>n w. fst (sys_alloc E n w)" and "sg_wf b"
  shows "\<exists>b' w. DMABuffer_coalesqueSGlist E (Some b) s = Some (PDA_SUCCESS, Some b', s\<lparr>world := w\<rparr>)
    \<and> sg_wf b' \<and> map sg_core b' = map sg_core (sg_glue b)"
  using assms(2)
proof (induction "length b" arbitrary: b s rule: less_induct)
  case less
  let ?p = "pair_merge b"
  let ?r = "sg_relink 0 (length ?p) ?p"
  have pm: "filter nonzero (fst (merge_pass b)) = ?p" "length ?p + snd (merge_pass b) = length b"
    using pair_merge_pass[of b] less.prems by (auto simp: sg_wf_def)
  have wf: "sg_linked b" "b \<noteq> []" "length b < 2 ^ 64"
    using less.prems sg_wf_length by (auto simp: sg_wf_def)
  have al: "\<forall>n. fst (sys_alloc E n (world s))"
    using alloc by simp
  show ?case
  proof (cases "snd (merge_pass b) = 0")
    case True
    then have "sg_glue b = b"
      using pm pair_merge_fixed[of b] sg_glue_id by simp
    with coalesque_unfold(1)[OF wf al True] less.prems show ?thesis
      by (auto intro!: exI[of _ "world s"])
  next
    case False
    then obtain w where "DMABuffer_coalesqueSGlist E (Some b) s =
        DMABuffer_coalesqueSGlist E (Some ?r) (s\<lparr>world := w\<rparr>)"
      using coalesque_unfold(2)[OF wf al] pm by auto
    moreover have "length ?r < length b"
      using False pm sg_relink_all(1)[of ?p] by simp
    moreover have "map sg_core (sg_glue ?r) = map sg_core (sg_glue b)"
      using sg_glue_core[OF sg_relink_all(3)[of ?p]] by (simp add: sg_glue_pair_merge)
    ultimately show ?thesis
      using less.hyps[of ?r "s\<lparr>world := w\<rparr>"] sg_wf_relink_pair_merge[OF less.prems] by auto
  qed
qed

lemma merge_pass_less: "xs \<noteq> [] \<Longrightarrow> snd (merge_pass xs) < length xs"
  by (induction xs rule: merge_pass.induct) (auto split: prod.splits)

lemma coalesque_defined:
  assumes alloc: "\<forall>n w. fst (sys_alloc E n w)"
    and "sg_linked b" and "b \<noteq> []" and "length b < 2 ^ 64"
  shows "\<exists>ret b' w. DMABuffer_coalesqueSGlist E (Some b) s = Some (ret, Some b', s\<lparr>world := w\<rparr>)
    \<and> (ret = PDA_SUCCESS \<or> ret = not_PDA_SUCCESS) \<and> length b' \<le> length b"
  using assms(2-)
proof (induction "length b" arbitrary: b s rule: less_induct)
  case less
  let ?m = "snd (merge_pass b)" and ?f = "filter nonzero (fst (merge_pass b))"
  let ?r = "sg_relink 0 (length ?f) ?f"
  have al: "\<forall>n. fst (sys_alloc E n (world s))"
    using alloc by simp
  note unf = coalesque_unfold[OF less.prems al]
  show ?case
  proof (cases "?m \<noteq> 0 \<and> length ?f + ?m = length b")
    case True
    then obtain w where w: "DMABuffer_coalesqueSGlist E (Some b) s =
        DMABuffer_coalesqueSGlist E (Some ?r) (s\<lparr>world := w\<rparr>)"
      using unf(2) by auto
    have "?m < length b"
      by (rule merge_pass_less[OF less.prems(2)])
    then have r: "length ?r < length b" "?r \<noteq> []" "sg_linked ?r"
      using True sg_relink_all[of ?f] by auto
    then show ?thesis
      using w less.hyps[of ?r "s\<lparr>world := w\<rparr>"] less.prems(3) by fastforce
  next
    case False
    then consider "?m = 0" | "?m \<noteq> 0" "length ?f + ?m \<noteq> length b" by blast
    then show ?thesis
    proof cases
      case 1
      with unf(1) show ?thesis by (auto intro!: exI[of _ "world s"])
    next
      case 2
      with unf(2) show ?thesis by auto
    qed
  qed
qed

section \<open>What the device sees\<close>

text \<open>
  The bytes of a node: pairs of the user-space address and the device address of each byte. A list
  translates user addresses to device addresses by the concatenation of its nodes.
\<close>

definition sg_bytes :: "DMABuffer_SGNode \<Rightarrow> (u64 \<times> u64) list" where
  "sg_bytes nd =
     map (\<lambda>k. (u_pointer nd + of_nat k, d_pointer nd + of_nat k)) [0..<unat (sg_length nd)]"

definition sg_translation :: "sgblock \<Rightarrow> (u64 \<times> u64) list" where
  "sg_translation b = concat (map sg_bytes b)"

text \<open>The user-space side is contiguous from \<open>a\<close>, as \<open>DMABuffer_loadSGList\<close> lays it out.\<close>

fun u_contiguous :: "u64 \<Rightarrow> sgblock \<Rightarrow> bool" where
  "u_contiguous a [] = True"
| "u_contiguous a (nd # nds) = (u_pointer nd = a \<and> u_contiguous (a + sg_length nd) nds)"

lemma sg_bytes_append:
  assumes "u_pointer y = u_pointer x + sg_length x" and "d_pointer y = d_pointer x + sg_length x"
    and "unat (sg_length x) + unat (sg_length y) < 2 ^ 64"
  shows "sg_bytes (x\<lparr>sg_length := sg_length x + sg_length y\<rparr>) = sg_bytes x @ sg_bytes y"
proof -
  have l: "unat (sg_length x + sg_length y) = unat (sg_length x) + unat (sg_length y)"
    using assms(3) by (intro unat_add_no_wrap) simp
  have "[0..<unat (sg_length x) + unat (sg_length y)]
      = [0..<unat (sg_length x)] @ [unat (sg_length x)..<unat (sg_length x) + unat (sg_length y)]"
    by (rule upt_add_eq_append) simp
  then show ?thesis
    using assms(1,2) by (simp add: sg_bytes_def l map_upt_shift add.assoc)
qed

lemma sg_glue_total: "sg_total xs < 2 ^ 64 \<Longrightarrow> sg_total (sg_glue xs) = sg_total xs"
proof (induction xs)
  case (Cons x xs)
  then have IH: "sg_total (sg_glue xs) = sg_total xs" by (simp add: sg_total_def)
  show ?case
  proof (cases "sg_glue xs")
    case (Cons y ys)
    then have "unat (sg_length x + sg_length y) = unat (sg_length x) + unat (sg_length y)"
      using Cons.prems IH by (intro unat_add_no_wrap) (simp add: sg_total_def)
    with Cons IH show ?thesis by (simp add: sg_total_def)
  qed (use IH in \<open>simp add: sg_total_def\<close>)
qed simp

lemma sg_glue_translation:
  assumes "sg_total xs < 2 ^ 64" and "u_contiguous a xs"
  shows "u_contiguous a (sg_glue xs) \<and> sg_translation (sg_glue xs) = sg_translation xs"
  using assms
proof (induction xs arbitrary: a)
  case (Cons x xs)
  then have tot: "sg_total (sg_glue xs) + unat (sg_length x) < 2 ^ 64"
    using sg_glue_total[of xs] by (simp add: sg_total_def)
  have IH: "u_contiguous (a + sg_length x) (sg_glue xs)" "sg_translation (sg_glue xs) = sg_translation xs"
    and a: "u_pointer x = a"
    using Cons.IH[of "a + sg_length x"] Cons.prems by (auto simp: sg_total_def)
  show ?case
  proof (cases "sg_glue xs")
    case (Cons y ys)
    then have "\<not> apart x y \<Longrightarrow>
        sg_bytes (x\<lparr>sg_length := sg_length x + sg_length y\<rparr>) = sg_bytes x @ sg_bytes y"
      using IH(1) a tot by (intro sg_bytes_append) (simp_all add: sg_total_def)
    then show ?thesis
      using Cons IH a by (auto simp: sg_translation_def add.assoc)
  qed (use IH a in \<open>simp add: sg_translation_def\<close>)
qed (simp add: sg_translation_def)

lemma core_translation:
  assumes "map sg_core xs = map sg_core ys"
  shows "sg_translation xs = sg_translation ys" and "u_contiguous a xs = u_contiguous a ys"
    and "successively apart xs = successively apart ys"
proof -
  have "map sg_bytes xs = map sg_bytes ys \<and> (\<forall>a. u_contiguous a xs = u_contiguous a ys) \<and>
      successively apart xs = successively apart ys"
    using assms
  proof (induction xs arbitrary: ys)
    case (Cons x xs)
    then obtain y ys' where ys: "ys = y # ys'" "sg_core x = sg_core y" "map sg_core xs = map sg_core ys'"
      by (cases ys) auto
    with Cons.IH[of ys'] show ?case
      by (cases xs; cases ys') (auto simp: sg_core_eq sg_bytes_def)
  qed simp
  then show "sg_translation xs = sg_translation ys" "u_contiguous a xs = u_contiguous a ys"
    "successively apart xs = successively apart ys"
    by (simp_all add: sg_translation_def)
qed

text \<open>
  C12. Coalescing a scatter/gather list ends, reads and writes inside its blocks, succeeds, and its
  result is exactly the list of maximal runs of device-contiguous entries: the repeated pairwise
  merging of the code equals the single right-to-left gluing \<open>sg_glue\<close>, relinked.
\<close>

theorem coalesque_equals_glue:
  assumes "\<forall>n w. fst (sys_alloc E n w)" and "sg_wf b"
  shows "\<exists>b' w. DMABuffer_coalesqueSGlist E (Some b) s = Some (PDA_SUCCESS, Some b', s\<lparr>world := w\<rparr>)
    \<and> sg_linked b' \<and> map sg_core b' = map sg_core (sg_glue b)"
  using coalesque_glue[OF assms, of s] unfolding sg_wf_def by blast

text \<open>
  C9. Coalescing preserves the translation: every byte of the buffer keeps its user-space and its
  device address, in the same order, and no two neighbouring entries of the result could be
  merged any further.
\<close>

theorem coalesque_preserves_translation:
  assumes "\<forall>n w. fst (sys_alloc E n w)" and "sg_wf b" and "u_contiguous a b"
  shows "\<exists>b' s'. DMABuffer_coalesqueSGlist E (Some b) s = Some (PDA_SUCCESS, Some b', s')
    \<and> sg_translation b' = sg_translation b \<and> u_contiguous a b' \<and> successively apart b'"
proof -
  obtain b' w where b': "DMABuffer_coalesqueSGlist E (Some b) s = Some (PDA_SUCCESS, Some b', s\<lparr>world := w\<rparr>)"
    "map sg_core b' = map sg_core (sg_glue b)"
    using coalesque_glue[OF assms(1,2)] by blast
  have "u_contiguous a (sg_glue b)" "sg_translation (sg_glue b) = sg_translation b"
    using sg_glue_translation[of b a] assms(2,3) by (auto simp: sg_wf_def)
  then show ?thesis
    using b' core_translation[OF b'(2)] sg_glue_apart[of b] by auto
qed

subsection \<open>Witnesses\<close>

text \<open>Four pages, the first three contiguous on the device.\<close>

definition sg_example :: sgblock where
  "sg_example =
    [\<lparr>sg_length = 4096, u_pointer = 0x10000, d_pointer = 0x1000, k_pointer = 1,
      sg_next = Some 1, sg_prev = None\<rparr>,
     \<lparr>sg_length = 4096, u_pointer = 0x11000, d_pointer = 0x2000, k_pointer = 2,
      sg_next = Some 2, sg_prev = Some 0\<rparr>,
     \<lparr>sg_length = 4096, u_pointer = 0x12000, d_pointer = 0x3000, k_pointer = 3,
      sg_next = Some 3, sg_prev = Some 1\<rparr>,
     \<lparr>sg_length = 4096, u_pointer = 0x13000, d_pointer = 0x8000, k_pointer = 4,
      sg_next = None, sg_prev = Some 2\<rparr>]"

lemma calm_env_alloc: "\<forall>n w. fst (sys_alloc calm_env n w)"
  by (simp add: calm_env_def)

lemma sg_example_linked: "sg_linked sg_example"
  by (simp add: sg_linked_def sg_example_def idx_ptr_def All_less_Suc)

lemma sg_example_wf: "sg_wf sg_example" "u_contiguous 0x10000 sg_example"
  using sg_example_linked by (simp_all add: sg_wf_def sg_example_def sg_total_def)

theorem coalesque_equals_glue_witness:
  "\<exists>b' w. DMABuffer_coalesqueSGlist calm_env (Some sg_example) calm_cstate
      = Some (PDA_SUCCESS, Some b', calm_cstate\<lparr>world := w\<rparr>)
    \<and> sg_linked b' \<and> map sg_core b' = [(12288, 0x10000, 0x1000, 1), (4096, 0x13000, 0x8000, 4)]"
proof -
  have "map sg_core (sg_glue sg_example) = [(12288, 0x10000, 0x1000, 1), (4096, 0x13000, 0x8000, 4)]"
    by (simp add: sg_example_def sg_core_def)
  then show ?thesis
    using coalesque_equals_glue[OF calm_env_alloc sg_example_wf(1), of calm_cstate] by simp
qed

theorem coalesque_preserves_translation_witness:
  "\<exists>b' s'. DMABuffer_coalesqueSGlist calm_env (Some sg_example) calm_cstate = Some (PDA_SUCCESS, Some b', s')
    \<and> sg_translation b' = sg_translation sg_example \<and> u_contiguous 0x10000 b' \<and> successively apart b'"
  by (rule coalesque_preserves_translation[OF calm_env_alloc sg_example_wf])

end
