(* ===== verification/PDA_BufferList.thy ===== *)
theory PDA_BufferList
  imports PDA_SGList
begin

text \<open>
  The buffer object \<open>struct DMABuffer_struct\<close> and the doubly linked list of the buffers of a
  device (\<open>src/dma_buffer.c\<close>): \<open>getHead\<close>, \<open>getTail\<close>, \<open>addNode\<close>, \<open>removeNode\<close>, \<open>delete\<close> and the
  getters. Buffers live in a heap, a partial map from addresses; an access to an address that is
  not allocated is undefined behaviour, which is \<open>None\<close>, and so is a loop that does not end.

  \<open>dll h xs\<close> says that the heap holds the list of the addresses \<open>xs\<close>. The locale
  \<open>buffer_store\<close> is the contract of the list towards its clients: what \<open>getTail\<close>, adding and
  removing do to \<open>xs\<close>, and that they leave every other field of every buffer alone.
\<close>

section \<open>Buffer objects\<close>

datatype pda_buffer_type = PDA_BUFFER_KERNEL | PDA_BUFFER_USER | PDA_BUFFER_LOOKUP

record DMABufferInternal =
  alloc_fd :: int
  map_fd :: int
  sg_fd :: int
  name :: string
  uio_filepath_request :: string
  uio_filepath_delete :: string
  uio_filepath_map :: string
  uio_filepath_sg :: string
  uio_filepath_folder :: string

record DMABuffer =
  buf_device :: ptr
  buf_type :: pda_buffer_type
  buf_index :: u64
  buf_length :: u64
  buf_map :: u64
  map_two :: u64
  sglist :: "sgblock option"
  buf_next :: ptr
  buf_prev :: ptr
  internal :: "DMABufferInternal option"

type_synonym buf_heap = "addr \<rightharpoonup> DMABuffer"

text \<open>A field update through a pointer.\<close>

definition heap_upd :: "addr \<Rightarrow> (DMABuffer \<Rightarrow> DMABuffer) \<Rightarrow> buf_heap \<Rightarrow> buf_heap option" where
  "heap_upd a f h = (case h a of None \<Rightarrow> None | Some b \<Rightarrow> Some (h(a \<mapsto> f b)))"

section \<open>List operations\<close>

partial_function (option) getHead_loop :: "buf_heap \<Rightarrow> addr \<Rightarrow> addr \<Rightarrow> addr option" where
  "getHead_loop h tmp ret =
     (case h tmp of
        None \<Rightarrow> None
      | Some b \<Rightarrow> (case buf_prev b of None \<Rightarrow> Some ret | Some p \<Rightarrow> getHead_loop h p p))"

declare getHead_loop.simps [code]

definition DMABuffer_getHead :: "buf_heap \<Rightarrow> ptr \<Rightarrow> ptr option" where
  "DMABuffer_getHead h buffer =
     (case buffer of None \<Rightarrow> Some None | Some a \<Rightarrow> map_option Some (getHead_loop h a a))"

partial_function (option) getTail_loop :: "buf_heap \<Rightarrow> addr \<Rightarrow> addr \<Rightarrow> addr option" where
  "getTail_loop h tmp ret =
     (case h tmp of
        None \<Rightarrow> None
      | Some b \<Rightarrow> (case buf_next b of None \<Rightarrow> Some ret | Some n \<Rightarrow> getTail_loop h n n))"

declare getTail_loop.simps [code]

definition DMABuffer_getTail :: "buf_heap \<Rightarrow> ptr \<Rightarrow> ptr option" where
  "DMABuffer_getTail h buffer =
     (case buffer of None \<Rightarrow> Some None | Some a \<Rightarrow> map_option Some (getTail_loop h a a))"

text \<open>The result is \<open>*list_head\<close> and the heap afterwards.\<close>

definition DMABuffer_addNode :: "ptr \<Rightarrow> ptr \<Rightarrow> buf_heap \<Rightarrow> (ptr \<times> buf_heap) option" where
  "DMABuffer_addNode list_head buffer h =
     (case buffer of
        None \<Rightarrow> Some (list_head, h)
      | Some a \<Rightarrow>
          Option.bind (heap_upd a (\<lambda>b. b\<lparr>buf_next := None, buf_prev := None\<rparr>) h) (\<lambda>h1.
            if list_head = None then Some (Some a, h1)
            else Option.bind (DMABuffer_getTail h1 list_head) (\<lambda>tail.
              case tail of
                None \<Rightarrow> None
              | Some t \<Rightarrow>
                  Option.bind (heap_upd t (\<lambda>b. b\<lparr>buf_next := Some a\<rparr>) h1) (\<lambda>h2.
                  Option.bind (heap_upd a (\<lambda>b. b\<lparr>buf_prev := Some t\<rparr>) h2) (\<lambda>h3.
                    Some (list_head, h3))))))"

text \<open>The three independent conditionals of the code, each reading the links again.\<close>

definition unlink_middle :: "addr \<Rightarrow> buf_heap \<Rightarrow> buf_heap option" where
  "unlink_middle a h =
     Option.bind (h a) (\<lambda>b.
       case (buf_prev b, buf_next b) of
         (Some p, Some n) \<Rightarrow>
           Option.bind (heap_upd p (\<lambda>x. x\<lparr>buf_next := Some n\<rparr>) h) (\<lambda>h1.
             heap_upd n (\<lambda>x. x\<lparr>buf_prev := Some p\<rparr>) h1)
       | _ \<Rightarrow> Some h)"

definition unlink_first :: "addr \<Rightarrow> buf_heap \<Rightarrow> buf_heap option" where
  "unlink_first a h =
     Option.bind (h a) (\<lambda>b.
       case (buf_prev b, buf_next b) of
         (None, Some n) \<Rightarrow> heap_upd n (\<lambda>x. x\<lparr>buf_prev := None\<rparr>) h
       | _ \<Rightarrow> Some h)"

definition unlink_last :: "addr \<Rightarrow> buf_heap \<Rightarrow> buf_heap option" where
  "unlink_last a h =
     Option.bind (h a) (\<lambda>b.
       case (buf_prev b, buf_next b) of
         (Some p, None) \<Rightarrow> heap_upd p (\<lambda>x. x\<lparr>buf_next := None\<rparr>) h
       | _ \<Rightarrow> Some h)"

definition DMABuffer_removeNode :: "addr \<Rightarrow> buf_heap \<Rightarrow> buf_heap option" where
  "DMABuffer_removeNode buffer h =
     Option.bind (unlink_middle buffer h) (\<lambda>h1.
     Option.bind (unlink_first buffer h1) (\<lambda>h2.
     unlink_last buffer h2))"

text \<open>\<open>free(buffer)\<close>: an object that is not allocated must not be freed.\<close>

definition heap_free :: "addr \<Rightarrow> buf_heap \<Rightarrow> buf_heap option" where
  "heap_free a h = (case h a of None \<Rightarrow> None | Some _ \<Rightarrow> Some (h(a := None)))"

text \<open>\<open>DMABuffer_removeNode(buffer); free(buffer);\<close> as \<open>DMABuffer_free\<close> ends, on both of its paths.\<close>

definition DMABuffer_release :: "addr \<Rightarrow> buf_heap \<Rightarrow> buf_heap option" where
  "DMABuffer_release buffer h = Option.bind (DMABuffer_removeNode buffer h) (heap_free buffer)"

text \<open>The unlinking \<open>DMABuffer_delete\<close> does itself, on the links of the buffer \<open>b\<close> it deletes.\<close>

definition delete_unlink :: "DMABuffer \<Rightarrow> buf_heap \<Rightarrow> buf_heap option" where
  "delete_unlink b h =
     (case (buf_prev b, buf_next b) of
        (Some p, Some n) \<Rightarrow>
          Option.bind (heap_upd p (\<lambda>x. x\<lparr>buf_next := Some n\<rparr>) h) (\<lambda>h1.
            heap_upd n (\<lambda>x. x\<lparr>buf_prev := Some p\<rparr>) h1)
      | (Some p, None) \<Rightarrow> heap_upd p (\<lambda>x. x\<lparr>buf_next := None\<rparr>) h
      | (None, Some n) \<Rightarrow> heap_upd n (\<lambda>x. x\<lparr>buf_prev := None\<rparr>) h
      | (None, None) \<Rightarrow> Some h)"

definition DMABuffer_delete :: "ptr \<Rightarrow> buf_heap \<Rightarrow> (PdaDebugReturnCode \<times> buf_heap) option" where
  "DMABuffer_delete buffer h =
     (case buffer of
        None \<Rightarrow> Some (PDA_SUCCESS, h)
      | Some a \<Rightarrow>
          Option.bind (heap_upd a (\<lambda>b. b\<lparr>sglist := None\<rparr>) h) (\<lambda>h1.
          Option.bind (h1 a) (\<lambda>b.
          Option.bind (delete_unlink b h1) (\<lambda>h2.
            map_option (\<lambda>h3. (PDA_SUCCESS, h3)) (heap_free a h2)))))"

text \<open>
  The getters of the macro \<open>DMA_BUFFER_GET_FUNCTION\<close>: \<open>EINVAL\<close> and no result for \<open>NULL\<close>, otherwise
  the field.
\<close>

definition DMA_BUFFER_GET_FUNCTION ::
  "(DMABuffer \<Rightarrow> 'a) \<Rightarrow> buf_heap \<Rightarrow> ptr \<Rightarrow> (PdaDebugReturnCode \<times> 'a option) option" where
  "DMA_BUFFER_GET_FUNCTION attr h buffer =
     (case buffer of
        None \<Rightarrow> Some (EINVAL, None)
      | Some a \<Rightarrow> (case h a of None \<Rightarrow> None | Some b \<Rightarrow> Some (PDA_SUCCESS, Some (attr b))))"

definition DMABuffer_getNext :: "buf_heap \<Rightarrow> ptr \<Rightarrow> (PdaDebugReturnCode \<times> ptr option) option" where
  "DMABuffer_getNext = DMA_BUFFER_GET_FUNCTION buf_next"

definition DMABuffer_getPrev :: "buf_heap \<Rightarrow> ptr \<Rightarrow> (PdaDebugReturnCode \<times> ptr option) option" where
  "DMABuffer_getPrev = DMA_BUFFER_GET_FUNCTION buf_prev"

definition DMABuffer_getMap :: "buf_heap \<Rightarrow> ptr \<Rightarrow> (PdaDebugReturnCode \<times> u64 option) option" where
  "DMABuffer_getMap = DMA_BUFFER_GET_FUNCTION buf_map"

definition DMABuffer_getMapTwo :: "buf_heap \<Rightarrow> ptr \<Rightarrow> (PdaDebugReturnCode \<times> u64 option) option" where
  "DMABuffer_getMapTwo = DMA_BUFFER_GET_FUNCTION map_two"

definition DMABuffer_getLength :: "buf_heap \<Rightarrow> ptr \<Rightarrow> (PdaDebugReturnCode \<times> u64 option) option" where
  "DMABuffer_getLength = DMA_BUFFER_GET_FUNCTION buf_length"

definition DMABuffer_getIndex :: "buf_heap \<Rightarrow> ptr \<Rightarrow> (PdaDebugReturnCode \<times> u64 option) option" where
  "DMABuffer_getIndex = DMA_BUFFER_GET_FUNCTION buf_index"

section \<open>Doubly linked lists in the heap\<close>

fun first_or :: "ptr \<Rightarrow> addr list \<Rightarrow> ptr" where
  "first_or n [] = n"
| "first_or n (x # xs) = Some x"

fun last_or :: "ptr \<Rightarrow> addr list \<Rightarrow> ptr" where
  "last_or p [] = p"
| "last_or p (x # xs) = last_or (Some x) xs"

fun dseg :: "buf_heap \<Rightarrow> ptr \<Rightarrow> addr list \<Rightarrow> ptr \<Rightarrow> bool" where
  "dseg h p [] n = True"
| "dseg h p (x # xs) n =
     ((\<exists>b. h x = Some b \<and> buf_prev b = p \<and> buf_next b = first_or n xs) \<and> dseg h (Some x) xs n)"

definition dll :: "buf_heap \<Rightarrow> addr list \<Rightarrow> bool" where
  "dll h xs \<longleftrightarrow> distinct xs \<and> dseg h None xs None"

abbreviation head_ptr :: "addr list \<Rightarrow> ptr" where
  "head_ptr xs \<equiv> first_or None xs"

text \<open>A buffer without its links, and heaps that agree up to links.\<close>

definition payload :: "DMABuffer \<Rightarrow> DMABuffer" where
  "payload b = b\<lparr>buf_next := None, buf_prev := None\<rparr>"

definition same_payload :: "buf_heap \<Rightarrow> buf_heap \<Rightarrow> bool" where
  "same_payload h h' \<longleftrightarrow> (\<forall>a. map_option payload (h' a) = map_option payload (h a))"

section \<open>Segments\<close>

lemma first_or_append [simp]: "first_or n (xs @ ys) = first_or (first_or n ys) xs"
  by (cases xs) auto

lemma last_or_append [simp]: "last_or p (xs @ ys) = last_or (last_or p xs) ys"
  by (induction xs arbitrary: p) auto

lemma last_or_last: "xs \<noteq> [] \<Longrightarrow> last_or p xs = Some (last xs)"
  by (induction xs arbitrary: p) auto

lemma dseg_append [simp]:
  "dseg h p (xs @ ys) n \<longleftrightarrow> dseg h p xs (first_or n ys) \<and> dseg h (last_or p xs) ys n"
  by (induction xs arbitrary: p) auto

lemma dseg_frame: "a \<notin> set xs \<Longrightarrow> dseg (h(a := v)) p xs n \<longleftrightarrow> dseg h p xs n"
  by (induction xs arbitrary: p) auto

lemma dseg_dom: "dseg h p xs n \<Longrightarrow> set xs \<subseteq> dom h"
  by (induction xs arbitrary: p) auto

lemma dseg_set_last:
  assumes "dseg h p (xs @ [a]) m" and "a \<notin> set xs" and "h a = Some b"
  shows "dseg (h(a \<mapsto> b\<lparr>buf_next := n\<rparr>)) p (xs @ [a]) n"
  using assms by (simp add: dseg_frame)

lemma dseg_set_first:
  assumes "dseg h p (a # xs) n" and "a \<notin> set xs" and "h a = Some b"
  shows "dseg (h(a \<mapsto> b\<lparr>buf_prev := q\<rparr>)) q (a # xs) n"
  using assms by (auto simp: dseg_frame)

lemma same_payload_refl [simp]: "same_payload h h"
  by (simp add: same_payload_def)

lemma same_payload_trans: "same_payload h h1 \<Longrightarrow> same_payload h1 h2 \<Longrightarrow> same_payload h h2"
  by (simp add: same_payload_def)

lemma same_payload_next: "h a = Some b \<Longrightarrow> same_payload h (h(a \<mapsto> b\<lparr>buf_next := n\<rparr>))"
  and same_payload_prev: "h a = Some b \<Longrightarrow> same_payload h (h(a \<mapsto> b\<lparr>buf_prev := n\<rparr>))"
  by (auto simp: same_payload_def payload_def)

lemma heap_upd_Some [simp]: "h a = Some b \<Longrightarrow> heap_upd a f h = Some (h(a \<mapsto> f b))"
  by (simp add: heap_upd_def)

section \<open>What the list operations do\<close>

declare getHead_loop.simps [heap_simps] getTail_loop.simps [heap_simps]

lemma getTail_loop_last: "dseg h p (x # xs) None \<Longrightarrow> getTail_loop h x r = Some (if xs = [] then r else last xs)"
proof (induction xs arbitrary: x p r)
  case Nil
  then show ?case by (auto simp: getTail_loop.simps)
next
  case (Cons y ys)
  then obtain b where b: "h x = Some b" "buf_next b = Some y" "dseg h (Some x) (y # ys) None"
    by auto
  with Cons.IH[OF b(3)] show ?case
    by (simp add: getTail_loop.simps[of h x])
qed

lemma DMABuffer_getTail_dseg: "dseg h p (x # xs) None \<Longrightarrow> DMABuffer_getTail h (Some x) = Some (Some (last (x # xs)))"
  by (simp add: DMABuffer_getTail_def getTail_loop_last)

lemma getHead_loop_first: "dseg h None (xs @ [x]) n \<Longrightarrow> getHead_loop h x r = Some (if xs = [] then r else hd xs)"
proof (induction xs arbitrary: x r n rule: rev_induct)
  case Nil
  then show ?case by (auto simp: getHead_loop.simps)
next
  case (snoc y ys)
  then obtain b where b: "h x = Some b" "buf_prev b = Some y" "dseg h None (ys @ [y]) (Some x)"
    by auto
  with snoc.IH[OF b(3)] show ?case
    by (simp add: getHead_loop.simps[of h x] hd_append)
qed

lemma DMABuffer_getHead_dll:
  assumes "dll h (xs @ x # ys)"
  shows "DMABuffer_getHead h (Some x) = Some (head_ptr (xs @ x # ys))"
proof -
  have "dseg h None (xs @ [x]) (first_or None ys)"
    using assms by (simp add: dll_def)
  from getHead_loop_first[OF this] show ?thesis
    by (cases xs) (simp_all add: DMABuffer_getHead_def)
qed

text \<open>Appending a fresh buffer.\<close>

lemma DMABuffer_addNode_dll:
  assumes xs: "dll h xs" and a: "a \<notin> set xs" "h a = Some b"
  shows "\<exists>h'. DMABuffer_addNode (head_ptr xs) (Some a) h = Some (head_ptr (xs @ [a]), h')
    \<and> dll h' (xs @ [a]) \<and> same_payload h h'"
proof (cases xs rule: rev_cases)
  case Nil
  with a show ?thesis
    by (auto simp: DMABuffer_addNode_def dll_def same_payload_def payload_def)
next
  case (snoc ys t)
  define h1 where "h1 = h(a \<mapsto> b\<lparr>buf_next := None, buf_prev := None\<rparr>)"
  have seg: "dseg h1 None (ys @ [t]) None"
    using xs a snoc by (simp add: dll_def h1_def dseg_frame)
  obtain x zs where x: "ys @ [t] = x # zs" "last (x # zs) = t"
    by (metis append_is_Nil_conv last_snoc list.exhaust not_Cons_self2)
  have tail: "DMABuffer_getTail h1 (Some x) = Some (Some t)"
    using DMABuffer_getTail_dseg[of h1 None x zs] seg x by simp
  obtain bt where bt: "h t = Some bt" "t \<noteq> a" "t \<notin> set ys"
    using xs a snoc by (auto simp: dll_def)
  define h3 where "h3 = h(a \<mapsto> b\<lparr>buf_next := None, buf_prev := Some t\<rparr>, t \<mapsto> bt\<lparr>buf_next := Some a\<rparr>)"
  have "DMABuffer_addNode (head_ptr xs) (Some a) h = Some (Some x, h3)"
    using tail bt a snoc x
    by (simp add: DMABuffer_addNode_def h1_def[symmetric] h3_def del: last.simps) (simp add: h1_def fun_upd_twist)
  moreover have "dll h3 (xs @ [a])"
    using xs snoc a bt by (auto simp: dll_def h3_def dseg_frame)
  moreover have "same_payload h h3"
    using a bt by (auto simp: same_payload_def payload_def h3_def)
  ultimately show ?thesis
    using snoc x by simp
qed

text \<open>Unlinking the buffer \<open>a\<close> from a list in which \<open>xs\<close> precede and \<open>ys\<close> follow it.\<close>

definition unlinked :: "buf_heap \<Rightarrow> addr list \<Rightarrow> addr \<Rightarrow> addr list \<Rightarrow> buf_heap \<Rightarrow> bool" where
  "unlinked h xs a ys h' \<longleftrightarrow> dll h' (xs @ ys) \<and> h' a = h a \<and> same_payload h h'"

lemma unlinked_ends:
  assumes "dll h (xs @ a # ys)"
  shows "xs = [] \<Longrightarrow> ys = [] \<Longrightarrow> unlinked h xs a ys h"
    and "xs = [] \<Longrightarrow> ys = n # ys' \<Longrightarrow> h n = Some bn \<Longrightarrow>
      unlinked h xs a ys (h(n \<mapsto> bn\<lparr>buf_prev := None\<rparr>))"
    and "xs = xs' @ [p] \<Longrightarrow> ys = [] \<Longrightarrow> h p = Some bp \<Longrightarrow>
      unlinked h xs a ys (h(p \<mapsto> bp\<lparr>buf_next := None\<rparr>))"
  using assms by (auto simp: unlinked_def dll_def dseg_frame same_payload_next same_payload_prev)

lemma unlinked_middle:
  assumes "dll h ((xs @ [p]) @ a # n # ys)" and "h p = Some bp" and "h n = Some bn"
  shows "unlinked h (xs @ [p]) a (n # ys)
    (h(p \<mapsto> bp\<lparr>buf_next := Some n\<rparr>, n \<mapsto> bn\<lparr>buf_prev := Some p\<rparr>))"
proof -
  have "p \<noteq> n" "a \<noteq> p" "a \<noteq> n"
    using assms(1) by (auto simp: dll_def)
  then show ?thesis
    using assms by (auto simp: unlinked_def dll_def dseg_frame same_payload_def payload_def)
qed

text \<open>\<open>removeNode\<close> and the unlinking in \<open>DMABuffer_delete\<close> have the same effect.\<close>

lemma unlink_total:
  assumes dll: "dll h (xs @ a # ys)"
  obtains b h' where "h a = Some b" and "unlinked h xs a ys h'"
    and "DMABuffer_removeNode a h = Some h'"
    and "delete_unlink b h = Some h'"
proof -
  note defs = DMABuffer_removeNode_def delete_unlink_def unlink_middle_def unlink_first_def unlink_last_def
  obtain b where b: "h a = Some b" "buf_prev b = last_or None xs" "buf_next b = first_or None ys"
    using dll by (auto simp: dll_def)
  consider (none) "xs = []" "ys = []" | (first) n ys' where "xs = []" "ys = n # ys'"
    | (last) xs' p where "xs = xs' @ [p]" "ys = []"
    | (middle) xs' p n ys' where "xs = xs' @ [p]" "ys = n # ys'"
    by (cases xs rule: rev_cases; cases ys) auto
  then show thesis
  proof cases
    case none
    with b unlinked_ends(1)[OF dll] show thesis
      by (intro that[of b h]) (auto simp: defs)
  next
    case first
    then obtain bn where bn: "h n = Some bn" "n \<noteq> a"
      using dll by (auto simp: dll_def)
    with first b unlinked_ends(2)[OF dll first bn(1)] show thesis
      by (intro that[of b]) (auto simp: defs)
  next
    case last
    then obtain bp where bp: "h p = Some bp" "p \<noteq> a"
      using dll by (auto simp: dll_def)
    with last b unlinked_ends(3)[OF dll last bp(1)] show thesis
      by (intro that[of b]) (auto simp: defs)
  next
    case middle
    then obtain bp bn where bpn: "h p = Some bp" "h n = Some bn" "p \<noteq> n" "a \<noteq> p" "a \<noteq> n"
      using dll by (auto simp: dll_def)
    with middle b unlinked_middle[of h xs' p a n ys' bp bn] dll show thesis
      by (intro that[of b "h(p \<mapsto> bp\<lparr>buf_next := Some n\<rparr>, n \<mapsto> bn\<lparr>buf_prev := Some p\<rparr>)"]) (auto simp: defs)
  qed
qed

lemma unlinked_free:
  assumes "unlinked h xs a ys h'" and "a \<notin> set (xs @ ys)"
  shows "dll (h'(a := None)) (xs @ ys)"
    and "x \<noteq> a \<Longrightarrow> map_option payload ((h'(a := None)) x) = map_option payload (h x)"
  using assms by (auto simp: unlinked_def dll_def dseg_frame same_payload_def)

lemma DMABuffer_release_dll:
  assumes "dll h (xs @ a # ys)"
  shows "\<exists>h'. DMABuffer_release a h = Some h' \<and> dll h' (xs @ ys) \<and> h' a = None
    \<and> (\<forall>x. x \<noteq> a \<longrightarrow> map_option payload (h' x) = map_option payload (h x))"
proof -
  obtain b h' where h': "h a = Some b" "unlinked h xs a ys h'" "DMABuffer_removeNode a h = Some h'"
    using unlink_total[OF assms] by metis
  moreover have "a \<notin> set (xs @ ys)" "h' a = Some b"
    using assms h'(1,2) by (auto simp: dll_def unlinked_def)
  ultimately show ?thesis
    using unlinked_free[OF h'(2)] by (auto simp: DMABuffer_release_def heap_free_def)
qed

text \<open>An update of a buffer that keeps its links keeps the list.\<close>

lemma dseg_payload_upd:
  assumes "h a = Some b" and "buf_next b' = buf_next b" and "buf_prev b' = buf_prev b"
  shows "dseg (h(a \<mapsto> b')) p xs n \<longleftrightarrow> dseg h p xs n"
  using assms by (induction xs arbitrary: p) auto

lemma dll_payload_upd:
  assumes "h a = Some b" and "buf_next b' = buf_next b" and "buf_prev b' = buf_prev b"
  shows "dll (h(a \<mapsto> b')) xs \<longleftrightarrow> dll h xs"
  using assms by (simp add: dll_def dseg_payload_upd[of h a b b'])

lemma dll_fresh: "a \<notin> set xs \<Longrightarrow> dll (h(a := v)) xs \<longleftrightarrow> dll h xs"
  by (simp add: dll_def dseg_frame)

lemma dll_links:
  assumes "dll h (xs @ a # ys)"
  obtains b where "h a = Some b" "buf_prev b = last_or None xs" "buf_next b = first_or None ys"
  using assms by (auto simp: dll_def)

section \<open>The contract of a buffer store\<close>

text \<open>
  What the device code relies on: buffers form a sequence, a new one is appended at the end, any
  of them can be released, its successor can be read, and no operation touches the contents of
  another buffer.
\<close>

locale buffer_store =
  fixes repr :: "'h \<Rightarrow> addr list \<Rightarrow> bool"
    and obj :: "'h \<Rightarrow> addr \<Rightarrow> 'o option"
    and add :: "ptr \<Rightarrow> addr \<Rightarrow> 'h \<Rightarrow> (ptr \<times> 'h) option"
    and release :: "addr \<Rightarrow> 'h \<Rightarrow> 'h option"
    and nxt :: "'h \<Rightarrow> addr \<Rightarrow> ptr option"
  assumes repr_distinct: "repr h xs \<Longrightarrow> distinct xs"
    and repr_obj: "repr h xs \<Longrightarrow> a \<in> set xs \<Longrightarrow> obj h a \<noteq> None"
    and add_law: "repr h xs \<Longrightarrow> a \<notin> set xs \<Longrightarrow> obj h a \<noteq> None \<Longrightarrow>
      \<exists>h'. add (head_ptr xs) a h = Some (head_ptr (xs @ [a]), h') \<and> repr h' (xs @ [a]) \<and> obj h' = obj h"
    and release_law: "repr h (xs @ a # ys) \<Longrightarrow>
      \<exists>h'. release a h = Some h' \<and> repr h' (xs @ ys) \<and> obj h' = (obj h)(a := None)"
    and next_law: "repr h (xs @ a # ys) \<Longrightarrow> nxt h a = Some (head_ptr ys)"
begin

lemma release_member:
  assumes "repr h xs" and "a \<in> set xs"
  shows "\<exists>h'. release a h = Some h' \<and> repr h' (remove1 a xs) \<and> obj h' = (obj h)(a := None)"
proof -
  obtain ys zs where xs: "xs = ys @ a # zs" "a \<notin> set ys"
    using split_list_first[OF assms(2)] by blast
  then have "remove1 a xs = ys @ zs"
    by (simp add: remove1_append)
  with release_law[of h ys a zs] assms(1) xs show ?thesis by simp
qed

text \<open>The head of the list after a release, read off before it.\<close>

lemma head_after_release:
  assumes "repr h xs" and "a \<in> set xs"
  shows "(if head_ptr xs = Some a then nxt h a else Some (head_ptr xs)) = Some (head_ptr (remove1 a xs))"
proof (cases xs)
  case Nil
  then show ?thesis using assms by simp
next
  case (Cons x ys)
  then show ?thesis
    using next_law[of h "[]" x ys] assms(1) by (cases "x = a") simp_all
qed

text \<open>Releasing every buffer from the front leaves nothing of the list allocated.\<close>

lemma release_all_law:
  assumes "repr h xs"
  shows "\<exists>h'. foldr (\<lambda>a f g. Option.bind (release a g) f) xs Some h = Some h'
    \<and> repr h' [] \<and> (\<forall>a. obj h' a = (if a \<in> set xs then None else obj h a))"
  using assms
proof (induction xs arbitrary: h)
  case Nil
  then show ?case by simp
next
  case (Cons x xs)
  obtain h1 where h1: "release x h = Some h1" "repr h1 xs" "obj h1 = (obj h)(x := None)"
    using release_law[of h "[]" x xs] Cons.prems by auto
  from Cons.IH[OF h1(2)] h1 show ?case
    by (auto simp: fun_upd_def)
qed

end

definition buf_obj :: "buf_heap \<Rightarrow> addr \<Rightarrow> DMABuffer option" where
  "buf_obj h a = map_option payload (h a)"

definition buf_nxt :: "buf_heap \<Rightarrow> addr \<Rightarrow> ptr option" where
  "buf_nxt h a = Option.bind (DMABuffer_getNext h (Some a)) snd"

lemma same_payload_obj: "same_payload h h' \<longleftrightarrow> buf_obj h' = buf_obj h"
  by (auto simp: same_payload_def buf_obj_def fun_eq_iff)

interpretation bl: buffer_store dll buf_obj "\<lambda>hd a. DMABuffer_addNode hd (Some a)" DMABuffer_release buf_nxt
proof unfold_locales
  fix h xs a
  assume "dll h xs"
  then show "distinct xs" and "a \<in> set xs \<Longrightarrow> buf_obj h a \<noteq> None"
    using dseg_dom[of h None xs None] by (auto simp: dll_def buf_obj_def)
next
  fix h xs a
  assume "dll h xs" "a \<notin> set xs" "buf_obj h a \<noteq> None"
  then show "\<exists>h'. DMABuffer_addNode (head_ptr xs) (Some a) h = Some (head_ptr (xs @ [a]), h')
      \<and> dll h' (xs @ [a]) \<and> buf_obj h' = buf_obj h"
    using DMABuffer_addNode_dll[of h xs a] by (auto simp: same_payload_obj buf_obj_def)
next
  fix h xs a ys
  assume dll: "dll h (xs @ a # ys)"
  then show "\<exists>h'. DMABuffer_release a h = Some h' \<and> dll h' (xs @ ys) \<and> buf_obj h' = (buf_obj h)(a := None)"
    using DMABuffer_release_dll[OF dll] by (auto simp: buf_obj_def fun_eq_iff)
  from dll show "buf_nxt h a = Some (head_ptr ys)"
    by (elim dll_links) (simp add: buf_nxt_def DMABuffer_getNext_def DMA_BUFFER_GET_FUNCTION_def)
qed

section \<open>Properties\<close>

definition fresh_buffer :: DMABuffer where
  "fresh_buffer = \<lparr>buf_device = None, buf_type = PDA_BUFFER_KERNEL, buf_index = 0, buf_length = 4096,
     buf_map = MAP_FAILED, map_two = MAP_FAILED, sglist = None, buf_next = None, buf_prev = None,
     internal = None\<rparr>"

lemma fresh_buffer_links [simp]: "buf_next fresh_buffer = None" "buf_prev fresh_buffer = None"
  by (simp_all add: fresh_buffer_def)

text \<open>
  \<open>DMABuffer_addNode\<close> given the head of a well-formed list and a buffer outside it appends that
  buffer: the head is updated if the list was empty, the result is a well-formed list, and no
  field of any buffer other than a link changes.
\<close>

lemma addNode_appends:
  assumes "dll h xs" and "a \<notin> set xs" and "a \<in> dom h"
  shows "\<exists>h'. DMABuffer_addNode (head_ptr xs) (Some a) h = Some (head_ptr (xs @ [a]), h')
    \<and> dll h' (xs @ [a]) \<and> same_payload h h'"
  using bl.add_law[OF assms(1,2)] assms(3) by (auto simp: buf_obj_def same_payload_obj)

text \<open>
  \<open>DMABuffer_delete\<close> succeeds on every buffer of a well-formed list, wherever it stands: its
  predecessor and successor become neighbours, the object is freed, and every other buffer keeps
  its contents.
\<close>

lemma delete_unlinks:
  assumes "dll h (xs @ a # ys)"
  shows "\<exists>h'. DMABuffer_delete (Some a) h = Some (PDA_SUCCESS, h') \<and> dll h' (xs @ ys) \<and> h' a = None
      \<and> (\<forall>x. x \<noteq> a \<longrightarrow> map_option payload (h' x) = map_option payload (h x))"
proof -
  obtain b where b: "h a = Some b"
    using dll_links[OF assms] .
  define h1 where "h1 = h(a \<mapsto> b\<lparr>sglist := None\<rparr>)"
  have dll1: "dll h1 (xs @ a # ys)"
    using assms b by (simp add: h1_def dll_payload_upd)
  note [simp] = b
  from unlink_total[OF dll1] obtain b1 h2 where h2: "h1 a = Some b1" "unlinked h1 xs a ys h2"
    "delete_unlink b1 h1 = Some h2"
    by metis
  moreover have "heap_upd a (\<lambda>b. b\<lparr>sglist := None\<rparr>) h = Some h1" "h2 a = Some b1"
    using h2(1,2) by (simp_all add: h1_def unlinked_def)
  ultimately have "DMABuffer_delete (Some a) h = Some (PDA_SUCCESS, h2(a := None))"
    by (simp add: DMABuffer_delete_def heap_free_def)
  moreover have "a \<notin> set (xs @ ys)" "\<And>x. x \<noteq> a \<Longrightarrow> h1 x = h x"
    using assms by (simp_all add: dll_def h1_def)
  ultimately show "\<exists>h'. DMABuffer_delete (Some a) h = Some (PDA_SUCCESS, h') \<and> dll h' (xs @ ys)
      \<and> h' a = None \<and> (\<forall>x. x \<noteq> a \<longrightarrow> map_option payload (h' x) = map_option payload (h x))"
    using unlinked_free[OF h2(2)] by auto
qed

end
