(* ===== verification/PDA_Objects.thy ===== *)
theory PDA_Objects
  imports PDA_BufferList
begin

text \<open>
  The objects of the library besides buffers, and the state of a process that uses it: devices
  (\<open>struct PciDevice_struct\<close>, \<open>struct PciDeviceInternal_struct\<close>), base address registers
  (\<open>struct Bar_struct\<close>, \<open>struct BarInternal_struct\<close>) and the record \<open>'w pstate\<close>, which extends the
  shared process state by one heap per kind of object and the next unused object address.
  Addresses are never reused, so an access through a dangling pointer is an access to an
  unallocated address.

  Operations on this state return an \<open>option\<close> whose \<open>None\<close> is undefined behaviour (a \<open>NULL\<close> or
  dangling pointer is dereferenced, an array is left), and are written with the \<open>do\<close> notation of
  the option monad with the state passed explicitly.
\<close>

section \<open>Objects\<close>

datatype PciBarTypes =
  PCIBARTYPES_NOT_MAPPED | PCIBARTYPES_IO | PCIBARTYPES_BAR32 | PCIBARTYPES_BAR64

record BarInternal =
  uio_fd :: int
  uio_file_path :: string

record Bar =
  bar_device :: ptr
  bar_number :: u16
  bar_type :: PciBarTypes
  bar_size :: u64
  bar_address :: u64
  bar_map :: u64
  bar_internal :: "BarInternal option"

definition sizeof_Bar :: nat where "sizeof_Bar = 48"
definition sizeof_BarInternal :: nat where "sizeof_BarInternal = 4100"

record PciDeviceInternal =
  uio_sysfs_entry :: string
  uio_sysfs_path :: string
  uio_device_filename :: string
  uio_config_filename :: string
  uio_mps_filename :: string
  uio_mrrs_filename :: string
  uio_device_fd :: int
  uio_config_fd :: int
  numa_node :: int

record PciDevice =
  vendor_str :: string
  device_str :: string
  description :: string
  domain_id :: u16
  bus_id :: u8
  device_id :: u8
  function_id :: u8
  max_payload_size :: u64
  max_read_request_size :: u64
  config_space_buffer :: "u8 list"
  pci_config_header :: bool
  bar_init :: bool
  bar_sizes :: "u64 list"
  bar_types :: "PciBarTypes list"
  dev_bar :: "ptr list"
  isr_init :: bool
  interrupt :: ptr
  interrupt_data :: u64
  interrupt_thread :: u64
  dma_buffer_list :: ptr
  dma_buffer_id_list :: "u64 list option"
  dma_buffer_id_list_max_entries :: u64
  dev_internal :: "PciDeviceInternal option"

definition sizeof_PciDevice :: nat where "sizeof_PciDevice = 4592"
definition sizeof_PciDeviceInternal :: nat where "sizeof_PciDeviceInternal = 24588"
definition sizeof_DMABuffer :: nat where "sizeof_DMABuffer = 80"
definition sizeof_DMABufferInternal :: nat where "sizeof_DMABufferInternal = 24588"

definition PDA_MAX_PCI_32_BARS :: nat where "PDA_MAX_PCI_32_BARS = 6"

text \<open>What \<open>calloc\<close> returns: every field zero.\<close>

definition zero_BarInternal :: BarInternal where
  "zero_BarInternal = \<lparr>uio_fd = 0, uio_file_path = []\<rparr>"

definition zero_Bar :: Bar where
  "zero_Bar = \<lparr>bar_device = None, bar_number = 0, bar_type = PCIBARTYPES_NOT_MAPPED, bar_size = 0,
     bar_address = 0, bar_map = 0, bar_internal = None\<rparr>"

definition zero_PciDeviceInternal :: PciDeviceInternal where
  "zero_PciDeviceInternal = \<lparr>uio_sysfs_entry = [], uio_sysfs_path = [], uio_device_filename = [],
     uio_config_filename = [], uio_mps_filename = [], uio_mrrs_filename = [], uio_device_fd = 0,
     uio_config_fd = 0, numa_node = 0\<rparr>"

definition zero_PciDevice :: PciDevice where
  "zero_PciDevice = \<lparr>vendor_str = [], device_str = [], description = [], domain_id = 0, bus_id = 0,
     device_id = 0, function_id = 0, max_payload_size = 0, max_read_request_size = 0,
     config_space_buffer = replicate 256 0, pci_config_header = False, bar_init = False,
     bar_sizes = replicate PDA_MAX_PCI_32_BARS 0,
     bar_types = replicate PDA_MAX_PCI_32_BARS PCIBARTYPES_NOT_MAPPED,
     dev_bar = replicate PDA_MAX_PCI_32_BARS None, isr_init = False, interrupt = None,
     interrupt_data = 0, interrupt_thread = 0, dma_buffer_list = None, dma_buffer_id_list = None,
     dma_buffer_id_list_max_entries = 0, dev_internal = None\<rparr>"

definition zero_DMABufferInternal :: DMABufferInternal where
  "zero_DMABufferInternal = \<lparr>alloc_fd = 0, map_fd = 0, sg_fd = 0, name = [],
     uio_filepath_request = [], uio_filepath_delete = [], uio_filepath_map = [],
     uio_filepath_sg = [], uio_filepath_folder = []\<rparr>"

definition zero_DMABuffer :: DMABuffer where
  "zero_DMABuffer = \<lparr>buf_device = None, buf_type = PDA_BUFFER_KERNEL, buf_index = 0, buf_length = 0,
     buf_map = 0, map_two = 0, sglist = None, buf_next = None, buf_prev = None, internal = None\<rparr>"

section \<open>The process state\<close>

record 'w pstate = "'w cstate" +
  bufs :: buf_heap
  bars :: "addr \<rightharpoonup> Bar"
  devs :: "addr \<rightharpoonup> PciDevice"
  brk :: addr
  uio_sysfs_dir :: string

text \<open>A new object: its address, or \<open>None\<close> when the allocator fails.\<close>

definition c_new :: "'w env \<Rightarrow> nat \<Rightarrow> 'w pstate \<Rightarrow> addr option \<times> 'w pstate" where
  "c_new E n s =
     (case c_alloc E n s of
        (True, s) \<Rightarrow> (Some (brk s), s\<lparr>brk := Suc (brk s)\<rparr>)
      | (False, s) \<Rightarrow> (None, s))"

text \<open>Field updates through a pointer.\<close>

definition upd_buf :: "addr \<Rightarrow> (DMABuffer \<Rightarrow> DMABuffer) \<Rightarrow> 'w pstate \<Rightarrow> 'w pstate option" where
  "upd_buf a f s = map_option (\<lambda>h. s\<lparr>bufs := h\<rparr>) (heap_upd a f (bufs s))"

definition upd_int :: "addr \<Rightarrow> (DMABufferInternal \<Rightarrow> DMABufferInternal) \<Rightarrow> 'w pstate \<Rightarrow> 'w pstate option" where
  "upd_int a f s =
     do {
       b \<leftarrow> bufs s a;
       i \<leftarrow> internal b;
       Some (s\<lparr>bufs := (bufs s)(a \<mapsto> b\<lparr>internal := Some (f i)\<rparr>)\<rparr>)
     }"

definition get_int :: "addr \<Rightarrow> 'w pstate \<Rightarrow> DMABufferInternal option" where
  "get_int a s = Option.bind (bufs s a) internal"

definition upd_bar :: "addr \<Rightarrow> (Bar \<Rightarrow> Bar) \<Rightarrow> 'w pstate \<Rightarrow> 'w pstate option" where
  "upd_bar a f s = map_option (\<lambda>b. s\<lparr>bars := (bars s)(a \<mapsto> f b)\<rparr>) (bars s a)"

definition upd_dev :: "addr \<Rightarrow> (PciDevice \<Rightarrow> PciDevice) \<Rightarrow> 'w pstate \<Rightarrow> 'w pstate option" where
  "upd_dev a f s = map_option (\<lambda>d. s\<lparr>devs := (devs s)(a \<mapsto> f d)\<rparr>) (devs s a)"

definition upd_workp :: "addr \<Rightarrow> (PciDeviceInternal \<Rightarrow> PciDeviceInternal) \<Rightarrow> 'w pstate \<Rightarrow> 'w pstate option" where
  "upd_workp a f s =
     do {
       d \<leftarrow> devs s a;
       i \<leftarrow> dev_internal d;
       Some (s\<lparr>devs := (devs s)(a \<mapsto> d\<lparr>dev_internal := Some (f i)\<rparr>)\<rparr>)
     }"

definition get_workp :: "addr \<Rightarrow> 'w pstate \<Rightarrow> PciDeviceInternal option" where
  "get_workp a s = Option.bind (devs s a) dev_internal"

section \<open>Device attributes\<close>

text \<open>
  The getters of the macro \<open>PCI_GET_FUNCTION\<close>; \<open>target\<close> says whether the result pointer is not
  \<open>NULL\<close>.
\<close>

definition PCI_GET_FUNCTION ::
  "(PciDevice \<Rightarrow> 'a) \<Rightarrow> 'w env \<Rightarrow> ptr \<Rightarrow> bool \<Rightarrow> 'w pstate
   \<Rightarrow> ((PdaDebugReturnCode \<times> 'a option) \<times> 'w pstate) option" where
  "PCI_GET_FUNCTION attr E device target s =
     (case device of
        None \<Rightarrow> Some (let (c, s) = ERROR E EINVAL s in ((c, None), s))
      | Some d \<Rightarrow>
          if \<not> target then Some (let (c, s) = ERROR E EINVAL s in ((c, None), s))
          else do { dev \<leftarrow> devs s d; Some ((PDA_SUCCESS, Some (attr dev)), s) })"

definition PciDevice_getDomainID ::
  "'w env \<Rightarrow> ptr \<Rightarrow> bool \<Rightarrow> 'w pstate \<Rightarrow> ((PdaDebugReturnCode \<times> u16 option) \<times> 'w pstate) option" where
  "PciDevice_getDomainID = PCI_GET_FUNCTION domain_id"

definition PciDevice_getBusID ::
  "'w env \<Rightarrow> ptr \<Rightarrow> bool \<Rightarrow> 'w pstate \<Rightarrow> ((PdaDebugReturnCode \<times> u8 option) \<times> 'w pstate) option" where
  "PciDevice_getBusID = PCI_GET_FUNCTION bus_id"

definition PciDevice_getDeviceID ::
  "'w env \<Rightarrow> ptr \<Rightarrow> bool \<Rightarrow> 'w pstate \<Rightarrow> ((PdaDebugReturnCode \<times> u8 option) \<times> 'w pstate) option" where
  "PciDevice_getDeviceID = PCI_GET_FUNCTION device_id"

definition PciDevice_getFunctionID ::
  "'w env \<Rightarrow> ptr \<Rightarrow> bool \<Rightarrow> 'w pstate \<Rightarrow> ((PdaDebugReturnCode \<times> u8 option) \<times> 'w pstate) option" where
  "PciDevice_getFunctionID = PCI_GET_FUNCTION function_id"

definition PciDevice_getDescription ::
  "'w env \<Rightarrow> ptr \<Rightarrow> bool \<Rightarrow> 'w pstate \<Rightarrow> ((PdaDebugReturnCode \<times> string option) \<times> 'w pstate) option" where
  "PciDevice_getDescription = PCI_GET_FUNCTION description"

text \<open>A variable that was preset to zero and is assigned only on success.\<close>

abbreviation (input) or_zero :: "('a::zero) option \<Rightarrow> 'a" where
  "or_zero x \<equiv> (case x of None \<Rightarrow> 0 | Some v \<Rightarrow> v)"

text \<open>The four lookups of \<open>DMABuffer_get_ids\<close>, \<open>Bar_new\<close>: the sum of the codes and the values.\<close>

type_synonym bdf = "u16 \<times> u8 \<times> u8 \<times> u8"

definition lookup_ids :: "'w env \<Rightarrow> ptr \<Rightarrow> 'w pstate \<Rightarrow> ((PdaDebugReturnCode \<times> bdf) \<times> 'w pstate) option" where
  "lookup_ids E device s =
     do {
       ((r1, dmn), s) \<leftarrow> PciDevice_getDomainID E device True s;
       ((r2, bus), s) \<leftarrow> PciDevice_getBusID E device True s;
       ((r3, dev), s) \<leftarrow> PciDevice_getDeviceID E device True s;
       ((r4, func), s) \<leftarrow> PciDevice_getFunctionID E device True s;
       Some ((r1 + r2 + r3 + r4, or_zero dmn, or_zero bus, or_zero dev, or_zero func), s)
     }"

definition dev_bdf :: "PciDevice \<Rightarrow> bdf" where
  "dev_bdf d = (domain_id d, bus_id d, device_id d, function_id d)"

lemma lookup_ids_Some [simp]:
  "lookup_ids E (Some d) s = map_option (\<lambda>dev. ((PDA_SUCCESS, dev_bdf dev), s)) (devs s d)"
  by (cases "devs s d")
    (simp_all add: lookup_ids_def PciDevice_getDomainID_def PciDevice_getBusID_def
      PciDevice_getDeviceID_def PciDevice_getFunctionID_def PCI_GET_FUNCTION_def dev_bdf_def)

lemma lookup_ids_None: "\<exists>ids s'. lookup_ids E None s = Some ((4 * EINVAL, ids), s')"
  by (auto simp: lookup_ids_def PciDevice_getDomainID_def PciDevice_getBusID_def
      PciDevice_getDeviceID_def PciDevice_getFunctionID_def PCI_GET_FUNCTION_def split_beta)

text \<open>\<open>"%s/" UIO_PATH_FORMAT\<close> applied to \<open>UIO_BAR_PATH\<close> and the ids.\<close>

definition device_path :: "bdf \<Rightarrow> string" where
  "device_path ids = (case ids of (dmn, bus, dev, func) \<Rightarrow> UIO_BAR_PATH @ ''/'' @ UIO_PATH_FORMAT dmn bus dev func)"

section \<open>Calls that leave the objects alone\<close>

definition same_heaps :: "('w, 'z) pstate_scheme \<Rightarrow> ('w, 'z) pstate_scheme \<Rightarrow> bool" where
  "same_heaps s s' \<longleftrightarrow> bufs s' = bufs s \<and> bars s' = bars s \<and> devs s' = devs s \<and> brk s' = brk s
     \<and> uio_sysfs_dir s' = uio_sysfs_dir s"

named_theorems heap_frames \<open>calls that leave every object as it was\<close>

lemma same_heaps_refl [simp]: "same_heaps s s"
  by (simp add: same_heaps_def)

lemma same_heaps_trans [trans]: "same_heaps s s' \<Longrightarrow> same_heaps s' s'' \<Longrightarrow> same_heaps s s''"
  by (simp add: same_heaps_def)

lemma c_sys_heaps [heap_frames]: "c_sys f s = (r, s') \<Longrightarrow> same_heaps s s'"
  by (auto simp: c_sys_def same_heaps_def split: prod.splits sum.splits)

lemma c_void_heaps [heap_frames]: "c_void f s = s' \<Longrightarrow> same_heaps s s'"
  by (auto simp: c_void_def intro: c_sys_heaps prod.collapse[symmetric])

lemma c_mmap_heaps [heap_frames]: "c_mmap f s = (a, s') \<Longrightarrow> same_heaps s s'"
  by (auto simp: c_mmap_def dest: c_sys_heaps split: prod.splits option.splits)

lemma c_alloc_heaps [heap_frames]: "c_alloc E n s = (ok, s') \<Longrightarrow> same_heaps s s'"
  by (auto simp: c_alloc_def same_heaps_def split: prod.splits bool.splits)

lemma c_open_heaps [heap_frames]: "c_open E path mode s = (fd, s') \<Longrightarrow> same_heaps s s'"
  by (auto simp: c_open_def same_heaps_def split: prod.splits sum.splits)

lemma c_close_heaps [heap_frames]: "c_close E fd s = (r, s') \<Longrightarrow> same_heaps s s'"
  by (auto simp: c_close_def same_heaps_def split: prod.splits sum.splits)

lemma ERROR_heaps [heap_frames]: "ERROR E c s = (r, s') \<Longrightarrow> same_heaps s s'"
  by (auto simp: ERROR_def PdaErrorHandler_def PdaDebugInit_def emit_def Let_def same_heaps_def
      split: option.splits if_splits)

lemma pda_spinOpen_loop_heaps:
  "pda_spinOpen_loop E path flags spins i fd s = (fd', s') \<Longrightarrow> same_heaps s s'"
proof (induction E path flags spins i fd s rule: pda_spinOpen_loop.induct)
  case (1 E path flags spins i fd s)
  obtain fd1 s1 where co: "c_open E path flags s = (fd1, s1)" by fastforce
  have "same_heaps s1 (c_usleep E t s1)" for t
    by (simp add: c_usleep_def same_heaps_def)
  with 1 co c_open_heaps[OF co] show ?case
    by (auto simp: pda_spinOpen_loop.simps[of E path flags spins i fd s]
        intro: same_heaps_trans split: if_splits)
qed

lemma pda_spinOpen_heaps [heap_frames]:
  "pda_spinOpen E path flags spins s = (fd', s') \<Longrightarrow> same_heaps s s'"
  unfolding pda_spinOpen_def by (rule pda_spinOpen_loop_heaps)

text \<open>The same facts as rewrite rules on the resulting state.\<close>

lemma c_sys_fields [simp]:
  "bufs (snd (c_sys f s)) = bufs s" "bars (snd (c_sys f s)) = bars s"
  "devs (snd (c_sys f s)) = devs s" "brk (snd (c_sys f s)) = brk s"
  "uio_sysfs_dir (snd (c_sys f s)) = uio_sysfs_dir s"
  using c_sys_heaps[of f s "fst (c_sys f s)" "snd (c_sys f s)"]
  by (simp_all add: same_heaps_def)

lemma c_close_fields [simp]:
  "bufs (snd (c_close E fd s)) = bufs s" "bars (snd (c_close E fd s)) = bars s"
  "devs (snd (c_close E fd s)) = devs s" "brk (snd (c_close E fd s)) = brk s"
  "uio_sysfs_dir (snd (c_close E fd s)) = uio_sysfs_dir s"
  using c_close_heaps[of E fd s "fst (c_close E fd s)" "snd (c_close E fd s)"]
  by (simp_all add: same_heaps_def)

lemma c_mmap_fields [simp]:
  "bufs (snd (c_mmap f s)) = bufs s" "bars (snd (c_mmap f s)) = bars s"
  "devs (snd (c_mmap f s)) = devs s" "brk (snd (c_mmap f s)) = brk s"
  "uio_sysfs_dir (snd (c_mmap f s)) = uio_sysfs_dir s"
  using c_mmap_heaps[of f s "fst (c_mmap f s)" "snd (c_mmap f s)"]
  by (simp_all add: same_heaps_def)

lemma ERROR_fields [simp]:
  "bufs (snd (ERROR E c s)) = bufs s" "bars (snd (ERROR E c s)) = bars s"
  "devs (snd (ERROR E c s)) = devs s" "brk (snd (ERROR E c s)) = brk s"
  "uio_sysfs_dir (snd (ERROR E c s)) = uio_sysfs_dir s"
  using ERROR_heaps[OF surjective_pairing, of s E c] by (simp_all add: same_heaps_def)

lemma pda_spinOpen_fields [simp]:
  "bufs (snd (pda_spinOpen E path flags spins s)) = bufs s" "bars (snd (pda_spinOpen E path flags spins s)) = bars s"
  "devs (snd (pda_spinOpen E path flags spins s)) = devs s" "brk (snd (pda_spinOpen E path flags spins s)) = brk s"
  "uio_sysfs_dir (snd (pda_spinOpen E path flags spins s)) = uio_sysfs_dir s"
  using pda_spinOpen_heaps[of E path flags spins s "fst (pda_spinOpen E path flags spins s)" "snd (pda_spinOpen E path flags spins s)"]
  by (simp_all add: same_heaps_def)

lemma c_alloc_fields [simp]:
  "bufs (snd (c_alloc E n s)) = bufs s" "bars (snd (c_alloc E n s)) = bars s"
  "devs (snd (c_alloc E n s)) = devs s" "brk (snd (c_alloc E n s)) = brk s"
  "uio_sysfs_dir (snd (c_alloc E n s)) = uio_sysfs_dir s"
  using c_alloc_heaps[of E n s "fst (c_alloc E n s)" "snd (c_alloc E n s)"]
  by (simp_all add: same_heaps_def)

lemma c_void_fields [simp]:
  "bufs (c_void f s) = bufs s" "bars (c_void f s) = bars s" "devs (c_void f s) = devs s"
  "brk (c_void f s) = brk s" "uio_sysfs_dir (c_void f s) = uio_sysfs_dir s"
  by (simp_all add: c_void_def)

end
