(* ===== verification/PDA_Bar.thy ===== *)
theory PDA_Bar
  imports PDA_Objects
begin

text \<open>
  Base address registers (\<open>src/bar.c\<close>, \<open>arch/linux_x86_uio/bar_inc.c\<close>): creation, mapping and
  deletion of BAR objects, and the access functions the macros generate for 8, 16, 32 and 64 bits.

  The memory is a partial map from 64-bit addresses to bytes; a fault is \<open>None\<close>. A register of the
  device behaves like memory here: side effects of the hardware on an access are not modelled.
  The locale \<open>cell_access\<close> is what the copy loops need of an access width; it is interpreted for
  the four widths.
\<close>

section \<open>Memory\<close>

type_synonym memory = "u64 \<rightharpoonup> u8"

primrec load_bytes :: "memory \<Rightarrow> u64 \<Rightarrow> nat \<Rightarrow> u8 list option" where
  "load_bytes m a 0 = Some []"
| "load_bytes m a (Suc n) = do { b \<leftarrow> m a; bs \<leftarrow> load_bytes m (a + 1) n; Some (b # bs) }"

fun store_bytes :: "u8 list \<Rightarrow> u64 \<Rightarrow> memory \<Rightarrow> memory option" where
  "store_bytes [] a m = Some m"
| "store_bytes (b # bs) a m = (case m a of None \<Rightarrow> None | Some _ \<Rightarrow> store_bytes bs (a + 1) (m(a \<mapsto> b)))"

text \<open>An integer in memory, least significant byte first.\<close>

definition cell_size :: "'a::len itself \<Rightarrow> nat" where
  "cell_size t = LENGTH('a) div 8"

definition word_bytes :: "'a::len word \<Rightarrow> u8 list" where
  "word_bytes v = map (\<lambda>k. ucast (drop_bit (8 * k) v)) [0..<cell_size TYPE('a)]"

definition bytes_word :: "u8 list \<Rightarrow> 'a::len word" where
  "bytes_word bs = foldr (\<lambda>b v. ucast b OR push_bit 8 v) bs 0"

definition load_word :: "memory \<Rightarrow> u64 \<Rightarrow> 'a::len word option" where
  "load_word m a = map_option bytes_word (load_bytes m a (cell_size TYPE('a)))"

definition store_word :: "u64 \<Rightarrow> 'a::len word \<Rightarrow> memory \<Rightarrow> memory option" where
  "store_word a v m = store_bytes (word_bytes v) a m"

section \<open>Access functions\<close>

definition BAR_GET_FUNCTION :: "(addr \<rightharpoonup> Bar) \<Rightarrow> memory \<Rightarrow> ptr \<Rightarrow> u64 \<Rightarrow> 'a::len word option" where
  "BAR_GET_FUNCTION h m bar address = do { p \<leftarrow> bar; b \<leftarrow> h p; load_word m (bar_map b + address) }"

definition BAR_PUT_FUNCTION :: "(addr \<rightharpoonup> Bar) \<Rightarrow> ptr \<Rightarrow> 'a::len word \<Rightarrow> u64 \<Rightarrow> memory \<Rightarrow> memory option" where
  "BAR_PUT_FUNCTION h bar v address m = do { p \<leftarrow> bar; b \<leftarrow> h p; store_word (bar_map b + address) v m }"

text \<open>The loop \<open>t_pointer[i] = s_pointer[i]\<close> of the copy functions, for cells of \<open>w\<close> bytes.\<close>

function cell_copy_loop ::
  "(memory \<Rightarrow> u64 \<Rightarrow> 'v option) \<Rightarrow> (u64 \<Rightarrow> 'v \<Rightarrow> memory \<Rightarrow> memory option)
   \<Rightarrow> u64 \<Rightarrow> u64 \<Rightarrow> u64 \<Rightarrow> u64 \<Rightarrow> u64 \<Rightarrow> memory \<Rightarrow> memory option" where
  "cell_copy_loop rd wr w t s n i m =
     (if i < n then
        (case rd m (s + i * w) of
           None \<Rightarrow> None
         | Some v \<Rightarrow>
             (case wr (t + i * w) v m of
                None \<Rightarrow> None
              | Some m' \<Rightarrow> cell_copy_loop rd wr w t s n (i + 1) m'))
      else Some m)"
  by pat_completeness auto
termination
proof (relation "measure (\<lambda>(rd, wr, w, t, s, n, i, m). unat n - unat i)", goal_cases)
  case (2 rd wr w t s n i m x y)
  then have "unat (i + 1) = Suc (unat i)" "unat i < unat n"
    using unat_bound[of n] by (auto simp: word_less_nat_alt unat_word_ariths)
  then show ?case by simp
qed simp

declare cell_copy_loop.simps [simp del]

text \<open>
  The generated copy functions: \<open>source\<close>, respectively \<open>target\<close>, is a plain pointer. The result is
  the code and the memory.
\<close>

definition BAR_PUT_MEMCPY_FUNCTION ::
  "'a::len itself \<Rightarrow> 'w env \<Rightarrow> ptr \<Rightarrow> u64 \<Rightarrow> u64 \<Rightarrow> u64 \<Rightarrow> memory \<Rightarrow> 'w pstate
   \<Rightarrow> (PdaDebugReturnCode \<times> memory \<times> 'w pstate) option" where
  "BAR_PUT_MEMCPY_FUNCTION ty E bar target source bytes m s =
     (case bar of
        None \<Rightarrow> Some (let (c, s) = ERROR E EFAULT s in (c, m, s))
      | Some p \<Rightarrow> do {
          b \<leftarrow> bars s p;
          let byte_length = of_nat (cell_size ty);
          m' \<leftarrow> cell_copy_loop load_word (store_word :: u64 \<Rightarrow> 'a word \<Rightarrow> memory \<Rightarrow> memory option)
                 byte_length (bar_map b + target) source (bytes div byte_length) 0 m;
          Some (PDA_SUCCESS, m', s)
        })"

definition BAR_GET_MEMCPY_FUNCTION ::
  "'a::len itself \<Rightarrow> 'w env \<Rightarrow> ptr \<Rightarrow> u64 \<Rightarrow> u64 \<Rightarrow> u64 \<Rightarrow> memory \<Rightarrow> 'w pstate
   \<Rightarrow> (PdaDebugReturnCode \<times> memory \<times> 'w pstate) option" where
  "BAR_GET_MEMCPY_FUNCTION ty E bar target source bytes m s =
     (case bar of
        None \<Rightarrow> Some (let (c, s) = ERROR E EFAULT s in (c, m, s))
      | Some p \<Rightarrow> do {
          b \<leftarrow> bars s p;
          let byte_length = of_nat (cell_size ty);
          m' \<leftarrow> cell_copy_loop load_word (store_word :: u64 \<Rightarrow> 'a word \<Rightarrow> memory \<Rightarrow> memory option)
                 byte_length target (bar_map b + source) (bytes div byte_length) 0 m;
          Some (PDA_SUCCESS, m', s)
        })"

definition Bar_memcpyFromBar8 ::
  "'w env \<Rightarrow> ptr \<Rightarrow> u64 \<Rightarrow> u64 \<Rightarrow> u64 \<Rightarrow> memory \<Rightarrow> 'w pstate \<Rightarrow> (PdaDebugReturnCode \<times> memory \<times> 'w pstate) option" where
  "Bar_memcpyFromBar8 = BAR_GET_MEMCPY_FUNCTION TYPE(8)"

definition Bar_memcpyFromBar16 ::
  "'w env \<Rightarrow> ptr \<Rightarrow> u64 \<Rightarrow> u64 \<Rightarrow> u64 \<Rightarrow> memory \<Rightarrow> 'w pstate \<Rightarrow> (PdaDebugReturnCode \<times> memory \<times> 'w pstate) option" where
  "Bar_memcpyFromBar16 = BAR_GET_MEMCPY_FUNCTION TYPE(16)"

definition Bar_memcpyFromBar32 ::
  "'w env \<Rightarrow> ptr \<Rightarrow> u64 \<Rightarrow> u64 \<Rightarrow> u64 \<Rightarrow> memory \<Rightarrow> 'w pstate \<Rightarrow> (PdaDebugReturnCode \<times> memory \<times> 'w pstate) option" where
  "Bar_memcpyFromBar32 = BAR_GET_MEMCPY_FUNCTION TYPE(32)"

definition Bar_memcpyFromBar64 ::
  "'w env \<Rightarrow> ptr \<Rightarrow> u64 \<Rightarrow> u64 \<Rightarrow> u64 \<Rightarrow> memory \<Rightarrow> 'w pstate \<Rightarrow> (PdaDebugReturnCode \<times> memory \<times> 'w pstate) option" where
  "Bar_memcpyFromBar64 = BAR_GET_MEMCPY_FUNCTION TYPE(64)"

definition Bar_memcpyToBar8 ::
  "'w env \<Rightarrow> ptr \<Rightarrow> u64 \<Rightarrow> u64 \<Rightarrow> u64 \<Rightarrow> memory \<Rightarrow> 'w pstate \<Rightarrow> (PdaDebugReturnCode \<times> memory \<times> 'w pstate) option" where
  "Bar_memcpyToBar8 = BAR_PUT_MEMCPY_FUNCTION TYPE(8)"

definition Bar_memcpyToBar16 ::
  "'w env \<Rightarrow> ptr \<Rightarrow> u64 \<Rightarrow> u64 \<Rightarrow> u64 \<Rightarrow> memory \<Rightarrow> 'w pstate \<Rightarrow> (PdaDebugReturnCode \<times> memory \<times> 'w pstate) option" where
  "Bar_memcpyToBar16 = BAR_PUT_MEMCPY_FUNCTION TYPE(16)"

definition Bar_memcpyToBar32 ::
  "'w env \<Rightarrow> ptr \<Rightarrow> u64 \<Rightarrow> u64 \<Rightarrow> u64 \<Rightarrow> memory \<Rightarrow> 'w pstate \<Rightarrow> (PdaDebugReturnCode \<times> memory \<times> 'w pstate) option" where
  "Bar_memcpyToBar32 = BAR_PUT_MEMCPY_FUNCTION TYPE(32)"

definition Bar_memcpyToBar64 ::
  "'w env \<Rightarrow> ptr \<Rightarrow> u64 \<Rightarrow> u64 \<Rightarrow> u64 \<Rightarrow> memory \<Rightarrow> 'w pstate \<Rightarrow> (PdaDebugReturnCode \<times> memory \<times> 'w pstate) option" where
  "Bar_memcpyToBar64 = BAR_PUT_MEMCPY_FUNCTION TYPE(64)"

definition Bar_get8 :: "(addr \<rightharpoonup> Bar) \<Rightarrow> memory \<Rightarrow> ptr \<Rightarrow> u64 \<Rightarrow> u8 option" where
  "Bar_get8 = BAR_GET_FUNCTION"

definition Bar_get16 :: "(addr \<rightharpoonup> Bar) \<Rightarrow> memory \<Rightarrow> ptr \<Rightarrow> u64 \<Rightarrow> u16 option" where
  "Bar_get16 = BAR_GET_FUNCTION"

definition Bar_get32 :: "(addr \<rightharpoonup> Bar) \<Rightarrow> memory \<Rightarrow> ptr \<Rightarrow> u64 \<Rightarrow> u32 option" where
  "Bar_get32 = BAR_GET_FUNCTION"

definition Bar_get64 :: "(addr \<rightharpoonup> Bar) \<Rightarrow> memory \<Rightarrow> ptr \<Rightarrow> u64 \<Rightarrow> u64 option" where
  "Bar_get64 = BAR_GET_FUNCTION"

definition Bar_put8 :: "(addr \<rightharpoonup> Bar) \<Rightarrow> ptr \<Rightarrow> u8 \<Rightarrow> u64 \<Rightarrow> memory \<Rightarrow> memory option" where
  "Bar_put8 = BAR_PUT_FUNCTION"

definition Bar_put16 :: "(addr \<rightharpoonup> Bar) \<Rightarrow> ptr \<Rightarrow> u16 \<Rightarrow> u64 \<Rightarrow> memory \<Rightarrow> memory option" where
  "Bar_put16 = BAR_PUT_FUNCTION"

definition Bar_put32 :: "(addr \<rightharpoonup> Bar) \<Rightarrow> ptr \<Rightarrow> u32 \<Rightarrow> u64 \<Rightarrow> memory \<Rightarrow> memory option" where
  "Bar_put32 = BAR_PUT_FUNCTION"

definition Bar_put64 :: "(addr \<rightharpoonup> Bar) \<Rightarrow> ptr \<Rightarrow> u64 \<Rightarrow> u64 \<Rightarrow> memory \<Rightarrow> memory option" where
  "Bar_put64 = BAR_PUT_FUNCTION"

section \<open>Bytes and words\<close>

lemma bit_bytes_word:
  "bit (bytes_word bs :: 'a::len word) n \<longleftrightarrow>
     n < LENGTH('a) \<and> n div 8 < length bs \<and> bit (bs ! (n div 8)) (n mod 8)"
proof (induction bs arbitrary: n)
  case Nil
  then show ?case by (simp add: bytes_word_def)
next
  case (Cons b bs)
  have "bytes_word (b # bs) = (ucast b OR push_bit 8 (bytes_word bs) :: 'a word)"
    by (simp add: bytes_word_def)
  moreover have "bit b n \<Longrightarrow> n < 8"
    using bit_imp_le_length[of b n] by simp
  moreover have "8 \<le> n \<Longrightarrow> (n - 8) div 8 = n div 8 - 1 \<and> (n - 8) mod 8 = n mod 8 \<and> 1 \<le> n div 8"
    by (auto simp: le_div_geq le_mod_geq)
  ultimately show ?case
    using Cons.IH[of "n - 8"]
    by (cases "n < 8"; cases "n div 8")
      (auto simp: bit_or_iff bit_ucast_iff bit_push_bit_iff nth_Cons' div_less)
qed

lemma bit_word_bytes:
  fixes v :: "'a::len word"
  assumes "k < cell_size TYPE('a)"
  shows "bit (word_bytes v ! k) j \<longleftrightarrow> j < 8 \<and> bit v (8 * k + j)"
  using assms by (simp add: word_bytes_def bit_ucast_iff bit_drop_bit_eq)

lemma length_word_bytes [simp]: "length (word_bytes (v :: 'a::len word)) = cell_size TYPE('a)"
  by (simp add: word_bytes_def)

lemma bytes_word_word_bytes:
  fixes v :: "'a::len word"
  assumes "LENGTH('a) = 8 * cell_size TYPE('a)"
  shows "bytes_word (word_bytes v) = v"
proof (rule bit_word_eqI)
  fix n
  assume "n < LENGTH('a)"
  with assms show "bit (bytes_word (word_bytes v) :: 'a word) n \<longleftrightarrow> bit v n"
    by (simp add: bit_bytes_word bit_word_bytes less_mult_imp_div_less mult.commute)
qed

lemma word_bytes_bytes_word:
  assumes "LENGTH('a) = 8 * cell_size TYPE('a)" and "length bs = cell_size TYPE('a::len)"
  shows "word_bytes (bytes_word bs :: 'a word) = bs"
proof (rule nth_equalityI)
  show "length (word_bytes (bytes_word bs :: 'a word)) = length bs"
    using assms by simp
  fix k
  assume "k < length (word_bytes (bytes_word bs :: 'a word))"
  then have k: "k < cell_size TYPE('a)" by simp
  show "word_bytes (bytes_word bs :: 'a word) ! k = bs ! k"
  proof (rule bit_word_eqI)
    fix n
    assume "n < LENGTH(8)"
    then have "n < 8" "8 * k + n < 8 * cell_size TYPE('a)"
      using k by auto
    then show "bit (word_bytes (bytes_word bs :: 'a word) ! k) n \<longleftrightarrow> bit (bs ! k) n"
      using k assms by (simp add: bit_word_bytes bit_bytes_word)
  qed
qed

section \<open>Loading and storing\<close>

text \<open>The offset of an address behind another, and the shift by one.\<close>

lemma offset_Suc:
  fixes x a :: u64
  assumes "x \<noteq> a"
  shows "unat (x - a) = Suc (unat (x - (a + 1)))"
proof -
  have "x - a \<noteq> 0" using assms by simp
  then show ?thesis
    using unat_minus_one[of "x - a"] by (simp add: diff_diff_eq unat_gt_0)
qed

lemma store_bytes_eq:
  assumes "length bs \<le> 2 ^ 64" and "\<forall>k < length bs. m (a + of_nat k) \<noteq> None"
  shows "store_bytes bs a m =
    Some (\<lambda>x. if unat (x - a) < length bs then Some (bs ! unat (x - a)) else m x)"
  using assms
proof (induction bs arbitrary: a m)
  case Nil
  then show ?case by simp
next
  case (Cons b bs)
  have a: "m a \<noteq> None" using Cons.prems(2) by force
  have "\<forall>k < length bs. m (a + 1 + of_nat k) \<noteq> None"
    using Cons.prems(2) by (auto simp: add.assoc dest: spec[of _ "Suc _"])
  then have "store_bytes bs (a + 1) (m(a \<mapsto> b)) =
      Some (\<lambda>x. if unat (x - (a + 1)) < length bs then Some (bs ! unat (x - (a + 1))) else (m(a \<mapsto> b)) x)"
    using Cons.prems(1) by (intro Cons.IH) auto
  moreover have "unat (a - (a + 1)) = 2 ^ 64 - 1"
    by (simp add: unsigned_minus_1_eq_mask mask_eq_exp_minus_1)
  ultimately show ?case
    using a Cons.prems(1) by (auto simp: fun_eq_iff offset_Suc)
qed

lemma load_bytes_eq:
  assumes "\<forall>k < n. m (a + of_nat k) \<noteq> None"
  shows "load_bytes m a n = Some (map (\<lambda>k. the (m (a + of_nat k))) [0..<n])"
  using assms
proof (induction n arbitrary: a)
  case 0
  then show ?case by simp
next
  case (Suc n)
  have "\<forall>k < n. m (a + 1 + of_nat k) \<noteq> None"
    using Suc.prems by (auto simp: add.assoc dest: spec[of _ "Suc _"])
  then have "load_bytes m (a + 1) n = Some (map (\<lambda>k. the (m (a + 1 + of_nat k))) [0..<n])"
    by (rule Suc.IH)
  moreover obtain b where "m a = Some b" using Suc.prems by force
  ultimately show ?case
    by (simp add: upt_conv_Cons map_Suc_upt[symmetric] add.assoc del: upt_Suc)
qed

section \<open>Copying cells\<close>

definition mapped :: "memory \<Rightarrow> u64 \<Rightarrow> nat \<Rightarrow> bool" where
  "mapped m a n \<longleftrightarrow> (\<forall>k < n. m (a + of_nat k) \<noteq> None)"

text \<open>The memory after the \<open>n\<close> bytes at \<open>s\<close> were copied to \<open>t\<close>.\<close>

definition copied :: "memory \<Rightarrow> u64 \<Rightarrow> u64 \<Rightarrow> nat \<Rightarrow> memory" where
  "copied m t s n = (\<lambda>x. if unat (x - t) < n then m (s + (x - t)) else m x)"

lemma copied_0 [simp]: "copied m t s 0 = m"
  by (simp add: copied_def)

lemma offset_window:
  fixes y :: u64
  assumes "k + w \<le> 2 ^ 64"
  shows "unat (y - of_nat k) < w \<longleftrightarrow> k \<le> unat y \<and> unat y < k + w"
proof (cases "w = 0")
  case False
  then have "unat (of_nat k :: u64) = k"
    using assms by (simp add: unat_of_nat)
  then show ?thesis
    using assms unat_bound[of y] False by (auto simp: unat_sub_if')
qed auto

lemma mappedD: "mapped m a n \<Longrightarrow> unat (x - a) < n \<Longrightarrow> m x \<noteq> None"
  by (auto simp: mapped_def dest: spec[of _ "unat (x - a)"])

lemma mapped_copied: "mapped m s n \<Longrightarrow> mapped m a k \<Longrightarrow> mapped (copied m t s n) a k"
  by (auto simp: mapped_def copied_def dest: spec[of _ "unat (_ - t)"])

lemma mapped_sub: "mapped m a n \<Longrightarrow> i + k \<le> n \<Longrightarrow> mapped m (a + of_nat i) k"
  by (simp add: mapped_def add.assoc flip: of_nat_add)

text \<open>The contract of an access width: reading a cell and writing it elsewhere copies its bytes.\<close>

locale cell_access =
  fixes w :: nat
    and rd :: "memory \<Rightarrow> u64 \<Rightarrow> 'v option"
    and wr :: "u64 \<Rightarrow> 'v \<Rightarrow> memory \<Rightarrow> memory option"
  assumes copy_law: "mapped m s w \<Longrightarrow> mapped m t w \<Longrightarrow>
    \<exists>v. rd m s = Some v \<and> wr t v m = Some (copied m t s w)"
begin

lemma copied_step:
  assumes "k + w \<le> 2 ^ 64" and "\<forall>i < k + w. \<forall>j < k + w. s + of_nat i \<noteq> t + of_nat j"
  shows "copied (copied m t s k) (t + of_nat k) (s + of_nat k) w = copied m t s (k + w)"
proof
  fix x
  have off: "x - (t + of_nat k) = (x - t) - of_nat k" "s + of_nat k + (x - (t + of_nat k)) = s + (x - t)"
    by (simp_all add: algebra_simps)
  have apart: "\<not> unat (s + (x - t) - t) < k" if "unat (x - t) < k + w"
  proof
    assume "unat (s + (x - t) - t) < k"
    moreover have "s + of_nat (unat (x - t)) = t + of_nat (unat (s + (x - t) - t))"
      by simp
    ultimately show False
      using assms(2) that by (metis trans_less_add1)
  qed
  show "copied (copied m t s k) (t + of_nat k) (s + of_nat k) w x = copied m t s (k + w) x"
    using apart unfolding copied_def off by (auto simp: offset_window[OF assms(1)])
qed

lemma loop_copies_from:
  assumes n: "unat n * w \<le> 2 ^ 64" and i: "i \<le> unat n"
    and maps: "mapped m s (unat n * w)" "mapped m t (unat n * w)"
    and apart: "\<forall>i < unat n * w. \<forall>j < unat n * w. s + of_nat i \<noteq> t + of_nat j"
  shows "cell_copy_loop rd wr (of_nat w) t s n (of_nat i) (copied m t s (i * w))
    = Some (copied m t s (unat n * w))"
  using i
proof (induction "unat n - i" arbitrary: i)
  case 0
  then have "i = unat n" by simp
  then show ?case by (simp add: cell_copy_loop.simps[of rd wr _ t s n])
next
  case (Suc d)
  then have i: "i < unat n" "d = unat n - Suc i" by auto
  then have le: "i * w + w \<le> unat n * w"
    by (metis Suc_leI add.commute mult_Suc mult_le_mono1)
  have lt: "(of_nat i :: u64) < n" "of_nat i + 1 = (of_nat (Suc i) :: u64)"
    using i unat_bound[of n] by (simp_all add: word_less_nat_alt unat_of_nat)
  have "mapped m s (i * w)"
    using maps(1) le by (auto simp: mapped_def)
  then have "mapped (copied m t s (i * w)) (s + of_nat (i * w)) w"
    "mapped (copied m t s (i * w)) (t + of_nat (i * w)) w"
    using mapped_sub[OF maps(1) le] mapped_sub[OF maps(2) le] by (blast intro: mapped_copied)+
  from copy_law[OF this] obtain v where
    "rd (copied m t s (i * w)) (s + of_nat i * of_nat w) = Some v"
    "wr (t + of_nat i * of_nat w) v (copied m t s (i * w)) = Some (copied m t s (Suc i * w))"
    using copied_step[of "i * w" s t m] le n apart by (auto simp: add.commute)
  with lt Suc.hyps(1)[OF i(2)] i show ?case
    by (simp add: cell_copy_loop.simps[of rd wr _ t s n "of_nat i"] add.commute)
qed

lemma loop_copies:
  assumes "unat n * w \<le> 2 ^ 64" and "mapped m s (unat n * w)" "mapped m t (unat n * w)"
    and "\<forall>i < unat n * w. \<forall>j < unat n * w. s + of_nat i \<noteq> t + of_nat j"
  shows "cell_copy_loop rd wr (of_nat w) t s n 0 m = Some (copied m t s (unat n * w))"
  using loop_copies_from[of n 0] assms by simp

end

lemma word_cells:
  assumes "LENGTH('a) = 8 * cell_size TYPE('a::len)" and "cell_size TYPE('a) \<le> 2 ^ 64"
  shows "cell_access (cell_size TYPE('a)) load_word (store_word :: u64 \<Rightarrow> 'a word \<Rightarrow> memory \<Rightarrow> memory option)"
proof
  fix m :: memory and s t :: u64
  let ?n = "cell_size TYPE('a)"
  let ?bs = "map (\<lambda>k. the (m (s + of_nat k))) [0..<?n]"
  assume s: "mapped m s ?n" and t: "mapped m t ?n"
  have "load_word m s = Some (bytes_word ?bs :: 'a word)"
    using s load_bytes_eq[of ?n m s] by (simp add: load_word_def mapped_def)
  moreover have "word_bytes (bytes_word ?bs :: 'a word) = ?bs"
    using assms(1) by (rule word_bytes_bytes_word) simp
  then have "store_word t (bytes_word ?bs :: 'a word) m
      = Some (\<lambda>x. if unat (x - t) < ?n then Some (?bs ! unat (x - t)) else m x)"
    using store_bytes_eq[of ?bs m t] t assms(2) by (simp add: store_word_def mapped_def)
  moreover have "Some (?bs ! unat (x - t)) = m (s + (x - t))" if "unat (x - t) < ?n" for x
    using that mappedD[OF s, of "s + (x - t)"] by auto
  ultimately show "\<exists>v. load_word m s = Some v \<and> store_word t (v :: 'a word) m = Some (copied m t s ?n)"
    by (auto simp: copied_def fun_eq_iff cong: if_cong)
qed

interpretation cell8: cell_access 1 load_word "store_word :: u64 \<Rightarrow> u8 \<Rightarrow> memory \<Rightarrow> memory option"
  using word_cells[where 'a = 8] by (simp add: cell_size_def)

interpretation cell16: cell_access 2 load_word "store_word :: u64 \<Rightarrow> u16 \<Rightarrow> memory \<Rightarrow> memory option"
  using word_cells[where 'a = 16] by (simp add: cell_size_def)

interpretation cell32: cell_access 4 load_word "store_word :: u64 \<Rightarrow> u32 \<Rightarrow> memory \<Rightarrow> memory option"
  using word_cells[where 'a = 32] by (simp add: cell_size_def)

interpretation cell64: cell_access 8 load_word "store_word :: u64 \<Rightarrow> u64 \<Rightarrow> memory \<Rightarrow> memory option"
  using word_cells[where 'a = 64] by (simp add: cell_size_def)

section \<open>BAR objects\<close>

definition Bar_map32 :: "'w env \<Rightarrow> addr \<Rightarrow> 'w pstate \<Rightarrow> (PdaDebugReturnCode \<times> 'w pstate) option" where
  "Bar_map32 E bar s =
     do {
       b \<leftarrow> bars s bar;
       workp \<leftarrow> bar_internal b;
       if uio_fd workp = -1 then Some (ERROR E ENOENT s)
       else do {
         s \<leftarrow> upd_bar bar (\<lambda>b. b\<lparr>bar_map := 0\<rparr>) s;
         let (m, s) = c_mmap (sys_mmap E 0 (bar_size b) (uio_fd workp)) s;
         s \<leftarrow> upd_bar bar (\<lambda>b. b\<lparr>bar_map := m\<rparr>) s;
         if m = MAP_FAILED then do {
           s \<leftarrow> upd_bar bar (\<lambda>b. b\<lparr>bar_map := 0\<rparr>) s;
           Some (ERROR E (errno s) s)
         }
         else Some (PDA_SUCCESS, s)
       }
     }"

definition Bar_map64 :: "'w env \<Rightarrow> addr \<Rightarrow> 'w pstate \<Rightarrow> (PdaDebugReturnCode \<times> 'w pstate) option" where
  "Bar_map64 E bar s = Bar_map32 E bar s"

text \<open>The \<open>default\<close> branch of the switch is unreachable for a value of the enumeration.\<close>

definition Bar_map ::
  "'w env \<Rightarrow> addr \<Rightarrow> u16 \<Rightarrow> PciBarTypes \<Rightarrow> u64 \<Rightarrow> u64 \<Rightarrow> 'w pstate
   \<Rightarrow> (PdaDebugReturnCode \<times> 'w pstate) option" where
  "Bar_map E bar number type sz address s =
     do {
       s \<leftarrow> upd_bar bar (\<lambda>b. b\<lparr>bar_number := number, bar_type := type, bar_size := sz,
                                  bar_address := address, bar_map := 0\<rparr>) s;
       (case type of
          PCIBARTYPES_NOT_MAPPED \<Rightarrow> Some (PDA_SUCCESS, s)
        | PCIBARTYPES_IO \<Rightarrow> Some (PDA_SUCCESS, s)
        | PCIBARTYPES_BAR32 \<Rightarrow> Bar_map32 E bar s
        | PCIBARTYPES_BAR64 \<Rightarrow> Bar_map64 E bar s)
     }"

definition Bar_delete_int :: "'w env \<Rightarrow> addr \<Rightarrow> 'w pstate \<Rightarrow> 'w pstate option" where
  "Bar_delete_int E bar s =
     do {
       b \<leftarrow> bars s bar;
       s \<leftarrow> (if bar_map b \<noteq> 0
             then upd_bar bar (\<lambda>b. b\<lparr>bar_map := 0\<rparr>) (c_void (sys_munmap E (bar_map b) (bar_size b)) s)
             else Some s);
       workp \<leftarrow> bar_internal b;
       (if 0 \<le> uio_fd workp
        then upd_bar bar (\<lambda>b. b\<lparr>bar_internal := Some (workp\<lparr>uio_fd := -1\<rparr>)\<rparr>)
               (snd (c_close E (uio_fd workp) s))
        else Some s)
     }"

definition Bar_delete :: "'w env \<Rightarrow> ptr \<Rightarrow> 'w pstate \<Rightarrow> (PdaDebugReturnCode \<times> 'w pstate) option" where
  "Bar_delete E bar s =
     (case bar of
        None \<Rightarrow> Some (PDA_SUCCESS, s)
      | Some p \<Rightarrow> do {
          s \<leftarrow> Bar_delete_int E p s;
          s \<leftarrow> upd_bar p (\<lambda>b. b\<lparr>bar_internal := None\<rparr>) s;
          Some (PDA_SUCCESS, s\<lparr>bars := (bars s)(p := None)\<rparr>)
        })"

text \<open>
  \<open>Bar_new\<close>; its last block (\<open>exit:\<close>) deletes the object and returns \<open>NULL\<close> whatever \<open>Bar_delete\<close>
  says. The parameter \<open>uio_fd\<close> of the C function is not used by it.
\<close>

definition Bar_new_exit :: "'w env \<Rightarrow> ptr \<Rightarrow> 'w pstate \<Rightarrow> (ptr \<times> 'w pstate) option" where
  "Bar_new_exit E bar s = do { (_, s) \<leftarrow> Bar_delete E bar s; Some (None, s) }"

definition bar_path :: "bdf \<Rightarrow> u16 \<Rightarrow> string" where
  "bar_path ids number =
     c_snprintf PDA_STRING_LIMIT (device_path ids @ ''/bar'' @ fmt_dec (unat number))"

definition Bar_new ::
  "'w env \<Rightarrow> ptr \<Rightarrow> u16 \<Rightarrow> PciBarTypes \<Rightarrow> u64 \<Rightarrow> u64 \<Rightarrow> int \<Rightarrow> 'w pstate \<Rightarrow> (ptr \<times> 'w pstate) option" where
  "Bar_new E device number type sz address fd s =
     (case c_new E sizeof_Bar s of
        (None, s) \<Rightarrow> Bar_new_exit E None (snd (ERROR E (errno s) s))
      | (Some bar, s) \<Rightarrow>
          let s = s\<lparr>bars := (bars s)(bar \<mapsto> zero_Bar)\<rparr> in
          (case c_alloc E sizeof_BarInternal s of
             (False, s) \<Rightarrow> Bar_new_exit E (Some bar) (snd (ERROR E (errno s) s))
           | (True, s) \<Rightarrow> do {
               s \<leftarrow> upd_bar bar (\<lambda>b. b\<lparr>bar_internal := Some zero_BarInternal\<rparr>) s;
               ((ret, ids), s) \<leftarrow> lookup_ids E device s;
               if ret \<noteq> PDA_SUCCESS then Bar_new_exit E (Some bar) (snd (ERROR E (errno s) s))
               else do {
                 let (fd, s) = pda_spinOpen E (bar_path ids number) O_RDWR PDA_OPEN_DEFAULT_SPIN s;
                 s \<leftarrow> upd_bar bar (\<lambda>b. b\<lparr>bar_internal :=
                        Some \<lparr>uio_fd = fd, uio_file_path = bar_path ids number\<rparr>\<rparr>) s;
                 (ret, s) \<leftarrow> Bar_map E bar number type sz address s;
                 if ret = PDA_SUCCESS then Some (Some bar, s) else Bar_new_exit E (Some bar) s
               }
             }))"

text \<open>The getters: the code and, written through the result pointers, the mapping or the address.\<close>

definition is_memory_bar :: "PciBarTypes \<Rightarrow> bool" where
  "is_memory_bar t \<longleftrightarrow> t = PCIBARTYPES_BAR32 \<or> t = PCIBARTYPES_BAR64"

definition Bar_getMap ::
  "'w env \<Rightarrow> ptr \<Rightarrow> 'w pstate \<Rightarrow> ((PdaDebugReturnCode \<times> u64 \<times> u64) \<times> 'w pstate) option" where
  "Bar_getMap E bar s =
     (case bar of
        None \<Rightarrow> Some (let (_, s) = ERROR E EFAULT s; (c, s) = ERROR E EFAULT s in ((c, 0, 0), s))
      | Some p \<Rightarrow> do {
          b \<leftarrow> bars s p;
          if is_memory_bar (bar_type b) then Some ((PDA_SUCCESS, bar_map b, bar_size b), s)
          else Some (let (c, s) = ERROR E EFAULT s in ((c, 0, 0), s))
        })"

definition Bar_getPhysicalAddress ::
  "'w env \<Rightarrow> ptr \<Rightarrow> 'w pstate \<Rightarrow> ((PdaDebugReturnCode \<times> u64) \<times> 'w pstate) option" where
  "Bar_getPhysicalAddress E bar s =
     (case bar of
        None \<Rightarrow> Some (let (_, s) = ERROR E EFAULT s; (c, s) = ERROR E EFAULT s in ((c, 0), s))
      | Some p \<Rightarrow> do {
          b \<leftarrow> bars s p;
          if is_memory_bar (bar_type b) then Some ((PDA_SUCCESS, bar_address b), s)
          else Some (let (c, s) = ERROR E EFAULT s in ((c, 0), s))
        })"

section \<open>Properties\<close>

lemma store_word_eq:
  fixes v :: "'a::len word"
  assumes "mapped m a (cell_size TYPE('a))" and "cell_size TYPE('a) \<le> 2 ^ 64"
  shows "store_word a v m = Some (\<lambda>x. if unat (x - a) < cell_size TYPE('a)
    then Some (word_bytes v ! unat (x - a)) else m x)"
  using assms store_bytes_eq[of "word_bytes v" m a] by (simp add: store_word_def mapped_def)

lemma load_store_word:
  fixes v :: "'a::len word"
  assumes "mapped m a (cell_size TYPE('a))" and "LENGTH('a) = 8 * cell_size TYPE('a)"
    and "cell_size TYPE('a) \<le> 2 ^ 64" and "store_word a v m = Some m'"
  shows "load_word m' a = Some v"
proof -
  let ?n = "cell_size TYPE('a)"
  have m': "m' (a + of_nat k) = Some (word_bytes v ! k)" if "k < ?n" for k
    using assms(4) store_word_eq[OF assms(1,3), of v] that assms(3) by (auto simp: unat_of_nat)
  then have "load_bytes m' a ?n = Some (map (\<lambda>k. the (m' (a + of_nat k))) [0..<?n])"
    by (intro load_bytes_eq) auto
  also have "map (\<lambda>k. the (m' (a + of_nat k))) [0..<?n] = word_bytes v"
    using m' by (intro nth_equalityI) auto
  finally show ?thesis
    using bytes_word_word_bytes[OF assms(2)] by (simp add: load_word_def)
qed

text \<open>
  C40. A value written by \<open>Bar_put\<close> is read back by \<open>Bar_get\<close> of the same width at the same
  address, and no byte outside the register changes; the width is any multiple of a byte, in
  particular the four instances of the macros.
\<close>

theorem Bar_put_get:
  fixes v :: "'a::len word"
  assumes "LENGTH('a) = 8 * cell_size TYPE('a)" and "cell_size TYPE('a) \<le> 2 ^ 64"
    and "h p = Some b" and "mapped m (bar_map b + address) (cell_size TYPE('a))"
  shows "\<exists>m'. BAR_PUT_FUNCTION h (Some p) v address m = Some m'
    \<and> BAR_GET_FUNCTION h m' (Some p) address = Some v
    \<and> (\<forall>x. \<not> unat (x - (bar_map b + address)) < cell_size TYPE('a) \<longrightarrow> m' x = m x)"
  using assms store_word_eq[OF assms(4,2), of v] load_store_word[OF assms(4,1,2), of v]
  by (simp add: BAR_PUT_FUNCTION_def BAR_GET_FUNCTION_def)

definition some_bar :: Bar where
  "some_bar = \<lparr>bar_device = None, bar_number = 0, bar_type = PCIBARTYPES_BAR32, bar_size = 4096,
     bar_address = 0xfe000000, bar_map = 0x7f0000000000, bar_internal = None\<rparr>"

theorem Bar_put_get_witness:
  "\<exists>m'. BAR_PUT_FUNCTION [5 \<mapsto> some_bar] (Some 5) (0xdeadbeef :: u32) 16 (\<lambda>_. Some 0) = Some m'
    \<and> BAR_GET_FUNCTION [5 \<mapsto> some_bar] m' (Some 5) 16 = Some (0xdeadbeef :: u32)
    \<and> m' 0 = Some 0"
  using Bar_put_get[where 'a = 32, of "[5 \<mapsto> some_bar]" 5 some_bar "\<lambda>_. Some 0" 16 "0xdeadbeef"]
  by (auto simp: cell_size_def mapped_def some_bar_def)

lemma whole_cells:
  fixes bytes :: u64
  assumes "w < 2 ^ 64"
  shows "unat (bytes div of_nat w) = unat bytes div w" and "unat (bytes div of_nat w) * w \<le> 2 ^ 64"
proof -
  show "unat (bytes div of_nat w) = unat bytes div w"
    using assms by (simp add: unat_div unat_of_nat)
  then show "unat (bytes div of_nat w) * w \<le> 2 ^ 64"
    using unat_bound[of bytes] order.trans[OF div_times_less_eq_dividend[of "unat bytes" w], of "2 ^ 64"]
    by simp
qed

text \<open>The loop copies whole cells; a remainder of fewer bytes than one cell is left out.\<close>

lemma memcpyToBar_cells:
  fixes bytes :: u64
  assumes "LENGTH('a) = 8 * cell_size TYPE('a::len)" and "cell_size TYPE('a) < 2 ^ 64"
    and "bars s p = Some b" and n: "n = unat bytes div cell_size TYPE('a) * cell_size TYPE('a)"
    and "mapped m source n" and "mapped m (bar_map b + target) n"
    and "\<forall>i < n. \<forall>j < n. source + of_nat i \<noteq> bar_map b + target + of_nat j"
  shows "BAR_PUT_MEMCPY_FUNCTION TYPE('a) E (Some p) target source bytes m s
    = Some (PDA_SUCCESS, copied m (bar_map b + target) source n, s)"
proof -
  note k = whole_cells[OF assms(2), of bytes]
  from cell_access.loop_copies[OF word_cells[OF assms(1)] k(2), of m source "bar_map b + target"] assms k
  show ?thesis by (simp add: BAR_PUT_MEMCPY_FUNCTION_def)
qed

text \<open>
  C39. \<open>Bar_memcpyToBar\<close> of any width, for a number of bytes that is a multiple of the width, copies exactly these bytes of the
  source to the BAR, in their order, and changes no other byte of the memory. Both regions have to be mapped and must not overlap.
\<close>

theorem memcpyToBar_copies:
  fixes bytes :: u64
  assumes "LENGTH('a) = 8 * cell_size TYPE('a::len)" and "cell_size TYPE('a) < 2 ^ 64"
    and "bars s p = Some b" and "cell_size TYPE('a) dvd unat bytes"
    and "mapped m source (unat bytes)" and "mapped m (bar_map b + target) (unat bytes)"
    and "\<forall>i < unat bytes. \<forall>j < unat bytes. source + of_nat i \<noteq> bar_map b + target + of_nat j"
  shows "\<exists>m'. BAR_PUT_MEMCPY_FUNCTION TYPE('a) E (Some p) target source bytes m s = Some (PDA_SUCCESS, m', s) \<and>
    (\<forall>i < unat bytes. m' (bar_map b + target + of_nat i) = m (source + of_nat i)) \<and>
    (\<forall>x. (\<forall>i < unat bytes. x \<noteq> bar_map b + target + of_nat i) \<longrightarrow> m' x = m x)"
proof -
  have n: "unat bytes = unat bytes div cell_size TYPE('a) * cell_size TYPE('a)" using assms(4) by simp
  have u: "unat (of_nat i :: u64) = i" if "i < unat bytes" for i using that unat_bound[of bytes] by (simp add: unat_of_nat)
  have "copied m (bar_map b + target) source (unat bytes) (bar_map b + target + of_nat i) = m (source + of_nat i)" if "i < unat bytes" for i
    using that by (simp add: copied_def u)
  moreover have "copied m (bar_map b + target) source (unat bytes) x = m x" if "\<forall>i < unat bytes. x \<noteq> bar_map b + target + of_nat i" for x
    using that[rule_format, of "unat (x - (bar_map b + target))"] by (auto simp: copied_def)
  ultimately show ?thesis using memcpyToBar_cells[OF assms(1-3) n assms(5-7)] by blast
qed

text \<open>
  \<open>Bar_memcpyFromBar\<close> likewise copies whole cells from the BAR to the target buffer.
\<close>

lemma memcpyFromBar_copies:
  fixes bytes :: u64
  assumes "LENGTH('a) = 8 * cell_size TYPE('a::len)" and "cell_size TYPE('a) < 2 ^ 64"
    and "bars s p = Some b" and n: "n = unat bytes div cell_size TYPE('a) * cell_size TYPE('a)"
    and "mapped m (bar_map b + source) n" and "mapped m target n"
    and "\<forall>i < n. \<forall>j < n. bar_map b + source + of_nat i \<noteq> target + of_nat j"
  shows "BAR_GET_MEMCPY_FUNCTION TYPE('a) E (Some p) target source bytes m s
    = Some (PDA_SUCCESS, copied m target (bar_map b + source) n, s)"
proof -
  note k = whole_cells[OF assms(2), of bytes]
  from cell_access.loop_copies[OF word_cells[OF assms(1)] k(2), of m "bar_map b + source" target] assms k
  show ?thesis by (simp add: BAR_GET_MEMCPY_FUNCTION_def)
qed

subsection \<open>Witnesses of the copy functions\<close>

definition some_process :: "unit pstate" where
  "some_process = \<lparr>errno = 0, debug_mask = 0, activated = 0, channel = [], world = (),
     bufs = Map.empty, bars = [5 \<mapsto> some_bar], devs = [1 \<mapsto> zero_PciDevice], brk = 10,
     uio_sysfs_dir = []\<rparr>"

lemma regions_apart:
  fixes s t :: u64
  assumes "unat s + n \<le> unat t" and "unat t + n \<le> 2 ^ 64"
  shows "\<forall>i < n. \<forall>j < n. s + of_nat i \<noteq> t + of_nat j"
proof (intro allI impI notI)
  fix i j
  assume ij: "i < n" "j < n" and eq: "s + of_nat i = t + of_nat j"
  from ij have "unat (s + of_nat i) = unat s + i" "unat (t + of_nat j) = unat t + j"
    using assms by (simp_all add: unat_word_ariths unat_of_nat)
  then have "unat s + i = unat t + j"
    using eq by metis
  with ij assms(1) show False by simp
qed

theorem memcpyToBar_copies_witness:
  "\<exists>m'. BAR_PUT_MEMCPY_FUNCTION TYPE(32) calm_env (Some 5) 16 0x1000 8 (\<lambda>x. Some (ucast x)) some_process = Some (PDA_SUCCESS, m', some_process) \<and>
    m' 0x7f0000000010 = Some 0 \<and> m' 0x7f0000000013 = Some 3 \<and> m' 0x7f0000000017 = Some 7 \<and> m' 0x7f0000000018 = Some 0x18"
proof -
  have a: "bar_map some_bar + 16 = 0x7f0000000010"
    by (simp add: some_bar_def)
  have "\<exists>m'. BAR_PUT_MEMCPY_FUNCTION TYPE(32) calm_env (Some 5) 16 0x1000 8 (\<lambda>x. Some (ucast x)) some_process = Some (PDA_SUCCESS, m', some_process) \<and>
    (\<forall>i < unat (8 :: u64). m' (0x7f0000000010 + of_nat i) = Some (ucast (0x1000 + of_nat i :: u64))) \<and>
    (\<forall>x. (\<forall>i < unat (8 :: u64). x \<noteq> 0x7f0000000010 + of_nat i) \<longrightarrow> m' x = Some (ucast x))"
    by (rule memcpyToBar_copies[where b = some_bar and target = 16, unfolded a])
      (use regions_apart[of "0x1000" 8 "0x7f0000000010"] in
        \<open>simp_all add: cell_size_def mapped_def some_process_def\<close>)
  then obtain m' where run: "BAR_PUT_MEMCPY_FUNCTION TYPE(32) calm_env (Some 5) 16 0x1000 8 (\<lambda>x. Some (ucast x)) some_process = Some (PDA_SUCCESS, m', some_process)"
    and in_range: "\<forall>i < 8. m' (0x7f0000000010 + of_nat i) = Some (ucast (0x1000 + of_nat i :: u64))"
    and rest: "\<forall>x. (\<forall>i < 8. x \<noteq> 0x7f0000000010 + of_nat i) \<longrightarrow> m' x = Some (ucast x)" by auto
  have "(0x7f0000000010 :: u64) + 8 \<noteq> 0x7f0000000010 + of_nat i" if "i < 8" for i
    unfolding add_left_cancel using that by (auto simp: unat_of_nat dest!: arg_cong[of _ _ unat])
  then have "\<forall>i < 8. (0x7f0000000018 :: u64) \<noteq> 0x7f0000000010 + of_nat i" by simp
  with rest have "m' 0x7f0000000018 = Some 0x18" by (auto dest!: spec[of _ "0x7f0000000018"])
  then show ?thesis
    using run in_range[rule_format, of 0] in_range[rule_format, of 3] in_range[rule_format, of 7] by simp
qed

text \<open>Of ten bytes in cells of four, the last two are not copied.\<close>

lemma memcpyToBar_skips_remainder:
  "BAR_PUT_MEMCPY_FUNCTION TYPE(32) calm_env (Some 5) 16 0x1000 10 (\<lambda>_. Some 7) some_process
    = Some (PDA_SUCCESS, copied (\<lambda>_. Some 7) 0x7f0000000010 0x1000 8, some_process)"
proof -
  have a: "bar_map some_bar + 16 = 0x7f0000000010"
    by (simp add: some_bar_def)
  show ?thesis
    by (rule memcpyToBar_cells[where b = some_bar and target = 16, unfolded a])
      (use regions_apart[of "0x1000" 8 "0x7f0000000010"] in
        \<open>simp_all add: cell_size_def mapped_def some_process_def\<close>)
qed

subsection \<open>Creation and deletion\<close>

lemma Bar_delete_frees:
  assumes "bars s p = Some b" and "bar_internal b = Some i"
  shows "\<exists>s'. Bar_delete E (Some p) s = Some (PDA_SUCCESS, s')
    \<and> same_heaps (s\<lparr>bars := (bars s)(p := None)\<rparr>) s'"
  using assms by (simp add: Bar_delete_def Bar_delete_int_def upd_bar_def same_heaps_def)

lemma Bar_map32_result:
  assumes E: "posix_env E" and b: "bars s p = Some b" "bar_internal b = Some i"
  shows "\<exists>r m s'. Bar_map32 E p s = Some (r, s')
    \<and> same_heaps (s\<lparr>bars := (bars s)(p \<mapsto> b\<lparr>bar_map := m\<rparr>)\<rparr>) s'
    \<and> (r = PDA_SUCCESS \<longrightarrow> (\<exists>w w'. sys_mmap E 0 (bar_size b) (uio_fd i) w = (Inr m, w')))
    \<and> (granting E \<and> uio_fd i \<noteq> -1 \<longrightarrow> r = PDA_SUCCESS)"
proof (cases "uio_fd i = -1")
  case True
  with b show ?thesis
    by (intro exI[of _ ENOENT] exI[of _ "bar_map b"] exI[of _ "snd (ERROR E ENOENT s)"])
      (simp add: Bar_map32_def same_heaps_def prod_eq_iff fun_upd_idem)
next
  case False
  let ?mm = "c_mmap (sys_mmap E 0 (bar_size b) (uio_fd i)) (s\<lparr>bars := (bars s)(p \<mapsto> b\<lparr>bar_map := 0\<rparr>)\<rparr>)"
  show ?thesis
  proof (cases "fst ?mm = MAP_FAILED")
    case fail: True
    with c_mmap_errno[OF E] have "errno (snd ?mm) \<noteq> 0" by force
    moreover have "\<not> granting E"
      using fail c_mmap_granted[OF _ E, of 0 "bar_size b" "uio_fd i"] by (metis prod.collapse)
    ultimately show ?thesis using False b fail
      by (intro exI[of _ "errno (snd ?mm)"] exI[of _ 0]) (simp add: Bar_map32_def upd_bar_def split_beta same_heaps_def prod_eq_iff)
  next
    case ok: False
    with False b c_mmap_mapped[of "sys_mmap E 0 (bar_size b) (uio_fd i)"] show ?thesis
      by (intro exI[of _ PDA_SUCCESS] exI[of _ "fst ?mm"]) (simp add: Bar_map32_def upd_bar_def split_beta same_heaps_def)
  qed
qed

lemma Bar_map_result:
  assumes E: "posix_env E" and b: "bars s p = Some b" "bar_internal b = Some i"
  shows "\<exists>r m s'. Bar_map E p number type sz address s = Some (r, s')
    \<and> same_heaps (s\<lparr>bars := (bars s)(p \<mapsto> b\<lparr>bar_number := number, bar_type := type, bar_size := sz,
                                  bar_address := address, bar_map := m\<rparr>)\<rparr>) s'
    \<and> (r = PDA_SUCCESS \<longrightarrow> is_memory_bar type \<longrightarrow>
         (\<exists>w w'. sys_mmap E 0 sz (uio_fd i) w = (Inr m, w')))
    \<and> (granting E \<and> uio_fd i \<noteq> -1 \<longrightarrow> r = PDA_SUCCESS)"
proof -
  let ?b = "b\<lparr>bar_number := number, bar_type := type, bar_size := sz, bar_address := address, bar_map := 0\<rparr>"
  let ?s = "s\<lparr>bars := (bars s)(p \<mapsto> ?b)\<rparr>"
  have "bars ?s p = Some ?b" "bar_internal ?b = Some i"
    using b by simp_all
  from Bar_map32_result[OF E this] obtain r m s' where m32: "Bar_map32 E p ?s = Some (r, s')"
    "same_heaps (?s\<lparr>bars := (bars ?s)(p \<mapsto> ?b\<lparr>bar_map := m\<rparr>)\<rparr>) s'"
    "r = PDA_SUCCESS \<longrightarrow> (\<exists>w w'. sys_mmap E 0 (bar_size ?b) (uio_fd i) w = (Inr m, w'))"
    "granting E \<and> uio_fd i \<noteq> -1 \<longrightarrow> r = PDA_SUCCESS"
    by blast
  show ?thesis
  proof (cases "is_memory_bar type")
    case True
    then have "Bar_map E p number type sz address s = Bar_map32 E p ?s"
      using b by (auto simp: Bar_map_def upd_bar_def is_memory_bar_def Bar_map64_def)
    with m32 show ?thesis
      by (intro exI[of _ r] exI[of _ m] exI[of _ s']) simp
  next
    case False
    then have "Bar_map E p number type sz address s = Some (PDA_SUCCESS, ?s)"
      using b by (cases type) (auto simp: Bar_map_def upd_bar_def is_memory_bar_def)
    with False show ?thesis
      by (intro exI[of _ PDA_SUCCESS] exI[of _ 0] exI[of _ ?s]) simp
  qed
qed

text \<open>A BAR object that represents what it was created for.\<close>

definition bar_object ::
  "'w env \<Rightarrow> PciDevice \<Rightarrow> u16 \<Rightarrow> PciBarTypes \<Rightarrow> u64 \<Rightarrow> u64 \<Rightarrow> Bar \<Rightarrow> bool" where
  "bar_object E dev number type sz address b \<longleftrightarrow>
     bar_number b = number \<and> bar_type b = type \<and> bar_size b = sz \<and> bar_address b = address \<and>
     (\<exists>i. bar_internal b = Some i \<and> uio_file_path i = bar_path (dev_bdf dev) number \<and>
       (is_memory_bar type \<longrightarrow> (\<exists>w w'. sys_mmap E 0 sz (uio_fd i) w = (Inr (bar_map b), w'))))"

lemma Bar_new_outcome:
  assumes E: "posix_env E" and alloc: "\<forall>n w. fst (sys_alloc E n w)"
    and dev: "devs s d = Some dev" and new: "bars s (brk s) = None"
  shows "\<exists>r s'. Bar_new E (Some d) number type sz address fd s = Some (r, s')
    \<and> devs s' = devs s \<and> bufs s' = bufs s
    \<and> (case r of
         None \<Rightarrow> bars s' = bars s
       | Some a \<Rightarrow> a = brk s \<and> (\<exists>b. bars s' = (bars s)(a \<mapsto> b) \<and> bar_object E dev number type sz address b))
    \<and> (granting E \<longrightarrow> r \<noteq> None)"
proof -
  let ?p = "brk s"
  define s1 where "s1 = s\<lparr>world := snd (sys_alloc E sizeof_Bar (world s)), brk := Suc ?p,
    bars := (bars s)(?p \<mapsto> zero_Bar)\<rparr>"
  define s2 where "s2 = s1\<lparr>world := snd (sys_alloc E sizeof_BarInternal (world s1)),
    bars := (bars s)(?p \<mapsto> zero_Bar\<lparr>bar_internal := Some zero_BarInternal\<rparr>)\<rparr>"
  define path where "path = bar_path (dev_bdf dev) number"
  obtain fd' s3 where sp: "pda_spinOpen E path O_RDWR PDA_OPEN_DEFAULT_SPIN s2 = (fd', s3)"
    by fastforce
  define i where "i = \<lparr>uio_fd = fd', uio_file_path = path\<rparr>"
  define b where "b = zero_Bar\<lparr>bar_internal := Some i\<rparr>"
  define s4 where "s4 = s3\<lparr>bars := (bars s)(?p \<mapsto> b)\<rparr>"
  have s3: "same_heaps s2 s3"
    using sp by (rule pda_spinOpen_heaps)
  obtain r m s5 where mp: "Bar_map E ?p number type sz address s4 = Some (r, s5)"
    "same_heaps (s4\<lparr>bars := (bars s4)(?p \<mapsto> b\<lparr>bar_number := number, bar_type := type, bar_size := sz,
                                  bar_address := address, bar_map := m\<rparr>)\<rparr>) s5"
    "r = PDA_SUCCESS \<longrightarrow> is_memory_bar type \<longrightarrow> (\<exists>w w'. sys_mmap E 0 sz (uio_fd i) w = (Inr m, w'))"
    "granting E \<and> uio_fd i \<noteq> -1 \<longrightarrow> r = PDA_SUCCESS"
    using Bar_map_result[OF E, of s4 ?p b i number type sz address] unfolding s4_def b_def
    by (simp del: update_convs) blast
  let ?b = "b\<lparr>bar_number := number, bar_type := type, bar_size := sz, bar_address := address, bar_map := m\<rparr>"
  have heaps: "bars s5 = (bars s)(?p \<mapsto> ?b)" "devs s5 = devs s" "bufs s5 = bufs s"
    using mp(2) s3 by (simp_all add: same_heaps_def s4_def s2_def s1_def)
  have eq: "Bar_new E (Some d) number type sz address fd s =
      (if r = PDA_SUCCESS then Some (Some ?p, s5) else Bar_new_exit E (Some ?p) s5)"
    using alloc dev sp mp(1) s3
    by (simp add: Bar_new_def c_new_def c_alloc_ok s1_def[symmetric] upd_bar_def Let_def)
      (simp add: s1_def s2_def path_def b_def i_def s4_def same_heaps_def)
  show ?thesis
  proof (cases "r = PDA_SUCCESS")
    case True
    with mp(3) have "bar_object E dev number type sz address ?b"
      by (simp add: bar_object_def b_def i_def path_def)
    with True heaps show ?thesis by (auto simp: eq)
  next
    case False
    from Bar_delete_frees[of s5 ?p ?b i E] heaps obtain s6 where
      "Bar_delete E (Some ?p) s5 = Some (PDA_SUCCESS, s6)"
      "same_heaps (s5\<lparr>bars := (bars s5)(?p := None)\<rparr>) s6"
      by (auto simp: b_def)
    moreover have "\<not> granting E" using False mp(4) pda_spinOpen_granted[OF _ sp] by (auto simp: i_def)
    ultimately show ?thesis using False heaps new
      by (auto simp: eq Bar_new_exit_def same_heaps_def fun_upd_idem)
  qed
qed

text \<open>
  C38. \<open>Bar_new\<close> for an existing device, when memory is available, either returns a new BAR object
  with the number, type, size and physical address it was asked for, whose mapping (for a memory
  BAR) is the one \<open>mmap\<close> returned for the BAR's file, or returns \<open>NULL\<close> and leaves no object
  behind. Devices and buffers are never touched. When the system grants every call, an object is
  returned.
\<close>

theorem Bar_new_result:
  assumes E: "posix_env E" and alloc: "\<forall>n w. fst (sys_alloc E n w)"
    and dev: "devs s d = Some dev" and new: "bars s (brk s) = None"
  shows "\<exists>r s'. Bar_new E (Some d) number type sz address fd s = Some (r, s')
    \<and> devs s' = devs s \<and> bufs s' = bufs s
    \<and> (case r of
         None \<Rightarrow> bars s' = bars s
       | Some a \<Rightarrow> a = brk s \<and> (\<exists>b. bars s' = (bars s)(a \<mapsto> b) \<and> bar_object E dev number type sz address b))
    \<and> (granting E \<longrightarrow> r \<noteq> None)"
  using assms by (rule Bar_new_outcome)

theorem Bar_new_result_witness:
  "\<exists>a s' b. Bar_new calm_env (Some 1) 2 PCIBARTYPES_BAR32 4096 0xfe000000 (-1) some_process = Some (Some a, s')
    \<and> bars s' = (bars some_process)(a \<mapsto> b)
    \<and> bar_object (calm_env :: unit env) zero_PciDevice 2 PCIBARTYPES_BAR32 4096 0xfe000000 b"
proof -
  have "devs some_process 1 = Some zero_PciDevice" "bars some_process (brk some_process) = None"
    "\<forall>n w. fst (sys_alloc (calm_env :: unit env) n w)"
    by (simp_all add: some_process_def calm_env_def)
  from Bar_new_result[OF calm_env_posix this(3,1,2), where number = 2 and type = PCIBARTYPES_BAR32 and sz = 4096 and address = "0xfe000000" and fd = "-1"]
  show ?thesis using calm_granting by (auto split: option.splits)
qed

end
