(* ===== verification/PDA_PciBars.thy ===== *)
theory PDA_PciBars
  imports PDA_Bar
begin

text \<open>
  How a device learns about its base address registers (\<open>src/pci.c\<close>,
  \<open>arch/linux_x86_uio/pci_inc.c\<close>): the classification of the registers from the configuration
  space header, the cross-check with libpci and the sizes it reports, the lazy initialisation
  \<open>PciDevice_init_bars\<close> and \<open>PciDevice_getBar\<close> with the decoding of the physical address.
  A write behind the end of the arrays \<open>bar_types\<close>, \<open>bar_sizes\<close>, \<open>bar\<close> or a read behind the end of
  \<open>Bar\<close> is undefined (\<open>None\<close>).
\<close>

section \<open>The configuration space header\<close>

text \<open>Register \<open>Bar[i]\<close> of the packed header that lies over the configuration space buffer.\<close>

definition header_Bar :: "PciDevice \<Rightarrow> nat \<Rightarrow> u32 option" where
  "header_Bar d i =
     (if pci_config_header d \<and> i < PDA_MAX_PCI_32_BARS
      then Some (bytes_word (take 4 (drop (16 + 4 * i) (config_space_buffer d))))
      else None)"

section \<open>Classification\<close>

text \<open>
  The loop over the registers; a 64-bit register takes the next one as its upper half. The result
  says whether the loop ran to its end, and the types.
\<close>

function classify_loop ::
  "PciDevice \<Rightarrow> nat \<Rightarrow> PciBarTypes list \<Rightarrow> (bool \<times> PciBarTypes list) option" where
  "classify_loop d i types =
     (if i < PDA_MAX_PCI_32_BARS then
        Option.bind (list_put types i PCIBARTYPES_NOT_MAPPED) (\<lambda>types.
        Option.bind (header_Bar d i) (\<lambda>bar.
          if bar = 0 then classify_loop d (Suc i) types
          else if bar AND 1 = 1 then
            Option.bind (list_put types i PCIBARTYPES_IO) (classify_loop d (Suc i))
          else if bar AND 6 = 0 then
            Option.bind (list_put types i PCIBARTYPES_BAR32) (classify_loop d (Suc i))
          else if bar AND 6 = 4 then
            Option.bind (list_put types i PCIBARTYPES_BAR64) (\<lambda>types.
            Option.bind (list_put types (Suc i) PCIBARTYPES_NOT_MAPPED)
              (classify_loop d (Suc (Suc i))))
          else Some (False, types)))
      else Some (True, types))"
  by pat_completeness auto
termination
  by (relation "measure (\<lambda>(d, i, types). PDA_MAX_PCI_32_BARS - i)") auto

declare classify_loop.simps [simp del]

definition PciDevice_classify_bars ::
  "'w env \<Rightarrow> ptr \<Rightarrow> 'w pstate \<Rightarrow> (PdaDebugReturnCode \<times> 'w pstate) option" where
  "PciDevice_classify_bars E device s =
     (case device of
        None \<Rightarrow> Some (ERROR E EINVAL s)
      | Some a \<Rightarrow> do {
          d \<leftarrow> devs s a;
          (ok, types) \<leftarrow> classify_loop d 0 (bar_types d);
          s \<leftarrow> upd_dev a (\<lambda>d. d\<lparr>bar_types := types\<rparr>) s;
          if ok then Some (PDA_SUCCESS, s) else Some (ERROR E EINVAL s)
        })"

section \<open>libpci\<close>

definition PciDevice_invoke_libpci_set_barsize :: "nat \<Rightarrow> u64 \<Rightarrow> PciDevice \<Rightarrow> PciDevice option" where
  "PciDevice_invoke_libpci_set_barsize i sz d =
     do {
       sizes \<leftarrow> list_put (bar_sizes d) i 0;
       type \<leftarrow> list_get (bar_types d) i;
       if is_memory_bar type
       then do { sizes \<leftarrow> list_put sizes i sz; Some (d\<lparr>bar_sizes := sizes\<rparr>) }
       else Some (d\<lparr>bar_sizes := sizes\<rparr>)
     }"

text \<open>\<open>if(device->bar_types[i] != t) { device->bar_types[i] = t; }\<close>\<close>

definition retype :: "nat \<Rightarrow> PciBarTypes \<Rightarrow> PciDevice \<Rightarrow> PciDevice option" where
  "retype i t d = do { types \<leftarrow> list_put (bar_types d) i t; Some (d\<lparr>bar_types := types\<rparr>) }"

text \<open>The body of the loop over the registers, for the device \<open>p\<close> libpci found.\<close>

definition libpci_bar :: "pci_dev \<Rightarrow> nat \<Rightarrow> PciDevice \<Rightarrow> PciDevice option" where
  "libpci_bar p i d =
     (let bar = ucast (pd_base_addr p i) :: u32;
          virt_flag = bytes_word (map (pd_config p) [0x10 + 4 * i ..< 0x10 + 4 * i + 4]) :: u32 in
      if bar \<noteq> 0 \<and> virt_flag = 0 then retype i PCIBARTYPES_NOT_MAPPED d
      else if bar = 0 then
        Option.bind (retype i PCIBARTYPES_NOT_MAPPED d) (PciDevice_invoke_libpci_set_barsize i (pd_size p i))
      else if bar AND 1 = 1 then
        Option.bind (retype i PCIBARTYPES_IO d) (PciDevice_invoke_libpci_set_barsize i (pd_size p i))
      else if bar AND 6 = 0 then
        Option.bind (retype i PCIBARTYPES_BAR32 d) (PciDevice_invoke_libpci_set_barsize i (pd_size p i))
      else if bar AND 6 = 4 then
        Option.bind (list_get (bar_types d) i) (\<lambda>t.
        Option.bind
          (if t \<noteq> PCIBARTYPES_BAR64
           then Option.bind (retype i PCIBARTYPES_BAR64 d) (retype (Suc i) PCIBARTYPES_NOT_MAPPED)
           else Some d)
          (PciDevice_invoke_libpci_set_barsize i (pd_size p i)))
      else Some d)"

fun libpci_bars :: "pci_dev \<Rightarrow> nat list \<Rightarrow> PciDevice \<Rightarrow> PciDevice option" where
  "libpci_bars p [] d = Some d"
| "libpci_bars p (i # is) d = Option.bind (libpci_bar p i d) (libpci_bars p is)"

definition libpci_match :: "string \<Rightarrow> pci_dev \<Rightarrow> bool" where
  "libpci_match busid p \<longleftrightarrow>
     c_snprintf 13 (UIO_PATH_FORMAT (pd_domain p) (pd_bus p) (pd_dev p) (pd_func p)) = busid"

fun libpci_devices :: "string \<Rightarrow> pci_dev list \<Rightarrow> PciDevice \<Rightarrow> PciDevice option" where
  "libpci_devices busid [] d = Some d"
| "libpci_devices busid (p # ps) d =
     (if libpci_match busid p then
        Option.bind
          (libpci_bars p [0..<PDA_MAX_PCI_32_BARS]
            (d\<lparr>domain_id := pd_domain p, bus_id := pd_bus p, device_id := pd_dev p, function_id := pd_func p\<rparr>))
          (\<lambda>d. libpci_devices busid ps (d\<lparr>description := c_snprintf PDA_STRING_LIMIT (pd_name p)\<rparr>))
      else libpci_devices busid ps d)"

text \<open>\<open>strlen(bus_id) == 12\<close> and the three separators.\<close>

definition valid_bus_id :: "string \<Rightarrow> bool" where
  "valid_bus_id b \<longleftrightarrow> length b = 12 \<and> b ! 4 = CHR '':'' \<and> b ! 7 = CHR '':'' \<and> b ! 10 = CHR ''.''"

definition PciDevice_invoke_libpci ::
  "'w env \<Rightarrow> ptr \<Rightarrow> string option \<Rightarrow> 'w pstate \<Rightarrow> (PdaDebugReturnCode \<times> 'w pstate) option" where
  "PciDevice_invoke_libpci E device bus s =
     (case (device, bus) of
        (None, _) \<Rightarrow> Some (ERROR E EINVAL s)
      | (Some a, None) \<Rightarrow> Some (ERROR E EINVAL s)
      | (Some a, Some b) \<Rightarrow>
          if \<not> valid_bus_id b then Some (ERROR E EINVAL s)
          else do {
            let (ps, w) = sys_pci_scan E (world s);
            let s = s\<lparr>world := w\<rparr>;
            d \<leftarrow> devs s a;
            d \<leftarrow> libpci_devices b ps d;
            s \<leftarrow> upd_dev a (\<lambda>_. d) s;
            Some (PDA_SUCCESS, s)
          })"

section \<open>Initialisation and access\<close>

text \<open>\<open>ERROR_EXIT(code, exit, ...)\<close> in \<open>PciDevice_init_bars\<close>, whose exit returns \<open>~PDA_SUCCESS\<close>.\<close>

definition init_bars_exit :: "'w env \<Rightarrow> int \<Rightarrow> 'w pstate \<Rightarrow> (PdaDebugReturnCode \<times> 'w pstate) option" where
  "init_bars_exit E code s = Some (compl_PDA_SUCCESS, snd (ERROR E code s))"

definition PciDevice_init_bars :: "'w env \<Rightarrow> addr \<Rightarrow> 'w pstate \<Rightarrow> (PdaDebugReturnCode \<times> 'w pstate) option" where
  "PciDevice_init_bars E device s =
     do {
       d \<leftarrow> devs s device;
       if bar_init d then Some (PDA_SUCCESS, s)
       else do {
         workp \<leftarrow> dev_internal d;
         let path = c_snprintf PDA_STRING_LIMIT (uio_sysfs_path workp @ ''/config'');
         s \<leftarrow> upd_workp device (\<lambda>i. i\<lparr>uio_config_filename := path\<rparr>) s;
         let (fd, s) = pda_spinOpen E path O_RDWR PDA_OPEN_DEFAULT_SPIN s;
         s \<leftarrow> upd_workp device (\<lambda>i. i\<lparr>uio_config_fd := fd\<rparr>) s;
         if fd = -1 then init_bars_exit E (errno s) s
         else do {
           let (res, s) = c_sys (sys_read E fd 64) s;
           let bytes = (case res of None \<Rightarrow> [] | Some bs \<Rightarrow> take 64 bs);
           s \<leftarrow> upd_dev device (\<lambda>d. d\<lparr>config_space_buffer :=
                  bytes @ drop (length bytes) (config_space_buffer d)\<rparr>) s;
           if res = None \<or> length bytes \<noteq> 64 then init_bars_exit E (errno s) s
           else do {
             s \<leftarrow> upd_dev device (\<lambda>d. d\<lparr>pci_config_header := True\<rparr>) s;
             (ret_class, s) \<leftarrow> PciDevice_classify_bars E (Some device) s;
             if ret_class \<noteq> PDA_SUCCESS then init_bars_exit E ret_class s
             else do {
               (ret_lpci, s) \<leftarrow> PciDevice_invoke_libpci E (Some device) (Some (uio_sysfs_entry workp)) s;
               if ret_lpci \<noteq> PDA_SUCCESS then init_bars_exit E ret_lpci s
               else do {
                 s \<leftarrow> upd_dev device (\<lambda>d. d\<lparr>bar_init := True\<rparr>) s;
                 Some (PDA_SUCCESS, s)
               }
             }
           }
         }
       }
     }"

text \<open>The physical address in register \<open>number\<close>, and in \<open>number + 1\<close> for a 64-bit register.\<close>

definition physical_address :: "PciDevice \<Rightarrow> nat \<Rightarrow> PciBarTypes \<Rightarrow> u64 option" where
  "physical_address d number type =
     (case type of
        PCIBARTYPES_BAR32 \<Rightarrow> map_option (\<lambda>b. ucast (b AND 0xFFFFFFF0)) (header_Bar d number)
      | PCIBARTYPES_BAR64 \<Rightarrow> do {
          low \<leftarrow> map_option ucast (header_Bar d number);
          high \<leftarrow> map_option ucast (header_Bar d (Suc number));
          Some ((low AND 0xFFFFFFF0) + push_bit 32 (high AND 0xFFFFFFFF))
        }
      | _ \<Rightarrow> Some 0)"

definition getBar_exit :: "'w env \<Rightarrow> int \<Rightarrow> 'w pstate \<Rightarrow> ((PdaDebugReturnCode \<times> ptr) \<times> 'w pstate) option" where
  "getBar_exit E code s =
     Some (let (_, s) = ERROR E code s; (c, s) = ERROR E EINVAL s in ((c, None), s))"

definition PciDevice_getBar ::
  "'w env \<Rightarrow> ptr \<Rightarrow> u8 \<Rightarrow> 'w pstate \<Rightarrow> ((PdaDebugReturnCode \<times> ptr) \<times> 'w pstate) option" where
  "PciDevice_getBar E device number s =
     (case device of
        None \<Rightarrow> Some (let (c, s) = ERROR E EINVAL s in ((c, None), s))
      | Some a \<Rightarrow> do {
          (ret, s) \<leftarrow> PciDevice_init_bars E a s;
          if ret \<noteq> PDA_SUCCESS then getBar_exit E (errno s) s
          else do {
            d \<leftarrow> devs s a;
            bar \<leftarrow> list_get (dev_bar d) (unat number);
            (case bar of
               Some p \<Rightarrow> Some ((PDA_SUCCESS, Some p), s)
             | None \<Rightarrow> do {
                 type \<leftarrow> list_get (bar_types d) (unat number);
                 if \<not> is_memory_bar type then getBar_exit E EINVAL s
                 else do {
                   phys \<leftarrow> physical_address d (unat number) type;
                   sz \<leftarrow> list_get (bar_sizes d) (unat number);
                   workp \<leftarrow> dev_internal d;
                   (b, s) \<leftarrow> Bar_new E (Some a) (ucast number) type sz phys (uio_device_fd workp) s;
                   s \<leftarrow> upd_dev a (\<lambda>d. d\<lparr>dev_bar := (dev_bar d)[unat number := b]\<rparr>) s;
                   (case b of
                      None \<Rightarrow> getBar_exit E (errno s) s
                    | Some p \<Rightarrow> Some ((PDA_SUCCESS, Some p), s))
                 }
               })
          }
        })"

text \<open>\<open>PciDevice_getBarTypes\<close>: the result pointer is the array inside the device object.\<close>

definition PciDevice_getBarTypes ::
  "'w env \<Rightarrow> ptr \<Rightarrow> bool \<Rightarrow> 'w pstate \<Rightarrow> ((PdaDebugReturnCode \<times> PciBarTypes list option) \<times> 'w pstate) option" where
  "PciDevice_getBarTypes E device target s =
     (case device of
        None \<Rightarrow> Some (let (c, s) = ERROR E EINVAL s in ((c, None), s))
      | Some a \<Rightarrow>
          if \<not> target then Some (let (c, s) = ERROR E EINVAL s in ((c, None), s))
          else do {
            (ret, s) \<leftarrow> PciDevice_init_bars E a s;
            if ret \<noteq> PDA_SUCCESS then Some (let (c, s) = ERROR E (errno s) s in ((c, None), s))
            else do { d \<leftarrow> devs s a; Some ((PDA_SUCCESS, Some (bar_types d)), s) }
          })"

section \<open>What the classification computes\<close>

text \<open>
  The layout of the registers as a grammar over the list of their values: every register has a
  type, a 64-bit register consumes its successor, and the last register cannot be 64 bits wide.
\<close>

fun bar_decode :: "u32 list \<Rightarrow> PciBarTypes list option" where
  "bar_decode [] = Some []"
| "bar_decode (b # bs) =
     (if b = 0 then map_option (Cons PCIBARTYPES_NOT_MAPPED) (bar_decode bs)
      else if b AND 1 = 1 then map_option (Cons PCIBARTYPES_IO) (bar_decode bs)
      else if b AND 6 = 0 then map_option (Cons PCIBARTYPES_BAR32) (bar_decode bs)
      else if b AND 6 = 4 then
        (case bs of
           [] \<Rightarrow> None
         | _ # bs' \<Rightarrow> map_option (\<lambda>ts. PCIBARTYPES_BAR64 # PCIBARTYPES_NOT_MAPPED # ts) (bar_decode bs'))
      else None)"

definition header_bars :: "PciDevice \<Rightarrow> u32 list" where
  "header_bars d = map (\<lambda>i. the (header_Bar d i)) [0..<PDA_MAX_PCI_32_BARS]"

lemma bar_decode_length: "bar_decode bs = Some ts \<Longrightarrow> length ts = length bs"
  by (induction bs arbitrary: ts rule: bar_decode.induct) (auto split: if_splits list.splits)

text \<open>The loop from register \<open>i\<close> on, in terms of the grammar.\<close>

lemma classify_loop_decode:
  assumes "pci_config_header d" and "length types = PDA_MAX_PCI_32_BARS"
    and "bar_decode (drop i (header_bars d)) = Some ts"
  shows "classify_loop d i types = Some (True, take i types @ ts)"
  using assms(2,3)
proof (induction "PDA_MAX_PCI_32_BARS - i" arbitrary: i types ts rule: less_induct)
  case less
  show ?case
  proof (cases "i < PDA_MAX_PCI_32_BARS")
    case False
    then have "drop i (header_bars d) = []" by (simp add: header_bars_def)
    with less.prems False show ?thesis by (simp add: classify_loop.simps[of d i])
  next
    case True
    obtain b where b: "header_Bar d i = Some b"
      using assms(1) True by (simp add: header_Bar_def)
    have drop: "drop i (header_bars d) = b # drop (Suc i) (header_bars d)"
      using True b by (simp add: header_bars_def drop_eq_Cons_nth)
    have IH1: "classify_loop d (Suc i) (types[i := x]) = Some (True, take i types @ x # ts')"
      if "bar_decode (drop (Suc i) (header_bars d)) = Some ts'" for x ts'
      using less.hyps[of "Suc i" "types[i := x]" ts'] that True less.prems(1)
      by (simp add: take_Suc_snoc)
    have IH2: "classify_loop d (Suc (Suc i)) (types[i := x, Suc i := y]) = Some (True, take i types @ x # y # ts')"
      if "bar_decode (drop (Suc (Suc i)) (header_bars d)) = Some ts'" "Suc i < PDA_MAX_PCI_32_BARS" for x y ts'
      using less.hyps[of "Suc (Suc i)" "types[i := x, Suc i := y]" ts'] that True less.prems(1)
      by (simp add: take_Suc_snoc)
    have next2: "drop (Suc i) (header_bars d) = c # cs \<Longrightarrow>
        Suc i < PDA_MAX_PCI_32_BARS \<and> cs = drop (Suc (Suc i)) (header_bars d)" for c cs
      by (cases "Suc i < PDA_MAX_PCI_32_BARS") (simp_all add: header_bars_def drop_eq_Cons_nth)
    show ?thesis
      using less.prems True b unfolding drop
      by (auto simp: classify_loop.simps[of d i] list_put_def IH1 IH2 dest!: next2
          split: if_splits list.splits)
  qed
qed

definition pairs_ok :: "PciBarTypes list \<Rightarrow> bool" where
  "pairs_ok ts \<longleftrightarrow>
     (\<forall>i < length ts. ts ! i = PCIBARTYPES_BAR64 \<longrightarrow>
        Suc i < length ts \<and> ts ! Suc i = PCIBARTYPES_NOT_MAPPED)"

lemma pairs_ok_Nil: "pairs_ok []"
  by (simp add: pairs_ok_def)

lemma pairs_ok_Cons:
  "pairs_ok ts \<Longrightarrow> t \<noteq> PCIBARTYPES_BAR64 \<or> (\<exists>us. ts = PCIBARTYPES_NOT_MAPPED # us) \<Longrightarrow> pairs_ok (t # ts)"
  by (auto simp: pairs_ok_def nth_Cons split: nat.splits)

lemma bar_decode_pairs: "bar_decode bs = Some ts \<Longrightarrow> pairs_ok ts"
  by (induction bs arbitrary: ts rule: bar_decode.induct)
    (auto intro!: pairs_ok_Nil pairs_ok_Cons split: if_splits list.splits)

text \<open>
  C30. When the six registers of the header follow the PCI layout, \<open>PciDevice_classify_bars\<close>
  succeeds without leaving the arrays and sets exactly the types of that layout, in which every
  64-bit register is followed by one that is not mapped; nothing else of the device changes.
\<close>

theorem classify_bars_correct:
  assumes "devs s a = Some d" and "pci_config_header d" and "length (bar_types d) = PDA_MAX_PCI_32_BARS"
    and "bar_decode (header_bars d) = Some ts"
  shows "PciDevice_classify_bars E (Some a) s
      = Some (PDA_SUCCESS, s\<lparr>devs := (devs s)(a \<mapsto> d\<lparr>bar_types := ts\<rparr>)\<rparr>)
    \<and> length ts = PDA_MAX_PCI_32_BARS \<and> pairs_ok ts"
  using assms classify_loop_decode[of d "bar_types d" 0 ts] bar_decode_length[OF assms(4)]
    bar_decode_pairs[OF assms(4)]
  by (simp add: PciDevice_classify_bars_def upd_dev_def header_bars_def)

text \<open>A device whose registers are: a 64-bit BAR at \<open>0x0000_0001_f000_0000\<close>, I/O, a 32-bit BAR.\<close>

definition demo_config :: "u8 list" where
  "demo_config = replicate 16 0 @ [0x04, 0, 0, 0xf0, 1, 0, 0, 0, 0x01, 0xd0, 0, 0, 0, 0, 0, 0xfe]
     @ replicate 224 0"

definition demo_device :: PciDevice where
  "demo_device = zero_PciDevice\<lparr>config_space_buffer := demo_config, pci_config_header := True,
     bar_init := True, bar_sizes := [0x1000, 0, 0, 0x2000, 0, 0],
     bar_types := [PCIBARTYPES_BAR64, PCIBARTYPES_NOT_MAPPED, PCIBARTYPES_IO, PCIBARTYPES_BAR32,
       PCIBARTYPES_NOT_MAPPED, PCIBARTYPES_NOT_MAPPED],
     dev_internal := Some zero_PciDeviceInternal\<rparr>"

definition demo_process :: "unit pstate" where
  "demo_process = some_process\<lparr>devs := [1 \<mapsto> demo_device]\<rparr>"

lemma demo_header: "header_bars demo_device = [0xf0000004, 1, 0xd001, 0xfe000000, 0, 0]"
  by code_simp

theorem classify_bars_correct_witness:
  "PciDevice_classify_bars calm_env (Some 1) demo_process
      = Some (PDA_SUCCESS, demo_process\<lparr>devs := (devs demo_process)(1 \<mapsto> demo_device\<lparr>bar_types :=
          [PCIBARTYPES_BAR64, PCIBARTYPES_NOT_MAPPED, PCIBARTYPES_IO, PCIBARTYPES_BAR32,
           PCIBARTYPES_NOT_MAPPED, PCIBARTYPES_NOT_MAPPED]\<rparr>)\<rparr>)"
  using classify_bars_correct[of demo_process 1 demo_device "[PCIBARTYPES_BAR64, PCIBARTYPES_NOT_MAPPED,
    PCIBARTYPES_IO, PCIBARTYPES_BAR32, PCIBARTYPES_NOT_MAPPED, PCIBARTYPES_NOT_MAPPED]" calm_env] demo_header
  by (simp add: demo_process_def) (simp add: demo_device_def PDA_MAX_PCI_32_BARS_def)

section \<open>Getting a BAR\<close>

lemma init_bars_ready:
  "PciDevice_init_bars E a s = Some (PDA_SUCCESS, s') \<Longrightarrow> \<exists>d. devs s' a = Some d \<and> bar_init d"
  by (auto simp: PciDevice_init_bars_def init_bars_exit_def bind_eq_Some_conv upd_dev_def Let_def split_beta
      split: if_splits)

lemma lookup_ids_devs: "lookup_ids E d s = Some (r, s') \<Longrightarrow> devs s' = devs s"
  by (cases d) (auto simp: lookup_ids_def PciDevice_getDomainID_def PciDevice_getBusID_def
      PciDevice_getDeviceID_def PciDevice_getFunctionID_def PCI_GET_FUNCTION_def split_beta Let_def
      bind_eq_Some_conv)

lemma upd_bar_devs: "upd_bar p f s = Some s' \<Longrightarrow> devs s' = devs s"
  by (auto simp: upd_bar_def)

lemma ERROR_devs: "ERROR E c s = (r, s') \<Longrightarrow> devs s' = devs s"
  by (drule ERROR_heaps) (simp add: same_heaps_def)

lemma Bar_map32_devs: "Bar_map32 E p s = Some (r, s') \<Longrightarrow> devs s' = devs s"
  by (auto simp: Bar_map32_def upd_bar_def Let_def split_beta
      dest!: ERROR_devs split: if_splits Option.bind_splits)

lemma Bar_map_devs: "Bar_map E p number type sz address s = Some (r, s') \<Longrightarrow> devs s' = devs s"
  by (cases type) (auto simp: Bar_map_def Bar_map64_def bind_eq_Some_conv
      dest!: upd_bar_devs Bar_map32_devs)

lemma Bar_new_exit_devs: "Bar_new_exit E p s = Some (r, s') \<Longrightarrow> devs s' = devs s"
  by (auto simp: Bar_new_exit_def Bar_delete_def Bar_delete_int_def bind_eq_Some_conv
      dest!: upd_bar_devs split: if_splits option.splits)

lemma Bar_new_devs: "Bar_new E d number type sz address fd s = Some (r, s') \<Longrightarrow> devs s' = devs s"
  by (auto simp: Bar_new_def c_new_def bind_eq_Some_conv Let_def split_beta
      dest!: upd_bar_devs Bar_new_exit_devs Bar_map_devs lookup_ids_devs
      split: if_splits option.splits bool.splits)

lemma init_bars_again: "devs s a = Some d \<Longrightarrow> bar_init d \<Longrightarrow> PciDevice_init_bars E a s = Some (PDA_SUCCESS, s)"
  by (simp add: PciDevice_init_bars_def)

lemma getBar_exit_code: "getBar_exit E c s = Some ((r, p), s') \<Longrightarrow> r = EINVAL \<and> p = None"
  by (auto simp: getBar_exit_def split_beta Let_def)

lemma getBar_success_cached:
  assumes "PciDevice_getBar E (Some a) number s = Some ((PDA_SUCCESS, q), s')"
  obtains d p where "devs s' a = Some d" "bar_init d" "list_get (dev_bar d) (unat number) = Some (Some p)" "q = Some p"
proof -
  obtain s1 where s1: "PciDevice_init_bars E a s = Some (PDA_SUCCESS, s1)"
    using assms by (auto simp: PciDevice_getBar_def bind_eq_Some_conv dest!: getBar_exit_code split: if_splits)
  obtain d where d: "devs s1 a = Some d" "bar_init d"
    using init_bars_ready[OF s1] by blast
  show thesis
  proof (cases "list_get (dev_bar d) (unat number)")
    case None
    with assms s1 d show thesis by (simp add: PciDevice_getBar_def)
  next
    case (Some bar)
    show thesis
    proof (cases bar)
      case None
      with Some assms s1 d obtain type phys sz fd s2 where
        new: "Bar_new E (Some a) (ucast number) type sz phys fd s1 = Some (q, s2)"
          "upd_dev a (\<lambda>d. d\<lparr>dev_bar := (dev_bar d)[unat number := q]\<rparr>) s2 = Some s'" "q \<noteq> None"
        by (auto simp: PciDevice_getBar_def bind_eq_Some_conv dest!: getBar_exit_code
            split: if_splits option.splits)
      then have "devs s' a = Some (d\<lparr>dev_bar := (dev_bar d)[unat number := q]\<rparr>)"
        using d Bar_new_devs[OF new(1)] by (auto simp: upd_dev_def)
      with Some d new(3) show thesis
        by (auto simp: list_get_def intro: that split: if_splits)
    qed (use Some assms s1 d that in \<open>auto simp: PciDevice_getBar_def\<close>)
  qed
qed

text \<open>
  \<open>PciDevice_getBar\<close> hands out one object per register: once it has succeeded, calling it again
  returns the same BAR and changes nothing, in particular maps nothing a second time.
\<close>

lemma getBar_stable:
  assumes "PciDevice_getBar E (Some a) number s = Some ((PDA_SUCCESS, p), s')"
  shows "PciDevice_getBar E (Some a) number s' = Some ((PDA_SUCCESS, p), s')"
proof -
  obtain d q where "devs s' a = Some d" "bar_init d"
    "list_get (dev_bar d) (unat number) = Some (Some q)" "p = Some q"
    using getBar_success_cached[OF assms] .
  then show ?thesis
    by (simp add: PciDevice_getBar_def init_bars_again)
qed

lemma unat_widen: "unat (ucast (b :: u32) :: u64) = unat b"
  using unat_bound[of b] by (simp add: unsigned_ucast_eq take_bit_nat_eq_self)

lemma unat_flags_cleared:
  fixes b :: u32
  shows "unat (ucast b AND 0xFFFFFFF0 :: u64) = unat b div 16 * 16"
proof -
  have mask: "(0xFFFFFFF0 :: u64) = mask 32 AND NOT (mask 4)"
    by (simp add: mask_eq_exp_minus_1)
  have "(ucast b AND 0xFFFFFFF0 :: u64) = push_bit 4 (drop_bit 4 (ucast b))"
    unfolding mask by (rule bit_word_eqI) (auto simp: bit_simps dest: bit_imp_le_length)
  moreover have "unat (drop_bit 4 (ucast b :: u64)) = unat b div 16"
    by (simp add: drop_bit_eq_div unat_div unat_widen)
  moreover have "unat b div 16 * 16 < 2 ^ 64"
    using unat_bound[of b] by simp
  ultimately show ?thesis
    by (simp add: push_bit_eq_mult unat_word_ariths mult.commute)
qed

lemma unat_upper_half:
  fixes b :: u32
  shows "unat (push_bit 32 (ucast b AND 0xFFFFFFFF) :: u64) = 2 ^ 32 * unat b"
proof -
  have mask: "(0xFFFFFFFF :: u64) = mask 32"
    by (simp add: mask_eq_exp_minus_1)
  have "(ucast b AND 0xFFFFFFFF :: u64) = ucast b"
    unfolding mask by (rule bit_word_eqI) (auto simp: bit_simps dest: bit_imp_le_length)
  then show ?thesis
    using unat_bound[of b] by (simp add: push_bit_eq_mult unat_word_ariths unat_widen)
qed

lemma unat_bar64:
  fixes low high :: u32
  shows "unat ((ucast low AND 0xFFFFFFF0) + push_bit 32 (ucast high AND 0xFFFFFFFF) :: u64)
    = unat low div 16 * 16 + 2 ^ 32 * unat high"
proof -
  have "unat low div 16 * 16 < 2 ^ 32" "2 ^ 32 * unat high \<le> 2 ^ 64 - 2 ^ 32"
    using unat_bound[of low] unat_bound[of high] by auto
  then show ?thesis
    by (subst unat_add_no_wrap) (simp_all only: unat_flags_cleared unat_upper_half, simp_all)
qed

lemma unat_physical_address:
  assumes "is_memory_bar type" and "header_Bar d n = Some low"
    and "type = PCIBARTYPES_BAR64 \<longrightarrow> header_Bar d (Suc n) = Some high"
  obtains phys where "physical_address d n type = Some phys"
    and "unat phys = unat low div 16 * 16 + (if type = PCIBARTYPES_BAR64 then 2 ^ 32 * unat high else 0)"
proof (cases "type = PCIBARTYPES_BAR64")
  case True
  with assms show thesis
    by (intro that[of "(ucast low AND 0xFFFFFFF0) + push_bit 32 (ucast high AND 0xFFFFFFFF)"])
      (simp_all add: physical_address_def unat_bar64 del: push_bit_and)
next
  case False
  have "(ucast (low AND 0xFFFFFFF0) :: u64) = ucast low AND 0xFFFFFFF0"
    by (simp add: unsigned_and_eq)
  with False assms show thesis
    using unat_flags_cleared[of low]
    by (intro that) (auto simp: is_memory_bar_def physical_address_def)
qed

text \<open>
  C31. A BAR that \<open>PciDevice_getBar\<close> creates for a device whose registers are already initialised
  carries the physical address encoded in the header: the register without its four flag bits,
  and for a 64-bit register the next register as the upper 32 bits, with no carry between the two.
  When it does not succeed it reports \<open>EINVAL\<close>, returns \<open>NULL\<close> and leaves no object behind; when the
  system grants every call it succeeds.
\<close>

theorem getBar_physical_address:
  assumes E: "posix_env E" and alloc: "\<forall>n w. fst (sys_alloc E n w)"
    and d: "devs s a = Some d" "bar_init d" "dev_internal d = Some workp" "bars s (brk s) = None"
    and n: "list_get (dev_bar d) (unat number) = Some None"
      "list_get (bar_types d) (unat number) = Some type" "is_memory_bar type"
      "list_get (bar_sizes d) (unat number) = Some sz"
    and low: "header_Bar d (unat number) = Some low"
    and high: "type = PCIBARTYPES_BAR64 \<longrightarrow> header_Bar d (Suc (unat number)) = Some high"
  shows "\<exists>r p s'. PciDevice_getBar E (Some a) number s = Some ((r, p), s')
    \<and> (case p of
         None \<Rightarrow> r = EINVAL \<and> bars s' = bars s
       | Some q \<Rightarrow> r = PDA_SUCCESS \<and> (\<exists>b. bars s' = (bars s)(q \<mapsto> b) \<and> bar_size b = sz \<and>
           unat (bar_address b)
             = unat low div 16 * 16 + (if type = PCIBARTYPES_BAR64 then 2 ^ 32 * unat high else 0)))
    \<and> (granting E \<longrightarrow> p \<noteq> None)"
proof -
  obtain phys where phys: "physical_address d (unat number) type = Some phys"
    "unat phys = unat low div 16 * 16 + (if type = PCIBARTYPES_BAR64 then 2 ^ 32 * unat high else 0)"
    using unat_physical_address[OF n(3) low high] .
  let ?new = "\<lambda>r s1. case r of None \<Rightarrow> bars s1 = bars s
    | Some q \<Rightarrow> q = brk s \<and> (\<exists>b. bars s1 = (bars s)(q \<mapsto> b) \<and> bar_object E d (ucast number) type sz phys b)"
  obtain r s1 where new: "Bar_new E (Some a) (ucast number) type sz phys (uio_device_fd workp) s = Some (r, s1)"
    "devs s1 = devs s" "?new r s1" "granting E \<longrightarrow> r \<noteq> None"
    using Bar_new_outcome[OF E alloc d(1,4)] by blast
  define s2 where "s2 = s1\<lparr>devs := (devs s)(a \<mapsto> d\<lparr>dev_bar := (dev_bar d)[unat number := r]\<rparr>)\<rparr>"
  have get: "PciDevice_getBar E (Some a) number s =
      (case r of None \<Rightarrow> getBar_exit E (errno s2) s2 | Some p \<Rightarrow> Some ((PDA_SUCCESS, Some p), s2))"
    using d n phys(1) new(1,2)
    by (cases r) (simp_all add: PciDevice_getBar_def init_bars_again upd_dev_def s2_def)
  show ?thesis
  proof (cases r)
    case None
    with new(3,4) show ?thesis
      by (simp add: get getBar_exit_def split_beta Let_def s2_def)
  next
    case (Some q)
    with new(3) phys(2) show ?thesis
      by (auto simp: get s2_def bar_object_def)
  qed
qed

theorem getBar_physical_address_witness:
  "\<exists>q s' b. PciDevice_getBar calm_env (Some 1) 0 demo_process = Some ((PDA_SUCCESS, Some q), s')
    \<and> bars s' = (bars demo_process)(q \<mapsto> b) \<and> bar_size b = 0x1000 \<and> unat (bar_address b) = 0x1f0000000"
proof -
  have h: "header_Bar demo_device (unat (0 :: u8)) = Some 0xf0000004"
    "PCIBARTYPES_BAR64 = PCIBARTYPES_BAR64 \<longrightarrow> header_Bar demo_device (Suc (unat (0 :: u8))) = Some 1"
    "list_get (dev_bar demo_device) (unat (0 :: u8)) = Some None"
    "list_get (bar_types demo_device) (unat (0 :: u8)) = Some PCIBARTYPES_BAR64"
    "list_get (bar_sizes demo_device) (unat (0 :: u8)) = Some 0x1000"
    "dev_internal demo_device = Some zero_PciDeviceInternal" "bar_init demo_device"
    by code_simp+
  have d: "devs demo_process 1 = Some demo_device" "bars demo_process (brk demo_process) = None"
    by (simp_all add: demo_process_def some_process_def)
  have m: "is_memory_bar PCIBARTYPES_BAR64" "\<forall>n w. fst (sys_alloc (calm_env :: unit env) n w)"
    by (simp_all add: is_memory_bar_def calm_env_def)
  from getBar_physical_address[OF calm_env_posix m(2) d(1) h(7,6) d(2) h(3,4) m(1) h(5) h(1,2)]
  show ?thesis using calm_granting by (auto split: option.splits)
qed

subsection \<open>A register layout the classification does not survive\<close>

text \<open>
  When the sixth register claims to be 64 bits wide, the code writes \<open>bar_types[6]\<close>, one element
  behind the array.
\<close>

definition bar5_device :: PciDevice where
  "bar5_device = zero_PciDevice\<lparr>pci_config_header := True,
     config_space_buffer := replicate 36 0 @ [0x04, 0, 0, 0xf0] @ replicate 216 0\<rparr>"

lemma classify_bar5_out_of_bounds:
  "PciDevice_classify_bars E (Some a) (s\<lparr>devs := [a \<mapsto> bar5_device]\<rparr>) = None"
proof -
  have "classify_loop bar5_device 0 (bar_types bar5_device) = None"
    by code_simp
  then show ?thesis by (simp add: PciDevice_classify_bars_def)
qed

end
