(* ===== verification/PDA_DMABuffer.thy ===== *)
theory PDA_DMABuffer
  imports PDA_PciBars
begin

text \<open>
  The Linux backend of the DMA buffers (\<open>arch/linux_x86_uio/dma_buffer_inc.c\<close>) and the two
  functions of \<open>src/dma_buffer.c\<close> that call it: the paths in sysfs, mapping, loading of the
  scatter/gather list, the request to the driver, creation, rediscovery, release and the wrap
  mapping of a buffer.

  A pointer to a buffer or device is an address in the heaps of \<open>'w pstate\<close>. \<open>ERROR_EXIT\<close> followed
  by its exit block is a call of the exit block's definition. The argument \<open>dma_buffer_list\<close> of
  \<open>DMABuffer_new\<close> always is \<open>&device->dma_buffer_list\<close> in the code and is read and written as that
  field.
\<close>

section \<open>Lookup, mapping\<close>

definition DMABuffer_get_ids :: "'w env \<Rightarrow> ptr \<Rightarrow> 'w pstate \<Rightarrow> ((PdaDebugReturnCode \<times> bdf) \<times> 'w pstate) option" where
  "DMABuffer_get_ids E device s =
     do {
       ((ret, ids), s) \<leftarrow> lookup_ids E device s;
       Some ((if ret \<noteq> PDA_SUCCESS then errno s else PDA_SUCCESS, ids), s)
     }"

definition DMABuffer_exists :: "'w env \<Rightarrow> addr \<Rightarrow> 'w pstate \<Rightarrow> (bool \<times> 'w pstate) option" where
  "DMABuffer_exists E buffer s =
     do {
       i \<leftarrow> get_int buffer s;
       let (r, s) = c_sys (sys_stat_size E (uio_filepath_folder i)) s;
       Some (r \<noteq> None, s)
     }"

text \<open>\<open>if(fd != -1) { close(fd); fd = -1; }\<close> for the mapping descriptor.\<close>

definition close_map_fd :: "'w env \<Rightarrow> addr \<Rightarrow> 'w pstate \<Rightarrow> 'w pstate option" where
  "close_map_fd E buffer s =
     do {
       i \<leftarrow> get_int buffer s;
       if map_fd i \<noteq> -1
       then upd_int buffer (\<lambda>i. i\<lparr>map_fd := -1\<rparr>) (snd (c_close E (map_fd i) s))
       else Some s
     }"

text \<open>The label \<open>exit\<close> of \<open>DMABuffer_map\<close>; \<open>sz\<close> is \<open>fstat.st_size\<close>, \<open>None\<close> while uninitialised.\<close>

definition map_exit ::
  "'w env \<Rightarrow> addr \<Rightarrow> u64 option \<Rightarrow> 'w pstate \<Rightarrow> (PdaDebugReturnCode \<times> 'w pstate) option" where
  "map_exit E buffer sz s =
     do {
       b \<leftarrow> bufs s buffer;
       s \<leftarrow> (if buf_map b \<noteq> MAP_FAILED
             then (case sz of
                     None \<Rightarrow> None
                   | Some n \<Rightarrow> upd_buf buffer (\<lambda>b. b\<lparr>buf_map := MAP_FAILED\<rparr>) (c_void (sys_munmap E (buf_map b) n) s))
             else Some s);
       s \<leftarrow> close_map_fd E buffer s;
       Some (ERROR E (errno s) s)
     }"

definition map_exit_fd ::
  "'w env \<Rightarrow> addr \<Rightarrow> u64 option \<Rightarrow> 'w pstate \<Rightarrow> (PdaDebugReturnCode \<times> 'w pstate) option" where
  "map_exit_fd E buffer sz s =
     do { s \<leftarrow> close_map_fd E buffer (snd (ERROR E (errno s) s)); map_exit E buffer sz s }"

definition DMABuffer_map :: "'w env \<Rightarrow> addr \<Rightarrow> 'w pstate \<Rightarrow> (PdaDebugReturnCode \<times> 'w pstate) option" where
  "DMABuffer_map E buffer s =
     do {
       s \<leftarrow> upd_int buffer (\<lambda>i. i\<lparr>map_fd := -1\<rparr>) s;
       i \<leftarrow> get_int buffer s;
       let (fd, s) = pda_spinOpen E (uio_filepath_map i) O_RDWR PDA_OPEN_DEFAULT_SPIN s;
       s \<leftarrow> upd_int buffer (\<lambda>i. i\<lparr>map_fd := fd\<rparr>) s;
       if fd = -1 then map_exit E buffer None (snd (ERROR E (errno s) s))
       else (case c_sys (sys_flock E fd LOCK_SH) s of
           (None, s) \<Rightarrow> map_exit_fd E buffer None s
         | (Some _, s) \<Rightarrow> (case c_sys (sys_stat_size E (uio_filepath_map i)) s of
             (None, s) \<Rightarrow> map_exit_fd E buffer None s
           | (Some sz, s) \<Rightarrow> do {
               let (m, s) = c_mmap (sys_mmap E 0 sz fd) s;
               s \<leftarrow> upd_buf buffer (\<lambda>b. b\<lparr>buf_map := m\<rparr>) s;
               if m = MAP_FAILED then map_exit_fd E buffer (Some sz) s
               else do {
                 s \<leftarrow> upd_buf buffer (\<lambda>b. b\<lparr>buf_length := sz\<rparr>) s;
                 Some (PDA_SUCCESS, s)
               }
             }))
     }"

definition DMABuffer_mapUser :: "'w env \<Rightarrow> addr \<Rightarrow> u64 \<Rightarrow> 'w pstate \<Rightarrow> (PdaDebugReturnCode \<times> 'w pstate) option" where
  "DMABuffer_mapUser E buffer start s =
     do {
       s \<leftarrow> upd_buf buffer (\<lambda>b. b\<lparr>buf_map := start\<rparr>) s;
       i \<leftarrow> get_int buffer s;
       let (fd, s) = pda_spinOpen E (uio_filepath_map i) O_RDWR PDA_OPEN_DEFAULT_SPIN s;
       s \<leftarrow> upd_int buffer (\<lambda>i. i\<lparr>map_fd := fd\<rparr>) s;
       if fd = -1 then Some (ERROR E (errno s) s) else Some (PDA_SUCCESS, s)
     }"

section \<open>The scatter/gather list\<close>

definition sizeof_scatter :: u64 where "sizeof_scatter = 24"

text \<open>The conversion loop: entry \<open>i\<close> of the driver's table to node \<open>i\<close> of the new block.\<close>

definition sg_node :: "(nat \<Rightarrow> scatter) \<Rightarrow> nat \<Rightarrow> nat \<Rightarrow> u64 \<Rightarrow> DMABuffer_SGNode" where
  "sg_node tab entries i it =
     \<lparr>sg_length = ucast (sc_length (tab i)), u_pointer = it, d_pointer = sc_dma_address (tab i),
      k_pointer = sc_page_link (tab i),
      sg_next = (if i = entries - 1 then None else Some (i + 1)),
      sg_prev = (if i = 0 then None else Some (i - 1))\<rparr>"

function sg_convert :: "(nat \<Rightarrow> scatter) \<Rightarrow> nat \<Rightarrow> nat \<Rightarrow> u64 \<Rightarrow> sgblock \<Rightarrow> sgblock" where
  "sg_convert tab entries i it b =
     (if i < entries
      then let nd = sg_node tab entries i it
           in sg_convert tab entries (Suc i) (it + sg_length nd) (b[i := nd])
      else b)"
  by pat_completeness auto
termination
  by (relation "measure (\<lambda>(tab, entries, i, it, b). entries - i)") auto

declare sg_convert.simps [simp del]

definition loadSGList_exit :: "'w env \<Rightarrow> addr \<Rightarrow> 'w pstate \<Rightarrow> (PdaDebugReturnCode \<times> 'w pstate) option" where
  "loadSGList_exit E buffer s =
     do { s \<leftarrow> upd_buf buffer (\<lambda>b. b\<lparr>sglist := None\<rparr>) s; Some (ERROR E (errno s) s) }"

text \<open>The label \<open>exit_map\<close>: close the table, then \<open>exit\<close>.\<close>

definition loadSGList_exit_map :: "'w env \<Rightarrow> addr \<Rightarrow> 'w pstate \<Rightarrow> (PdaDebugReturnCode \<times> 'w pstate) option" where
  "loadSGList_exit_map E buffer s =
     do {
       i \<leftarrow> get_int buffer s;
       (case c_close E (sg_fd i) s of
          (r, s) \<Rightarrow>
            if r = -1 then do {
              s \<leftarrow> upd_int buffer (\<lambda>i. i\<lparr>sg_fd := -1\<rparr>) s;
              loadSGList_exit E buffer (snd (ERROR E (errno s) s))
            }
            else loadSGList_exit E buffer s)
     }"

definition sg_path :: "bdf \<Rightarrow> string \<Rightarrow> string" where
  "sg_path ids nm = c_snprintf PDA_STRING_LIMIT (device_path ids @ ''/dma/'' @ nm @ ''/sg'')"

text \<open>The part after the table was mapped at \<open>tab\<close>.\<close>

definition loadSGList_read ::
  "'w env \<Rightarrow> addr \<Rightarrow> u64 \<Rightarrow> u64 \<Rightarrow> 'w pstate \<Rightarrow> (PdaDebugReturnCode \<times> 'w pstate) option" where
  "loadSGList_read E buffer st_size tab s =
     (let entries = unat (st_size div sizeof_scatter) in
      case c_alloc E (entries * sizeof_SGNode) s of
        (False, s) \<Rightarrow> loadSGList_exit E buffer (snd (ERROR E (errno s) s))
      | (True, s) \<Rightarrow> do {
          b \<leftarrow> bufs s buffer;
          let blk = sg_convert (\<lambda>i. sys_scatter E tab i (world s)) entries 0 (buf_map b)
                      (replicate entries zero_node);
          s \<leftarrow> upd_buf buffer (\<lambda>b. b\<lparr>sglist := Some blk\<rparr>) s;
          (case c_sys (sys_munmap E tab st_size) s of
             (None, s) \<Rightarrow> loadSGList_exit E buffer (snd (ERROR E (errno s) s))
           | (Some _, s) \<Rightarrow> do {
               i \<leftarrow> get_int buffer s;
               (case c_close E (sg_fd i) s of
                  (r, s) \<Rightarrow>
                    if r = -1 then loadSGList_exit E buffer (snd (ERROR E (errno s) s))
                    else do {
                      s \<leftarrow> upd_int buffer (\<lambda>i. i\<lparr>sg_fd := -1\<rparr>) s;
                      (ret, sgl, s) \<leftarrow> DMABuffer_coalesqueSGlist E (Some blk) s;
                      s \<leftarrow> upd_buf buffer (\<lambda>b. b\<lparr>sglist := sgl\<rparr>) s;
                      Some (ret, s)
                    })
             })
        })"

definition DMABuffer_loadSGList ::
  "'w env \<Rightarrow> addr \<Rightarrow> ptr \<Rightarrow> 'w pstate \<Rightarrow> (PdaDebugReturnCode \<times> 'w pstate) option" where
  "DMABuffer_loadSGList E buffer device s =
     do {
       s \<leftarrow> upd_buf buffer (\<lambda>b. b\<lparr>sglist := None\<rparr>) s;
       s \<leftarrow> upd_int buffer (\<lambda>i. i\<lparr>sg_fd := -1\<rparr>) s;
       ((ret, ids), s) \<leftarrow> DMABuffer_get_ids E device s;
       if ret \<noteq> PDA_SUCCESS then loadSGList_exit E buffer (snd (ERROR E (errno s) s))
       else do {
         i \<leftarrow> get_int buffer s;
         let path = sg_path ids (name i);
         s \<leftarrow> upd_int buffer (\<lambda>i. i\<lparr>uio_filepath_sg := path\<rparr>) s;
         let (fd, s) = pda_spinOpen E path O_RDONLY PDA_OPEN_DEFAULT_SPIN s;
         s \<leftarrow> upd_int buffer (\<lambda>i. i\<lparr>sg_fd := fd\<rparr>) s;
         if fd = -1 then loadSGList_exit E buffer (snd (ERROR E (errno s) s))
         else (case c_sys (sys_stat_size E path) s of
             (None, s) \<Rightarrow> loadSGList_exit E buffer (snd (ERROR E (errno s) s))
           | (Some st_size, s) \<Rightarrow>
               (case c_mmap (sys_mmap E 0 st_size fd) s of
                  (tab, s) \<Rightarrow>
                    if tab = MAP_FAILED then loadSGList_exit_map E buffer (snd (ERROR E (errno s) s))
                    else loadSGList_read E buffer st_size tab s))
       }
     }"

definition DMABuffer_getSGList ::
  "'w env \<Rightarrow> addr \<Rightarrow> 'w pstate \<Rightarrow> ((PdaDebugReturnCode \<times> sgblock option) \<times> 'w pstate) option" where
  "DMABuffer_getSGList E buffer s =
     do {
       b \<leftarrow> bufs s buffer;
       (ret, s) \<leftarrow> (if sglist b = None then DMABuffer_loadSGList E buffer (buf_device b) s
                     else Some (PDA_SUCCESS, s));
       b \<leftarrow> bufs s buffer;
       Some ((ret, sglist b), s)
     }"

section \<open>Creation\<close>

text \<open>
  \<open>DMABuffer_alloc\<close>: the result is the code and \<open>*buffer\<close>. The check after the first \<open>calloc\<close> tests
  the wrong pointer (\<open>buffer\<close> instead of \<open>*buffer\<close>), so when that allocation fails the code
  dereferences \<open>NULL\<close>.
\<close>

definition DMABuffer_alloc ::
  "'w env \<Rightarrow> u64 \<Rightarrow> ptr \<Rightarrow> 'w pstate \<Rightarrow> ((PdaDebugReturnCode \<times> ptr) \<times> 'w pstate) option" where
  "DMABuffer_alloc E len device s =
     (case c_new E sizeof_DMABuffer s of
        (None, s) \<Rightarrow> None
      | (Some a, s) \<Rightarrow>
          let b = zero_DMABuffer\<lparr>internal := None, buf_length := len, buf_device := device,
                    buf_map := MAP_FAILED, map_two := MAP_FAILED\<rparr>;
              s = s\<lparr>bufs := (bufs s)(a \<mapsto> b)\<rparr> in
          (case c_alloc E sizeof_DMABufferInternal s of
             (True, s) \<Rightarrow> do {
               s \<leftarrow> upd_buf a (\<lambda>b. b\<lparr>internal := Some zero_DMABufferInternal\<rparr>) s;
               Some ((PDA_SUCCESS, Some a), s)
             }
           | (False, s) \<Rightarrow> do {
               let s = snd (ERROR E (errno s) s);
               h \<leftarrow> heap_free a (bufs s);
               let (c, s) = ERROR E (errno s) (s\<lparr>bufs := h\<rparr>);
               Some ((c, None), s)
             }))"

definition dma_path :: "bdf \<Rightarrow> string \<Rightarrow> string" where
  "dma_path ids f = c_snprintf PDA_STRING_LIMIT (device_path ids @ ''/dma/'' @ f)"

definition DMABuffer_generatePaths ::
  "'w env \<Rightarrow> addr \<Rightarrow> ptr \<Rightarrow> 'w pstate \<Rightarrow> (PdaDebugReturnCode \<times> 'w pstate) option" where
  "DMABuffer_generatePaths E buffer device s =
     do {
       b \<leftarrow> bufs s buffer;
       let nm = c_snprintf PDA_STRING_LIMIT (fmt_dec (unat (buf_index b)));
       s \<leftarrow> upd_int buffer (\<lambda>i. i\<lparr>name := nm\<rparr>) s;
       ((ret, ids), s) \<leftarrow> DMABuffer_get_ids E device s;
       if ret \<noteq> PDA_SUCCESS then Some (EINVAL, snd (ERROR E (errno s) s))
       else do {
         s \<leftarrow> upd_int buffer (\<lambda>i. i\<lparr>uio_filepath_request := dma_path ids ''request'',
                uio_filepath_delete := dma_path ids ''free'',
                uio_filepath_map := dma_path ids (nm @ ''/map''),
                uio_filepath_folder := dma_path ids (nm @ ''/'')\<rparr>) s;
         Some (PDA_SUCCESS, s)
       }
     }"

text \<open>
  The search for an index: \<open>current\<close> is overwritten by every name that starts with a number and
  kept for a name that does not.
\<close>

definition PDA_BUFFER_INDEX_UNDEFINED :: u64 where
  "PDA_BUFFER_INDEX_UNDEFINED = 0xFFFFFFFFFFFFFFFF"

partial_function (option) findNewIndex_loop :: "buf_heap \<Rightarrow> ptr \<Rightarrow> u64 \<Rightarrow> u64 \<Rightarrow> u64 option" where
  "findNewIndex_loop h p current_index index =
     (case p of
        None \<Rightarrow> Some index
      | Some a \<Rightarrow>
          Option.bind (h a) (\<lambda>b.
          Option.bind (internal b) (\<lambda>i.
            let current_index = (case scan_u64 (name i) of None \<Rightarrow> current_index | Some v \<Rightarrow> v) in
            findNewIndex_loop h (buf_next b) current_index
              (if index < current_index then current_index else index))))"

declare findNewIndex_loop.simps [code]

definition DMABuffer_findNewIndex :: "buf_heap \<Rightarrow> u64 \<Rightarrow> ptr \<Rightarrow> u64 option" where
  "DMABuffer_findNewIndex h new_index list_head =
     do {
       index \<leftarrow> (case list_head of
                   None \<Rightarrow> Some 0
                 | Some a \<Rightarrow> map_option (\<lambda>i. i + 1) (findNewIndex_loop h list_head 0 0));
       Some (if new_index \<noteq> PDA_BUFFER_INDEX_UNDEFINED then new_index else index)
     }"

definition DMABuffer_lockUserBuffer ::
  "'w env \<Rightarrow> u64 \<Rightarrow> addr \<Rightarrow> 'w pstate \<Rightarrow> (PdaDebugReturnCode \<times> 'w pstate) option" where
  "DMABuffer_lockUserBuffer E start buffer s =
     do {
       b \<leftarrow> bufs s buffer;
       (case c_sys (sys_mlock E start (buf_length b)) s of
          (None, s) \<Rightarrow> Some (ERROR E (errno s) s)
        | (Some _, s) \<Rightarrow> Some (PDA_SUCCESS, s))
     }"

definition DMABuffer_isEnoughMemoryAvailable :: "'w env \<Rightarrow> u64 \<Rightarrow> 'w pstate \<Rightarrow> bool" where
  "DMABuffer_isEnoughMemoryAvailable E len s \<longleftrightarrow> len div PAGE_SIZE E + 1 \<le> sys_avphys_pages E (world s)"

text \<open>
  The request written to the driver, \<open>struct uio_pci_dma_private\<close> as the user side lays it out: the
  name in 1024 bytes, size, NUMA node and start address; the members behind them, which only the
  kernel uses, are zero (3164 bytes in all).
\<close>

definition UIO_PCI_DMA_BUFFER_NAME_SIZE :: nat where "UIO_PCI_DMA_BUFFER_NAME_SIZE = 128"

definition char_bytes :: "string \<Rightarrow> u8 list" where
  "char_bytes s = map of_char s"

definition pad_bytes :: "nat \<Rightarrow> u8 list \<Rightarrow> u8 list" where
  "pad_bytes n bs = bs @ replicate (n - length bs) 0"

definition request_bytes :: "string \<Rightarrow> u64 \<Rightarrow> int \<Rightarrow> u64 \<Rightarrow> u8 list" where
  "request_bytes nm len numa start =
     pad_bytes 3164
       (pad_bytes 1024 (char_bytes (c_snprintf UIO_PCI_DMA_BUFFER_NAME_SIZE nm))
        @ word_bytes len @ word_bytes (of_int numa :: u32) @ word_bytes start)"

definition PciDevice_getNumaNode :: "'w env \<Rightarrow> addr \<Rightarrow> 'w pstate \<Rightarrow> int option" where
  "PciDevice_getNumaNode E device s =
     (if cfg_NUMA_AVAIL E then map_option numa_node (get_workp device s) else Some not_PDA_SUCCESS)"

definition DMABuffer_requestMemory ::
  "'w env \<Rightarrow> addr \<Rightarrow> addr \<Rightarrow> u64 \<Rightarrow> 'w pstate \<Rightarrow> (PdaDebugReturnCode \<times> 'w pstate) option" where
  "DMABuffer_requestMemory E device buffer start s =
     do {
       b \<leftarrow> bufs s buffer;
       numa \<leftarrow> (if cfg_NUMA_AVAIL E then PciDevice_getNumaNode E device s else Some (-1));
       i \<leftarrow> internal b;
       let request = request_bytes (name i) (buf_length b) numa start;
       let (fd, s) = pda_spinOpen E (uio_filepath_request i) O_WRONLY PDA_OPEN_DEFAULT_SPIN s;
       s \<leftarrow> upd_int buffer (\<lambda>i. i\<lparr>alloc_fd := fd\<rparr>) s;
       if fd \<noteq> -1
       then (case c_sys (sys_write E fd request) s of
           (None, s) \<Rightarrow> Some (errno s, s)
         | (Some n, s) \<Rightarrow>
             if n = 0 then Some (errno s, s)
             else do {
               s \<leftarrow> upd_int buffer (\<lambda>i. i\<lparr>alloc_fd := -1\<rparr>) (snd (c_close E fd s));
               Some (PDA_SUCCESS, s)
             })
       else Some (errno s, s)
     }"

text \<open>The three ways to create a buffer: code and whether the code jumps to \<open>exit\<close>.\<close>

definition new_lookup :: "'w env \<Rightarrow> addr \<Rightarrow> addr \<Rightarrow> 'w pstate \<Rightarrow> (PdaDebugReturnCode \<times> 'w pstate) option" where
  "new_lookup E device buffer s =
     do {
       (r1, s) \<leftarrow> DMABuffer_generatePaths E buffer (Some device) s;
       (ex, s) \<leftarrow> DMABuffer_exists E buffer s;
       if ex then do {
         (r2, s) \<leftarrow> DMABuffer_map E buffer s;
         s \<leftarrow> upd_buf buffer (\<lambda>b. b\<lparr>buf_type := PDA_BUFFER_KERNEL\<rparr>) s;
         Some (r1 + r2, s)
       }
       else Some (not_PDA_SUCCESS, s)
     }"

definition new_kernel ::
  "'w env \<Rightarrow> addr \<Rightarrow> addr \<Rightarrow> u64 \<Rightarrow> u64 \<Rightarrow> 'w pstate \<Rightarrow> ((bool \<times> PdaDebugReturnCode) \<times> 'w pstate) option" where
  "new_kernel E device buffer start len s =
     (if len = 0 then Some ((True, 0), snd (ERROR E EINVAL s))
      else do {
        (r1, s) \<leftarrow> DMABuffer_generatePaths E buffer (Some device) s;
        if \<not> DMABuffer_isEnoughMemoryAvailable E len s then Some ((True, 0), snd (ERROR E EINVAL s))
        else do {
          (r2, s) \<leftarrow> DMABuffer_requestMemory E device buffer start s;
          (r3, s) \<leftarrow> DMABuffer_map E buffer s;
          Some ((False, r1 + r2 + r3), s)
        }
      })"

definition new_user ::
  "'w env \<Rightarrow> addr \<Rightarrow> addr \<Rightarrow> u64 \<Rightarrow> 'w pstate \<Rightarrow> ((bool \<times> PdaDebugReturnCode) \<times> 'w pstate) option" where
  "new_user E device buffer start s =
     (if start mod PAGE_SIZE E \<noteq> 0 then Some ((True, 0), snd (ERROR E EINVAL s))
      else do {
        (r, s) \<leftarrow> DMABuffer_generatePaths E buffer (Some device) s;
        if r \<noteq> PDA_SUCCESS then Some ((True, 0), snd (ERROR E (errno s) s))
        else do {
          (r, s) \<leftarrow> DMABuffer_lockUserBuffer E start buffer s;
          if r \<noteq> PDA_SUCCESS then Some ((True, 0), snd (ERROR E (errno s) s))
          else do {
            (r, s) \<leftarrow> DMABuffer_requestMemory E device buffer start s;
            if r \<noteq> PDA_SUCCESS then Some ((True, 0), snd (ERROR E (errno s) s))
            else do {
              (r, s) \<leftarrow> DMABuffer_mapUser E buffer start s;
              if r \<noteq> PDA_SUCCESS then Some ((True, 0), snd (ERROR E (errno s) s))
              else Some ((False, PDA_SUCCESS), s)
            }
          }
        }
      })"

definition DMABuffer_new_exit :: "'w env \<Rightarrow> ptr \<Rightarrow> 'w pstate \<Rightarrow> (PdaDebugReturnCode \<times> 'w pstate) option" where
  "DMABuffer_new_exit E buffer s =
     do {
       h \<leftarrow> (case buffer of None \<Rightarrow> Some (bufs s) | Some a \<Rightarrow> heap_free a (bufs s));
       let s = s\<lparr>bufs := h\<rparr>;
       Some (ERROR E (errno s) s)
     }"

definition DMABuffer_new ::
  "'w env \<Rightarrow> addr \<Rightarrow> u64 \<Rightarrow> u64 \<Rightarrow> u64 \<Rightarrow> pda_buffer_type \<Rightarrow> 'w pstate
   \<Rightarrow> (PdaDebugReturnCode \<times> 'w pstate) option" where
  "DMABuffer_new E device index start len buffer_type s =
     do {
       ((ret, buffer), s) \<leftarrow> DMABuffer_alloc E len (Some device) s;
       if ret \<noteq> PDA_SUCCESS then DMABuffer_new_exit E buffer (snd (ERROR E ENOMEM s))
       else do {
            a \<leftarrow> buffer;
            dev \<leftarrow> devs s device;
            idx \<leftarrow> DMABuffer_findNewIndex (bufs s) index (dma_buffer_list dev);
            s \<leftarrow> upd_buf a (\<lambda>b. b\<lparr>buf_type := buffer_type, buf_index := idx, sglist := None,
                   buf_device := Some device, buf_map := MAP_FAILED, map_two := MAP_FAILED\<rparr>) s;
            ((jump, ret), s) \<leftarrow>
              (case buffer_type of
                 PDA_BUFFER_LOOKUP \<Rightarrow> map_option (\<lambda>(r, s). ((False, r), s)) (new_lookup E device a s)
               | PDA_BUFFER_KERNEL \<Rightarrow> new_kernel E device a start len s
               | PDA_BUFFER_USER \<Rightarrow> new_user E device a start s);
            if jump then DMABuffer_new_exit E (Some a) s
            else if ret \<noteq> PDA_SUCCESS then DMABuffer_new_exit E (Some a) (snd (ERROR E (errno s) s))
            else do {
              dev \<leftarrow> devs s device;
              (hd', h) \<leftarrow> DMABuffer_addNode (dma_buffer_list dev) (Some a) (bufs s);
              s \<leftarrow> upd_dev device (\<lambda>d. d\<lparr>dma_buffer_list := hd'\<rparr>) (s\<lparr>bufs := h\<rparr>);
              Some (PDA_SUCCESS, s)
            }
       }
     }"

section \<open>Buffers without a process\<close>

text \<open>The entries of the \<open>dma\<close> directory that stand for buffers.\<close>

definition is_buffer_entry :: "dirent \<Rightarrow> bool" where
  "is_buffer_entry e \<longleftrightarrow> d_is_dir e \<and> d_name e \<noteq> ''.'' \<and> d_name e \<noteq> ''..''"

text \<open>A C string as \<open>write\<close> sends it: \<open>strlen + 1\<close> bytes.\<close>

definition c_string_bytes :: "string \<Rightarrow> u8 list" where
  "c_string_bytes s = char_bytes s @ [0]"

text \<open>
  Opening the driver's file \<open>free\<close>, writing a name and closing it; \<open>None\<close> inside stands for a
  failure, after which the code goes to its exit block. In the inner comparison \<open>ret == -1\<close> a
  \<open>size_t\<close> is compared with \<open>-1\<close>, which holds exactly when \<open>write\<close> failed.
\<close>

definition write_free :: "'w env \<Rightarrow> string \<Rightarrow> string \<Rightarrow> 'w pstate \<Rightarrow> bool \<times> 'w pstate" where
  "write_free E path nm s =
     (case pda_spinOpen E path O_WRONLY PDA_OPEN_DEFAULT_SPIN s of
        (fd, s) \<Rightarrow>
          if -1 < fd then
            (case c_sys (sys_write E fd (c_string_bytes nm)) s of
               (r, s) \<Rightarrow> (r \<noteq> None, snd (c_close E fd s)))
          else (False, s))"

fun delete_entries :: "'w env \<Rightarrow> string \<Rightarrow> dirent list \<Rightarrow> 'w pstate \<Rightarrow> bool \<times> 'w pstate" where
  "delete_entries E path [] s = (True, s)"
| "delete_entries E path (e # es) s =
     (if is_buffer_entry e then
        (case write_free E path (d_name e) s of
           (True, s) \<Rightarrow> delete_entries E path es s
         | (False, s) \<Rightarrow> (False, snd (ERROR E (errno s) s)))
      else delete_entries E path es s)"

definition DMABuffer_delete_not_attached_buffers ::
  "'w env \<Rightarrow> ptr \<Rightarrow> 'w pstate \<Rightarrow> (PdaDebugReturnCode \<times> 'w pstate) option" where
  "DMABuffer_delete_not_attached_buffers E device s =
     do {
       ((ret, ids), s) \<leftarrow> DMABuffer_get_ids E device s;
       if ret \<noteq> PDA_SUCCESS then Some (not_PDA_SUCCESS, snd (ERROR E (errno s) s))
       else (case c_sys (sys_opendir E (dma_path ids [])) s of
           (None, s) \<Rightarrow> Some (not_PDA_SUCCESS, snd (ERROR E (errno s) s))
         | (Some entries, s) \<Rightarrow>
             (case delete_entries E (dma_path ids ''free'') entries s of
                (True, s) \<Rightarrow> Some (PDA_SUCCESS, s\<lparr>world := sys_closedir E (world s)\<rparr>)
              | (False, s) \<Rightarrow> Some (not_PDA_SUCCESS, s)))
     }"

text \<open>
  Rediscovery. The loop carries the head of the list built so far and the buffer in work; the
  exit block frees only the latter.
\<close>

definition persistant_exit :: "'w env \<Rightarrow> ptr \<Rightarrow> int \<Rightarrow> 'w pstate \<Rightarrow> (ptr \<times> 'w pstate) option" where
  "persistant_exit E buffer code s =
     do {
       let s = snd (ERROR E code s);
       h \<leftarrow> (case buffer of None \<Rightarrow> Some (bufs s) | Some a \<Rightarrow> heap_free a (bufs s));
       Some (None, s\<lparr>bufs := h\<rparr>)
     }"

fun persistant_loop ::
  "'w env \<Rightarrow> addr \<Rightarrow> string \<Rightarrow> dirent list \<Rightarrow> ptr \<Rightarrow> 'w pstate \<Rightarrow> (ptr \<times> 'w pstate) option" where
  "persistant_loop E device dir [] head s = Some (head, s\<lparr>world := sys_closedir E (world s)\<rparr>)"
| "persistant_loop E device dir (e # es) head s =
     (if is_buffer_entry e then
        (case c_sys (sys_stat_size E (c_snprintf PDA_STRING_LIMIT (dir @ ''/'' @ d_name e @ ''/map''))) s of
           (None, s) \<Rightarrow> persistant_exit E None (errno s) s
         | (Some sz, s) \<Rightarrow>
             Option.bind (DMABuffer_alloc E sz (Some device) s) (\<lambda>((ret, buffer), s).
               if ret \<noteq> PDA_SUCCESS then persistant_exit E buffer ENOMEM s
               else Option.bind buffer (\<lambda>a.
                 Option.bind (upd_int a (\<lambda>i. i\<lparr>name := c_snprintf PDA_STRING_LIMIT (d_name e)\<rparr>) s) (\<lambda>s.
                 Option.bind (upd_buf a (\<lambda>b. b\<lparr>buf_index := or_zero (scan_u64 (d_name e))\<rparr>) s) (\<lambda>s.
                 Option.bind (DMABuffer_generatePaths E a (Some device) s) (\<lambda>(r, s).
                   if r \<noteq> PDA_SUCCESS then persistant_exit E (Some a) (errno s) s
                   else
                     Option.bind (DMABuffer_map E a s) (\<lambda>(r1, s).
                     Option.bind (DMABuffer_loadSGList E a (Some device) s) (\<lambda>(r2, s).
                       if r1 + r2 \<noteq> PDA_SUCCESS then persistant_exit E (Some a) (errno s) s
                       else Option.bind (DMABuffer_addNode head (Some a) (bufs s)) (\<lambda>(head, h).
                         persistant_loop E device dir es head (s\<lparr>bufs := h\<rparr>))))))))))
      else persistant_loop E device dir es head s)"

definition DMABuffer_check_persistant :: "'w env \<Rightarrow> addr \<Rightarrow> 'w pstate \<Rightarrow> (ptr \<times> 'w pstate) option" where
  "DMABuffer_check_persistant E device s =
     do {
       ((ret, ids), s) \<leftarrow> DMABuffer_get_ids E (Some device) s;
       if ret \<noteq> PDA_SUCCESS then persistant_exit E None (errno s) s
       else (case c_sys (sys_opendir E (dma_path ids [])) s of
           (None, s) \<Rightarrow> persistant_exit E None (errno s) s
         | (Some entries, s) \<Rightarrow> persistant_loop E device (dma_path ids []) entries None s)
     }"

section \<open>Release\<close>

definition DMABuffer_closeFiles :: "'w env \<Rightarrow> addr \<Rightarrow> 'w pstate \<Rightarrow> 'w pstate option" where
  "DMABuffer_closeFiles E buffer s =
     do {
       b \<leftarrow> bufs s buffer;
       (case internal b of
          None \<Rightarrow> Some s
        | Some i \<Rightarrow>
            let s = (if 0 \<le> alloc_fd i then snd (c_close E (alloc_fd i) s) else s);
                i = (if 0 \<le> alloc_fd i then i\<lparr>alloc_fd := -1\<rparr> else i);
                s = (if 0 \<le> map_fd i then snd (c_close E (map_fd i) s) else s);
                i = (if 0 \<le> map_fd i then i\<lparr>map_fd := -1\<rparr> else i)
            in Some (s\<lparr>bufs := (bufs s)(buffer \<mapsto> b\<lparr>internal := Some i\<rparr>)\<rparr>))
     }"

abbreviation (input) PDA_DELETE :: u8 where "PDA_DELETE \<equiv> 0"
abbreviation (input) PDA_DELETE_PERSISTANT :: u8 where "PDA_DELETE_PERSISTANT \<equiv> 1"

text \<open>\<open>munmap\<close> of one of the two mappings unless it is \<open>MAP_FAILED\<close>.\<close>

definition unmap_two :: "'w env \<Rightarrow> addr \<Rightarrow> 'w pstate \<Rightarrow> 'w pstate option" where
  "unmap_two E buffer s =
     do {
       b \<leftarrow> bufs s buffer;
       if map_two b \<noteq> MAP_FAILED
       then upd_buf buffer (\<lambda>b. b\<lparr>map_two := MAP_FAILED\<rparr>) (c_void (sys_munmap E (map_two b) (buf_length b)) s)
       else Some s
     }"

definition unmap_one :: "'w env \<Rightarrow> addr \<Rightarrow> 'w pstate \<Rightarrow> 'w pstate option" where
  "unmap_one E buffer s =
     do {
       b \<leftarrow> bufs s buffer;
       if buf_map b \<noteq> MAP_FAILED
       then upd_buf buffer (\<lambda>b. b\<lparr>buf_map := MAP_FAILED\<rparr>) (c_void (sys_munmap E (buf_map b) (buf_length b)) s)
       else Some s
     }"

text \<open>
  The first half of \<open>DMABuffer_free\<close>: the mappings. The result says whether to go on, and the
  value of \<open>persistant\<close> from there.
\<close>

definition free_unmap :: "'w env \<Rightarrow> addr \<Rightarrow> u8 \<Rightarrow> 'w pstate \<Rightarrow> ((bool \<times> u8) \<times> 'w pstate) option" where
  "free_unmap E buffer persistant s =
     do {
       b \<leftarrow> bufs s buffer;
       (case buf_type b of
          PDA_BUFFER_KERNEL \<Rightarrow> do {
            s \<leftarrow> unmap_two E buffer s;
            s \<leftarrow> unmap_one E buffer s;
            Some ((True, persistant), s)
          }
        | PDA_BUFFER_USER \<Rightarrow> do {
            s \<leftarrow> unmap_two E buffer s;
            (case c_sys (sys_munlock E (buf_map b) (buf_length b)) s of
               (r, s) \<Rightarrow>
                 let s = (if r = None then snd (ERROR E (errno s) s) else s) in
                 if r = None \<and> \<not> cfg_PDA_SKIP_UNLOCK_FAILURE E then Some ((False, persistant), s)
                 else do {
                   s \<leftarrow> upd_buf buffer (\<lambda>b. b\<lparr>buf_map := MAP_FAILED\<rparr>) s;
                   Some ((True, PDA_DELETE), s)
                 })
          }
        | PDA_BUFFER_LOOKUP \<Rightarrow> Some ((True, persistant), s))
     }"

text \<open>The second half: telling the driver. \<open>False\<close>: the code goes to \<open>exit_free\<close>.\<close>

definition free_driver :: "'w env \<Rightarrow> addr \<Rightarrow> u8 \<Rightarrow> 'w pstate \<Rightarrow> (bool \<times> 'w pstate) option" where
  "free_driver E buffer persistant s =
     do {
       b \<leftarrow> bufs s buffer;
       (case internal b of
          None \<Rightarrow> Some (True, s)
        | Some i \<Rightarrow>
            if persistant \<noteq> PDA_DELETE then Some (True, s)
            else (case c_sys (sys_flock E (map_fd i) LOCK_EX) s of
                (None, s) \<Rightarrow> Some (False, snd (ERROR E (errno s) s))
              | (Some _, s) \<Rightarrow>
                  (case pda_spinOpen E (uio_filepath_delete i) O_WRONLY PDA_OPEN_DEFAULT_SPIN s of
                     (free_fd, s) \<Rightarrow>
                       if -1 < free_fd then do {
                         s \<leftarrow> DMABuffer_closeFiles E buffer s;
                         (case c_sys (sys_write E free_fd (c_string_bytes (name i))) s of
                            (r, s) \<Rightarrow>
                              let s = snd (c_close E free_fd s) in
                              if r = None then Some (False, snd (ERROR E (errno s) s))
                              else Some (True, s))
                       }
                       else Some (False, snd (ERROR E (errno s) s)))))
     }"

text \<open>Freeing the parts of the object and the object itself.\<close>

definition free_object :: "addr \<Rightarrow> 'w pstate \<Rightarrow> 'w pstate option" where
  "free_object buffer s =
     do {
       s \<leftarrow> upd_buf buffer (\<lambda>b. b\<lparr>internal := None, sglist := None\<rparr>) s;
       h \<leftarrow> DMABuffer_release buffer (bufs s);
       Some (s\<lparr>bufs := h\<rparr>)
     }"

definition DMABuffer_free :: "'w env \<Rightarrow> ptr \<Rightarrow> u8 \<Rightarrow> 'w pstate \<Rightarrow> (PdaDebugReturnCode \<times> 'w pstate) option" where
  "DMABuffer_free E buffer persistant s =
     (case buffer of
        None \<Rightarrow> Some (not_PDA_SUCCESS, s)
      | Some a \<Rightarrow> do {
          ((go, persistant), s) \<leftarrow> free_unmap E a persistant s;
          if \<not> go then Some (ERROR E (errno s) s)
          else do {
            (ok, s) \<leftarrow> free_driver E a persistant s;
            if ok then do {
              s \<leftarrow> DMABuffer_closeFiles E a s;
              s \<leftarrow> free_object a s;
              Some (PDA_SUCCESS, s)
            }
            else do {
              s \<leftarrow> free_object a s;
              Some (ERROR E (errno s) s)
            }
          }
        })"

partial_function (option) freeAll_loop ::
  "'w env \<Rightarrow> u8 \<Rightarrow> ptr \<Rightarrow> PdaDebugReturnCode \<Rightarrow> 'w pstate \<Rightarrow> (PdaDebugReturnCode \<times> 'w pstate) option" where
  "freeAll_loop E persistant tmp ret s =
     (case tmp of
        None \<Rightarrow> Some (ret, s)
      | Some a \<Rightarrow>
          Option.bind (bufs s a) (\<lambda>b.
          Option.bind (DMABuffer_free E tmp persistant s) (\<lambda>(r, s).
            freeAll_loop E persistant (buf_next b) (ret + r) s)))"

declare freeAll_loop.simps [code]

definition DMABuffer_freeAllBuffersInt ::
  "'w env \<Rightarrow> ptr \<Rightarrow> u8 \<Rightarrow> 'w pstate \<Rightarrow> (PdaDebugReturnCode \<times> 'w pstate) option" where
  "DMABuffer_freeAllBuffersInt E buffer persistant s =
     do {
       head \<leftarrow> DMABuffer_getHead (bufs s) buffer;
       freeAll_loop E persistant head PDA_SUCCESS s
     }"

definition DMABuffer_freeAllBuffers :: "'w env \<Rightarrow> ptr \<Rightarrow> 'w pstate \<Rightarrow> (PdaDebugReturnCode \<times> 'w pstate) option" where
  "DMABuffer_freeAllBuffers E buffer s = DMABuffer_freeAllBuffersInt E buffer PDA_DELETE s"

section \<open>Wrap mapping\<close>

text \<open>
  Mapping the buffer twice in a row, so that an access behind its end wraps around. For a buffer
  of the driver, the driver itself maps the buffer repeatedly into an area of twice its size.
\<close>

definition DMABuffer_handleFailedKernelWrapMap ::
  "'w env \<Rightarrow> addr \<Rightarrow> 'w pstate \<Rightarrow> (PdaDebugReturnCode \<times> 'w pstate) option" where
  "DMABuffer_handleFailedKernelWrapMap E buffer s =
     do {
       b \<leftarrow> bufs s buffer;
       let s = (if buf_map b \<noteq> MAP_FAILED then c_void (sys_munmap E (buf_map b) (buf_length b)) s else s);
       let s = (if map_two b \<noteq> MAP_FAILED then c_void (sys_munmap E (map_two b) (buf_length b)) s else s);
       i \<leftarrow> internal b;
       let (m, s) = c_mmap (sys_mmap E (buf_map b) (buf_length b * 2) (map_fd i)) s;
       s \<leftarrow> upd_buf buffer (\<lambda>b. b\<lparr>buf_map := m, map_two := m + buf_length b\<rparr>) s;
       if m = MAP_FAILED then do {
         let (m, s) = c_mmap (sys_mmap E 0 (buf_length b) (map_fd i)) s;
         s \<leftarrow> upd_buf buffer (\<lambda>b. b\<lparr>buf_map := m\<rparr>) s;
         s \<leftarrow> (if m = MAP_FAILED then upd_buf buffer (\<lambda>b. b\<lparr>map_two := 0\<rparr>) s else Some s);
         Some (not_PDA_SUCCESS, s)
       }
       else Some (PDA_SUCCESS, s)
     }"

definition kernelWrapMap :: "'w env \<Rightarrow> addr \<Rightarrow> u64 \<Rightarrow> 'w pstate \<Rightarrow> (PdaDebugReturnCode \<times> 'w pstate) option" where
  "kernelWrapMap E buffer buffer_area s =
     do {
       s \<leftarrow> unmap_one E buffer s;
       b \<leftarrow> bufs s buffer;
       i \<leftarrow> internal b;
       let (m1, s) = c_mmap (sys_mmap E buffer_area (buf_length b) (map_fd i)) s;
       let (m2, s) = c_mmap (sys_mmap E (buffer_area + buf_length b) (buf_length b) (map_fd i)) s;
       s \<leftarrow> upd_buf buffer (\<lambda>b. b\<lparr>buf_map := m1, map_two := m2\<rparr>) s;
       if m1 = MAP_FAILED \<or> m2 = MAP_FAILED
       then DMABuffer_handleFailedKernelWrapMap E buffer (snd (ERROR E (errno s) s))
       else if m2 \<noteq> m1 + buf_length b
       then DMABuffer_handleFailedKernelWrapMap E buffer (snd (ERROR E EINVAL s))
       else Some (PDA_SUCCESS, s)
     }"

definition userWrapMap_exit :: "'w env \<Rightarrow> addr \<Rightarrow> 'w pstate \<Rightarrow> (PdaDebugReturnCode \<times> 'w pstate) option" where
  "userWrapMap_exit E buffer s =
     do { s \<leftarrow> unmap_two E buffer (snd (ERROR E (errno s) s)); Some (ERROR E EINVAL s) }"

definition userWrapMap :: "'w env \<Rightarrow> addr \<Rightarrow> u64 \<Rightarrow> 'w pstate \<Rightarrow> (PdaDebugReturnCode \<times> 'w pstate) option" where
  "userWrapMap E buffer buffer_area s =
     do {
       b \<leftarrow> bufs s buffer;
       if buf_map b = 0 then userWrapMap_exit E buffer s
       else do {
         let (m1, s) = c_mmap (sys_mremap E (buf_map b) (buf_length b) buffer_area) s;
         s \<leftarrow> upd_buf buffer (\<lambda>b. b\<lparr>buf_map := m1\<rparr>) s;
         i \<leftarrow> internal b;
         let (m2, s) = c_mmap (sys_mmap E (m1 + buf_length b) (buf_length b) (map_fd i)) s;
         s \<leftarrow> upd_buf buffer (\<lambda>b. b\<lparr>map_two := m2\<rparr>) s;
         if m1 = MAP_FAILED \<or> m2 = MAP_FAILED then userWrapMap_exit E buffer s
         else if m2 \<noteq> m1 + buf_length b then userWrapMap_exit E buffer s
         else Some (PDA_SUCCESS, s)
       }
     }"

definition DMABuffer_wrapMap :: "'w env \<Rightarrow> ptr \<Rightarrow> 'w pstate \<Rightarrow> (PdaDebugReturnCode \<times> 'w pstate) option" where
  "DMABuffer_wrapMap E buffer s =
     (case buffer of
        None \<Rightarrow> Some (ERROR E EINVAL (snd (ERROR E (errno s) s)))
      | Some a \<Rightarrow> do {
          b \<leftarrow> bufs s a;
          if buf_type b = PDA_BUFFER_KERNEL then DMABuffer_handleFailedKernelWrapMap E a s
          else (case c_sys (sys_memalign E (PAGE_SIZE E) (2 * buf_length b)) s of
              (None, s) \<Rightarrow> Some (ERROR E EINVAL (snd (ERROR E (errno s) s)))
            | (Some area, s) \<Rightarrow>
                if buf_type b = PDA_BUFFER_KERNEL then kernelWrapMap E a area s
                else if buf_type b = PDA_BUFFER_USER then userWrapMap E a area s
                else Some (ERROR E EINVAL s))
        })"

end
