(* ===== verification/PDA_SGLoad.thy ===== *)
theory PDA_SGLoad
  imports PDA_DMABuffer
begin

text \<open>
  Correctness of \<open>DMABuffer_loadSGList\<close>: the list the library hands to its user translates every
  byte of the mapped buffer to the device address the driver's table assigns to it.
\<close>

section \<open>The driver's table\<close>

text \<open>The offset of entry \<open>i\<close> in the buffer, and what the table says about each byte.\<close>

definition table_offset :: "(nat \<Rightarrow> scatter) \<Rightarrow> nat \<Rightarrow> nat" where
  "table_offset tab i = (\<Sum>j<i. unat (sc_length (tab j)))"

definition table_translation :: "u64 \<Rightarrow> (nat \<Rightarrow> scatter) \<Rightarrow> nat \<Rightarrow> (u64 \<times> u64) list" where
  "table_translation base tab n =
     concat (map (\<lambda>i. map (\<lambda>k. (base + of_nat (table_offset tab i + k), sc_dma_address (tab i) + of_nat k))
                        [0..<unat (sc_length (tab i))]) [0..<n])"

definition table_ok :: "(nat \<Rightarrow> scatter) \<Rightarrow> nat \<Rightarrow> bool" where
  "table_ok tab n \<longleftrightarrow> 0 < n \<and> (\<forall>i < n. sc_length (tab i) \<noteq> 0) \<and> table_offset tab n < 2 ^ 64"

section \<open>The conversion loop\<close>

definition table_block :: "u64 \<Rightarrow> (nat \<Rightarrow> scatter) \<Rightarrow> nat \<Rightarrow> sgblock" where
  "table_block base tab n = map (\<lambda>i. sg_node tab n i (base + of_nat (table_offset tab i))) [0..<n]"

lemma length_table_block [simp]: "length (table_block base tab n) = n"
  by (simp add: table_block_def)

lemma sg_node_length: "unat (sg_length (sg_node tab n i it)) = unat (sc_length (tab i))"
  by (simp add: sg_node_def unat_widen)

lemma sg_node_u: "u_pointer (sg_node tab n i it) = it"
  by (simp add: sg_node_def)

text \<open>The user-space iterator after entry \<open>i\<close>.\<close>

lemma iterator_step:
  "base + of_nat (table_offset tab i) + sg_length (sg_node tab n i it)
   = base + of_nat (table_offset tab (Suc i))"
proof -
  have "sg_length (sg_node tab n i it) = of_nat (unat (sc_length (tab i)))"
    by (simp add: sg_node_def)
  then show ?thesis
    by (simp only: table_offset_def sum.lessThan_Suc of_nat_add add.assoc)
qed

lemma drop_table_block:
  "k < n \<Longrightarrow> drop k (table_block base tab n)
     = sg_node tab n k (base + of_nat (table_offset tab k)) # drop (Suc k) (table_block base tab n)"
  by (simp add: drop_eq_Cons_nth table_block_def)

lemma sg_convert_from:
  assumes "i \<le> n" and "length b = n"
  shows "sg_convert tab n i (base + of_nat (table_offset tab i)) b = take i b @ drop i (table_block base tab n)"
  using assms
proof (induction "n - i" arbitrary: i b)
  case 0
  then have "i = n" by simp
  with 0 show ?case by (simp add: sg_convert.simps[of tab n n])
next
  case (Suc d)
  let ?nd = "sg_node tab n i (base + of_nat (table_offset tab i))"
  have i: "i < n" "d = n - Suc i" using Suc by auto
  have "sg_convert tab n i (base + of_nat (table_offset tab i)) b
      = sg_convert tab n (Suc i) (base + of_nat (table_offset tab (Suc i))) (b[i := ?nd])"
    using i by (simp add: sg_convert.simps[of tab n i] Let_def iterator_step)
  also have "\<dots> = take (Suc i) (b[i := ?nd]) @ drop (Suc i) (table_block base tab n)"
    using Suc i by (intro Suc.hyps(1)) auto
  also have "\<dots> = take i b @ drop i (table_block base tab n)"
    using i Suc.prems by (simp add: take_Suc_snoc drop_table_block)
  finally show ?case .
qed

lemma sg_convert_block: "sg_convert tab n 0 base (replicate n z) = table_block base tab n"
  using sg_convert_from[of 0 n "replicate n z" tab base] by (simp add: table_offset_def)

lemma table_block_contiguous:
  "k \<le> n \<Longrightarrow> u_contiguous (base + of_nat (table_offset tab k)) (drop k (table_block base tab n))"
proof (induction "n - k" arbitrary: k)
  case 0
  then show ?case by simp
next
  case (Suc d)
  then have k: "k < n" "d = n - Suc k" by auto
  have "u_contiguous (base + of_nat (table_offset tab (Suc k))) (drop (Suc k) (table_block base tab n))"
    using k by (intro Suc.hyps(1)) auto
  with k show ?case
    by (simp add: iterator_step sg_node_u drop_table_block)
qed

lemma table_block_total: "sg_total (table_block base tab n) = table_offset tab n"
proof -
  have "sum_list (map f [0..<n]) = (\<Sum>j<n. f j)" for f :: "nat \<Rightarrow> nat"
    by (simp add: sum_list_sum_nth atLeast0LessThan)
  then show ?thesis
    by (simp add: sg_total_def table_block_def table_offset_def comp_def sg_node_length)
qed

lemma table_block_wf:
  assumes "table_ok tab n"
  shows "sg_wf (table_block base tab n)"
proof -
  have "sg_linked (table_block base tab n)"
    by (auto simp: sg_linked_def table_block_def sg_node_def idx_ptr_def)
  moreover have "\<forall>nd \<in> set (table_block base tab n). nonzero nd"
    using assms unfolding table_block_def table_ok_def word_neq_0_unat
    by (auto simp: sg_node_length)
  ultimately show ?thesis
    using assms by (auto simp: sg_wf_def table_ok_def table_block_total simp flip: length_greater_0_conv)
qed

lemma table_block_translation:
  "sg_translation (table_block base tab n) = table_translation base tab n"
  unfolding sg_translation_def table_translation_def table_block_def map_map
proof (rule arg_cong[of _ _ concat], rule map_cong[OF refl])
  fix i
  show "(sg_bytes \<circ> (\<lambda>i. sg_node tab n i (base + of_nat (table_offset tab i)))) i
      = map (\<lambda>k. (base + of_nat (table_offset tab i + k), sc_dma_address (tab i) + of_nat k))
          [0..<unat (sc_length (tab i))]"
    by (simp add: sg_bytes_def sg_node_length) (simp add: sg_node_def add.assoc)
qed

lemma coalesque_table:
  assumes "\<forall>n w. fst (sys_alloc E n w)" and "table_ok tab n"
  shows "\<exists>blk w. DMABuffer_coalesqueSGlist E (Some (table_block base tab n)) s
      = Some (PDA_SUCCESS, Some blk, s\<lparr>world := w\<rparr>)
    \<and> sg_translation blk = table_translation base tab n \<and> successively apart blk"
proof -
  let ?b = "table_block base tab n"
  obtain blk w where blk: "DMABuffer_coalesqueSGlist E (Some ?b) s = Some (PDA_SUCCESS, Some blk, s\<lparr>world := w\<rparr>)"
    "map sg_core blk = map sg_core (sg_glue ?b)"
    using coalesque_glue[OF assms(1) table_block_wf[OF assms(2)]] by blast
  have "u_contiguous base ?b"
    using table_block_contiguous[of 0 n base tab] by (simp add: table_offset_def)
  then have "sg_translation (sg_glue ?b) = sg_translation ?b"
    using sg_glue_translation[of ?b base] assms(2) by (auto simp: table_block_total table_ok_def)
  then show ?thesis
    using blk core_translation[OF blk(2)] sg_glue_apart[of ?b] table_block_translation[of base tab n] by auto
qed

section \<open>The whole function\<close>

text \<open>
  The list \<open>blk\<close> was loaded from the table file \<open>path\<close> for a buffer mapped at \<open>base\<close>: the table has
  the size \<open>stat\<close> reported, lies where \<open>mmap\<close> put it, and \<open>blk\<close> translates as it says, with no two
  entries left to merge.
\<close>

definition sg_loaded :: "'w env \<Rightarrow> u64 \<Rightarrow> string \<Rightarrow> sgblock \<Rightarrow> bool" where
  "sg_loaded E base path blk \<longleftrightarrow>
     (\<exists>sz w0 w0' t fd w1 w1' w.
        sys_stat_size E path w0 = (Inr sz, w0') \<and> sys_mmap E 0 sz fd w1 = (Inr t, w1') \<and>
        sg_translation blk = table_translation base (\<lambda>k. sys_scatter E t k w) (unat (sz div sizeof_scatter)))
     \<and> successively apart blk"

text \<open>The outcome for the buffer \<open>b\<close> at \<open>a\<close>: a loaded list on success, no list on an error.\<close>

definition load_outcome ::
  "'w env \<Rightarrow> addr \<Rightarrow> DMABuffer \<Rightarrow> string \<Rightarrow> 'w pstate \<Rightarrow> PdaDebugReturnCode \<Rightarrow> 'w pstate \<Rightarrow> bool" where
  "load_outcome E a b path s r s' \<longleftrightarrow>
     (\<exists>b'. bufs s' = (bufs s)(a \<mapsto> b') \<and> buf_map b' = buf_map b \<and>
        (if r = PDA_SUCCESS then \<exists>blk. sglist b' = Some blk \<and> sg_loaded E (buf_map b) path blk
         else sglist b' = None))"

lemma load_outcome_step:
  "load_outcome E a b1 path s1 r s' \<Longrightarrow> bufs s1 = (bufs s)(a \<mapsto> b1) \<Longrightarrow> buf_map b1 = buf_map b \<Longrightarrow>
   load_outcome E a b path s r s'"
  by (auto simp: load_outcome_def)

lemma load_exit_outcome:
  assumes "bufs s a = Some b" and "0 < errno s"
  shows "\<exists>r s'. loadSGList_exit E a (snd (ERROR E (errno s) s)) = Some (r, s') \<and> load_outcome E a b path s r s'"
    and "\<exists>r s'. loadSGList_exit E a s = Some (r, s') \<and> load_outcome E a b path s r s'"
proof -
  have gen: "\<exists>r s'. loadSGList_exit E a s1 = Some (r, s') \<and> load_outcome E a b path s r s'"
    if "bufs s1 = bufs s" "errno s1 = errno s" for s1
    using assms that
    by (intro exI[of _ "errno s1"] exI[of _ "snd (ERROR E (errno s1) (s1\<lparr>bufs := (bufs s)(a \<mapsto> b\<lparr>sglist := None\<rparr>)\<rparr>))"])
      (auto simp: loadSGList_exit_def upd_buf_def load_outcome_def prod_eq_iff)
  show "\<exists>r s'. loadSGList_exit E a (snd (ERROR E (errno s) s)) = Some (r, s') \<and> load_outcome E a b path s r s'"
    and "\<exists>r s'. loadSGList_exit E a s = Some (r, s') \<and> load_outcome E a b path s r s'"
    by (auto intro!: gen)
qed

text \<open>The run of the reading half: \<open>munmap\<close> and \<open>close\<close> come between the conversion and the coalescing.\<close>

lemma load_read_run:
  assumes alloc: "\<forall>n w. fst (sys_alloc E n w)" and b: "bufs s a = Some b" "internal b = Some i"
  obtains blk w b2 s3 s4 and r3 :: "unit option" and r4 :: int where
    "loadSGList_read E a sz t s =
      (case r3 of None \<Rightarrow> loadSGList_exit E a (snd (ERROR E (errno s3) s3))
       | Some _ \<Rightarrow>
           if r4 = -1 then loadSGList_exit E a (snd (ERROR E (errno s4) s4))
           else do {
             (ret, sgl, s) \<leftarrow> DMABuffer_coalesqueSGlist E (Some blk)
               (s4\<lparr>bufs := (bufs s)(a \<mapsto> b2\<lparr>internal := Some (i\<lparr>sg_fd := -1\<rparr>)\<rparr>)\<rparr>);
             s \<leftarrow> upd_buf a (\<lambda>b. b\<lparr>sglist := sgl\<rparr>) s;
             Some (ret, s) })"
    "blk = table_block (buf_map b) (\<lambda>k. sys_scatter E t k w) (unat (sz div sizeof_scatter))" "b2 = b\<lparr>sglist := Some blk\<rparr>"
    "bufs s3 = (bufs s)(a \<mapsto> b2)" "bufs s4 = (bufs s)(a \<mapsto> b2)"
    "posix_env E \<longrightarrow> (r3 = None \<longrightarrow> 0 < errno s3) \<and> (r4 = -1 \<longrightarrow> 0 < errno s4)" "granting E \<longrightarrow> r3 \<noteq> None \<and> r4 \<noteq> -1"
proof -
  let ?n = "unat (sz div sizeof_scatter)"
  define s1 where "s1 = s\<lparr>world := snd (sys_alloc E (?n * sizeof_SGNode) (world s))\<rparr>"
  define blk where "blk = table_block (buf_map b) (\<lambda>k. sys_scatter E t k (world s1)) ?n"
  define b2 where "b2 = b\<lparr>sglist := Some blk\<rparr>"
  define s2 where "s2 = s1\<lparr>bufs := (bufs s)(a \<mapsto> b2)\<rparr>"
  have al: "c_alloc E (?n * sizeof_SGNode) s = (True, s1)"
    using alloc by (simp add: c_alloc_ok s1_def)
  obtain r3 s3 where um: "c_sys (sys_munmap E t sz) s2 = (r3, s3)" by fastforce
  obtain r4 s4 where cl: "c_close E (sg_fd i) s3 = (r4, s4)" by fastforce
  have bufs: "bufs s3 = (bufs s)(a \<mapsto> b2)" "bufs s4 = (bufs s)(a \<mapsto> b2)"
    using c_sys_heaps[OF um] c_close_heaps[OF cl] by (simp_all add: same_heaps_def s2_def)
  have err: "posix_env E \<longrightarrow> (r3 = None \<longrightarrow> 0 < errno s3) \<and> (r4 = -1 \<longrightarrow> 0 < errno s4)" "granting E \<longrightarrow> r3 \<noteq> None \<and> r4 \<noteq> -1"
    using um cl c_sys_errno[OF posix_laws(4)] c_close_errno c_sys_granted[OF granting_laws(9) um] c_close_granted[OF _ cl] by blast+
  show thesis
    by (rule that[OF _ blk_def b2_def bufs err])
      (use al b um cl bufs in \<open>cases r3; simp add: loadSGList_read_def Let_def sg_convert_block upd_buf_def upd_int_def
        get_int_def blk_def b2_def s2_def s1_def\<close>)
qed

lemma load_read_outcome:
  assumes E: "posix_env E" and alloc: "\<forall>n w. fst (sys_alloc E n w)"
    and b: "bufs s a = Some b" "internal b = Some i"
    and tfile: "sys_stat_size E path w0 = (Inr sz, w0')" "sys_mmap E 0 sz fd w1 = (Inr t, w1')"
    and tab: "\<forall>w. table_ok (\<lambda>k. sys_scatter E t k w) (unat (sz div sizeof_scatter))"
  shows "\<exists>r s'. loadSGList_read E a sz t s = Some (r, s') \<and> load_outcome E a b path s r s' \<and> (granting E \<longrightarrow> r = PDA_SUCCESS)"
proof (rule load_read_run[OF alloc b, of sz t], goal_cases)
  case (1 blk w b2 s3 s4 r3 r4)
  let ?n = "unat (sz div sizeof_scatter)" and ?s = "s4\<lparr>bufs := (bufs s)(a \<mapsto> b2\<lparr>internal := Some (i\<lparr>sg_fd := -1\<rparr>)\<rparr>)\<rparr>"
  note step = load_outcome_step[of E a b2 path _ _ _ s b]
  show ?case
  proof (cases "r3 = None \<or> r4 = -1")
    case True
    then have "\<not> granting E" using 1(7) by blast
    with True E show ?thesis
      using load_exit_outcome(1)[of s3 a b2 E path] load_exit_outcome(1)[of s4 a b2 E path] 1(1,3-6) step
      by (auto split: option.splits)
  next
    case False
    obtain blk' w' where co: "DMABuffer_coalesqueSGlist E (Some blk) ?s = Some (PDA_SUCCESS, Some blk', ?s\<lparr>world := w'\<rparr>)"
      "sg_translation blk' = table_translation (buf_map b) (\<lambda>k. sys_scatter E t k w) ?n" "successively apart blk'"
      using coalesque_table[OF alloc tab[rule_format, of w], of "buf_map b" ?s] unfolding 1(2) by auto
    have "sg_loaded E (buf_map b) path blk'"
      using tfile co(2,3) unfolding sg_loaded_def by blast
    with False co(1) 1(1,3) show ?thesis by (auto simp: upd_buf_def load_outcome_def)
  qed
qed

lemma load_exit_map_outcome:
  assumes E: "posix_env E" and b: "bufs s a = Some b" "internal b = Some i" and err: "0 < errno s"
  shows "\<exists>r s'. loadSGList_exit_map E a s = Some (r, s') \<and> load_outcome E a b path s r s'"
proof -
  obtain r s1 where cl: "c_close E (sg_fd i) s = (r, s1)" by fastforce
  have s1: "bufs s1 = bufs s" "0 < errno s1"
    using c_close_heaps[OF cl] c_close_errno[OF E, of "sg_fd i" s] cl err
    by (auto simp: same_heaps_def c_close_def split: prod.splits sum.splits)
  define s2 where "s2 = s1\<lparr>bufs := (bufs s)(a \<mapsto> b\<lparr>internal := Some (i\<lparr>sg_fd := -1\<rparr>)\<rparr>)\<rparr>"
  have "loadSGList_exit_map E a s =
      (if r = -1 then loadSGList_exit E a (snd (ERROR E (errno s2) s2)) else loadSGList_exit E a s1)"
    using b cl s1(1) by (simp add: loadSGList_exit_map_def get_int_def upd_int_def s2_def)
  moreover have "\<exists>r s'. loadSGList_exit E a (snd (ERROR E (errno s2) s2)) = Some (r, s')
      \<and> load_outcome E a (b\<lparr>internal := Some (i\<lparr>sg_fd := -1\<rparr>)\<rparr>) path s2 r s'"
    using s1(2) by (intro load_exit_outcome) (simp_all add: s2_def)
  moreover have "\<exists>r s'. loadSGList_exit E a s1 = Some (r, s') \<and> load_outcome E a b path s1 r s'"
    using s1 b by (intro load_exit_outcome) simp_all
  moreover have "load_outcome E a (b\<lparr>internal := Some (i\<lparr>sg_fd := -1\<rparr>)\<rparr>) path s2 r' s' \<Longrightarrow> load_outcome E a b path s r' s'"
    "load_outcome E a b path s1 r' s' \<Longrightarrow> load_outcome E a b path s r' s'" for r' s'
    using s1(1) by (auto simp: load_outcome_def s2_def)
  ultimately show ?thesis by metis
qed

text \<open>The run of \<open>DMABuffer_loadSGList\<close> up to the table.\<close>

lemma load_run:
  assumes b: "bufs s a = Some b" "internal b = Some i" and dev: "devs s d = Some dev" and path: "path = sg_path (dev_bdf dev) (name i)"
  obtains fd :: int and r3 t sz i2 b2 s2 s3 s4 where
    "DMABuffer_loadSGList E a (Some d) s =
      (if fd = -1 then loadSGList_exit E a (snd (ERROR E (errno s2) s2))
       else case r3 of None \<Rightarrow> loadSGList_exit E a (snd (ERROR E (errno s3) s3))
       | Some sz \<Rightarrow> if t = MAP_FAILED then loadSGList_exit_map E a (snd (ERROR E (errno s4) s4))
           else loadSGList_read E a sz t s4)"
    "c_sys (sys_stat_size E path) s2 = (r3, s3)" "c_mmap (sys_mmap E 0 sz fd) s3 = (t, s4)" "r3 = None \<or> r3 = Some sz"
    "b2 = b\<lparr>sglist := None, internal := Some i2\<rparr>" "bufs s2 = (bufs s)(a \<mapsto> b2)" "bufs s3 = (bufs s)(a \<mapsto> b2)" "bufs s4 = (bufs s)(a \<mapsto> b2)"
    "posix_env E \<longrightarrow> fd = -1 \<longrightarrow> 0 < errno s2" "granting E \<longrightarrow> fd \<noteq> -1"
proof -
  define s0 where "s0 = s\<lparr>bufs := (bufs s)(a \<mapsto> b\<lparr>sglist := None,
    internal := Some (i\<lparr>sg_fd := -1, uio_filepath_sg := path\<rparr>)\<rparr>)\<rparr>"
  obtain fd s1 where sp: "pda_spinOpen E path O_RDONLY PDA_OPEN_DEFAULT_SPIN s0 = (fd, s1)" by fastforce
  define i2 where "i2 = i\<lparr>uio_filepath_sg := path, sg_fd := fd\<rparr>"
  define b2 where "b2 = b\<lparr>sglist := None, internal := Some i2\<rparr>"
  define s2 where "s2 = s1\<lparr>bufs := (bufs s)(a \<mapsto> b2)\<rparr>"
  obtain r3 s3 where st: "c_sys (sys_stat_size E path) s2 = (r3, s3)" by fastforce
  define sz where "sz = (case r3 of None \<Rightarrow> 0 | Some sz \<Rightarrow> sz)"
  obtain t s4 where mm: "c_mmap (sys_mmap E 0 sz fd) s3 = (t, s4)" by fastforce
  have r3: "r3 = None \<or> r3 = Some sz" by (cases r3) (auto simp: sz_def)
  have bufs: "bufs s2 = (bufs s)(a \<mapsto> b2)" "bufs s3 = (bufs s)(a \<mapsto> b2)" "bufs s4 = (bufs s)(a \<mapsto> b2)"
    using c_sys_heaps[OF st] c_mmap_heaps[OF mm] by (simp_all add: same_heaps_def s2_def)
  have err: "posix_env E \<longrightarrow> fd = -1 \<longrightarrow> 0 < errno s2" "granting E \<longrightarrow> fd \<noteq> -1"
    using pda_spinOpen_errno sp pda_spinOpen_granted[OF _ sp] by (auto simp: s2_def)
  show thesis
    by (rule that[OF _ st mm r3 b2_def bufs err])
      (use b dev sp st mm pda_spinOpen_heaps[OF sp] path in \<open>cases r3; simp add: Let_def DMABuffer_loadSGList_def upd_buf_def upd_int_def get_int_def
        DMABuffer_get_ids_def s0_def i2_def b2_def s2_def same_heaps_def sz_def\<close>)
qed

lemma load_outcome_total:
  assumes E: "posix_env E" and alloc: "\<forall>n w. fst (sys_alloc E n w)"
    and b: "bufs s a = Some b" "internal b = Some i" and dev: "devs s d = Some dev"
    and path: "path = sg_path (dev_bdf dev) (name i)"
    and tab: "\<forall>sz w w' t w1. sys_stat_size E path w = (Inr sz, w') \<longrightarrow>
      table_ok (\<lambda>k. sys_scatter E t k w1) (unat (sz div sizeof_scatter))"
  shows "\<exists>r s'. DMABuffer_loadSGList E a (Some d) s = Some (r, s') \<and> load_outcome E a b path s r s' \<and> (granting E \<longrightarrow> r = PDA_SUCCESS)"
proof (rule load_run[OF b dev path, of E], goal_cases)
  case (1 fd r3 t sz i2 b2 s2 s3 s4)
  have err: "r3 = None \<Longrightarrow> 0 < errno s3" "t = MAP_FAILED \<Longrightarrow> 0 < errno s4"
    using c_sys_errno[OF posix_laws(3)[OF E]] c_mmap_errno[OF E, of 0 sz fd s3] 1(2,3) by auto
  have gr: "granting E \<Longrightarrow> fd \<noteq> -1 \<and> r3 \<noteq> None \<and> t \<noteq> MAP_FAILED"
    using c_sys_granted[OF granting_laws(4) 1(2)] c_mmap_granted[OF _ E 1(3)] 1(10) by blast
  consider "fd = -1" | "fd \<noteq> -1" "r3 = None" | "fd \<noteq> -1" "r3 = Some sz" "t = MAP_FAILED"
    | "fd \<noteq> -1" "r3 = Some sz" "t \<noteq> MAP_FAILED" using 1(4) by blast
  then have "\<exists>r s' s1. DMABuffer_loadSGList E a (Some d) s = Some (r, s') \<and> load_outcome E a b2 path s1 r s'
      \<and> bufs s1 = (bufs s)(a \<mapsto> b2) \<and> (granting E \<longrightarrow> r = PDA_SUCCESS)"
  proof cases
    case a: 1
    then show ?thesis using load_exit_outcome(1)[of s2 a b2 E path] E gr 1(1,6,9) by auto
  next
    case 2
    then show ?thesis using load_exit_outcome(1)[of s3 a b2 E path] err(1) gr 1(1,7) by auto
  next
    case 3
    then show ?thesis
      using load_exit_map_outcome[OF E, of "snd (ERROR E (errno s4) s4)" a b2 i2 path] err(2) gr 1(1,5,8)
      by (auto intro!: exI[of _ "snd (ERROR E (errno s4) s4)"])
  next
    case 4
    then obtain w0 w0' w1 w1' where f: "sys_stat_size E path w0 = (Inr sz, w0')" "sys_mmap E 0 sz fd w1 = (Inr t, w1')"
      using 1(2,3) c_mmap_mapped[of "sys_mmap E 0 sz fd" s3] by (auto simp: c_sys_def split: prod.splits sum.splits)
    moreover have "\<forall>w. table_ok (\<lambda>k. sys_scatter E t k w) (unat (sz div sizeof_scatter))" using tab f(1) by blast
    ultimately show ?thesis
      using load_read_outcome[OF E alloc, of s4 a b2 i2 path w0 sz w0' fd w1 t w1'] 4 1(1,5,8) by auto
  qed
  then show ?case using load_outcome_step[of E a b2 path _ _ _ s b] 1(5) by auto
qed

text \<open>
  C8. \<open>DMABuffer_loadSGList\<close> is always defined for a buffer of an existing device when memory is
  available and the driver's table is well formed: it ends and follows no invalid pointer. If it
  reports success, the buffer's list translates every byte of the mapping to the device address
  the driver's table assigns to it, with no two entries left to merge; if it reports an error, the
  buffer has no list. The mapping address and every other buffer are unchanged. When the system grants
  every call, it does report success.
\<close>

theorem loadSGList_translation:
  assumes "posix_env E" and "\<forall>n w. fst (sys_alloc E n w)"
    and "bufs s a = Some b" "internal b = Some i" and "devs s d = Some dev"
    and "path = sg_path (dev_bdf dev) (name i)"
    and "\<forall>sz w w' t w1. sys_stat_size E path w = (Inr sz, w') \<longrightarrow>
      table_ok (\<lambda>k. sys_scatter E t k w1) (unat (sz div sizeof_scatter))"
  shows "\<exists>r s'. DMABuffer_loadSGList E a (Some d) s = Some (r, s') \<and>
    (\<exists>b'. bufs s' = (bufs s)(a \<mapsto> b') \<and> buf_map b' = buf_map b \<and>
        (if r = PDA_SUCCESS then \<exists>blk. sglist b' = Some blk \<and> sg_loaded E (buf_map b) path blk
         else sglist b' = None)) \<and> (granting E \<longrightarrow> r = PDA_SUCCESS)"
  using load_outcome_total[OF assms] unfolding load_outcome_def .

definition mapped_buffer :: DMABuffer where
  "mapped_buffer = fresh_buffer\<lparr>buf_map := 0x7f0000000000, internal := Some zero_DMABufferInternal\<rparr>"

definition buffer_process :: "unit pstate" where
  "buffer_process = demo_process\<lparr>bufs := [7 \<mapsto> mapped_buffer]\<rparr>"

lemma calm_table_ok: "table_ok (\<lambda>k. sys_scatter (calm_env :: unit env) t k w) 170"
proof -
  have "table_offset (\<lambda>k. sys_scatter (calm_env :: unit env) t k w) n = 4096 * n" for n
    by (induction n) (simp_all add: table_offset_def calm_env_def)
  then show ?thesis
    by (simp add: table_ok_def) (simp add: calm_env_def)
qed

theorem loadSGList_translation_witness:
  "\<exists>s' b' blk. DMABuffer_loadSGList calm_env 7 (Some 1) buffer_process = Some (PDA_SUCCESS, s') \<and>
    bufs s' = (bufs buffer_process)(7 \<mapsto> b') \<and> sglist b' = Some blk \<and>
    sg_loaded (calm_env :: unit env) 0x7f0000000000 (sg_path (dev_bdf demo_device) (name zero_DMABufferInternal)) blk"
proof -
  have b: "bufs buffer_process 7 = Some mapped_buffer" "internal mapped_buffer = Some zero_DMABufferInternal"
    "devs buffer_process 1 = Some demo_device" "buf_map mapped_buffer = 0x7f0000000000"
    by (simp_all add: buffer_process_def mapped_buffer_def demo_process_def)
  have "unat ((4096 :: u64) div sizeof_scatter) = 170"
    by (simp add: sizeof_scatter_def)
  then have tab: "\<forall>sz w w' t w1. sys_stat_size (calm_env :: unit env) (sg_path (dev_bdf demo_device) (name zero_DMABufferInternal)) w
      = (Inr sz, w') \<longrightarrow> table_ok (\<lambda>k. sys_scatter (calm_env :: unit env) t k w1) (unat (sz div sizeof_scatter))"
    using calm_table_ok by (simp add: calm_env_def)
  from loadSGList_translation[OF calm_env_posix calm_env_alloc b(1-3) refl tab] obtain s' b' blk where
    "DMABuffer_loadSGList calm_env 7 (Some 1) buffer_process = Some (PDA_SUCCESS, s')" "bufs s' = (bufs buffer_process)(7 \<mapsto> b')"
    "sglist b' = Some blk"
    "sg_loaded (calm_env :: unit env) 0x7f0000000000 (sg_path (dev_bdf demo_device) (name zero_DMABufferInternal)) blk"
    using calm_granting b(4) by (metis (full_types))
  then show ?thesis by blast
qed

end
