(* ===== verification/PDA_BufferLife.thy ===== *)
theory PDA_BufferLife
  imports PDA_SGLoad
begin

text \<open>
  The life of a buffer in the library: what the steps of \<open>DMABuffer_new\<close> and \<open>DMABuffer_free\<close> do to
  the heap of buffers, the invariant of a device's buffer list, and that creating, releasing and
  releasing all buffers keep it.
\<close>

section \<open>Steps on one buffer\<close>

text \<open>
  A step on the buffer at \<open>a\<close>: no other object changes, and of the buffer neither its links nor its
  index; \<open>errno\<close> is left alone or set by a failing call.
\<close>

definition errno_step :: "('w, 'z) cstate_scheme \<Rightarrow> ('w, 'z) cstate_scheme \<Rightarrow> bool" where
  "errno_step s s' \<longleftrightarrow> errno s' = errno s \<or> 0 < errno s'"

definition same_shape :: "DMABuffer \<Rightarrow> DMABuffer \<Rightarrow> bool" where
  "same_shape b b' \<longleftrightarrow>
     (internal b \<noteq> None \<longrightarrow> internal b' \<noteq> None) \<and> buf_index b' = buf_index b \<and>
     buf_next b' = buf_next b \<and> buf_prev b' = buf_prev b"

definition touches :: "addr \<Rightarrow> 'w pstate \<Rightarrow> 'w pstate \<Rightarrow> bool" where
  "touches a s s' \<longleftrightarrow>
     devs s' = devs s \<and> bars s' = bars s \<and> brk s' = brk s \<and> uio_sysfs_dir s' = uio_sysfs_dir s \<and>
     (\<forall>x. x \<noteq> a \<longrightarrow> bufs s' x = bufs s x) \<and>
     (\<exists>b b'. bufs s a = Some b \<and> bufs s' a = Some b' \<and> same_shape b b') \<and>
     errno_step s s'"

lemma errno_step_refl [simp]: "errno_step s s"
  by (simp add: errno_step_def)

lemma errno_step_bufs [simp]:
  "errno_step s (s'\<lparr>bufs := h\<rparr>) = errno_step s s'" "errno_step (s\<lparr>bufs := h\<rparr>) s' = errno_step s s'"
  by (simp_all add: errno_step_def)

lemma errno_step_ERROR [simp]: "errno_step s (snd (ERROR E (errno s') s')) = errno_step s s'"
  by (simp add: errno_step_def)

lemma errno_step_trans: "errno_step s s1 \<Longrightarrow> errno_step s1 s2 \<Longrightarrow> errno_step s s2"
  by (auto simp: errno_step_def)

lemma c_sys_errno_step:
  "errno_law f \<Longrightarrow> c_sys f s = (r, s') \<Longrightarrow> errno_step s s' \<and> (r = None \<longrightarrow> 0 < errno s')"
  by (cases "f (world s)") (auto simp: c_sys_def errno_step_def dest: errno_lawD split: sum.splits)

lemma c_close_errno_step: "posix_env E \<Longrightarrow> c_close E fd s = (r, s') \<Longrightarrow> errno_step s s'"
  by (cases "sys_close E fd (world s)")
    (auto simp: c_close_def errno_step_def dest: errno_lawD[OF posix_laws(2)] split: sum.splits)

lemma c_mmap_errno_step:
  assumes "posix_env E" and "c_mmap (sys_mmap E a n fd) s = (m, s')"
  shows "errno_step s s' \<and> (m = MAP_FAILED \<longrightarrow> 0 < errno s')"
  using assms c_mmap_errno[OF assms(1), of a n fd s]
  by (auto simp: c_mmap_def split: prod.splits option.splits
      dest!: c_sys_errno_step[OF posix_mmap(1)[OF assms(1)]])

lemma pda_spinOpen_loop_errno_step:
  "posix_env E \<Longrightarrow> pda_spinOpen_loop E path flags spins i fd s = (fd', s') \<Longrightarrow> errno_step s s'"
proof (induction E path flags spins i fd s rule: pda_spinOpen_loop.induct)
  case (1 E path flags spins i fd s)
  obtain fd1 s1 where co: "c_open E path flags s = (fd1, s1)" by fastforce
  have "errno_step s s1" "errno_step s1 (c_usleep E u s1)" for u
    using co errno_lawD[OF posix_laws(1)[OF 1(2)]]
    by (auto simp: c_open_def c_usleep_def errno_step_def split: prod.splits sum.splits)
  with 1 co show ?case
    by (auto simp: pda_spinOpen_loop.simps[of E path flags spins i fd s]
        intro: errno_step_trans split: if_splits)
qed

lemma pda_spinOpen_errno_step:
  assumes "posix_env E" and "pda_spinOpen E path flags PDA_OPEN_DEFAULT_SPIN s = (fd, s')"
  shows "errno_step s s' \<and> (fd = -1 \<longrightarrow> 0 < errno s')"
  using assms pda_spinOpen_loop_errno_step[OF assms(1)] pda_spinOpen_errno[OF assms(1)]
  by (auto simp: pda_spinOpen_def)

lemma same_shape_trans: "same_shape b b1 \<Longrightarrow> same_shape b1 b2 \<Longrightarrow> same_shape b b2"
  by (auto simp: same_shape_def)

text \<open>A buffer under construction.\<close>

definition raw_buffer :: "addr \<Rightarrow> 'w pstate \<Rightarrow> bool" where
  "raw_buffer a s \<longleftrightarrow> (\<exists>b i. bufs s a = Some b \<and> internal b = Some i)"

definition unmapped :: "addr \<Rightarrow> 'w pstate \<Rightarrow> bool" where
  "unmapped a s \<longleftrightarrow> (\<forall>b. bufs s a = Some b \<longrightarrow> buf_map b = MAP_FAILED)"

lemma touches_trans: "touches a s s1 \<Longrightarrow> touches a s1 s2 \<Longrightarrow> touches a s s2"
  unfolding touches_def by (auto intro: same_shape_trans errno_step_trans)

lemma touches_refl: "raw_buffer a s \<Longrightarrow> touches a s s"
  by (auto simp: touches_def raw_buffer_def same_shape_def)

lemma touches_raw: "raw_buffer a s \<Longrightarrow> touches a s s' \<Longrightarrow> raw_buffer a s'"
  by (auto simp: touches_def raw_buffer_def same_shape_def)

text \<open>A step whose code is positive, and then in \<open>errno\<close>, when it fails.\<close>

definition step_ok :: "addr \<Rightarrow> 'w pstate \<Rightarrow> (PdaDebugReturnCode \<times> 'w pstate) option \<Rightarrow> bool" where
  "step_ok a s res \<longleftrightarrow> (\<exists>r s'. res = Some (r, s') \<and> touches a s s' \<and> (r = PDA_SUCCESS \<or> r = errno s' \<and> r \<noteq> 0))"

lemma generatePaths_step:
  assumes "raw_buffer a s" and "devs s d = Some dev"
  shows "\<exists>s'. DMABuffer_generatePaths E a (Some d) s = Some (PDA_SUCCESS, s') \<and> touches a s s'
    \<and> errno s' = errno s \<and> (unmapped a s \<longrightarrow> unmapped a s')"
  using assms
  by (auto simp: unmapped_def raw_buffer_def DMABuffer_generatePaths_def Let_def upd_int_def DMABuffer_get_ids_def touches_def
      same_shape_def)

lemma exists_step:
  assumes "posix_env E" and "raw_buffer a s"
  shows "\<exists>r s'. DMABuffer_exists E a s = Some (r, s') \<and> touches a s s' \<and> (r \<or> 0 < errno s')
    \<and> (unmapped a s \<longrightarrow> unmapped a s') \<and> (granting E \<longrightarrow> r)"
proof -
  obtain b i where b: "bufs s a = Some b" "internal b = Some i"
    using assms(2) by (auto simp: raw_buffer_def)
  obtain r s' where st: "c_sys (sys_stat_size E (uio_filepath_folder i)) s = (r, s')" by fastforce
  have "errno_step s s'" "r = None \<longrightarrow> 0 < errno s'"
    using c_sys_errno_step[OF posix_laws(3)[OF assms(1)] st] by auto
  moreover have "granting E \<longrightarrow> r \<noteq> None" using c_sys_granted[OF granting_laws(4) st] by blast
  ultimately show ?thesis using b st c_sys_heaps[OF st]
    by (auto simp: unmapped_def DMABuffer_exists_def get_int_def touches_def same_heaps_def same_shape_def)
qed

text \<open>
  \<open>DMABuffer_map\<close> on a buffer without a mapping. On an error everything opened is closed again.
\<close>

lemma close_map_fd_step:
  assumes "posix_env E" and "raw_buffer a s"
  shows "\<exists>s'. close_map_fd E a s = Some s' \<and> touches a s s'
    \<and> (\<forall>b b'. bufs s a = Some b \<longrightarrow> bufs s' a = Some b' \<longrightarrow> buf_map b' = buf_map b)"
proof -
  obtain b i where b: "bufs s a = Some b" "internal b = Some i"
    using assms(2) by (auto simp: raw_buffer_def)
  obtain r s' where cl: "c_close E (map_fd i) s = (r, s')" by fastforce
  with b c_close_heaps[OF cl] c_close_errno_step[OF assms(1) cl] show ?thesis
    by (auto simp: close_map_fd_def get_int_def upd_int_def touches_def same_heaps_def same_shape_def)
qed

lemma map_exit_step:
  assumes "posix_env E" and "raw_buffer a s" and "0 < errno s"
    and "\<forall>b. bufs s a = Some b \<longrightarrow> buf_map b = MAP_FAILED"
  shows "\<exists>s'. map_exit E a sz s = Some (errno s', s') \<and> touches a s s' \<and> 0 < errno s'"
proof -
  obtain b where b: "bufs s a = Some b" "buf_map b = MAP_FAILED"
    using assms(2,4) by (auto simp: raw_buffer_def)
  obtain s1 where s1: "close_map_fd E a s = Some s1" "touches a s s1"
    using close_map_fd_step[OF assms(1,2)] by blast
  have "0 < errno s1"
    using s1(2) assms(3) by (auto simp: touches_def errno_step_def)
  with b s1 show ?thesis
    by (intro exI[of _ "snd (ERROR E (errno s1) s1)"])
      (auto simp: map_exit_def prod_eq_iff touches_def)
qed

lemma map_exit_fd_step:
  assumes "posix_env E" and "raw_buffer a s" and "0 < errno s"
    and "\<forall>b. bufs s a = Some b \<longrightarrow> buf_map b = MAP_FAILED"
  shows "\<exists>s'. map_exit_fd E a sz s = Some (errno s', s') \<and> touches a s s' \<and> 0 < errno s'"
proof -
  let ?s = "snd (ERROR E (errno s) s)"
  have raw: "raw_buffer a ?s" using assms(2) by (simp add: raw_buffer_def)
  have t0: "touches a s ?s"
    using assms(2) by (auto simp: touches_def raw_buffer_def same_shape_def)
  obtain s1 where s1: "close_map_fd E a ?s = Some s1" "touches a ?s s1"
    "\<forall>b b'. bufs ?s a = Some b \<longrightarrow> bufs s1 a = Some b' \<longrightarrow> buf_map b' = buf_map b"
    using close_map_fd_step[OF assms(1) raw] by blast
  have "raw_buffer a s1" "0 < errno s1" "\<forall>b. bufs s1 a = Some b \<longrightarrow> buf_map b = MAP_FAILED"
    using touches_raw[OF raw s1(2)] s1(2,3) raw assms(3,4)
    by (auto simp: touches_def errno_step_def raw_buffer_def)
  from map_exit_step[OF assms(1) this, of sz] s1(1,2) t0 show ?thesis
    by (auto simp: map_exit_fd_def intro: touches_trans)
qed

lemma ERROR_step: "raw_buffer a s \<Longrightarrow> touches a s (snd (ERROR E (errno s) s))"
  by (auto simp: touches_def raw_buffer_def same_shape_def)

lemma map_exit_error_step:
  assumes "posix_env E" and "raw_buffer a s" and "0 < errno s"
    and "\<forall>b. bufs s a = Some b \<longrightarrow> buf_map b = MAP_FAILED"
  shows "\<exists>s'. map_exit E a sz (snd (ERROR E (errno s) s)) = Some (errno s', s') \<and> touches a s s' \<and> 0 < errno s'"
  using map_exit_step[OF assms(1), of a "snd (ERROR E (errno s) s)" sz] assms(2-) touches_trans[OF ERROR_step]
  by (fastforce simp: raw_buffer_def)

lemma failed_step:
  assumes "\<exists>s'. res = Some (errno s', s') \<and> touches a s1 s' \<and> 0 < errno s'" and "touches a s s1"
  shows "\<exists>r s'. res = Some (r, s') \<and> touches a s s' \<and> (if r = PDA_SUCCESS then P s' else 0 < errno s') \<and> (False \<longrightarrow> r = PDA_SUCCESS)"
proof -
  obtain s' where "res = Some (errno s', s')" "touches a s1 s'" "0 < errno s'"
    using assms(1) by blast
  then show ?thesis
    using touches_trans[OF assms(2)] by (intro exI[of _ "errno s'"] exI[of _ s']) auto
qed

text \<open>The run of \<open>DMABuffer_map\<close>: the results of its system calls and the states they leave.\<close>

lemma map_run:
  assumes E: "posix_env E" and raw: "raw_buffer a s" and unmapped: "unmapped a s"
  obtains fd :: int and r3 :: "unit option" and r4 m s2 s3 s4 s6 s7 where
    "DMABuffer_map E a s =
      (if fd = -1 then map_exit E a None (snd (ERROR E (errno s2) s2))
       else case r3 of None \<Rightarrow> map_exit_fd E a None s3
       | Some _ \<Rightarrow> (case r4 of None \<Rightarrow> map_exit_fd E a None s4
         | Some sz \<Rightarrow> if m = MAP_FAILED then map_exit_fd E a (Some sz) s6 else Some (PDA_SUCCESS, s7)))"
    "touches a s s2" "touches a s s3" "touches a s s4" "touches a s s6" "touches a s s7"
    "unmapped a s2" "unmapped a s3" "unmapped a s4" "m = MAP_FAILED \<longrightarrow> unmapped a s6"
    "m \<noteq> MAP_FAILED \<longrightarrow> (\<exists>b. bufs s7 a = Some b \<and> buf_map b \<noteq> MAP_FAILED)"
    "fd = -1 \<longrightarrow> 0 < errno s2" "r3 = None \<longrightarrow> 0 < errno s3" "r4 = None \<longrightarrow> 0 < errno s4" "m = MAP_FAILED \<longrightarrow> 0 < errno s6"
    "granting E \<longrightarrow> fd \<noteq> -1 \<and> r3 \<noteq> None \<and> r4 \<noteq> None \<and> m \<noteq> MAP_FAILED"
proof -
  obtain b i where b: "bufs s a = Some b" "internal b = Some i" "buf_map b = MAP_FAILED"
    using raw unmapped by (auto simp: raw_buffer_def unmapped_def)
  define s0 where "s0 = s\<lparr>bufs := (bufs s)(a \<mapsto> b\<lparr>internal := Some (i\<lparr>map_fd := -1\<rparr>)\<rparr>)\<rparr>"
  obtain fd s1 where sp: "pda_spinOpen E (uio_filepath_map i) O_RDWR PDA_OPEN_DEFAULT_SPIN s0 = (fd, s1)" by fastforce
  define b2 where "b2 = b\<lparr>internal := Some (i\<lparr>map_fd := fd\<rparr>)\<rparr>"
  define s2 where "s2 = s1\<lparr>bufs := (bufs s)(a \<mapsto> b2)\<rparr>"
  obtain r3 s3 where fl: "c_sys (sys_flock E fd LOCK_SH) s2 = (r3, s3)" by fastforce
  obtain r4 s4 where st: "c_sys (sys_stat_size E (uio_filepath_map i)) s3 = (r4, s4)" by fastforce
  define sz where "sz = (case r4 of None \<Rightarrow> 0 | Some sz \<Rightarrow> sz)"
  obtain m s5 where mm: "c_mmap (sys_mmap E 0 sz fd) s4 = (m, s5)" by fastforce
  define s6 where "s6 = s5\<lparr>bufs := (bufs s)(a \<mapsto> b2\<lparr>buf_map := m\<rparr>)\<rparr>"
  define s7 where "s7 = s6\<lparr>bufs := (bufs s)(a \<mapsto> b2\<lparr>buf_map := m, buf_length := sz\<rparr>)\<rparr>"
  have heaps: "same_heaps s0 s1" "same_heaps s2 s3" "same_heaps s3 s4" "same_heaps s4 s5"
    using pda_spinOpen_heaps[OF sp] c_sys_heaps[OF fl] c_sys_heaps[OF st] c_mmap_heaps[OF mm] by auto
  have errs: "errno_step s0 s1" "fd = -1 \<longrightarrow> 0 < errno s1" "errno_step s2 s3" "r3 = None \<longrightarrow> 0 < errno s3"
    "errno_step s3 s4" "r4 = None \<longrightarrow> 0 < errno s4" "errno_step s4 s5" "m = MAP_FAILED \<longrightarrow> 0 < errno s5"
    using pda_spinOpen_errno_step[OF E sp] c_sys_errno_step[OF posix_laws(6)[OF E] fl]
      c_sys_errno_step[OF posix_laws(3)[OF E] st] c_mmap_errno_step[OF E mm] by auto
  then have es: "errno_step s s1" "errno_step s s3" "errno_step s s4" "errno_step s s5"
    by (auto simp: s0_def s2_def errno_step_def)
  show thesis
  proof (rule that[where fd = fd and ?r3.0 = r3 and ?r4.0 = r4 and m = m and ?s2.0 = s2 and ?s3.0 = s3 and ?s4.0 = s4 and ?s6.0 = s6 and ?s7.0 = s7])
    show "DMABuffer_map E a s =
      (if fd = -1 then map_exit E a None (snd (ERROR E (errno s2) s2))
       else case r3 of None \<Rightarrow> map_exit_fd E a None s3
       | Some _ \<Rightarrow> (case r4 of None \<Rightarrow> map_exit_fd E a None s4
         | Some sz \<Rightarrow> if m = MAP_FAILED then map_exit_fd E a (Some sz) s6 else Some (PDA_SUCCESS, s7)))"
      using b sp fl st mm heaps
      by (cases r3; cases r4) (simp_all add: DMABuffer_map_def upd_int_def get_int_def upd_buf_def Let_def
          s0_def b2_def s2_def s6_def s7_def sz_def same_heaps_def)
    show "granting E \<longrightarrow> fd \<noteq> -1 \<and> r3 \<noteq> None \<and> r4 \<noteq> None \<and> m \<noteq> MAP_FAILED"
      using pda_spinOpen_granted[OF _ sp] c_sys_granted[OF granting_laws(6) fl] c_sys_granted[OF granting_laws(4) st]
        c_mmap_granted[OF _ E mm] by blast
  qed (use es errs heaps b in \<open>auto simp: touches_def same_heaps_def s0_def s2_def s6_def s7_def b2_def same_shape_def unmapped_def\<close>)
qed

lemma map_step:
  assumes E: "posix_env E" and raw: "raw_buffer a s"
    and unmapped: "unmapped a s"
  shows "\<exists>r s'. DMABuffer_map E a s = Some (r, s') \<and> touches a s s' \<and>
    (if r = PDA_SUCCESS then \<exists>b. bufs s' a = Some b \<and> buf_map b \<noteq> MAP_FAILED else 0 < errno s') \<and>
    (granting E \<longrightarrow> r = PDA_SUCCESS)"
proof (rule map_run[OF assms], goal_cases)
  case (1 fd r3 r4 m s2 s3 s4 s6 s7)
  then have raws: "raw_buffer a s2" "raw_buffer a s3" "raw_buffer a s4" "raw_buffer a s6" using touches_raw[OF raw] by blast+
  note exits = map_exit_fd_step[OF E, folded unmapped_def]
  consider "fd = -1" | "fd \<noteq> -1" "r3 = None" | "fd \<noteq> -1" "r3 \<noteq> None" "r4 = None"
    | "fd \<noteq> -1" "r3 \<noteq> None" "r4 \<noteq> None" "m = MAP_FAILED" | "fd \<noteq> -1" "r3 \<noteq> None" "r4 \<noteq> None" "m \<noteq> MAP_FAILED" by blast
  then show ?thesis
  proof cases
    case a: 1
    then have "granting E = False" using 1(16) by blast
    with a 1 show ?thesis
      using failed_step[OF map_exit_error_step[OF E raws(1), folded unmapped_def] 1(2)] by simp
  next
    case a: 2
    then have "granting E = False" using 1(16) by blast
    with a 1 show ?thesis using failed_step[OF exits[OF raws(2)] 1(3)] by simp
  next
    case a: 3
    then have "granting E = False" using 1(16) by blast
    with a 1 show ?thesis using failed_step[OF exits[OF raws(3)] 1(4)] by auto
  next
    case a: 4
    then have "granting E = False" using 1(16) by blast
    moreover obtain sz where "DMABuffer_map E a s = map_exit_fd E a (Some sz) s6" using a 1(1) by auto
    ultimately show ?thesis using failed_step[OF exits[OF raws(4)] 1(5), of "Some sz"] a(4) 1(10,15) by simp
  next
    case 5
    with 1 show ?thesis by auto
  qed
qed

lemma requestMemory_step:
  assumes E: "posix_env E" and raw: "raw_buffer a s" and dev: "devs s d = Some dev" "dev_internal dev = Some w"
  shows "\<exists>r s'. DMABuffer_requestMemory E d a start s = Some (r, s') \<and> touches a s s' \<and>
    (r \<noteq> PDA_SUCCESS \<longrightarrow> errno s' = r) \<and> (unmapped a s \<longrightarrow> unmapped a s') \<and> (granting E \<longrightarrow> r = PDA_SUCCESS)"
proof -
  obtain b i where b: "bufs s a = Some b" "internal b = Some i"
    using raw by (auto simp: raw_buffer_def)
  define numa where "numa = (if cfg_NUMA_AVAIL E then numa_node w else -1)"
  have numa: "(if cfg_NUMA_AVAIL E then PciDevice_getNumaNode E d s else Some (-1)) = Some numa"
    using dev by (simp add: PciDevice_getNumaNode_def get_workp_def numa_def)
  obtain fd s1 where sp: "pda_spinOpen E (uio_filepath_request i) O_WRONLY PDA_OPEN_DEFAULT_SPIN s = (fd, s1)"
    by fastforce
  define s2 where "s2 = s1\<lparr>bufs := (bufs s)(a \<mapsto> b\<lparr>internal := Some (i\<lparr>alloc_fd := fd\<rparr>)\<rparr>)\<rparr>"
  obtain r3 s3 where wr: "c_sys (sys_write E fd (request_bytes (name i) (buf_length b) numa start)) s2 = (r3, s3)"
    by fastforce
  obtain r4 s4 where cl: "c_close E fd s3 = (r4, s4)" by fastforce
  have heaps: "same_heaps s s1" "same_heaps s2 s3" "same_heaps s3 s4"
    using pda_spinOpen_heaps[OF sp] c_sys_heaps[OF wr] c_close_heaps[OF cl] by auto
  have es: "errno_step s s1" "errno_step s s3" "errno_step s s4"
    using pda_spinOpen_errno_step[OF E sp] c_sys_errno_step[OF _ wr] E c_close_errno_step[OF E cl]
    by (auto simp: posix_env_def s2_def intro: errno_step_trans)
  have "request_bytes (name i) (buf_length b) numa start \<noteq> []" by (simp add: request_bytes_def pad_bytes_def word_bytes_def cell_size_def)
  then have gr: "granting E \<Longrightarrow> fd \<noteq> -1 \<and> r3 \<noteq> None \<and> r3 \<noteq> Some 0"
    using pda_spinOpen_granted[OF _ sp] c_write_granted[OF _ _ wr] by blast
  have "DMABuffer_requestMemory E d a start s =
      (if fd \<noteq> -1 then case r3 of None \<Rightarrow> Some (errno s3, s3)
         | Some n \<Rightarrow> if n = 0 then Some (errno s3, s3)
             else Some (PDA_SUCCESS, s4\<lparr>bufs := (bufs s)(a \<mapsto> b\<lparr>internal := Some (i\<lparr>alloc_fd := -1\<rparr>)\<rparr>)\<rparr>)
       else Some (errno s2, s2))"
    using b sp wr cl heaps numa
    by (cases r3) (simp_all add: DMABuffer_requestMemory_def upd_int_def Let_def s2_def same_heaps_def)
  then show ?thesis
    using b es heaps gr by (cases r3) (auto simp: unmapped_def touches_def same_shape_def same_heaps_def s2_def)
qed

lemma lockUser_step:
  assumes E: "posix_env E" and raw: "raw_buffer a s"
  shows "\<exists>r s'. DMABuffer_lockUserBuffer E start a s = Some (r, s') \<and> touches a s s' \<and>
    (r \<noteq> PDA_SUCCESS \<longrightarrow> 0 < errno s') \<and> (granting E \<longrightarrow> r = PDA_SUCCESS)"
proof -
  obtain b where b: "bufs s a = Some b" using raw by (auto simp: raw_buffer_def)
  obtain r s1 where lk: "c_sys (sys_mlock E start (buf_length b)) s = (r, s1)" by fastforce
  have "errno_law (sys_mlock E start (buf_length b))"
    using E by (simp add: posix_env_def)
  from c_sys_errno_step[OF this lk] have es: "errno_step s s1" "r = None \<longrightarrow> 0 < errno s1" by auto
  with b lk c_sys_heaps[OF lk] c_sys_granted[OF granting_laws(10) lk] show ?thesis
    by (cases r) (auto simp: DMABuffer_lockUserBuffer_def touches_def same_heaps_def same_shape_def
        intro!: exI[of _ "errno s1"] exI[of _ "snd (ERROR E (errno s1) s1)"] prod_eqI)
qed

lemma mapUser_step:
  assumes E: "posix_env E" and raw: "raw_buffer a s"
  shows "\<exists>r s'. DMABuffer_mapUser E a start s = Some (r, s') \<and> touches a s s' \<and>
    (r \<noteq> PDA_SUCCESS \<longrightarrow> 0 < errno s') \<and> (granting E \<longrightarrow> r = PDA_SUCCESS)"
proof -
  obtain b i where b: "bufs s a = Some b" "internal b = Some i"
    using raw by (auto simp: raw_buffer_def)
  define s0 where "s0 = s\<lparr>bufs := (bufs s)(a \<mapsto> b\<lparr>buf_map := start\<rparr>)\<rparr>"
  obtain fd s1 where sp: "pda_spinOpen E (uio_filepath_map i) O_RDWR PDA_OPEN_DEFAULT_SPIN s0 = (fd, s1)"
    by fastforce
  define s2 where "s2 = s1\<lparr>bufs := (bufs s)(a \<mapsto> b\<lparr>buf_map := start, internal := Some (i\<lparr>map_fd := fd\<rparr>)\<rparr>)\<rparr>"
  have "DMABuffer_mapUser E a start s = (if fd = -1 then Some (ERROR E (errno s2) s2) else Some (PDA_SUCCESS, s2))"
    using b sp pda_spinOpen_heaps[OF sp]
    by (simp add: DMABuffer_mapUser_def upd_buf_def upd_int_def get_int_def s0_def s2_def same_heaps_def)
  moreover have "errno_step s s1" "fd = -1 \<longrightarrow> 0 < errno s2" "same_heaps s0 s1"
    using pda_spinOpen_errno_step[OF E sp] pda_spinOpen_heaps[OF sp] by (auto simp: s0_def s2_def)
  moreover have "touches a s s2"
    using calculation b by (auto simp: touches_def same_heaps_def same_shape_def s0_def s2_def)
  moreover have "raw_buffer a s2" using b by (simp add: raw_buffer_def s2_def)
  ultimately show ?thesis
    using touches_trans[OF _ ERROR_step, of a s s2 E] pda_spinOpen_granted[OF _ sp]
    by (auto intro!: exI[of _ "errno s2"] exI[of _ "snd (ERROR E (errno s2) s2)"] prod_eqI)
qed

section \<open>Creating a buffer\<close>

text \<open>
  The invariant of the buffer list of the device \<open>d\<close>: its head is the device's \<open>dma_buffer_list\<close>,
  the links are right, every buffer has its backend part, and no object lies beyond \<open>brk\<close>.
\<close>

definition buffer_list :: "'w pstate \<Rightarrow> addr \<Rightarrow> addr list \<Rightarrow> bool" where
  "buffer_list s d xs \<longleftrightarrow>
     (\<exists>dev w. devs s d = Some dev \<and> dev_internal dev = Some w \<and> dma_buffer_list dev = head_ptr xs) \<and>
     dll (bufs s) xs \<and> (\<forall>a \<in> set xs. raw_buffer a s) \<and> (\<forall>a. brk s \<le> a \<longrightarrow> bufs s a = None)"

text \<open>The three kinds of buffers: what \<open>DMABuffer_new\<close> does between allocation and insertion.\<close>

definition new_body ::
  "'w env \<Rightarrow> addr \<Rightarrow> addr \<Rightarrow> u64 \<Rightarrow> u64 \<Rightarrow> pda_buffer_type \<Rightarrow> 'w pstate
   \<Rightarrow> ((bool \<times> PdaDebugReturnCode) \<times> 'w pstate) option" where
  "new_body E d a start len ty s =
     (case ty of
        PDA_BUFFER_LOOKUP \<Rightarrow> map_option (\<lambda>(r, s). ((False, r), s)) (new_lookup E d a s)
      | PDA_BUFFER_KERNEL \<Rightarrow> new_kernel E d a start len s
      | PDA_BUFFER_USER \<Rightarrow> new_user E d a start s)"

definition creatable :: "'w env \<Rightarrow> u64 \<Rightarrow> u64 \<Rightarrow> pda_buffer_type \<Rightarrow> bool" where
  "creatable E start len ty \<longleftrightarrow>
     (case ty of
        PDA_BUFFER_LOOKUP \<Rightarrow> True
      | PDA_BUFFER_KERNEL \<Rightarrow> len \<noteq> 0 \<and> (\<forall>w. len div PAGE_SIZE E + 1 \<le> sys_avphys_pages E w)
      | PDA_BUFFER_USER \<Rightarrow> start mod PAGE_SIZE E = 0)"

definition new_body_ok :: "bool \<Rightarrow> addr \<Rightarrow> 'w pstate \<Rightarrow> ((bool \<times> PdaDebugReturnCode) \<times> 'w pstate) option \<Rightarrow> bool" where
  "new_body_ok succeeds a s res \<longleftrightarrow>
     (\<exists>jump r s'. res = Some ((jump, r), s') \<and> touches a s s' \<and> (jump \<or> r \<noteq> PDA_SUCCESS \<longrightarrow> 0 < errno s') \<and>
        (succeeds \<longrightarrow> \<not> jump \<and> r = PDA_SUCCESS))"

lemma new_body_okI:
  "touches a s s' \<Longrightarrow> jump \<or> r \<noteq> PDA_SUCCESS \<longrightarrow> 0 < errno s' \<Longrightarrow> (g \<Longrightarrow> \<not> jump \<and> r = PDA_SUCCESS) \<Longrightarrow>
   new_body_ok g a s (Some ((jump, r), s'))"
  by (auto simp: new_body_ok_def)

lemma reject_ok:
  "\<not> cfg_DEBUG E \<Longrightarrow> touches a s s1 \<Longrightarrow> 0 < c \<Longrightarrow> \<not> g \<Longrightarrow> new_body_ok g a s (Some ((True, r), snd (ERROR E c s1)))"
  by (rule new_body_okI) (auto simp: touches_def errno_step_def)

lemma new_lookup_step:
  assumes E: "posix_env E" and raw: "raw_buffer a s" and dev: "devs s d = Some dev" and un: "unmapped a s"
  shows "new_body_ok (granting E \<and> creatable E start len PDA_BUFFER_LOOKUP) a s (new_body E d a start len PDA_BUFFER_LOOKUP s)"
proof -
  obtain s1 where s1: "DMABuffer_generatePaths E a (Some d) s = Some (PDA_SUCCESS, s1)" "touches a s s1" "unmapped a s1"
    using generatePaths_step[OF raw dev] un by blast
  obtain ex s2 where s2: "DMABuffer_exists E a s1 = Some (ex, s2)" "touches a s1 s2" "ex \<or> 0 < errno s2" "unmapped a s2"
    "granting E \<longrightarrow> ex"
    using exists_step[OF E touches_raw[OF raw s1(2)]] s1(3) by blast
  note t2 = touches_trans[OF s1(2) s2(2)]
  obtain r s3 where s3: "DMABuffer_map E a s2 = Some (r, s3)" "touches a s2 s3" "r \<noteq> 0 \<longrightarrow> 0 < errno s3"
    "granting E \<longrightarrow> r = PDA_SUCCESS"
    using map_step[OF E touches_raw[OF raw t2] s2(4)] by (metis (full_types))
  obtain b3 where b3: "bufs s3 a = Some b3" using s3(2) by (auto simp: touches_def)
  define s4 where "s4 = s3\<lparr>bufs := (bufs s3)(a \<mapsto> b3\<lparr>buf_type := PDA_BUFFER_KERNEL\<rparr>)\<rparr>"
  have "touches a s3 s4" using b3 by (auto simp: touches_def s4_def same_shape_def)
  then have "touches a s s4" using t2 s3(2) by (blast intro: touches_trans)
  moreover have "new_body E d a start len PDA_BUFFER_LOOKUP s =
      (if ex then Some ((False, r), s4) else Some ((False, not_PDA_SUCCESS), s2))"
    using s1(1) s2(1) s3(1) b3 by (simp add: new_body_def new_lookup_def upd_buf_def s4_def)
  ultimately show ?thesis
    using s2(3,5) s3(3,4) t2 by (auto simp: new_body_ok_def s4_def)
qed

lemma new_kernel_step:
  assumes E: "posix_env E" "\<not> cfg_DEBUG E" and raw: "raw_buffer a s" and un: "unmapped a s"
    and dev: "devs s d = Some dev" "dev_internal dev = Some w" and err: "0 \<le> errno s"
  shows "new_body_ok (granting E \<and> creatable E start len PDA_BUFFER_KERNEL) a s (new_body E d a start len PDA_BUFFER_KERNEL s)"
proof -
  obtain s1 where s1: "DMABuffer_generatePaths E a (Some d) s = Some (PDA_SUCCESS, s1)" "touches a s s1"
    "errno s1 = errno s" "unmapped a s1"
    using generatePaths_step[OF raw dev(1)] un by blast
  have d1: "devs s1 d = Some dev" using s1(2) dev by (simp add: touches_def)
  obtain r2 s2 where s2: "DMABuffer_requestMemory E d a start s1 = Some (r2, s2)" "touches a s1 s2"
    "r2 \<noteq> 0 \<longrightarrow> errno s2 = r2" "unmapped a s2" "granting E \<longrightarrow> r2 = PDA_SUCCESS"
    using requestMemory_step[OF E(1) touches_raw[OF raw s1(2)] d1 dev(2)] s1(4) by blast
  note t2 = touches_trans[OF s1(2) s2(2)]
  obtain r3 s3 where s3: "DMABuffer_map E a s2 = Some (r3, s3)" "touches a s2 s3" "r3 \<noteq> 0 \<longrightarrow> 0 < errno s3"
    "granting E \<longrightarrow> r3 = PDA_SUCCESS"
    using map_step[OF E(1) touches_raw[OF raw t2] s2(4)] by (metis (full_types))
  have "r2 \<noteq> 0 \<longrightarrow> 0 < errno s3"
    using s1(3) s2(2,3) s3(2) err by (auto simp: touches_def errno_step_def)
  moreover have "touches a s s3" using t2 s3(2) by (rule touches_trans)
  moreover have eq: "new_body E d a start len PDA_BUFFER_KERNEL s =
      (if len = 0 then Some ((True, 0), snd (ERROR E EINVAL s))
       else if \<not> DMABuffer_isEnoughMemoryAvailable E len s1 then Some ((True, 0), snd (ERROR E EINVAL s1))
       else Some ((False, r2 + r3), s3))"
    using s1(1) s2(1) s3(1) by (simp add: new_body_def new_kernel_def)
  ultimately have fin: "0 < errno s3 \<or> r2 + r3 = 0" "touches a s s3" using s3(3) by auto
  show ?thesis
  proof (cases "len = 0 \<or> \<not> DMABuffer_isEnoughMemoryAvailable E len s1")
    case True
    then have "\<not> creatable E start len PDA_BUFFER_KERNEL"
      by (auto simp: creatable_def DMABuffer_isEnoughMemoryAvailable_def)
    with True reject_ok[OF E(2) touches_refl[OF raw], of EINVAL] reject_ok[OF E(2) s1(2), of EINVAL] show ?thesis
      by (auto simp: eq simp del: ERROR_release)
  next
    case False
    with fin s2(5) s3(4) show ?thesis by (auto simp: eq intro!: new_body_okI)
  qed
qed

lemma new_user_step:
  assumes E: "posix_env E" "\<not> cfg_DEBUG E" and raw: "raw_buffer a s"
    and dev: "devs s d = Some dev" "dev_internal dev = Some w" and err: "0 \<le> errno s"
  shows "new_body_ok (granting E \<and> creatable E start len PDA_BUFFER_USER) a s (new_body E d a start len PDA_BUFFER_USER s)"
proof -
  obtain s1 where s1: "DMABuffer_generatePaths E a (Some d) s = Some (PDA_SUCCESS, s1)" "touches a s s1"
    "errno s1 = errno s"
    using generatePaths_step[OF raw dev(1)] by blast
  obtain r2 s2 where s2: "DMABuffer_lockUserBuffer E start a s1 = Some (r2, s2)" "touches a s1 s2"
    "r2 \<noteq> 0 \<longrightarrow> 0 < errno s2" "granting E \<longrightarrow> r2 = PDA_SUCCESS"
    using lockUser_step[OF E(1) touches_raw[OF raw s1(2)]] by blast
  note t2 = touches_trans[OF s1(2) s2(2)]
  have d2: "devs s2 d = Some dev" using t2 dev by (simp add: touches_def)
  obtain r3 s3 where s3: "DMABuffer_requestMemory E d a start s2 = Some (r3, s3)" "touches a s2 s3"
    "r3 \<noteq> 0 \<longrightarrow> errno s3 = r3" "granting E \<longrightarrow> r3 = PDA_SUCCESS"
    using requestMemory_step[OF E(1) touches_raw[OF raw t2] d2 dev(2)] by blast
  note t3 = touches_trans[OF t2 s3(2)]
  obtain r4 s4 where s4: "DMABuffer_mapUser E a start s3 = Some (r4, s4)" "touches a s3 s4" "r4 \<noteq> 0 \<longrightarrow> 0 < errno s4"
    "granting E \<longrightarrow> r4 = PDA_SUCCESS"
    using mapUser_step[OF E(1) touches_raw[OF raw t3]] by blast
  note t4 = touches_trans[OF t3 s4(2)]
  have pos: "r3 \<noteq> 0 \<longrightarrow> 0 < errno s3"
    using s1(3) s2(2) s3(2,3) err by (auto simp: touches_def errno_step_def)
  have eq: "new_body E d a start len PDA_BUFFER_USER s =
      (if start mod PAGE_SIZE E \<noteq> 0 then Some ((True, 0), snd (ERROR E EINVAL s))
       else if r2 \<noteq> 0 then Some ((True, 0), snd (ERROR E (errno s2) s2))
       else if r3 \<noteq> 0 then Some ((True, 0), snd (ERROR E (errno s3) s3))
       else if r4 \<noteq> 0 then Some ((True, 0), snd (ERROR E (errno s4) s4))
       else Some ((False, PDA_SUCCESS), s4))"
    using s1(1) s2(1) s3(1) s4(1) by (simp add: new_body_def new_user_def)
  define g where "g \<longleftrightarrow> granting E \<and> creatable E start len PDA_BUFFER_USER"
  have g: "g \<longrightarrow> start mod PAGE_SIZE E = 0 \<and> r2 = 0 \<and> r3 = 0 \<and> r4 = 0"
    using s2(4) s3(4) s4(4) by (simp add: g_def creatable_def)
  note reject = reject_ok[OF E(2) touches_refl[OF raw], of EINVAL g 0] reject_ok[OF E(2) t2, of "errno s2" g 0]
    reject_ok[OF E(2) t3, of "errno s3" g 0] reject_ok[OF E(2) t4, of "errno s4" g 0]
  show ?thesis
    using s2(3) pos s4(3) g new_body_okI[OF t4, of False PDA_SUCCESS g] reject
    unfolding eq g_def[symmetric] by (cases g) (auto simp: dvd_eq_mod_eq_0 simp del: ERROR_release)
qed

lemma new_body_step:
  assumes "posix_env E" "\<not> cfg_DEBUG E" and "raw_buffer a s" "unmapped a s" "devs s d = Some dev" "dev_internal dev = Some w" "0 \<le> errno s"
  shows "new_body_ok (granting E \<and> creatable E start len ty) a s (new_body E d a start len ty s)"
  using new_lookup_step[OF assms(1,3,5,4)] new_kernel_step[OF assms] new_user_step[OF assms(1,2,3,5,6,7)] by (cases ty) auto

text \<open>The index search visits the whole list; its result is an upper bound of all scanned names.\<close>

definition scanned :: "buf_heap \<Rightarrow> addr \<Rightarrow> u64 option" where
  "scanned h a = Option.bind (h a) (\<lambda>b. Option.bind (internal b) (\<lambda>i. scan_u64 (name i)))"

lemma findNewIndex_loop_total:
  assumes "dseg h p xs None" and "\<forall>a \<in> set xs. \<exists>b i. h a = Some b \<and> internal b = Some i"
  shows "\<exists>m. findNewIndex_loop h (first_or None xs) c k = Some m \<and> k \<le> m \<and>
    (\<forall>a \<in> set xs. \<forall>v. scanned h a = Some v \<longrightarrow> v \<le> m) \<and>
    (m = k \<or> m = c \<or> (\<exists>a \<in> set xs. scanned h a = Some m))"
  using assms
proof (induction xs arbitrary: p c k)
  case Nil
  then show ?case by (simp add: findNewIndex_loop.simps)
next
  case (Cons x xs)
  obtain b i where b: "h x = Some b" "internal b = Some i" "buf_next b = first_or None xs"
    using Cons.prems by auto
  let ?c = "case scan_u64 (name i) of None \<Rightarrow> c | Some v \<Rightarrow> v"
  let ?k = "if k < ?c then ?c else k"
  obtain m where m: "findNewIndex_loop h (first_or None xs) ?c ?k = Some m" "?k \<le> m"
    "\<forall>a \<in> set xs. \<forall>v. scanned h a = Some v \<longrightarrow> v \<le> m"
    "m = ?k \<or> m = ?c \<or> (\<exists>a \<in> set xs. scanned h a = Some m)"
    using Cons.IH[of "Some x" ?c ?k] Cons.prems by auto
  have "k \<le> m" "?c \<le> m"
    using m(2) by (auto split: if_splits)
  then have "scanned h x = Some v \<longrightarrow> v \<le> m" for v
    using b by (auto simp: scanned_def)
  moreover have "?c = c \<or> scanned h x = Some ?c"
    using b by (auto simp: scanned_def split: option.split)
  then have "m = k \<or> m = c \<or> (\<exists>a \<in> set (x # xs). scanned h a = Some m)"
    using m(4) by (auto split: if_splits)
  ultimately show ?case
    using b m(1,3) \<open>k \<le> m\<close>
    by (simp add: findNewIndex_loop.simps[of h "Some x"] Let_def)
qed

lemma findNewIndex_total:
  assumes "dll h xs" and "\<forall>a \<in> set xs. \<exists>b i. h a = Some b \<and> internal b = Some i"
  shows "\<exists>idx. DMABuffer_findNewIndex h new_index (head_ptr xs) = Some idx"
proof (cases xs)
  case (Cons x ys)
  then obtain m where "findNewIndex_loop h (Some x) 0 0 = Some m"
    using findNewIndex_loop_total[of h None xs 0 0] assms by (auto simp: dll_def)
  with Cons show ?thesis by (simp add: DMABuffer_findNewIndex_def)
qed (simp add: DMABuffer_findNewIndex_def)

definition blank_buffer :: "u64 \<Rightarrow> ptr \<Rightarrow> DMABuffer" where
  "blank_buffer len dp = zero_DMABuffer\<lparr>buf_length := len, buf_device := dp, buf_map := MAP_FAILED,
     map_two := MAP_FAILED, internal := Some zero_DMABufferInternal\<rparr>"

lemma DMABuffer_alloc_ok:
  assumes "\<forall>n w. fst (sys_alloc E n w)"
  shows "\<exists>s1. DMABuffer_alloc E len dp s = Some ((PDA_SUCCESS, Some (brk s)), s1) \<and> errno s1 = errno s \<and>
    devs s1 = devs s \<and> bars s1 = bars s \<and> brk s1 = Suc (brk s) \<and> bufs s1 = (bufs s)(brk s \<mapsto> blank_buffer len dp)"
  using assms by (simp add: DMABuffer_alloc_def c_new_def c_alloc_ok upd_buf_def Let_def blank_buffer_def)

text \<open>A state in which \<open>DMABuffer_new\<close> works on a new buffer at \<open>a\<close>.\<close>

definition building :: "addr \<Rightarrow> 'w pstate \<Rightarrow> 'w pstate \<Rightarrow> bool" where
  "building a s s' \<longleftrightarrow> a = brk s \<and> brk s' = Suc a \<and> devs s' = devs s \<and> raw_buffer a s' \<and>
     (\<forall>x. x \<noteq> a \<longrightarrow> bufs s' x = bufs s x)"

lemma building_touches: "building a s s1 \<Longrightarrow> touches a s1 s2 \<Longrightarrow> building a s s2"
  unfolding building_def by (auto simp: touches_def intro: touches_raw)

lemma internal_payload: "internal (payload b) = internal b"
  by (simp add: payload_def)

lemma index_payload: "buf_index (payload b) = buf_index b"
  by (simp add: payload_def)

lemma raw_payload:
  assumes "raw_buffer x s" and "map_option payload (bufs s' x) = map_option payload (bufs s x)"
  shows "raw_buffer x s'"
proof -
  obtain b i where b: "bufs s x = Some b" "internal b = Some i"
    using assms(1) by (auto simp: raw_buffer_def)
  with assms(2) obtain b' where b': "bufs s' x = Some b'" "payload b' = payload b" by auto
  have "internal b' = internal b" using arg_cong[OF b'(2), of internal] by (simp add: internal_payload)
  with b b' show ?thesis by (simp add: raw_buffer_def)
qed

lemma building_link:
  assumes inv: "buffer_list s d xs" and bld: "building a s s1" and dev: "devs s d = Some dev"
  shows "\<exists>h. DMABuffer_addNode (dma_buffer_list dev) (Some a) (bufs s1) = Some (head_ptr (xs @ [a]), h)
    \<and> buffer_list (s1\<lparr>bufs := h, devs := (devs s)(d \<mapsto> dev\<lparr>dma_buffer_list := head_ptr (xs @ [a])\<rparr>)\<rparr>) d (xs @ [a])
    \<and> (\<forall>x. x \<noteq> a \<longrightarrow> map_option payload (h x) = map_option payload (bufs s x))
    \<and> map_option buf_index (h a) = map_option buf_index (bufs s1 a) \<and> map_option internal (h a) = map_option internal (bufs s1 a)"
proof -
  have a: "a \<notin> set xs" "bufs s a = None"
    using inv bld by (auto simp: buffer_list_def building_def raw_buffer_def)
  have s1: "bufs s1 = (bufs s)(a := bufs s1 a)"
    using bld by (auto simp: building_def)
  have "dll (bufs s1) xs" "buf_obj (bufs s1) a \<noteq> None"
    using inv a dll_fresh[OF a(1), of "bufs s" "bufs s1 a"] s1 bld
    by (auto simp: buffer_list_def building_def buf_obj_def raw_buffer_def)
  from bl.add_law[OF this(1) a(1) this(2)] obtain h where
    h: "DMABuffer_addNode (head_ptr xs) (Some a) (bufs s1) = Some (head_ptr (xs @ [a]), h)"
      "dll h (xs @ [a])" "buf_obj h = buf_obj (bufs s1)" by blast
  have obj: "map_option payload (h x) = map_option payload (bufs s1 x)" for x
    using fun_cong[OF h(3), of x] by (simp add: buf_obj_def)
  have "raw_buffer x (s1\<lparr>bufs := h, devs := ds\<rparr>)" if "x \<in> set (xs @ [a])" for x ds
  proof (rule raw_payload[where s = s1])
    show "raw_buffer x s1"
      using that inv bld a(1) by (cases "x = a") (auto simp: buffer_list_def building_def raw_buffer_def)
  qed (simp add: obj)
  moreover have "h x = None" if "Suc a \<le> x" for x
    using obj[of x] inv bld that by (auto simp: buffer_list_def building_def)
  moreover have "map_option buf_index (h a) = map_option buf_index (bufs s1 a)"
    using arg_cong[OF obj[of a], of "map_option buf_index"] by (simp add: option.map_comp comp_def index_payload)
  moreover have "map_option internal (h a) = map_option internal (bufs s1 a)"
    using arg_cong[OF obj[of a], of "map_option internal"] by (simp add: option.map_comp comp_def internal_payload)
  ultimately show ?thesis
    using h inv bld dev obj by (auto simp: buffer_list_def building_def)
qed

lemma building_undo:
  assumes inv: "buffer_list s d xs" and bld: "building a s s1" and "0 < errno s1"
  shows "\<exists>s'. DMABuffer_new_exit E (Some a) s1 = Some (errno s1, s') \<and> buffer_list s' d xs
    \<and> bufs s' = bufs s \<and> devs s' = devs s \<and> 0 < errno s'"
proof -
  have "(bufs s1)(a := None) = bufs s"
    using inv bld by (auto simp: buffer_list_def building_def)
  moreover have "\<exists>b. bufs s1 a = Some b"
    using bld by (auto simp: building_def raw_buffer_def)
  moreover have "errno (snd (ERROR E (errno s1) (s1\<lparr>bufs := bufs s\<rparr>))) = errno s1"
    using ERROR_errno[of E "s1\<lparr>bufs := bufs s\<rparr>"] by simp
  ultimately show ?thesis
    using inv bld assms(3)
    by (intro exI[of _ "snd (ERROR E (errno s1) (s1\<lparr>bufs := bufs s\<rparr>))"])
      (auto simp: DMABuffer_new_exit_def heap_free_def buffer_list_def building_def raw_buffer_def prod_eq_iff)
qed

text \<open>
  The parts of \<open>DMABuffer_new\<close> around the kinds of buffers: \<open>new_end\<close> is what the result of the kind is
  turned into, \<open>s2\<close> the state with the new buffer before it.
\<close>

definition new_end ::
  "'w env \<Rightarrow> addr \<Rightarrow> addr \<Rightarrow> PciDevice \<Rightarrow> 'w pstate \<Rightarrow> bool \<Rightarrow> PdaDebugReturnCode \<Rightarrow> 'w pstate \<Rightarrow> (PdaDebugReturnCode \<times> 'w pstate) option" where
  "new_end E d a dev s jump r s3 =
     (if jump then DMABuffer_new_exit E (Some a) s3
      else if r \<noteq> PDA_SUCCESS then DMABuffer_new_exit E (Some a) (snd (ERROR E (errno s3) s3))
      else do {
        (hd', h) \<leftarrow> DMABuffer_addNode (dma_buffer_list dev) (Some a) (bufs s3);
        Some (PDA_SUCCESS, s3\<lparr>bufs := h, devs := (devs s)(d \<mapsto> dev\<lparr>dma_buffer_list := hd'\<rparr>)\<rparr>) })"

lemma DMABuffer_new_unfold:
  assumes alloc: "\<forall>n w. fst (sys_alloc E n w)" and inv: "buffer_list s d xs"
  obtains dev w idx s1 s2 where "devs s d = Some dev" "dev_internal dev = Some w" "dma_buffer_list dev = head_ptr xs"
    "DMABuffer_alloc E len (Some d) s = Some ((PDA_SUCCESS, Some (brk s)), s1)"
    "s2 = s1\<lparr>bufs := (bufs s)(brk s \<mapsto> (blank_buffer len (Some d))\<lparr>buf_type := ty, buf_index := idx\<rparr>)\<rparr>"
    "devs s1 = devs s" "errno s1 = errno s" "building (brk s) s s2" "index \<noteq> PDA_BUFFER_INDEX_UNDEFINED \<longrightarrow> idx = index"
    "\<forall>jump r s3. new_body E d (brk s) start len ty s2 = Some ((jump, r), s3) \<and> devs s3 = devs s \<longrightarrow>
       DMABuffer_new E d index start len ty s = new_end E d (brk s) dev s jump r s3"
proof -
  let ?a = "brk s"
  obtain dev w where dev: "devs s d = Some dev" "dev_internal dev = Some w" "dma_buffer_list dev = head_ptr xs"
    and dll: "dll (bufs s) xs" and raw: "\<forall>a \<in> set xs. raw_buffer a s" and new: "\<forall>a. brk s \<le> a \<longrightarrow> bufs s a = None"
    using inv by (auto simp: buffer_list_def)
  have fresh: "?a \<notin> set xs" using raw new by (auto simp: raw_buffer_def)
  define b where "b = blank_buffer len (Some d)"
  obtain s1 where s1: "DMABuffer_alloc E len (Some d) s = Some ((PDA_SUCCESS, Some ?a), s1)" "errno s1 = errno s"
    "devs s1 = devs s" "brk s1 = Suc ?a" "bufs s1 = (bufs s)(?a \<mapsto> b)"
    using DMABuffer_alloc_ok[OF alloc] unfolding b_def by blast
  have "dll (bufs s1) xs" using dll fresh by (simp add: s1(5) dll_fresh)
  moreover have "\<forall>a \<in> set xs. \<exists>b i. bufs s1 a = Some b \<and> internal b = Some i"
    using raw fresh by (auto simp: s1(5) raw_buffer_def)
  ultimately obtain idx where idx: "DMABuffer_findNewIndex (bufs s1) index (head_ptr xs) = Some idx"
    using findNewIndex_total by blast
  define s2 where "s2 = s1\<lparr>bufs := (bufs s)(?a \<mapsto> b\<lparr>buf_type := ty, buf_index := idx, sglist := None,
    buf_device := Some d, buf_map := MAP_FAILED, map_two := MAP_FAILED\<rparr>)\<rparr>"
  have bld: "building ?a s s2" using s1 by (auto simp: s2_def raw_buffer_def building_def b_def blank_buffer_def)
  have i: "index \<noteq> PDA_BUFFER_INDEX_UNDEFINED \<longrightarrow> idx = index" using idx by (auto simp: DMABuffer_findNewIndex_def bind_eq_Some_conv)
  have s2: "s2 = s1\<lparr>bufs := (bufs s)(?a \<mapsto> (blank_buffer len (Some d))\<lparr>buf_type := ty, buf_index := idx\<rparr>)\<rparr>"
    by (simp add: s2_def b_def blank_buffer_def zero_DMABuffer_def)
  have "DMABuffer_new E d index start len ty s = new_end E d ?a dev s jump r s3"
    if "new_body E d ?a start len ty s2 = Some ((jump, r), s3)" "devs s3 = devs s" for jump r s3
    using s1 dev(1,3) idx that
    by (simp add: DMABuffer_new_def new_end_def upd_buf_def upd_dev_def s2_def new_body_def cong: if_cong)
  with that[OF dev s1(1) s2 s1(3,2) bld i] show thesis by blast
qed

lemma DMABuffer_new_outcome:
  assumes E: "posix_env E" "\<not> cfg_DEBUG E" and alloc: "\<forall>n w. fst (sys_alloc E n w)"
    and inv: "buffer_list s d xs" and err: "0 \<le> errno s"
  shows "\<exists>r s'. DMABuffer_new E d index start len ty s = Some (r, s') \<and>
    (if r = PDA_SUCCESS
     then buffer_list s' d (xs @ [brk s]) \<and>
       (\<forall>a. a \<noteq> brk s \<longrightarrow> map_option payload (bufs s' a) = map_option payload (bufs s a)) \<and>
       (index \<noteq> PDA_BUFFER_INDEX_UNDEFINED \<longrightarrow> map_option buf_index (bufs s' (brk s)) = Some index)
     else buffer_list s' d xs \<and> bufs s' = bufs s \<and> devs s' = devs s) \<and> 0 \<le> errno s' \<and>
    (granting E \<and> creatable E start len ty \<longrightarrow> r = PDA_SUCCESS)"
proof -
  let ?a = "brk s"
  obtain dev w idx s1 s2 where dev: "devs s d = Some dev" "dev_internal dev = Some w" "dma_buffer_list dev = head_ptr xs"
    and s1: "DMABuffer_alloc E len (Some d) s = Some ((PDA_SUCCESS, Some ?a), s1)" and s2: "s2 = s1\<lparr>bufs := (bufs s)(?a \<mapsto> (blank_buffer len (Some d))\<lparr>buf_type := ty, buf_index := idx\<rparr>)\<rparr>" "devs s1 = devs s" "errno s1 = errno s"
    and bld: "building ?a s s2" and idx: "index \<noteq> PDA_BUFFER_INDEX_UNDEFINED \<longrightarrow> idx = index"
    and run: "\<forall>jump r s3. new_body E d ?a start len ty s2 = Some ((jump, r), s3) \<and> devs s3 = devs s \<longrightarrow>
       DMABuffer_new E d index start len ty s = new_end E d ?a dev s jump r s3"
    by (rule DMABuffer_new_unfold[OF alloc inv, of len ty index start]) blast
  have r2: "raw_buffer ?a s2" "unmapped ?a s2" "devs s2 d = Some dev" "0 \<le> errno s2"
    using s2 dev(1) err by (auto simp: raw_buffer_def unmapped_def blank_buffer_def)
  from new_body_step[OF E r2(1-3) dev(2) r2(4), of start len ty] obtain jump r s3 where s3: "new_body E d ?a start len ty s2 = Some ((jump, r), s3)" "touches ?a s2 s3"
    "jump \<or> r \<noteq> PDA_SUCCESS \<longrightarrow> 0 < errno s3" "granting E \<and> creatable E start len ty \<longrightarrow> \<not> jump \<and> r = PDA_SUCCESS"
    by (auto simp: new_body_ok_def)
  have b3: "building ?a s s3" "devs s3 = devs s"
    using building_touches[OF bld s3(2)] by (auto simp: building_def)
  have idx3: "index \<noteq> PDA_BUFFER_INDEX_UNDEFINED \<longrightarrow> map_option buf_index (bufs s3 ?a) = Some index" "0 \<le> errno s3"
    using s3(2) r2(4) idx by (auto simp: touches_def same_shape_def s2 errno_step_def)
  have eq: "DMABuffer_new E d index start len ty s = new_end E d ?a dev s jump r s3" using run s3(1) b3(2) by blast
  show ?thesis
  proof (cases "jump \<or> r \<noteq> PDA_SUCCESS")
    case True
    moreover have "building ?a s (snd (ERROR E (errno s3) s3))"
      using b3(1) by (simp add: building_def raw_buffer_def)
    ultimately obtain s' where "DMABuffer_new E d index start len ty s = Some (errno s3, s')"
      "buffer_list s' d xs" "bufs s' = bufs s" "devs s' = devs s" "0 < errno s'"
      using building_undo[OF inv b3(1), of E] building_undo[OF inv, of ?a "snd (ERROR E (errno s3) s3)" E] s3(3)
      by (cases jump; cases "r = PDA_SUCCESS") (auto simp: eq new_end_def)
    with True s3(3,4) show ?thesis
      by (intro exI[of _ "errno s3"] exI[of _ s']) auto
  next
    case False
    with building_link[OF inv b3(1) dev(1)] idx3 show ?thesis by (auto simp: eq new_end_def)
  qed
qed

section \<open>Releasing buffers\<close>

lemma c_void_errno_step: "errno_law f \<Longrightarrow> errno_step s (c_void f s)"
  using c_sys_errno_step[of f s "fst (c_sys f s)" "snd (c_sys f s)"] by (simp add: c_void_def)

lemma unmap_steps:
  assumes "posix_env E" and "bufs s a = Some b"
  shows "\<exists>s'. unmap_two E a s = Some s' \<and> touches a s s' \<and> (\<exists>b'. bufs s' a = Some b')"
    and "\<exists>s'. unmap_one E a s = Some s' \<and> touches a s s' \<and> (\<exists>b'. bufs s' a = Some b')"
  using assms c_void_errno_step[OF posix_laws(4)[OF assms(1)]]
  by (auto simp: unmap_two_def unmap_one_def upd_buf_def touches_def same_shape_def)

lemma free_unmap_step:
  assumes E: "posix_env E" and b: "bufs s a = Some b"
  shows "\<exists>go q s'. free_unmap E a p s = Some ((go, q), s') \<and> touches a s s' \<and>
    (\<not> go \<longrightarrow> 0 < errno s' \<and> \<not> cfg_PDA_SKIP_UNLOCK_FAILURE E \<and> (\<exists>n w e w'. sys_munlock E (buf_map b) n w = (Inl e, w')))"
proof (cases "buf_type b")
  case PDA_BUFFER_KERNEL
  obtain s1 b1 where s1: "unmap_two E a s = Some s1" "touches a s s1" "bufs s1 a = Some b1"
    using unmap_steps(1)[OF E b] by blast
  obtain s2 where s2: "unmap_one E a s1 = Some s2" "touches a s1 s2"
    using unmap_steps(2)[OF E s1(3)] by blast
  show ?thesis
    using PDA_BUFFER_KERNEL b s1(1) s2(1) touches_trans[OF s1(2) s2(2)] by (auto simp: free_unmap_def)
next
  case PDA_BUFFER_USER
  obtain s1 b1 where s1: "unmap_two E a s = Some s1" "touches a s s1" "bufs s1 a = Some b1"
    using unmap_steps(1)[OF E b] by blast
  obtain r s2 where ml: "c_sys (sys_munlock E (buf_map b) (buf_length b)) s1 = (r, s2)" by fastforce
  have es: "errno_step s1 s2" "r = None \<longrightarrow> 0 < errno s2"
    using c_sys_errno_step[OF posix_laws(5)[OF E] ml] by auto
  have fail: "r = None \<Longrightarrow> \<exists>w e w'. sys_munlock E (buf_map b) (buf_length b) w = (Inl e, w')"
    using ml by (auto simp: c_sys_def split: prod.splits sum.splits)
  define s3 where "s3 = (if r = None then snd (ERROR E (errno s2) s2) else s2)"
  have t3: "touches a s1 s3" "bufs s3 a = Some b1"
    using es c_sys_heaps[OF ml] s1(3) by (auto simp: s3_def touches_def same_heaps_def same_shape_def)
  define s4 where "s4 = s3\<lparr>bufs := (bufs s3)(a \<mapsto> b1\<lparr>buf_map := MAP_FAILED\<rparr>)\<rparr>"
  have "touches a s3 s4" using t3(2) by (auto simp: s4_def touches_def same_shape_def)
  then have "touches a s s3" "touches a s s4"
    using s1(2) t3(1) by (blast intro: touches_trans)+
  moreover have "free_unmap E a p s = (if r = None \<and> \<not> cfg_PDA_SKIP_UNLOCK_FAILURE E then Some ((False, p), s3)
      else Some ((True, PDA_DELETE), s4))"
    using PDA_BUFFER_USER b s1(1) ml t3(2)
    by (simp add: free_unmap_def s3_def s4_def upd_buf_def Let_def cong: if_cong)
  ultimately show ?thesis
    using es(2) fail by (auto simp: s3_def)
next
  case PDA_BUFFER_LOOKUP
  with b show ?thesis by (auto simp: free_unmap_def touches_def same_shape_def)
qed

lemma closeFiles_step:
  assumes E: "posix_env E" and b: "bufs s a = Some b"
  shows "\<exists>s'. DMABuffer_closeFiles E a s = Some s' \<and> touches a s s'"
proof -
  have es: "errno_step u (snd (c_close E fd s))" if "errno_step u s" for u s :: "'a pstate" and fd
    using that c_close_errno_step[OF E, of fd s "fst (c_close E fd s)"] by (auto intro: errno_step_trans)
  show ?thesis
    using b by (cases "internal b")
      (auto simp: DMABuffer_closeFiles_def Let_def touches_def same_shape_def intro!: es)
qed

lemma free_driver_step:
  assumes E: "posix_env E" and b: "bufs s a = Some b"
  shows "\<exists>ok s'. free_driver E a p s = Some (ok, s') \<and> touches a s s' \<and> (\<not> ok \<longrightarrow> 0 < errno s')"
proof (cases "internal b = None \<or> p \<noteq> PDA_DELETE")
  case True
  with b show ?thesis by (auto simp: free_driver_def touches_def same_shape_def split: option.splits)
next
  case False
  then obtain i where i: "internal b = Some i" "p = PDA_DELETE" by auto
  obtain r1 s1 where fl: "c_sys (sys_flock E (map_fd i) LOCK_EX) s = (r1, s1)" by fastforce
  obtain fd s2 where sp: "pda_spinOpen E (uio_filepath_delete i) O_WRONLY PDA_OPEN_DEFAULT_SPIN s1 = (fd, s2)" by fastforce
  have t: "touches a s s1" "r1 = None \<longrightarrow> 0 < errno s1" "touches a s1 s2" "fd = -1 \<longrightarrow> 0 < errno s2" "bufs s2 a = Some b"
    using c_sys_heaps[OF fl] pda_spinOpen_heaps[OF sp] b c_sys_errno_step[OF posix_laws(6)[OF E] fl]
      pda_spinOpen_errno_step[OF E sp] by (auto simp: touches_def same_heaps_def same_shape_def)
  obtain s3 b3 where s3: "DMABuffer_closeFiles E a s2 = Some s3" "touches a s2 s3" "bufs s3 a = Some b3"
    using closeFiles_step[OF E t(5)] by (auto simp: touches_def)
  obtain r4 s4 where wr: "c_sys (sys_write E fd (c_string_bytes (name i))) s3 = (r4, s4)" by fastforce
  obtain r5 s5 where cl: "c_close E fd s4 = (r5, s5)" by fastforce
  have "errno_law (sys_write E fd (c_string_bytes (name i)))" using E by (simp add: posix_env_def)
  from c_sys_errno_step[OF this wr] have e5: "errno_step s3 s5" "r4 = None \<longrightarrow> 0 < errno s5"
    using c_close_errno_step[OF E cl] by (auto simp: errno_step_def)
  have t5: "touches a s3 s5"
    using c_sys_heaps[OF wr] c_close_heaps[OF cl] s3(3) e5(1) by (auto simp: touches_def same_heaps_def same_shape_def)
  have ts: "touches a s s2" "touches a s s5"
    using t(1,3) s3(2) t5 by (blast intro: touches_trans)+
  have err: "touches a s u \<Longrightarrow> touches a s (snd (ERROR E (errno u) u))" for u
    by (auto simp: touches_def)
  have "fd = -1 \<or> -1 < fd" using pda_spinOpen_fd[OF sp] by auto
  moreover have "free_driver E a p s =
      (case r1 of None \<Rightarrow> Some (False, snd (ERROR E (errno s1) s1))
       | Some _ \<Rightarrow> if -1 < fd then (if r4 = None then Some (False, snd (ERROR E (errno s5) s5)) else Some (True, s5))
                  else Some (False, snd (ERROR E (errno s2) s2)))"
    using b i fl sp s3(1) wr cl by (simp add: free_driver_def Let_def cong: if_cong split: option.split)
  ultimately show ?thesis
    using t(2,4) e5(2) ts err[OF t(1)] err[OF ts(1)] err[OF ts(2)] by (auto split: option.splits)
qed

text \<open>
  The outcome of \<open>DMABuffer_free\<close> on a buffer of a list: it is unlinked and freed, whether or not
  the driver could be told; only when \<open>munlock\<close> fails on a user buffer it stays as it is.
\<close>

definition freed :: "addr list \<Rightarrow> addr \<Rightarrow> addr list \<Rightarrow> 'w pstate \<Rightarrow> 'w pstate \<Rightarrow> bool" where
  "freed xs a ys s s' \<longleftrightarrow> dll (bufs s') (xs @ ys) \<and> bufs s' a = None \<and>
     (\<forall>x. x \<noteq> a \<longrightarrow> map_option payload (bufs s' x) = map_option payload (bufs s x))"

definition unlock_fails :: "'w env \<Rightarrow> bool" where
  "unlock_fails E \<longleftrightarrow> \<not> cfg_PDA_SKIP_UNLOCK_FAILURE E \<and> (\<exists>m n w e w'. sys_munlock E m n w = (Inl e, w'))"

lemma touches_dll: "touches a s s' \<Longrightarrow> dll (bufs s') xs \<longleftrightarrow> dll (bufs s) xs"
proof -
  assume "touches a s s'"
  then obtain b b' where "bufs s' = (bufs s)(a \<mapsto> b')" "bufs s a = Some b" "same_shape b b'"
    unfolding touches_def by (metis fun_upd_triv fun_upd_other ext fun_upd_same)
  then show ?thesis by (simp add: dll_payload_upd[of _ _ b b'] same_shape_def)
qed

lemma free_object_freed:
  assumes dll: "dll (bufs s) (xs @ a # ys)"
  shows "\<exists>s'. free_object a s = Some s' \<and> freed xs a ys s s' \<and> devs s' = devs s \<and> brk s' = brk s \<and> errno s' = errno s \<and> bars s' = bars s"
proof -
  obtain b where b: "bufs s a = Some b" using dll_links[OF dll] .
  define h where "h = (bufs s)(a \<mapsto> b\<lparr>internal := None, sglist := None\<rparr>)"
  have "dll h (xs @ a # ys)" using dll b by (simp add: h_def dll_payload_upd)
  from bl.release_law[OF this] obtain h' where h': "DMABuffer_release a h = Some h'" "dll h' (xs @ ys)"
    "buf_obj h' = (buf_obj h)(a := None)" by blast
  have "map_option payload (h' x) = (if x = a then None else map_option payload (bufs s x))" for x
    using fun_cong[OF h'(3), of x] by (auto simp: buf_obj_def h_def split: if_splits)
  then have "freed xs a ys s (s\<lparr>bufs := h'\<rparr>)"
    using h'(2) by (auto simp: freed_def) (metis option.map_disc_iff)
  with b h'(1) show ?thesis
    by (auto simp: free_object_def upd_buf_def h_def)
qed

lemma freed_after_touches: "touches a s s1 \<Longrightarrow> freed xs a ys s1 s' \<Longrightarrow> freed xs a ys s s'"
  by (auto simp: freed_def touches_def)

lemma DMABuffer_free_outcome:
  assumes E: "posix_env E" and dll: "dll (bufs s) (xs @ a # ys)"
  shows "\<exists>r s'. DMABuffer_free E (Some a) p s = Some (r, s') \<and> devs s' = devs s \<and> brk s' = brk s \<and> bars s' = bars s \<and> errno_step s s' \<and>
    (freed xs a ys s s' \<or> unlock_fails E \<and> touches a s s' \<and> 0 < r)"
proof -
  obtain b where b: "bufs s a = Some b" using dll_links[OF dll] .
  obtain go q s1 where s1: "free_unmap E a p s = Some ((go, q), s1)" "touches a s s1"
    "\<not> go \<longrightarrow> 0 < errno s1 \<and> unlock_fails E"
    using free_unmap_step[OF E b, of p] unfolding unlock_fails_def by blast
  obtain b1 where b1: "bufs s1 a = Some b1" using s1(2) by (auto simp: touches_def)
  obtain ok s2 where s2: "free_driver E a q s1 = Some (ok, s2)" "touches a s1 s2"
    using free_driver_step[OF E b1] by blast
  obtain b2 where b2: "bufs s2 a = Some b2" using s2(2) by (auto simp: touches_def)
  obtain s3 where s3: "DMABuffer_closeFiles E a s2 = Some s3" "touches a s2 s3"
    using closeFiles_step[OF E b2] by blast
  have t: "touches a s s2" "touches a s s3"
    using s1(2) s2(2) s3(2) by (blast intro: touches_trans)+
  from t dll have d: "dll (bufs s2) (xs @ a # ys)" "dll (bufs s3) (xs @ a # ys)"
    by (simp_all add: touches_dll)
  obtain s4 where s4: "free_object a s2 = Some s4" "freed xs a ys s2 s4" "devs s4 = devs s2" "brk s4 = brk s2"
    "errno s4 = errno s2" "bars s4 = bars s2"
    using free_object_freed[OF d(1)] by blast
  obtain s5 where s5: "free_object a s3 = Some s5" "freed xs a ys s3 s5" "devs s5 = devs s3" "brk s5 = brk s3"
    "errno s5 = errno s3" "bars s5 = bars s3"
    using free_object_freed[OF d(2)] by blast
  let ?e = "\<lambda>u. snd (ERROR E (errno u) u)"
  have "DMABuffer_free E (Some a) p s =
      (if \<not> go then Some (errno s1, ?e s1) else if ok then Some (PDA_SUCCESS, s5) else Some (errno s4, ?e s4))"
    using s1(1) s2(1) s3(1) s4(1) s5(1) by (simp add: DMABuffer_free_def prod_eq_iff)
  moreover have "freed xs a ys s (?e s4)" "freed xs a ys s s5" "touches a s (?e s1)"
    using freed_after_touches[OF t(1) s4(2)] freed_after_touches[OF t(2) s5(2)] s1(2)
    by (auto simp: freed_def touches_def)
  moreover have "devs s1 = devs s" "devs s4 = devs s" "devs s5 = devs s" "brk s1 = brk s" "brk s4 = brk s" "brk s5 = brk s"
    "bars s1 = bars s" "bars s4 = bars s" "bars s5 = bars s"
    using s1(2) t s4(3,4,6) s5(3,4,6) by (auto simp: touches_def)
  moreover have "errno_step s s1" "errno_step s (?e s1)" "errno_step s (?e s4)" "errno_step s s5"
  proof -
    have e4: "errno (?e s4) = errno s2" using ERROR_errno[of E s4] s4(5) by metis
    have "errno_step s s1" "errno_step s s2" "errno_step s s3"
      using s1(2) t by (auto simp: touches_def)
    then show "errno_step s s1" "errno_step s (?e s1)" "errno_step s (?e s4)" "errno_step s s5"
      using s5(5) unfolding errno_step_def e4 by simp_all
  qed
  ultimately show ?thesis
    using s1(3) by auto
qed

text \<open>The loop over the whole list; \<open>ys\<close> are the buffers that stayed so far.\<close>

lemma freeAll_loop_outcome:
  assumes "posix_env E" and "dll (bufs s) (ys @ xs)"
  shows "\<exists>r s' zs. freeAll_loop E p (first_or None xs) ret s = Some (r, s') \<and> devs s' = devs s \<and> brk s' = brk s \<and> bars s' = bars s \<and>
    dll (bufs s') (ys @ zs) \<and> set zs \<subseteq> set xs \<and> (\<forall>a \<in> set xs - set zs. bufs s' a = None) \<and>
    (\<forall>a. bufs s a = None \<longrightarrow> bufs s' a = None) \<and> (zs \<noteq> [] \<longrightarrow> unlock_fails E)"
  using assms(2)
proof (induction xs arbitrary: ys s ret)
  case Nil
  then show ?case by (auto simp: freeAll_loop.simps intro!: exI[of _ "[]"])
next
  case (Cons x xs)
  obtain b where b: "bufs s x = Some b" "buf_next b = first_or None xs"
    using dll_links[OF Cons.prems] .
  obtain r s1 where s1: "DMABuffer_free E (Some x) p s = Some (r, s1)" "devs s1 = devs s" "brk s1 = brk s" "bars s1 = bars s"
    and out: "freed ys x xs s s1 \<or> unlock_fails E \<and> touches x s s1"
    using DMABuffer_free_outcome[OF assms(1) Cons.prems] by blast
  have loop: "freeAll_loop E p (first_or None (x # xs)) ret s = freeAll_loop E p (first_or None xs) (ret + r) s1"
    using b s1(1) by (simp add: freeAll_loop.simps[of E p "Some x"])
  have x: "x \<notin> set xs" using Cons.prems by (auto simp: dll_def)
  from out show ?case
  proof
    assume fr: "freed ys x xs s s1"
    then have "dll (bufs s1) (ys @ xs)" by (simp add: freed_def)
    from Cons.IH[OF this, of "ret + r"] obtain r' s' zs where IH:
      "freeAll_loop E p (first_or None xs) (ret + r) s1 = Some (r', s')" "devs s' = devs s1" "brk s' = brk s1" "bars s' = bars s1"
      "dll (bufs s') (ys @ zs)" "set zs \<subseteq> set xs" "\<forall>a \<in> set xs - set zs. bufs s' a = None"
      "\<forall>a. bufs s1 a = None \<longrightarrow> bufs s' a = None" "zs \<noteq> [] \<longrightarrow> unlock_fails E" by blast
    have "bufs s1 a = None" if "bufs s a = None \<or> a = x" for a
      using fr that by (auto simp: freed_def dest: spec[of _ a])
    with IH s1 loop x show ?thesis
      by (intro exI[of _ r'] exI[of _ s'] exI[of _ zs]) auto
  next
    assume kept: "unlock_fails E \<and> touches x s s1"
    then have "dll (bufs s1) ((ys @ [x]) @ xs)"
      using Cons.prems touches_dll[of x s s1] by simp
    from Cons.IH[OF this, of "ret + r"] obtain r' s' zs where IH:
      "freeAll_loop E p (first_or None xs) (ret + r) s1 = Some (r', s')" "devs s' = devs s1" "brk s' = brk s1" "bars s' = bars s1"
      "dll (bufs s') ((ys @ [x]) @ zs)" "set zs \<subseteq> set xs" "\<forall>a \<in> set xs - set zs. bufs s' a = None"
      "\<forall>a. bufs s1 a = None \<longrightarrow> bufs s' a = None" by blast
    moreover have "bufs s1 a = None" if "bufs s a = None" for a
      using kept that by (cases "a = x") (auto simp: touches_def)
    ultimately show ?thesis
      using s1 loop kept by (intro exI[of _ r'] exI[of _ s'] exI[of _ "x # zs"]) auto
  qed
qed

lemma succ_above:
  fixes v m :: u64
  assumes "v \<le> m" and "m \<noteq> PDA_BUFFER_INDEX_UNDEFINED"
  shows "v < m + 1"
proof -
  have "unat m < 2 ^ 64" using unsigned_less[of m] by simp
  moreover have "unat m \<noteq> 2 ^ 64 - 1"
  proof
    assume "unat m = 2 ^ 64 - 1"
    then have "m = of_nat (2 ^ 64 - 1)" by (metis of_nat_unat ucast_id)
    with assms(2) show False by (simp add: PDA_BUFFER_INDEX_UNDEFINED_def)
  qed
  ultimately have "unat (m + 1) = unat m + 1" by (simp add: unat_word_ariths)
  with assms(1) show ?thesis by (simp add: word_less_nat_alt word_le_nat_alt)
qed

section \<open>Properties\<close>

text \<open>
  C37. The index \<open>DMABuffer_findNewIndex\<close> proposes when the caller leaves it open is larger than the
  index in the name of every buffer of the list, hence unused, provided no buffer
  carries the reserved last 64-bit number as its name.
\<close>

theorem findNewIndex_fresh:
  assumes "dll h xs" and "\<forall>a \<in> set xs. \<exists>b i. h a = Some b \<and> internal b = Some i"
    and "\<forall>a \<in> set xs. \<forall>v. scanned h a = Some v \<longrightarrow> v \<noteq> PDA_BUFFER_INDEX_UNDEFINED"
  shows "\<exists>idx. DMABuffer_findNewIndex h PDA_BUFFER_INDEX_UNDEFINED (head_ptr xs) = Some idx \<and>
    (\<forall>a \<in> set xs. \<forall>v. scanned h a = Some v \<longrightarrow> v < idx)"
proof (cases xs)
  case Nil
  then show ?thesis by (simp add: DMABuffer_findNewIndex_def)
next
  case (Cons x ys)
  then obtain m where m: "findNewIndex_loop h (Some x) 0 0 = Some m"
    "\<forall>a \<in> set xs. \<forall>v. scanned h a = Some v \<longrightarrow> v \<le> m"
    "m = 0 \<or> (\<exists>a \<in> set xs. scanned h a = Some m)"
    using findNewIndex_loop_total[of h None xs 0 0] assms(1,2) by (auto simp: dll_def)
  have "m \<noteq> PDA_BUFFER_INDEX_UNDEFINED"
    using m(3) assms(3) by (auto simp: PDA_BUFFER_INDEX_UNDEFINED_def)
  then have "v < m + 1" if "v \<le> m" for v
    using that by (simp add: succ_above)
  with m Cons show ?thesis
    by (simp add: DMABuffer_findNewIndex_def)
qed

definition named_buffer :: "nat \<Rightarrow> DMABuffer" where
  "named_buffer n = fresh_buffer\<lparr>internal := Some (zero_DMABufferInternal\<lparr>name := fmt_dec n\<rparr>)\<rparr>"

text \<open>A device at address 1 with the buffers \<open>7\<close> and \<open>2\<close> at the addresses 3 and 4.\<close>

definition two_buffers :: buf_heap where
  "two_buffers = [3 \<mapsto> (named_buffer 7)\<lparr>buf_next := Some 4\<rparr>, 4 \<mapsto> (named_buffer 2)\<lparr>buf_prev := Some 3\<rparr>]"

definition listed_process :: "unit pstate" where
  "listed_process = demo_process\<lparr>bufs := two_buffers, devs := [1 \<mapsto> demo_device\<lparr>dma_buffer_list := Some 3\<rparr>]\<rparr>"

lemma two_buffers_dll: "dll two_buffers [3, 4]"
  by (simp add: dll_def two_buffers_def named_buffer_def)

lemma listed_process_bufs: "bufs listed_process = two_buffers"
  by (simp add: listed_process_def)

lemma two_buffers_scanned: "scanned two_buffers 3 = Some 7" "scanned two_buffers 4 = Some 2"
  by (simp_all add: scanned_def two_buffers_def named_buffer_def scan_u64_def scan_fmt_dec)

lemma listed_process_list: "buffer_list listed_process 1 [3, 4]"
proof -
  have "devs listed_process 1 = Some (demo_device\<lparr>dma_buffer_list := Some 3\<rparr>)" "dev_internal demo_device \<noteq> None"
    "brk listed_process = 10"
    by (simp_all add: listed_process_def demo_device_def demo_process_def some_process_def)
  moreover have "\<exists>b i. two_buffers a = Some b \<and> internal b = Some i" if "a \<in> {3, 4}" for a
    using that by (auto simp: two_buffers_def named_buffer_def)
  moreover have "two_buffers a = None" if "10 \<le> a" for a
    using that by (simp add: two_buffers_def)
  ultimately show ?thesis
    using two_buffers_dll by (auto simp: buffer_list_def raw_buffer_def listed_process_bufs)
qed

theorem findNewIndex_fresh_witness:
  "\<exists>idx. DMABuffer_findNewIndex two_buffers PDA_BUFFER_INDEX_UNDEFINED (Some 3) = Some idx \<and> 7 < idx \<and> 2 < idx"
  using findNewIndex_fresh[OF two_buffers_dll] two_buffers_scanned
  by (simp add: two_buffers_def named_buffer_def PDA_BUFFER_INDEX_UNDEFINED_def)

text \<open>
  C10. In a release build on a POSIX system, \<open>DMABuffer_new\<close> of any of the three kinds either
  returns \<open>PDA_SUCCESS\<close> and has appended exactly one new buffer to the device's list, the
  contents of every other buffer being as before, or returns a non-zero code and has left the
  buffers and devices exactly as they were: no half-built buffer is left behind in the list. It
  never dereferences an invalid pointer on the way. When the system grants every call, a request with
  proper arguments (a size for which there is memory, an aligned start address) does succeed.
\<close>

theorem DMABuffer_new_all_or_nothing:
  assumes "posix_env E" and "\<not> cfg_DEBUG E" and "\<forall>n w. fst (sys_alloc E n w)"
    and "buffer_list s d xs" and "0 \<le> errno s"
  shows "\<exists>r s'. DMABuffer_new E d index start len ty s = Some (r, s') \<and>
    (if r = PDA_SUCCESS
     then buffer_list s' d (xs @ [brk s]) \<and>
       (\<forall>a. a \<noteq> brk s \<longrightarrow> map_option payload (bufs s' a) = map_option payload (bufs s a))
     else buffer_list s' d xs \<and> bufs s' = bufs s \<and> devs s' = devs s) \<and>
    (granting E \<and> creatable E start len ty \<longrightarrow> r = PDA_SUCCESS)"
  using DMABuffer_new_outcome[OF assms, of index start len ty] by metis

theorem DMABuffer_new_all_or_nothing_witness:
  "\<exists>s'. DMABuffer_new calm_env 1 0 0 8192 PDA_BUFFER_KERNEL listed_process = Some (PDA_SUCCESS, s') \<and>
    buffer_list s' 1 [3, 4, 10]"
proof -
  have "creatable (calm_env :: unit env) 0 8192 PDA_BUFFER_KERNEL" by (simp add: creatable_def calm_env_def)
  moreover have "\<not> cfg_DEBUG (calm_env :: unit env)" "\<forall>n w. fst (sys_alloc (calm_env :: unit env) n w)"
    "0 \<le> errno listed_process" "brk listed_process = 10"
    by (simp_all add: calm_env_def listed_process_def demo_process_def some_process_def)
  ultimately show ?thesis
    using DMABuffer_new_all_or_nothing[OF calm_env_posix _ _ listed_process_list, of 0 0 8192 PDA_BUFFER_KERNEL] calm_granting
    by fastforce
qed

text \<open>
  C11. \<open>DMABuffer_free\<close> of a buffer anywhere in a well-formed list, for both values of
  \<open>persistant\<close> and whatever the driver answers, never touches an invalid pointer and unlinks and
  frees exactly that buffer, the others keeping their contents and order; the single exception is
  a user buffer whose \<open>munlock\<close> fails in a build without \<open>PDA_SKIP_UNLOCK_FAILURE\<close>, for which a
  positive code is returned and the list stays as it was.
\<close>

theorem DMABuffer_free_unlinks:
  assumes "posix_env E" and "dll (bufs s) (xs @ a # ys)"
  shows "\<exists>r s'. DMABuffer_free E (Some a) p s = Some (r, s') \<and> devs s' = devs s \<and>
    (dll (bufs s') (xs @ ys) \<and> bufs s' a = None \<and>
       (\<forall>x. x \<noteq> a \<longrightarrow> map_option payload (bufs s' x) = map_option payload (bufs s x))
     \<or> unlock_fails E \<and> 0 < r \<and> dll (bufs s') (xs @ a # ys))"
proof -
  obtain r s' where "DMABuffer_free E (Some a) p s = Some (r, s')" "devs s' = devs s"
    "freed xs a ys s s' \<or> unlock_fails E \<and> touches a s s' \<and> 0 < r"
    using DMABuffer_free_outcome[OF assms] by blast
  then show ?thesis
    using assms(2) by (auto simp: freed_def touches_dll)
qed

lemma calm_env_unlocks: "\<not> unlock_fails calm_env"
  by (simp add: unlock_fails_def calm_env_def)

theorem DMABuffer_free_unlinks_witness:
  "\<exists>r s'. DMABuffer_free calm_env (Some 3) PDA_DELETE listed_process = Some (r, s') \<and> dll (bufs s') [4] \<and> bufs s' 3 = None"
  using DMABuffer_free_unlinks[OF calm_env_posix, of listed_process "[]" 3 "[4]" PDA_DELETE]
    two_buffers_dll listed_process_bufs calm_env_unlocks by auto

text \<open>
  C29. \<open>DMABuffer_freeAllBuffers\<close>, started on any buffer of a well-formed list, terminates and
  frees every buffer of the list, each once, if unlocking user memory works; it reads each
  \<open>next\<close> link before it frees the buffer.
\<close>

theorem freeAllBuffers_empties:
  assumes "posix_env E" and "\<not> unlock_fails E" and "dll (bufs s) xs" and "a \<in> set xs"
  shows "\<exists>r s'. DMABuffer_freeAllBuffers E (Some a) s = Some (r, s') \<and> devs s' = devs s \<and>
    (\<forall>x \<in> set xs. bufs s' x = None)"
proof -
  have "DMABuffer_getHead (bufs s) (Some a) = Some (head_ptr xs)"
    using assms(3,4) DMABuffer_getHead_dll by (fastforce simp: in_set_conv_decomp)
  moreover obtain r s' zs where "freeAll_loop E PDA_DELETE (head_ptr xs) PDA_SUCCESS s = Some (r, s')"
    "devs s' = devs s" "\<forall>x \<in> set xs - set zs. bufs s' x = None" "zs \<noteq> [] \<longrightarrow> unlock_fails E"
    using freeAll_loop_outcome[OF assms(1), of s "[]" xs PDA_DELETE PDA_SUCCESS] assms(3) by auto
  ultimately show ?thesis
    using assms(2) by (cases zs) (auto simp: DMABuffer_freeAllBuffers_def DMABuffer_freeAllBuffersInt_def)
qed

theorem freeAllBuffers_empties_witness:
  "\<exists>r s'. DMABuffer_freeAllBuffers calm_env (Some 4) listed_process = Some (r, s') \<and> bufs s' 3 = None \<and> bufs s' 4 = None"
  using freeAllBuffers_empties[OF calm_env_posix calm_env_unlocks, of listed_process "[3, 4]" 4]
    two_buffers_dll listed_process_bufs by auto

end
