(* ===== verification/PDA_Pci.thy ===== *)
theory PDA_Pci
  imports PDA_BufferLife
begin

text \<open>
  Devices (\<open>src/pci.c\<close>, \<open>arch/linux_x86_uio/pci_inc.c\<close>): creation and deletion, the interrupt
  thread, the buffers of a device and its sysfs attributes. The registers of a device are in
  \<open>PDA_PciBars\<close>, the buffers themselves in \<open>PDA_DMABuffer\<close>.

  The operations on buffers are then the steps of a relation on process states, and the buffer
  list invariant is shown for every state they reach.
\<close>

section \<open>Creation\<close>

definition PciDevice_new_int :: "'w env \<Rightarrow> 'w pstate \<Rightarrow> ptr \<times> 'w pstate" where
  "PciDevice_new_int E s =
     (case c_new E sizeof_PciDevice s of
        (None, s) \<Rightarrow> (None, snd (ERROR E ENOMEM s))
      | (Some device, s) \<Rightarrow>
          (case c_alloc E sizeof_PciDeviceInternal s of
             (False, s) \<Rightarrow> (None, snd (ERROR E ENOMEM s))
           | (True, s) \<Rightarrow>
               (Some device, s\<lparr>devs := (devs s)(device \<mapsto> zero_PciDevice\<lparr>dev_internal := Some zero_PciDeviceInternal,
                  interrupt := None, dma_buffer_list := None, dma_buffer_id_list := None,
                  dma_buffer_id_list_max_entries := 256\<rparr>)\<rparr>)))"

text \<open>
  The three characters of the sysfs file land in a buffer preset to \<open>00000000\<close>, from which
  \<open>sscanf\<close> reads \<open>%d\<close>. Only a read of no bytes ends the function early, not a failing one.
\<close>

definition numa_string :: "u8 list \<Rightarrow> string" where
  "numa_string bytes = map (\<lambda>b. char_of (unat b)) bytes @ drop (length bytes) ''00000000''"

definition scan_numa :: "string \<Rightarrow> int" where
  "scan_numa str =
     (case scan_int 10 None str of
        None \<Rightarrow> 0
      | Some (neg, v, _) \<Rightarrow> if neg then - int v else int v)"

definition PciDevice_setNumaNodeAffinity :: "'w env \<Rightarrow> addr \<Rightarrow> 'w pstate \<Rightarrow> (int \<times> 'w pstate) option" where
  "PciDevice_setNumaNodeAffinity E device s =
     (if \<not> sys_numa_available E (world s) then Some (0, s)
      else do {
        workp \<leftarrow> get_workp device s;
        let (fp, s) = pda_spinOpen E (c_snprintf PDA_STRING_LIMIT (uio_sysfs_path workp @ ''/numa_node''))
                        O_RDONLY PDA_OPEN_DEFAULT_SPIN s;
        if fp = -1 then Some (0, s)
        else do {
          let (res, s) = c_sys (sys_read E fp 3) s;
          let s = snd (c_close E fp s);
          let bytes = (case res of None \<Rightarrow> [] | Some bs \<Rightarrow> take 3 bs);
          if res \<noteq> None \<and> bytes = [] then Some (0, s)
          else do {
            let numa_node_id = scan_numa (numa_string bytes);
            let (ok, w) = sys_numa_run_on_node E numa_node_id (world s);
            Some (if ok then numa_node_id else 0, s\<lparr>world := w\<rparr>)
          }
        }
      })"

section \<open>Deletion\<close>

definition PciDevice_delete_dep :: "'w env \<Rightarrow> addr \<Rightarrow> 'w pstate \<Rightarrow> (PdaDebugReturnCode \<times> 'w pstate) option" where
  "PciDevice_delete_dep E device s =
     do {
       workp \<leftarrow> get_workp device s;
       s \<leftarrow> (if 0 \<le> uio_device_fd workp
             then upd_workp device (\<lambda>i. i\<lparr>uio_device_fd := -1\<rparr>) (snd (c_close E (uio_device_fd workp) s))
             else Some s);
       s \<leftarrow> (if 0 \<le> uio_config_fd workp
             then upd_workp device (\<lambda>i. i\<lparr>uio_config_fd := -1\<rparr>) (snd (c_close E (uio_config_fd workp) s))
             else Some s);
       Some (PDA_SUCCESS, s)
     }"

definition PciDevice_killISR :: "'w env \<Rightarrow> addr \<Rightarrow> 'w pstate \<Rightarrow> 'w pstate option" where
  "PciDevice_killISR E device s =
     do { d \<leftarrow> devs s device; Some (s\<lparr>world := sys_pthread_cancel E (interrupt_thread d) (world s)\<rparr>) }"

text \<open>The loop over the registers, with the codes added up.\<close>

fun delete_bars :: "'w env \<Rightarrow> ptr list \<Rightarrow> PdaDebugReturnCode \<Rightarrow> 'w pstate \<Rightarrow> (PdaDebugReturnCode \<times> 'w pstate) option" where
  "delete_bars E [] ret s = Some (ret, s)"
| "delete_bars E (b # bs) ret s =
     (case b of
        None \<Rightarrow> delete_bars E bs ret s
      | Some p \<Rightarrow> Option.bind (Bar_delete E (Some p) s) (\<lambda>(r, s). delete_bars E bs (ret + r) s))"

text \<open>
  A device with an interrupt routine is deleted by the code for good: \<open>pthread_exit\<close> ends the
  calling thread, the function does not return.
\<close>

datatype delete_result = Returns PdaDebugReturnCode | Thread_exits

definition PciDevice_delete :: "'w env \<Rightarrow> ptr \<Rightarrow> u8 \<Rightarrow> 'w pstate \<Rightarrow> (delete_result \<times> 'w pstate) option" where
  "PciDevice_delete E device persistant s =
     (case device of
        None \<Rightarrow> Some (Returns PDA_SUCCESS, s)
      | Some a \<Rightarrow> do {
          d \<leftarrow> devs s a;
          let ISRHandlingIsNeeded = (interrupt d \<noteq> None);
          s \<leftarrow> (if ISRHandlingIsNeeded then PciDevice_killISR E a s else Some s);
          (r1, s) \<leftarrow> delete_bars E (dev_bar d) PDA_SUCCESS s;
          (r2, s) \<leftarrow> DMABuffer_freeAllBuffersInt E (dma_buffer_list d) persistant s;
          s \<leftarrow> upd_dev a (\<lambda>d. d\<lparr>dma_buffer_list := None\<rparr>) s;
          (r3, s) \<leftarrow> PciDevice_delete_dep E a s;
          let s = s\<lparr>devs := (devs s)(a := None)\<rparr>;
          Some (if ISRHandlingIsNeeded then Thread_exits else Returns (r1 + r2 + r3), s)
        })"

text \<open>
  \<open>PciDevice_new_op\<close>. The two id strings are copied into arrays of seven characters with a bound
  of \<open>PDA_STRING_LIMIT\<close>: a longer string leaves the array. Both jumps to \<open>exit\<close> happen while
  \<open>device\<close> is \<open>NULL\<close>.
\<close>

definition new_op_exit :: "'w env \<Rightarrow> 'w pstate \<Rightarrow> (ptr \<times> 'w pstate) option" where
  "new_op_exit E s =
     do { (_, s) \<leftarrow> PciDevice_delete E None PDA_DELETE_PERSISTANT (snd (ERROR E ENODEV s)); Some (None, s) }"

definition PciDevice_new_op ::
  "'w env \<Rightarrow> string \<Rightarrow> string \<Rightarrow> string \<Rightarrow> bdf \<Rightarrow> 'w pstate \<Rightarrow> (ptr \<times> 'w pstate) option" where
  "PciDevice_new_op E entry vendor dev_name ids s =
     (case c_sys (sys_access E (c_snprintf PDA_STRING_LIMIT (uio_sysfs_dir s @ ''/'' @ entry))) s of
        (None, s) \<Rightarrow> new_op_exit E s
      | (Some _, s) \<Rightarrow>
          (case PciDevice_new_int E s of
             (None, s) \<Rightarrow> new_op_exit E s
           | (Some a, s) \<Rightarrow>
               if 7 \<le> length vendor \<or> 7 \<le> length dev_name then None
               else do {
                 s \<leftarrow> upd_workp a (\<lambda>i. i\<lparr>uio_sysfs_entry := c_snprintf PDA_STRING_LIMIT entry,
                        uio_sysfs_path := c_snprintf PDA_STRING_LIMIT (uio_sysfs_dir s @ ''/'' @ entry),
                        uio_device_fd := -1, uio_config_fd := -1\<rparr>) s;
                 s \<leftarrow> upd_dev a (\<lambda>d. d\<lparr>vendor_str := vendor, device_str := dev_name, max_payload_size := 0,
                        max_read_request_size := 0, bar_init := False, isr_init := False,
                        domain_id := fst ids, bus_id := fst (snd ids), device_id := fst (snd (snd ids)),
                        function_id := snd (snd (snd ids)), dev_bar := replicate PDA_MAX_PCI_32_BARS None\<rparr>) s;
                 s \<leftarrow> (if cfg_NUMA_AVAIL E
                       then do {
                         (node, s) \<leftarrow> PciDevice_setNumaNodeAffinity E a s;
                         upd_workp a (\<lambda>i. i\<lparr>numa_node := node\<rparr>) s
                       }
                       else Some s);
                 Some (Some a, s)
               }))"

definition PciDevice_new :: "'w env \<Rightarrow> u16 \<Rightarrow> u8 \<Rightarrow> u8 \<Rightarrow> u8 \<Rightarrow> 'w pstate \<Rightarrow> (ptr \<times> 'w pstate) option" where
  "PciDevice_new E dmn bus dev func s =
     PciDevice_new_op E (c_snprintf PDA_STRING_LIMIT (UIO_PATH_FORMAT dmn bus dev func)) ''0000'' ''0000''
       (dmn, bus, dev, func) (s\<lparr>uio_sysfs_dir := c_snprintf PDA_STRING_LIMIT UIO_DMA_SYSFS_DIR\<rparr>)"

section \<open>Interrupts\<close>

text \<open>
  The interrupt thread. One turn of its endless loop enables the interrupt, waits for it and calls
  the user's routine; \<open>False\<close> stands for the jump to \<open>exit\<close>, where the thread ends.
\<close>

definition isr_turn :: "'w env \<Rightarrow> addr \<Rightarrow> u8 \<Rightarrow> 'w pstate \<Rightarrow> (bool \<times> 'w pstate) option" where
  "isr_turn E device command_high s =
     do {
       workp \<leftarrow> get_workp device s;
       let (res, s) = c_sys (sys_pwrite E (uio_config_fd workp) [command_high] 5) s;
       if res \<noteq> Some 1 then Some (False, snd (ERROR E ECHILD s))
       else do {
         let (res, s) = c_sys (sys_read E (uio_device_fd workp) 4) s;
         let bytes = (case res of None \<Rightarrow> [] | Some bs \<Rightarrow> take 4 bs);
         if length bytes \<noteq> 4 then Some (False, snd (ERROR E ECHILD s))
         else do {
           d \<leftarrow> devs s device;
           f \<leftarrow> interrupt d;
           Some (True, s\<lparr>world := sys_interrupt E f (bytes_word bytes) (interrupt_data d) (world s)\<rparr>)
         }
       }
     }"

partial_function (option) isr_loop :: "'w env \<Rightarrow> addr \<Rightarrow> u8 \<Rightarrow> 'w pstate \<Rightarrow> 'w pstate option" where
  "isr_loop E device command_high s =
     Option.bind (isr_turn E device command_high s)
       (\<lambda>(go, s). if go then isr_loop E device command_high s else Some s)"

declare isr_loop.simps [code]

definition PciDevice_isr_thread :: "'w env \<Rightarrow> addr \<Rightarrow> 'w pstate \<Rightarrow> 'w pstate option" where
  "PciDevice_isr_thread E device s =
     do {
       workp \<leftarrow> get_workp device s;
       (case c_sys (sys_pread E (uio_config_fd workp) 1 5) s of
          (Some [command_high], s) \<Rightarrow> isr_loop E device (command_high AND NOT 0x4) s
        | (_, s) \<Rightarrow> Some (snd (ERROR E ECHILD s)))
     }"

text \<open>The first directory entry whose name starts with \<open>uio\<close>.\<close>

definition is_uio_entry :: "dirent \<Rightarrow> bool" where
  "is_uio_entry e \<longleftrightarrow> take 3 (d_name e) = ''uio''"

definition isr_init_exit :: "'w env \<Rightarrow> 'w pstate \<Rightarrow> (PdaDebugReturnCode \<times> 'w pstate) option" where
  "isr_init_exit E s = Some (compl_PDA_SUCCESS, snd (ERROR E (errno s) s))"

definition PciDevice_isr_init :: "'w env \<Rightarrow> addr \<Rightarrow> 'w pstate \<Rightarrow> (PdaDebugReturnCode \<times> 'w pstate) option" where
  "PciDevice_isr_init E device s =
     do {
       d \<leftarrow> devs s device;
       if isr_init d then Some (PDA_SUCCESS, s)
       else do {
         (r, s) \<leftarrow> PciDevice_init_bars E device s;
         if r \<noteq> PDA_SUCCESS then Some (ERROR E (errno s) s)
         else do {
           workp \<leftarrow> get_workp device s;
           (case c_sys (sys_opendir E (c_snprintf PDA_STRING_LIMIT
                   (uio_sysfs_dir s @ ''/'' @ uio_sysfs_entry workp @ ''/uio/''))) s of
              (None, s) \<Rightarrow> isr_init_exit E s
            | (Some entries, s) \<Rightarrow> do {
                s \<leftarrow> (case filter is_uio_entry entries of
                        [] \<Rightarrow> Some s
                      | e # _ \<Rightarrow> upd_workp device (\<lambda>i. i\<lparr>uio_device_filename :=
                          c_snprintf PDA_STRING_LIMIT (UIO_DEVFS_DIR @ ''/'' @ d_name e)\<rparr>) s);
                let s = s\<lparr>world := sys_closedir E (world s)\<rparr>;
                workp \<leftarrow> get_workp device s;
                let (fd, s) = pda_spinOpen E (uio_device_filename workp) O_RDWR PDA_OPEN_DEFAULT_SPIN s;
                s \<leftarrow> upd_workp device (\<lambda>i. i\<lparr>uio_device_fd := fd\<rparr>) s;
                if fd = -1 then isr_init_exit E s
                else do {
                  s \<leftarrow> upd_dev device (\<lambda>d. d\<lparr>isr_init := True\<rparr>) s;
                  Some (PDA_SUCCESS, s)
                }
              })
         }
       }
     }"

definition PciDevice_registerISR ::
  "'w env \<Rightarrow> ptr \<Rightarrow> ptr \<Rightarrow> u64 \<Rightarrow> 'w pstate \<Rightarrow> (PdaDebugReturnCode \<times> 'w pstate) option" where
  "PciDevice_registerISR E device isr data s =
     (case device of
        None \<Rightarrow> Some (ERROR E EINVAL s)
      | Some a \<Rightarrow>
          if isr = None then Some (ERROR E EINVAL s)
          else do {
            d \<leftarrow> devs s a;
            if interrupt d \<noteq> None then Some (ERROR E EINVAL s)
            else do {
              s \<leftarrow> upd_dev a (\<lambda>d. d\<lparr>interrupt := isr, interrupt_data := data\<rparr>) s;
              (r, s) \<leftarrow> PciDevice_isr_init E a s;
              if r \<noteq> PDA_SUCCESS then Some (ERROR E EINVAL s)
              else (case sys_pthread_create E a (world s) of
                  (Inl _, w) \<Rightarrow> Some (ERROR E ECHILD (s\<lparr>world := w\<rparr>))
                | (Inr t, w) \<Rightarrow> do {
                    s \<leftarrow> upd_dev a (\<lambda>d. d\<lparr>interrupt_thread := t\<rparr>) (s\<lparr>world := w\<rparr>);
                    Some (PDA_SUCCESS, s)
                  })
            }
          })"

section \<open>The buffers of a device\<close>

text \<open>The result pointer \<open>*buffer\<close> is \<open>Some p\<close> where the code assigns it and \<open>None\<close> where it leaves it.\<close>

definition PciDevice_allocDMABuffer ::
  "'w env \<Rightarrow> ptr \<Rightarrow> u64 \<Rightarrow> u64 \<Rightarrow> 'w pstate \<Rightarrow> ((PdaDebugReturnCode \<times> ptr option) \<times> 'w pstate) option" where
  "PciDevice_allocDMABuffer E device index sz s =
     (case device of
        None \<Rightarrow> Some ((EFAULT, None), snd (ERROR E EINVAL s))
      | Some a \<Rightarrow> do {
          (ret, s) \<leftarrow> DMABuffer_new E a index 0 sz PDA_BUFFER_KERNEL s;
          if ret \<noteq> PDA_SUCCESS then Some ((ret, None), snd (ERROR E EINVAL s))
          else do {
            d \<leftarrow> devs s a;
            tail \<leftarrow> DMABuffer_getTail (bufs s) (dma_buffer_list d);
            Some ((ret, Some tail), s)
          }
        })"

definition PciDevice_deleteDMABuffer ::
  "'w env \<Rightarrow> ptr \<Rightarrow> ptr \<Rightarrow> 'w pstate \<Rightarrow> (PdaDebugReturnCode \<times> 'w pstate) option" where
  "PciDevice_deleteDMABuffer E device buffer s =
     (case device of
        None \<Rightarrow> Some (EINVAL, snd (ERROR E EINVAL s))
      | Some a \<Rightarrow>
          (if buffer = None then Some (EINVAL, snd (ERROR E EINVAL s))
           else do {
             d \<leftarrow> devs s a;
             if buffer = dma_buffer_list d then do {
               (r, head) \<leftarrow> DMABuffer_getNext (bufs s) buffer;
               if r \<noteq> PDA_SUCCESS then Some (EINVAL, snd (ERROR E EINVAL s))
               else do {
                 s \<leftarrow> upd_dev a (\<lambda>d. d\<lparr>dma_buffer_list := Option.bind head id\<rparr>) s;
                 DMABuffer_free E buffer PDA_DELETE s
               }
             }
             else DMABuffer_free E buffer PDA_DELETE s
           }))"

text \<open>
  The search of \<open>PciDevice_getDMABuffer\<close>. The pointer that \<open>DMABuffer_getNext\<close> is called with is
  never \<open>NULL\<close> in the loop, so the two tests of codes in its body cannot fail.
\<close>

partial_function (option) getDMABuffer_loop :: "buf_heap \<Rightarrow> u64 \<Rightarrow> ptr \<Rightarrow> ptr option" where
  "getDMABuffer_loop h index current =
     (case current of
        None \<Rightarrow> Some None
      | Some a \<Rightarrow>
          Option.bind (DMABuffer_getIndex h current) (\<lambda>(_, current_index).
            if current_index = Some index then Some current
            else Option.bind (DMABuffer_getNext h current) (\<lambda>(_, nxt).
              getDMABuffer_loop h index (Option.bind nxt id))))"

declare getDMABuffer_loop.simps [code]

partial_function (option) PciDevice_getDMABuffer ::
  "'w env \<Rightarrow> addr \<Rightarrow> u64 \<Rightarrow> 'w pstate \<Rightarrow> ((PdaDebugReturnCode \<times> ptr option) \<times> 'w pstate) option" where
  "PciDevice_getDMABuffer E device index s =
     Option.bind (devs s device) (\<lambda>d.
     Option.bind (getDMABuffer_loop (bufs s) index (dma_buffer_list d)) (\<lambda>found.
       if found \<noteq> None then Some ((PDA_SUCCESS, Some found), s)
       else Option.bind (DMABuffer_new E device index 0 0 PDA_BUFFER_LOOKUP s) (\<lambda>(ret, s).
         if ret = PDA_SUCCESS
         then Option.bind (PciDevice_getDMABuffer E device index s) (\<lambda>((r, buffer), s). Some ((ret + r, buffer), s))
         else Some ((ret, None), s))))"

declare PciDevice_getDMABuffer.simps [code]

definition PciDevice_registerDMABuffer ::
  "'w env \<Rightarrow> ptr \<Rightarrow> u64 \<Rightarrow> u64 \<Rightarrow> u64 \<Rightarrow> 'w pstate
   \<Rightarrow> ((PdaDebugReturnCode \<times> ptr option) \<times> 'w pstate) option" where
  "PciDevice_registerDMABuffer E device index start sz s =
     (case device of
        None \<Rightarrow> Some ((EFAULT, None), snd (ERROR E EINVAL s))
      | Some a \<Rightarrow>
          if start = 0 then Some ((EFAULT, None), snd (ERROR E EINVAL s))
          else do {
            (r1, s) \<leftarrow> DMABuffer_new E a index start sz PDA_BUFFER_USER s;
            ((r2, buffer), s) \<leftarrow> PciDevice_getDMABuffer E a index s;
            let ret = r1 + r2;
            Some ((ret, buffer), if ret \<noteq> PDA_SUCCESS then snd (ERROR E EINVAL s) else s)
          })"

definition PciDevice_freeAllBuffers :: "'w env \<Rightarrow> addr \<Rightarrow> 'w pstate \<Rightarrow> (PdaDebugReturnCode \<times> 'w pstate) option" where
  "PciDevice_freeAllBuffers E device s =
     do {
       d \<leftarrow> devs s device;
       (r, s) \<leftarrow> DMABuffer_freeAllBuffers E (dma_buffer_list d) s;
       if r \<noteq> PDA_SUCCESS then Some (EFAULT, snd (ERROR E EFAULT s))
       else DMABuffer_delete_not_attached_buffers E (Some device) s
     }"

section \<open>Attributes\<close>

text \<open>
  The two sizes are read once from sysfs, as the four bytes of an \<open>int\<close> that is then widened with
  its sign, and kept in the object.
\<close>

definition getsize ::
  "(PciDevice \<Rightarrow> u64) \<Rightarrow> (u64 \<Rightarrow> PciDevice \<Rightarrow> PciDevice) \<Rightarrow> (string \<Rightarrow> PciDeviceInternal \<Rightarrow> PciDeviceInternal) \<Rightarrow> string
   \<Rightarrow> 'w env \<Rightarrow> ptr \<Rightarrow> bool \<Rightarrow> 'w pstate \<Rightarrow> ((PdaDebugReturnCode \<times> u64 option) \<times> 'w pstate) option" where
  "getsize get_size set_size set_name attr E device target s =
     (case device of
        None \<Rightarrow> Some (let (c, s) = ERROR E EINVAL s in ((c, None), s))
      | Some a \<Rightarrow>
          if \<not> target then Some (let (c, s) = ERROR E EINVAL s in ((c, None), s))
          else do {
            d \<leftarrow> devs s a;
            if get_size d \<noteq> 0 then Some ((PDA_SUCCESS, Some (get_size d)), s)
            else do {
              workp \<leftarrow> dev_internal d;
              let path = c_snprintf PDA_STRING_LIMIT (uio_sysfs_path workp @ ''/dma/'' @ attr);
              s \<leftarrow> upd_workp a (set_name path) s;
              let (fd, s) = pda_spinOpen E path O_RDONLY PDA_OPEN_DEFAULT_SPIN s;
              if fd < 0
              then Some (let (c, s) = ERROR E EINVAL (snd (ERROR E (errno s) s)) in ((c, None), s))
              else do {
                let (res, s) = c_sys (sys_read E fd 4) s;
                let bytes = (case res of None \<Rightarrow> [] | Some bs \<Rightarrow> take 4 bs);
                if length bytes \<noteq> 4
                then Some (let (c, s) = ERROR E EINVAL (snd (ERROR E (errno s) s)) in ((c, None), s))
                else do {
                  let v = (scast (bytes_word bytes :: u32) :: u64);
                  s \<leftarrow> upd_dev a (set_size v) s;
                  Some ((PDA_SUCCESS, Some v), snd (c_close E fd s))
                }
              }
            }
          })"

definition PciDevice_getmaxPayloadSize ::
  "'w env \<Rightarrow> ptr \<Rightarrow> bool \<Rightarrow> 'w pstate \<Rightarrow> ((PdaDebugReturnCode \<times> u64 option) \<times> 'w pstate) option" where
  "PciDevice_getmaxPayloadSize =
     getsize max_payload_size (\<lambda>v d. d\<lparr>max_payload_size := v\<rparr>) (\<lambda>p i. i\<lparr>uio_mps_filename := p\<rparr>) ''max_payload_size''"

definition PciDevice_getmaxReadRequestSize ::
  "'w env \<Rightarrow> ptr \<Rightarrow> bool \<Rightarrow> 'w pstate \<Rightarrow> ((PdaDebugReturnCode \<times> u64 option) \<times> 'w pstate) option" where
  "PciDevice_getmaxReadRequestSize =
     getsize max_read_request_size (\<lambda>v d. d\<lparr>max_read_request_size := v\<rparr>) (\<lambda>p i. i\<lparr>uio_mrrs_filename := p\<rparr>)
       ''max_read_request_size''"

text \<open>
  The ids of all buffers the driver holds for the device, in an array that doubles when it is full.
  A fresh block of \<open>malloc\<close> is modelled as zeros; the code reads only entries it wrote. The loop
  gives the entries so far, the block and its capacity; \<open>Inl\<close> of the capacity stands for the jump
  to \<open>exit\<close> when no larger block is to be had.
\<close>

definition id_block :: "u64 \<Rightarrow> u64 list" where
  "id_block max_entries = replicate (unat (max_entries * 8) div 8) 0"

fun listOfBuffers_loop ::
  "'w env \<Rightarrow> dirent list \<Rightarrow> nat \<Rightarrow> u64 list \<Rightarrow> u64 \<Rightarrow> 'w pstate
   \<Rightarrow> ((u64 + nat \<times> u64 list \<times> u64) \<times> 'w pstate) option" where
  "listOfBuffers_loop E [] buffer_count ids max_entries s = Some (Inr (buffer_count, ids, max_entries), s)"
| "listOfBuffers_loop E (e # es) buffer_count ids max_entries s =
     (if is_buffer_entry e then
        Option.bind
          (if unat max_entries \<le> buffer_count then
             (let max_entries = max_entries * 2 in
              case c_alloc E (unat (max_entries * 8)) s of
                (False, s) \<Rightarrow> Some (Inl max_entries, snd (ERROR E (errno s) s))
              | (True, s) \<Rightarrow>
                  if buffer_count \<le> length (id_block max_entries) \<and> buffer_count \<le> length ids
                  then Some (Inr (take buffer_count ids @ drop buffer_count (id_block max_entries), max_entries), s)
                  else None)
           else Some (Inr (ids, max_entries), s))
          (\<lambda>(grown, s).
             case grown of
               Inl max_entries \<Rightarrow> Some (Inl max_entries, s)
             | Inr (ids, max_entries) \<Rightarrow>
                 Option.bind (list_put ids buffer_count (or_zero (scan_u64 (d_name e)))) (\<lambda>ids.
                   listOfBuffers_loop E es (Suc buffer_count) ids max_entries s))
      else listOfBuffers_loop E es buffer_count ids max_entries s)"

text \<open>
  When the first \<open>malloc\<close> fails, the exit block tests \<open>directory\<close> before its initialisation:
  undefined.
\<close>

definition PciDevice_getListOfBuffers ::
  "'w env \<Rightarrow> addr \<Rightarrow> 'w pstate \<Rightarrow> ((u64 \<times> u64 list option) \<times> 'w pstate) option" where
  "PciDevice_getListOfBuffers E device s =
     do {
       d \<leftarrow> devs s device;
       (ids, s) \<leftarrow> (case dma_buffer_id_list d of
           Some ids \<Rightarrow> Some (ids, s)
         | None \<Rightarrow>
             (case c_alloc E (unat (dma_buffer_id_list_max_entries d * 8)) s of
                (True, s) \<Rightarrow> Some (id_block (dma_buffer_id_list_max_entries d), s)
              | (False, s) \<Rightarrow> None));
       (case c_sys (sys_opendir E (dma_path (dev_bdf d) [])) s of
          (None, s) \<Rightarrow> do {
            s \<leftarrow> upd_dev device (\<lambda>d. d\<lparr>dma_buffer_id_list := None\<rparr>) (snd (ERROR E (errno s) s));
            Some ((0, None), s)
          }
        | (Some entries, s) \<Rightarrow> do {
            (res, s) \<leftarrow> listOfBuffers_loop E entries 0 ids (dma_buffer_id_list_max_entries d) s;
            (case res of
               Inl mx \<Rightarrow> do {
                 s \<leftarrow> upd_dev device (\<lambda>d. d\<lparr>dma_buffer_id_list := None, dma_buffer_id_list_max_entries := mx\<rparr>) s;
                 Some ((0, None), s\<lparr>world := sys_closedir E (world s)\<rparr>)
               }
             | Inr (buffer_count, ids, mx) \<Rightarrow> do {
                 s \<leftarrow> upd_dev device (\<lambda>d. d\<lparr>dma_buffer_id_list := Some ids, dma_buffer_id_list_max_entries := mx\<rparr>) s;
                 Some ((of_nat buffer_count, Some ids), s\<lparr>world := sys_closedir E (world s)\<rparr>)
               })
          })
     }"

end
