(* ===== verification/PDA_DeviceBuffers.thy ===== *)
theory PDA_DeviceBuffers
  imports PDA_Pci
begin

text \<open>
  The buffers of a device through its interface (\<open>PciDevice_allocDMABuffer\<close>,
  \<open>PciDevice_registerDMABuffer\<close>, \<open>PciDevice_getDMABuffer\<close>, \<open>PciDevice_deleteDMABuffer\<close>,
  \<open>PciDevice_getListOfBuffers\<close>): what each returns, and that any sequence of them, from a new device
  on, keeps the buffer list well formed.

  The facts about single calls rest on \<open>DMABuffer_new_outcome\<close> and \<open>DMABuffer_free_outcome\<close> of
  \<open>PDA_BufferLife\<close>.
\<close>

section \<open>Searching and appending\<close>

definition has_index :: "buf_heap \<Rightarrow> u64 \<Rightarrow> addr \<Rightarrow> bool" where
  "has_index h index a \<longleftrightarrow> map_option buf_index (h a) = Some index"

lemma getDMABuffer_loop_find:
  "dseg h p xs None \<Longrightarrow> getDMABuffer_loop h index (first_or None xs) = Some (find (has_index h index) xs)"
proof (induction xs arbitrary: p)
  case Nil
  show ?case by (simp add: getDMABuffer_loop.simps)
next
  case (Cons x xs)
  then obtain b where "h x = Some b" "buf_next b = first_or None xs" by auto
  with Cons show ?case
    by (auto simp: getDMABuffer_loop.simps[of h index "Some x"] DMABuffer_getIndex_def DMABuffer_getNext_def
        DMA_BUFFER_GET_FUNCTION_def has_index_def)
qed

lemma getDMABuffer_search:
  assumes "buffer_list s d xs"
  shows "\<exists>dev. devs s d = Some dev \<and>
    getDMABuffer_loop (bufs s) index (dma_buffer_list dev) = Some (find (has_index (bufs s) index) xs)"
  using assms getDMABuffer_loop_find by (auto simp: buffer_list_def dll_def)

lemma find_Some_hit: "find P xs = Some a \<Longrightarrow> a \<in> set xs \<and> P a"
  by (auto simp: find_Some_iff)

lemma has_index_payload:
  assumes "map_option payload (h' a) = map_option payload (h a)"
  shows "has_index h' index a \<longleftrightarrow> has_index h index a"
proof -
  have "map_option buf_index (h' a) = map_option buf_index (h a)"
    using arg_cong[OF assms, of "map_option buf_index"] by (simp add: option.map_comp comp_def index_payload)
  then show ?thesis by (simp only: has_index_def)
qed

lemma buffer_list_getTail:
  assumes "buffer_list s d (xs @ [a])"
  shows "\<exists>dev. devs s d = Some dev \<and> DMABuffer_getTail (bufs s) (dma_buffer_list dev) = Some (Some a)"
proof -
  obtain dev where dev: "devs s d = Some dev" "dma_buffer_list dev = first_or None (xs @ [a])"
    and dll: "dseg (bufs s) None (xs @ [a]) None"
    using assms by (auto simp: buffer_list_def dll_def)
  obtain y ys where ys: "xs @ [a] = y # ys" by (cases xs) auto
  then have "last (y # ys) = a" by (metis last_snoc)
  with dev dll DMABuffer_getTail_dseg[of "bufs s" None y ys] show ?thesis
    by (auto simp: ys)
qed

text \<open>The states of a process that the interface works on.\<close>

definition device_ok :: "addr \<Rightarrow> 'w pstate \<Rightarrow> bool" where
  "device_ok d s \<longleftrightarrow> 0 \<le> errno s \<and> (\<exists>xs. buffer_list s d xs)"

definition good_env :: "'w env \<Rightarrow> bool" where
  "good_env E \<longleftrightarrow> posix_env E \<and> \<not> cfg_DEBUG E \<and> (\<forall>n w. fst (sys_alloc E n w))"

lemmas new_outcome = DMABuffer_new_outcome[of E s d xs index start len ty for E s d xs index start len ty]

lemma allocDMABuffer_outcome:
  assumes E: "good_env E" and inv: "buffer_list s d xs" and err: "0 \<le> errno s"
  shows "\<exists>r p s'. PciDevice_allocDMABuffer E (Some d) index sz s = Some ((r, p), s') \<and> 0 \<le> errno s' \<and>
    (if r = PDA_SUCCESS
     then p = Some (Some (brk s)) \<and> buffer_list s' d (xs @ [brk s]) \<and>
       (\<forall>a. a \<noteq> brk s \<longrightarrow> map_option payload (bufs s' a) = map_option payload (bufs s a)) \<and>
       (index \<noteq> PDA_BUFFER_INDEX_UNDEFINED \<longrightarrow> has_index (bufs s') index (brk s))
     else p = None \<and> buffer_list s' d xs \<and> bufs s' = bufs s) \<and>
    (granting E \<and> creatable E 0 sz PDA_BUFFER_KERNEL \<longrightarrow> r = PDA_SUCCESS)"
proof -
  obtain r s1 where new: "DMABuffer_new E d index 0 sz PDA_BUFFER_KERNEL s = Some (r, s1)" "0 \<le> errno s1"
    "if r = PDA_SUCCESS then buffer_list s1 d (xs @ [brk s]) \<and>
        (\<forall>a. a \<noteq> brk s \<longrightarrow> map_option payload (bufs s1 a) = map_option payload (bufs s a)) \<and>
        (index \<noteq> PDA_BUFFER_INDEX_UNDEFINED \<longrightarrow> has_index (bufs s1) index (brk s))
     else buffer_list s1 d xs \<and> bufs s1 = bufs s"
    "granting E \<and> creatable E 0 sz PDA_BUFFER_KERNEL \<longrightarrow> r = PDA_SUCCESS"
    using new_outcome[OF _ _ _ inv err, of E index 0 sz PDA_BUFFER_KERNEL] E
    unfolding good_env_def has_index_def by metis
  show ?thesis
  proof (cases "r = PDA_SUCCESS")
    case True
    with new buffer_list_getTail[of s1 d xs "brk s"] show ?thesis
      by (auto simp: PciDevice_allocDMABuffer_def)
  next
    case False
    with new E show ?thesis
      by (auto simp: PciDevice_allocDMABuffer_def good_env_def buffer_list_def raw_buffer_def)
  qed
qed

text \<open>
  The lookup. Its recursive call finds the buffer that \<open>DMABuffer_new\<close> has just appended, so it is
  entered once at most; an explicit index is needed for that.
\<close>

lemma getDMABuffer_hit:
  assumes "buffer_list s d xs" and "find (has_index (bufs s) index) xs = Some a"
  shows "PciDevice_getDMABuffer E d index s = Some ((PDA_SUCCESS, Some (Some a)), s)"
  using getDMABuffer_search[OF assms(1), of index] assms(2)
  by (auto simp: PciDevice_getDMABuffer.simps[of E d index s])

lemma getDMABuffer_miss:
  assumes "buffer_list s d xs" and "find (has_index (bufs s) index) xs = None"
  shows "PciDevice_getDMABuffer E d index s =
    Option.bind (DMABuffer_new E d index 0 0 PDA_BUFFER_LOOKUP s) (\<lambda>(ret, s).
      if ret = PDA_SUCCESS
      then Option.bind (PciDevice_getDMABuffer E d index s) (\<lambda>((r, buffer), s). Some ((ret + r, buffer), s))
      else Some ((ret, None), s))"
  using getDMABuffer_search[OF assms(1), of index] assms(2)
  by (auto simp: PciDevice_getDMABuffer.simps[of E d index s])

text \<open>A buffer appended with an index that was not in use is the one the search finds.\<close>

lemma find_appended:
  assumes "\<forall>a. a \<noteq> new \<longrightarrow> map_option payload (h' a) = map_option payload (h a)" and "has_index h' index new"
    and "\<forall>a \<in> set xs. \<not> has_index h index a" and "new \<notin> set xs"
  shows "find (has_index h' index) (xs @ [new]) = Some new"
proof -
  have "\<not> has_index h' index a" if "a \<in> set xs" for a
    using that assms has_index_payload[of h' a h index] by (metis (no_types))
  then show ?thesis using assms(2) by (induction xs) auto
qed

lemma getDMABuffer_outcome:
  assumes E: "good_env E" and inv: "buffer_list s d xs" and err: "0 \<le> errno s"
    and idx: "index \<noteq> PDA_BUFFER_INDEX_UNDEFINED"
  shows "\<exists>r p s' ys. PciDevice_getDMABuffer E d index s = Some ((r, p), s') \<and> 0 \<le> errno s' \<and>
    buffer_list s' d (xs @ ys) \<and>
    (if r = PDA_SUCCESS
     then \<exists>a. p = Some (Some a) \<and> a \<in> set (xs @ ys) \<and> has_index (bufs s') index a
     else p = None \<and> ys = [] \<and> bufs s' = bufs s) \<and> (granting E \<longrightarrow> r = PDA_SUCCESS)"
proof (cases "find (has_index (bufs s) index) xs")
  case (Some a)
  then show ?thesis
    using getDMABuffer_hit[OF inv Some] find_Some_hit[OF Some] inv err
    by (intro exI[of _ PDA_SUCCESS] exI[of _ "Some (Some a)"] exI[of _ s] exI[of _ "[]"]) auto
next
  case None
  obtain r s1 where new: "DMABuffer_new E d index 0 0 PDA_BUFFER_LOOKUP s = Some (r, s1)" "0 \<le> errno s1"
    "if r = PDA_SUCCESS then buffer_list s1 d (xs @ [brk s]) \<and> has_index (bufs s1) index (brk s)
     else buffer_list s1 d xs \<and> bufs s1 = bufs s" "granting E \<longrightarrow> r = PDA_SUCCESS"
    using new_outcome[OF _ _ _ inv err, of E index 0 0 PDA_BUFFER_LOOKUP] E idx
    unfolding good_env_def has_index_def by (simp add: creatable_def) (metis (full_types))
  show ?thesis
  proof (cases "r = PDA_SUCCESS")
    case True
    with new have l: "buffer_list s1 d (xs @ [brk s])" "has_index (bufs s1) index (brk s)" by auto
    then obtain a where a: "find (has_index (bufs s1) index) (xs @ [brk s]) = Some a"
      by (cases "find (has_index (bufs s1) index) (xs @ [brk s])") (auto simp: find_None_iff)
    have "PciDevice_getDMABuffer E d index s = Some ((PDA_SUCCESS, Some (Some a)), s1)"
      using getDMABuffer_miss[OF inv None, of E] getDMABuffer_hit[OF l(1) a, of E] new(1) True by simp
    with l new(2) find_Some_hit[OF a] show ?thesis
      by (intro exI[of _ PDA_SUCCESS] exI[of _ "Some (Some a)"] exI[of _ s1] exI[of _ "[brk s]"]) auto
  next
    case False
    with new getDMABuffer_miss[OF inv None, of E] show ?thesis
      by (intro exI[of _ r] exI[of _ None] exI[of _ s1] exI[of _ "[]"]) auto
  qed
qed

lemma registerDMABuffer_outcome:
  assumes E: "good_env E" and inv: "buffer_list s d xs" and err: "0 \<le> errno s"
    and idx: "index \<noteq> PDA_BUFFER_INDEX_UNDEFINED"
  shows "\<exists>r p s' ys. PciDevice_registerDMABuffer E (Some d) index start sz s = Some ((r, p), s') \<and>
    0 \<le> errno s' \<and> buffer_list s' d (xs @ ys)"
proof (cases "start = 0")
  case True
  then show ?thesis
    using inv E by (auto simp: PciDevice_registerDMABuffer_def good_env_def buffer_list_def raw_buffer_def intro!: exI[of _ "[]"])
next
  case False
  obtain r1 s1 zs where new: "DMABuffer_new E d index start sz PDA_BUFFER_USER s = Some (r1, s1)" "0 \<le> errno s1"
    "buffer_list s1 d (xs @ zs)"
    using new_outcome[OF _ _ _ inv err, of E index start sz PDA_BUFFER_USER] E
    unfolding good_env_def by (metis append.right_neutral)
  obtain r2 p s2 ys where get: "PciDevice_getDMABuffer E d index s1 = Some ((r2, p), s2)" "0 \<le> errno s2"
    "buffer_list s2 d ((xs @ zs) @ ys)"
    using getDMABuffer_outcome[OF E new(3,2) idx] by blast
  have "buffer_list (s2\<lparr>errno := EINVAL\<rparr>) d (xs @ zs @ ys)"
    using get(3) by (simp add: buffer_list_def raw_buffer_def)
  with False new get E show ?thesis
    by (auto simp: PciDevice_registerDMABuffer_def good_env_def Let_def
        intro!: exI[of _ "zs @ ys"])
qed

text \<open>
  Without an explicit index, \<open>DMABuffer_new\<close> chooses one of its own in every turn of the recursion, and the call need not
  return; whenever it does, the list is well formed.
\<close>

lemma DMABuffer_new_keeps:
  assumes "good_env E" and "device_ok d s" and "DMABuffer_new E d index start len ty s = Some (r, s')"
  shows "device_ok d s'"
proof -
  obtain xs where "buffer_list s d xs" "0 \<le> errno s" using assms(2) by (auto simp: device_ok_def)
  with new_outcome[of E s d xs index start len ty] assms(1,3) show ?thesis by (auto simp: good_env_def device_ok_def split: if_splits)
qed

lemma getDMABuffer_keeps:
  assumes run: "PciDevice_getDMABuffer E d index s = Some (res, s')" and "good_env E" and "device_ok d s"
  shows "device_ok d s'"
proof -
  let ?P = "\<lambda>E d index s y. good_env E \<longrightarrow> device_ok d s \<longrightarrow> device_ok d (snd y)"
  have "?P E d index s (res, s')"
  proof (rule PciDevice_getDMABuffer.raw_induct[where P = ?P, OF _ run], intro impI)
    fix f d index s y and E :: "'a env"
    assume IH: "\<And>E d index s y. f E d index s = Some y \<Longrightarrow> ?P E d index s y" and E: "good_env E" and ok: "device_ok d s"
      and eq: "Option.bind (devs s d) (\<lambda>dev. Option.bind (getDMABuffer_loop (bufs s) index (dma_buffer_list dev)) (\<lambda>found.
        if found \<noteq> None then Some ((PDA_SUCCESS, Some found), s)
        else Option.bind (DMABuffer_new E d index 0 0 PDA_BUFFER_LOOKUP s) (\<lambda>(ret, s).
          if ret = PDA_SUCCESS then Option.bind (f E d index s) (\<lambda>((r, buffer), s). Some ((ret + r, buffer), s))
          else Some ((ret, None), s)))) = Some y"
    then consider "snd y = s" | r s1 where "DMABuffer_new E d index 0 0 PDA_BUFFER_LOOKUP s = Some (r, s1)"
        "snd y = s1 \<or> (\<exists>z. f E d index s1 = Some z \<and> snd y = snd z)"
      by (auto simp: bind_eq_Some_conv split: if_splits)
    then show "device_ok d (snd y)"
      by cases (use ok E IH DMABuffer_new_keeps[OF E ok] in fastforce)+
  qed
  with assms(2,3) show ?thesis by simp
qed

lemma registerDMABuffer_keeps:
  assumes "PciDevice_registerDMABuffer E (Some d) index start sz s = Some (res, s')" and "good_env E" and "device_ok d s"
  shows "device_ok d s'"
proof (cases "start = 0")
  case True
  with assms show ?thesis by (auto simp: PciDevice_registerDMABuffer_def device_ok_def good_env_def buffer_list_def raw_buffer_def)
next
  case False
  then obtain r1 s1 r2 s2 where 1: "DMABuffer_new E d index start sz PDA_BUFFER_USER s = Some (r1, s1)"
    and 2: "PciDevice_getDMABuffer E d index s1 = Some (r2, s2)" and s': "s' = s2 \<or> s' = snd (ERROR E EINVAL s2)"
    using assms(1) by (auto simp: PciDevice_registerDMABuffer_def Let_def bind_eq_Some_conv split: if_splits)
  have "device_ok d s2" using getDMABuffer_keeps[OF 2 assms(2) DMABuffer_new_keeps[OF assms(2,3) 1]] .
  with s' show ?thesis using assms(2) by (auto simp: device_ok_def good_env_def buffer_list_def raw_buffer_def)
qed

section \<open>Deleting\<close>

lemma buffer_list_freed:
  assumes inv: "buffer_list s d (xs @ a # ys)" and fr: "freed xs a ys s1 s'" and s1: "bufs s1 = bufs s"
    and dev: "devs s' d = Some dev" "dev_internal dev = Some w" "dma_buffer_list dev = head_ptr (xs @ ys)"
    and brk: "brk s' = brk s"
  shows "buffer_list s' d (xs @ ys)"
proof -
  have pay: "map_option payload (bufs s' x) = map_option payload (bufs s x)" if "x \<noteq> a" for x
    using fr that s1 by (simp add: freed_def)
  have "a \<notin> set (xs @ ys)" using inv by (auto simp: buffer_list_def dll_def)
  then have "raw_buffer x s'" if "x \<in> set (xs @ ys)" for x
    using that inv raw_payload[OF _ pay] by (auto simp: buffer_list_def)
  moreover have "bufs s' x = None" if "brk s' \<le> x" for x
    using that inv pay[of x] fr brk by (cases "x = a") (auto simp: buffer_list_def freed_def)
  ultimately show ?thesis
    using fr dev by (auto simp: buffer_list_def freed_def)
qed

text \<open>The device after its head pointer was moved off the buffer to delete.\<close>

definition delete_head :: "PciDevice \<Rightarrow> addr list \<Rightarrow> addr list \<Rightarrow> PciDevice" where
  "delete_head dev xs ys = (if xs = [] then dev\<lparr>dma_buffer_list := head_ptr ys\<rparr> else dev)"

lemma deleteDMABuffer_eq:
  assumes "buffer_list s d (xs @ a # ys)" and "devs s d = Some dev"
  shows "PciDevice_deleteDMABuffer E (Some d) (Some a) s =
    DMABuffer_free E (Some a) PDA_DELETE (s\<lparr>devs := (devs s)(d \<mapsto> delete_head dev xs ys)\<rparr>)"
proof -
  have "dll (bufs s) (xs @ a # ys)" using assms(1) by (simp add: buffer_list_def)
  then obtain b where "bufs s a = Some b" "buf_next b = head_ptr ys" by (rule dll_links)
  moreover have "(Some a = dma_buffer_list dev) = (xs = [])"
    using assms by (cases xs) (auto simp: buffer_list_def dll_def)
  moreover have "(devs s)(d \<mapsto> dev) = devs s" using assms(2) by auto
  ultimately show ?thesis
    using assms(2)
    by (cases "xs = []") (auto simp: PciDevice_deleteDMABuffer_def DMABuffer_getNext_def DMA_BUFFER_GET_FUNCTION_def
        upd_dev_def delete_head_def)
qed

lemma deleteDMABuffer_outcome:
  assumes E: "good_env E" "\<not> unlock_fails E" and inv: "buffer_list s d (xs @ a # ys)" and err: "0 \<le> errno s"
  shows "\<exists>r s'. PciDevice_deleteDMABuffer E (Some d) (Some a) s = Some (r, s') \<and> 0 \<le> errno s' \<and>
    buffer_list s' d (xs @ ys) \<and> bufs s' a = None"
proof -
  obtain dev w where dev: "devs s d = Some dev" "dev_internal dev = Some w" "dma_buffer_list dev = head_ptr (xs @ a # ys)"
    using inv by (auto simp: buffer_list_def)
  define s1 where "s1 = s\<lparr>devs := (devs s)(d \<mapsto> delete_head dev xs ys)\<rparr>"
  have dll: "dll (bufs s1) (xs @ a # ys)" using inv by (simp add: buffer_list_def s1_def)
  obtain r s' where fr: "DMABuffer_free E (Some a) PDA_DELETE s1 = Some (r, s')" "devs s' = devs s1" "brk s' = brk s1"
    "errno_step s1 s'" "freed xs a ys s1 s'"
    using DMABuffer_free_outcome[OF _ dll, of E PDA_DELETE] E by (auto simp: good_env_def)
  have "dma_buffer_list (delete_head dev xs ys) = head_ptr (xs @ ys)" "dev_internal (delete_head dev xs ys) = Some w"
    using dev by (cases xs; simp add: delete_head_def)+
  with buffer_list_freed[OF inv fr(5)] fr(2,3) have "buffer_list s' d (xs @ ys)"
    by (simp add: s1_def)
  moreover have "0 \<le> errno s'" using fr(4) err by (auto simp: errno_step_def s1_def)
  ultimately show ?thesis
    using deleteDMABuffer_eq[OF inv dev(1), of E] fr(1,5) by (simp add: s1_def freed_def)
qed

section \<open>Sequences of calls\<close>

text \<open>A pointer to a buffer of the list, as the interface has handed it out.\<close>

inductive listed :: "buf_heap \<Rightarrow> ptr \<Rightarrow> addr \<Rightarrow> bool" where
  here: "listed h (Some a) a"
| later: "h x = Some b \<Longrightarrow> listed h (buf_next b) a \<Longrightarrow> listed h (Some x) a"

inductive_cases listed_None [elim!]: "listed h None a"
inductive_cases listed_Some: "listed h (Some x) a"

lemma listed_dseg: "dseg h p xs None \<Longrightarrow> listed h (first_or None xs) a \<longleftrightarrow> a \<in> set xs"
proof (induction xs arbitrary: p)
  case (Cons x xs)
  then obtain b where "h x = Some b" "buf_next b = first_or None xs" by auto
  with Cons show ?case by (auto elim: listed_Some intro: here later)
qed auto

text \<open>
  One call of the interface that has returned, with whatever index, size and address, and whatever result; a deletion is of a
  buffer of the list. (\<open>PciDevice_freeAllBuffers\<close> is none of them: it leaves the pointer of the device at a freed buffer.)
\<close>

inductive device_call :: "'w env \<Rightarrow> addr \<Rightarrow> 'w pstate \<Rightarrow> 'w pstate \<Rightarrow> bool" for E d where
  alloc: "PciDevice_allocDMABuffer E (Some d) index sz s = Some (res, s') \<Longrightarrow> device_call E d s s'"
| register: "PciDevice_registerDMABuffer E (Some d) index start sz s = Some (res, s') \<Longrightarrow> device_call E d s s'"
| lookup: "PciDevice_getDMABuffer E d index s = Some (res, s') \<Longrightarrow> device_call E d s s'"
| delete: "devs s d = Some dev \<Longrightarrow> listed (bufs s) (dma_buffer_list dev) a \<Longrightarrow>
    PciDevice_deleteDMABuffer E (Some d) (Some a) s = Some (res, s') \<Longrightarrow> device_call E d s s'"

lemma device_call_ok:
  assumes E: "good_env E" "\<not> unlock_fails E" and call: "device_call E d s s'" and ok: "device_ok d s"
  shows "device_ok d s'"
proof -
  obtain xs where xs: "buffer_list s d xs" and err: "0 \<le> errno s"
    using ok by (auto simp: device_ok_def)
  from call show ?thesis
  proof cases
    case (alloc index sz res)
    with allocDMABuffer_outcome[OF E(1) xs err, of index sz] show ?thesis
      by (auto simp: device_ok_def split: if_splits)
  next
    case (register index start sz res)
    with registerDMABuffer_keeps E(1) ok show ?thesis by blast
  next
    case (lookup index res)
    with getDMABuffer_keeps E(1) ok show ?thesis by blast
  next
    case (delete dev a res)
    then have "a \<in> set xs" using xs listed_dseg by (auto simp: buffer_list_def dll_def)
    then obtain ys zs where "xs = ys @ a # zs" by (auto dest: split_list)
    with delete deleteDMABuffer_outcome[OF E, of s d ys a zs] xs err show ?thesis
      by (auto simp: device_ok_def)
  qed
qed

interpretation calls: step_system "\<lambda>s s'. good_env E \<and> \<not> unlock_fails E \<and> device_call E d s s'" "device_ok d" for E d
  by unfold_locales (auto intro: device_call_ok)

lemma device_calls_ok:
  assumes "good_env E" "\<not> unlock_fails E" and "(device_call E d)\<^sup>*\<^sup>* s s'" and "device_ok d s"
  shows "device_ok d s'"
proof -
  have "(\<lambda>s s'. good_env E \<and> \<not> unlock_fails E \<and> device_call E d s s')\<^sup>*\<^sup>* s s'"
    using assms(3) by (rule rtranclp_mono[THEN predicate2D, rotated]) (use assms(1,2) in auto)
  then show ?thesis using assms(4) by (rule calls.inv_reachable)
qed

section \<open>New devices\<close>

lemma nonneg_errno:
  "0 \<le> errno s \<Longrightarrow> errno_law f \<Longrightarrow> 0 \<le> errno (snd (c_sys f s))"
  "0 \<le> errno s \<Longrightarrow> posix_env E \<Longrightarrow> 0 \<le> errno (snd (c_close E fd s))"
  "0 \<le> errno s \<Longrightarrow> posix_env E \<Longrightarrow> 0 \<le> errno (snd (pda_spinOpen E path flags PDA_OPEN_DEFAULT_SPIN s))"
  using c_sys_errno_step[of f s "fst (c_sys f s)" "snd (c_sys f s)"]
    c_close_errno_step[of E fd s "fst (c_close E fd s)" "snd (c_close E fd s)"]
    pda_spinOpen_errno_step[of E path flags s "fst (pda_spinOpen E path flags PDA_OPEN_DEFAULT_SPIN s)"
      "snd (pda_spinOpen E path flags PDA_OPEN_DEFAULT_SPIN s)"]
  by (auto simp: errno_step_def)

text \<open>A process with unused addresses from \<open>brk\<close> on, and one with a device that has no buffers yet.\<close>

definition unused_from :: "'w pstate \<Rightarrow> bool" where
  "unused_from s \<longleftrightarrow> 0 \<le> errno s \<and> (\<forall>a. brk s \<le> a \<longrightarrow> bufs s a = None)"

definition new_device :: "addr \<Rightarrow> 'w pstate \<Rightarrow> bool" where
  "new_device a s \<longleftrightarrow> unused_from s \<and>
     (\<exists>d i. devs s a = Some d \<and> dev_internal d = Some i \<and> dma_buffer_list d = None)"

lemma new_device_upd_workp: "new_device a s \<Longrightarrow> upd_workp a f s = Some s' \<Longrightarrow> new_device a s'"
  by (auto simp: new_device_def upd_workp_def unused_from_def)

lemma new_device_upd_dev:
  "new_device a s \<Longrightarrow> (\<And>d. dev_internal (f d) = dev_internal d \<and> dma_buffer_list (f d) = dma_buffer_list d) \<Longrightarrow>
   upd_dev a f s = Some s' \<Longrightarrow> new_device a s'"
  by (auto simp: new_device_def upd_dev_def unused_from_def)

lemma new_device_numa:
  assumes "posix_env E" and "PciDevice_setNumaNodeAffinity E a s = Some (n, s')" and "new_device a s"
  shows "new_device a s'"
proof -
  have e: "0 \<le> errno s" using assms(3) by (simp add: new_device_def unused_from_def)
  have "devs s' = devs s \<and> bufs s' = bufs s \<and> brk s' = brk s \<and> 0 \<le> errno s'"
    using assms(2) e posix_laws(7)[OF assms(1)] assms(1) unfolding PciDevice_setNumaNodeAffinity_def
    by (auto simp: Let_def split_beta bind_eq_Some_conv nonneg_errno split: if_splits option.splits)
  with assms(3) show ?thesis by (simp add: new_device_def unused_from_def)
qed

lemma new_int_new_device:
  assumes "PciDevice_new_int E s = (Some a, s')" and "unused_from s"
  shows "new_device a s'"
  using assms by (auto simp: PciDevice_new_int_def c_new_def c_alloc_def new_device_def unused_from_def
      split: prod.splits bool.splits option.splits)

lemma new_op_new_device:
  assumes E: "posix_env E" and "unused_from s" and new: "PciDevice_new_op E entry vendor nm ids s = Some (Some a, s')"
  shows "new_device a s'"
proof -
  define s1 where "s1 = snd (c_sys (sys_access E (c_snprintf PDA_STRING_LIMIT (uio_sysfs_dir s @ ''/'' @ entry))) s)"
  have s1: "unused_from s1"
    using assms(2) by (simp add: unused_from_def s1_def nonneg_errno posix_laws[OF E])
  have acc: "c_sys (sys_access E (c_snprintf PDA_STRING_LIMIT (uio_sysfs_dir s @ ''/'' @ entry))) s = (Some (), s1)"
    using new unfolding PciDevice_new_op_def s1_def
    by (auto simp: new_op_exit_def bind_eq_Some_conv split: prod.splits option.splits)
  obtain s2 where s2: "PciDevice_new_int E s1 = (Some a, s2)"
    using new unfolding PciDevice_new_op_def acc
    by (auto simp: new_op_exit_def bind_eq_Some_conv split: prod.splits option.splits if_splits)
  obtain f g s3 s4 where s34: "upd_workp a f s2 = Some s3" "upd_dev a g s3 = Some s4"
    "\<And>d. dev_internal (g d) = dev_internal d \<and> dma_buffer_list (g d) = dma_buffer_list d"
    and rest: "if cfg_NUMA_AVAIL E
      then \<exists>n s5. PciDevice_setNumaNodeAffinity E a s4 = Some (n, s5) \<and> upd_workp a (\<lambda>i. i\<lparr>numa_node := n\<rparr>) s5 = Some s'
      else s' = s4"
    using new unfolding PciDevice_new_op_def acc
    by (auto simp: s2 bind_eq_Some_conv split: if_splits)
  have "new_device a s2" using new_int_new_device[OF s2 s1] .
  with s34 have "new_device a s4" by (blast intro: new_device_upd_workp new_device_upd_dev)
  with rest E show ?thesis
    by (auto split: if_splits intro: new_device_upd_workp new_device_numa)
qed

lemma new_device_ok: "new_device a s \<Longrightarrow> device_ok a s"
  by (auto simp: new_device_def unused_from_def device_ok_def buffer_list_def dll_def intro!: exI[of _ "[]"])

section \<open>Properties\<close>

lemma calm_env_good: "good_env calm_env"
  by (simp add: good_env_def calm_env_posix) (simp add: calm_env_def)

lemma listed_process_facts: "0 \<le> errno listed_process" "brk listed_process = 10"
  by (simp_all add: listed_process_def demo_process_def some_process_def)

lemma listed_process_ok: "device_ok 1 listed_process"
  using listed_process_list listed_process_facts by (auto simp: device_ok_def)


definition fresh_process :: "unit pstate" where
  "fresh_process = some_process\<lparr>uio_sysfs_dir := UIO_DMA_SYSFS_DIR\<rparr>"

lemma calm_new_op:
  "\<exists>s0. PciDevice_new_op calm_env ''0000:01:00.0'' ''0x10dc'' ''0x0001'' (0, 1, 0, 0) fresh_process = Some (Some 10, s0)"
  by (simp add: PciDevice_new_op_def PciDevice_new_int_def c_new_def c_alloc_def c_sys_def calm_env_def
      fresh_process_def some_process_def upd_workp_def upd_dev_def)

lemma new_device_empty: "new_device d s \<Longrightarrow> buffer_list s d [] \<and> 0 \<le> errno s"
  by (auto simp: new_device_def unused_from_def buffer_list_def dll_def)


text \<open>
  C14. In every such state each of the calls is defined: it terminates and follows no invalid
  pointer, for all arguments (deletion: for the buffers of the list; lookup and registration: for
  an explicit index).
\<close>

theorem device_calls_defined:
  assumes "good_env E" and "\<not> unlock_fails E" and "device_ok d s"
  shows "PciDevice_allocDMABuffer E (Some d) index sz s \<noteq> None \<and>
    (index \<noteq> PDA_BUFFER_INDEX_UNDEFINED \<longrightarrow>
       PciDevice_getDMABuffer E d index s \<noteq> None \<and>
       PciDevice_registerDMABuffer E (Some d) index start sz s \<noteq> None) \<and>
    (\<forall>dev a. devs s d = Some dev \<and> listed (bufs s) (dma_buffer_list dev) a \<longrightarrow>
       PciDevice_deleteDMABuffer E (Some d) (Some a) s \<noteq> None)"
proof -
  obtain xs where xs: "buffer_list s d xs" and err: "0 \<le> errno s"
    using assms(3) by (auto simp: device_ok_def)
  have "PciDevice_deleteDMABuffer E (Some d) (Some a) s \<noteq> None"
    if "devs s d = Some dev" "listed (bufs s) (dma_buffer_list dev) a" for dev a
  proof -
    have "a \<in> set xs" using that xs listed_dseg by (auto simp: buffer_list_def dll_def)
    then obtain ys zs where "xs = ys @ a # zs" by (auto dest: split_list)
    then show ?thesis using deleteDMABuffer_outcome[OF assms(1,2), of s d ys a zs] xs err by auto
  qed
  then show ?thesis
    using allocDMABuffer_outcome[OF assms(1) xs err, of index sz] getDMABuffer_outcome[OF assms(1) xs err, of index]
      registerDMABuffer_outcome[OF assms(1) xs err, of index start sz] by auto
qed

theorem device_calls_defined_witness:
  "PciDevice_allocDMABuffer calm_env (Some 1) 5 4096 listed_process \<noteq> None \<and>
   PciDevice_getDMABuffer calm_env 1 5 listed_process \<noteq> None"
  using device_calls_defined[OF calm_env_good calm_env_unlocks listed_process_ok, of 5 4096 0]
  by (simp add: PDA_BUFFER_INDEX_UNDEFINED_def)

text \<open>
  C32. \<open>PciDevice_allocDMABuffer\<close> returns \<open>PDA_SUCCESS\<close> exactly when the new buffer is the last of
  the list, and then hands out that buffer, which carries the requested index; when the index was
  not in use, a later \<open>PciDevice_getDMABuffer\<close> with it finds this buffer. Otherwise it hands out
  nothing and the buffers are as before. When the system grants every call and has the memory, it
  succeeds.
\<close>

theorem allocDMABuffer_result:
  assumes "good_env E" and "buffer_list s d xs" and "0 \<le> errno s" and "index \<noteq> PDA_BUFFER_INDEX_UNDEFINED"
  shows "\<exists>r p s'. PciDevice_allocDMABuffer E (Some d) index sz s = Some ((r, p), s') \<and>
    (if r = PDA_SUCCESS
     then p = Some (Some (brk s)) \<and> buffer_list s' d (xs @ [brk s]) \<and> has_index (bufs s') index (brk s) \<and>
       ((\<forall>a \<in> set xs. \<not> has_index (bufs s) index a) \<longrightarrow>
          PciDevice_getDMABuffer E d index s' = Some ((PDA_SUCCESS, p), s'))
     else p = None \<and> buffer_list s' d xs \<and> bufs s' = bufs s) \<and>
    (granting E \<and> creatable E 0 sz PDA_BUFFER_KERNEL \<longrightarrow> r = PDA_SUCCESS)"
proof -
  obtain r p s' where al: "PciDevice_allocDMABuffer E (Some d) index sz s = Some ((r, p), s')"
    "if r = PDA_SUCCESS
     then p = Some (Some (brk s)) \<and> buffer_list s' d (xs @ [brk s]) \<and>
       (\<forall>a. a \<noteq> brk s \<longrightarrow> map_option payload (bufs s' a) = map_option payload (bufs s a)) \<and> has_index (bufs s') index (brk s)
     else p = None \<and> buffer_list s' d xs \<and> bufs s' = bufs s"
    "granting E \<and> creatable E 0 sz PDA_BUFFER_KERNEL \<longrightarrow> r = PDA_SUCCESS"
    using allocDMABuffer_outcome[OF assms(1-3), of index sz] assms(4) by (metis (full_types))
  have "brk s \<notin> set xs" using assms(2) by (auto simp: buffer_list_def raw_buffer_def)
  then have "PciDevice_getDMABuffer E d index s' = Some ((PDA_SUCCESS, p), s')"
    if "r = PDA_SUCCESS" "\<forall>a \<in> set xs. \<not> has_index (bufs s) index a"
    using that al(2) getDMABuffer_hit[of s' d "xs @ [brk s]" index "brk s" E] find_appended[of "brk s" "bufs s'" "bufs s" index xs]
    by simp
  with al show ?thesis by (intro exI[of _ r] exI[of _ p] exI[of _ s']) auto
qed

theorem allocDMABuffer_result_witness:
  "\<exists>s'. PciDevice_allocDMABuffer calm_env (Some 1) 5 4096 listed_process = Some ((PDA_SUCCESS, Some (Some 10)), s') \<and>
    PciDevice_getDMABuffer calm_env 1 5 s' = Some ((PDA_SUCCESS, Some (Some 10)), s')"
proof -
  have "creatable (calm_env :: unit env) 0 4096 PDA_BUFFER_KERNEL" by (simp add: creatable_def calm_env_def)
  moreover have "\<forall>a \<in> set [3, 4]. \<not> has_index (bufs listed_process) 5 a"
    by (simp add: listed_process_bufs has_index_def two_buffers_def named_buffer_def fresh_buffer_def)
  ultimately show ?thesis
    using allocDMABuffer_result[OF calm_env_good listed_process_list listed_process_facts(1), of 5 4096] calm_granting
    by (fastforce simp: PDA_BUFFER_INDEX_UNDEFINED_def listed_process_facts(2))
qed

text \<open>
  C33. \<open>PciDevice_getDMABuffer\<close> with an explicit index terminates (its recursive call is entered once
  at most). If a buffer of that index is in the list, the call succeeds, hands out the first such buffer and changes nothing; this is
  what its callers rely on, while a sentence of the interface's documentation, copied from the allocation, has it fail then. Otherwise it
  attaches a buffer of the index and hands out that, or fails and leaves the buffers as they are. When the system grants every call,
  it succeeds.
\<close>

theorem getDMABuffer_result:
  assumes "good_env E" and "buffer_list s d xs" and "0 \<le> errno s" and "index \<noteq> PDA_BUFFER_INDEX_UNDEFINED"
  shows "\<exists>r p s' ys. PciDevice_getDMABuffer E d index s = Some ((r, p), s') \<and> buffer_list s' d (xs @ ys) \<and>
    (if \<exists>a \<in> set xs. has_index (bufs s) index a
     then r = PDA_SUCCESS \<and> p = Some (find (has_index (bufs s) index) xs) \<and> s' = s
     else if r = PDA_SUCCESS
     then \<exists>a. p = Some (Some a) \<and> a \<in> set (xs @ ys) \<and> has_index (bufs s') index a
     else p = None \<and> ys = [] \<and> bufs s' = bufs s) \<and> (granting E \<longrightarrow> r = PDA_SUCCESS)"
proof (cases "find (has_index (bufs s) index) xs")
  case (Some a)
  then have "\<exists>a \<in> set xs. has_index (bufs s) index a" using find_Some_hit[OF Some] by blast
  with getDMABuffer_hit[OF assms(2) Some, of E] Some assms(2) show ?thesis
    by (intro exI[of _ PDA_SUCCESS] exI[of _ "Some (Some a)"] exI[of _ s] exI[of _ "[]"]) simp
next
  case None
  then have none: "(\<exists>a \<in> set xs. has_index (bufs s) index a) = False" by (auto simp: find_None_iff)
  obtain r p s' ys where "PciDevice_getDMABuffer E d index s = Some ((r, p), s')" "buffer_list s' d (xs @ ys)"
    "if r = PDA_SUCCESS then \<exists>a. p = Some (Some a) \<and> a \<in> set (xs @ ys) \<and> has_index (bufs s') index a
     else p = None \<and> ys = [] \<and> bufs s' = bufs s" "granting E \<longrightarrow> r = PDA_SUCCESS"
    using getDMABuffer_outcome[OF assms] by (elim exE conjE)
  then show ?thesis
    unfolding none if_False by (intro exI conjI)
qed

theorem getDMABuffer_result_witness:
  "PciDevice_getDMABuffer calm_env 1 2 (listed_process\<lparr>bufs := two_buffers(4 \<mapsto> (the (two_buffers 4))\<lparr>buf_index := 2\<rparr>)\<rparr>)
   = Some ((PDA_SUCCESS, Some (Some 4)),
       listed_process\<lparr>bufs := two_buffers(4 \<mapsto> (the (two_buffers 4))\<lparr>buf_index := 2\<rparr>)\<rparr>)"
proof -
  let ?h = "two_buffers(4 \<mapsto> (the (two_buffers 4))\<lparr>buf_index := 2\<rparr>)"
  let ?s = "listed_process\<lparr>bufs := ?h\<rparr>"
  have "buffer_list ?s 1 [3, 4]"
    using listed_process_list two_buffers_dll
    by (auto simp: buffer_list_def raw_buffer_def listed_process_bufs dll_def)
  moreover have "has_index ?h 2 4" "\<not> has_index ?h 2 3"
    by (simp_all add: has_index_def two_buffers_def named_buffer_def fresh_buffer_def)
  ultimately show ?thesis
    using getDMABuffer_result[OF calm_env_good, of ?s 1 "[3, 4]" 2] listed_process_facts(1)
    by (auto simp: PDA_BUFFER_INDEX_UNDEFINED_def)
qed

section \<open>The list of ids\<close>

text \<open>The block of ids is as large as its recorded capacity, and its size in bytes fits into 64 bits.\<close>

definition id_cap :: "u64 list \<Rightarrow> u64 \<Rightarrow> bool" where
  "id_cap ids mx \<longleftrightarrow> length ids = unat mx \<and> 0 < unat mx \<and> unat mx * 8 < 2 ^ 64"

definition entry_id :: "dirent \<Rightarrow> u64" where
  "entry_id e = or_zero (scan_u64 (d_name e))"

lemma unat_mult_small: "unat (x :: u64) * k < 2 ^ 64 \<Longrightarrow> unat (x * of_nat k) = unat x * k"
proof -
  assume lt: "unat x * k < 2 ^ 64"
  have "x * of_nat k = of_nat (unat x * k)" by simp
  also have "unat \<dots> = unat x * k" using lt by (simp add: unat_of_nat del: of_nat_mult)
  finally show ?thesis .
qed

lemma id_block_length: "unat mx * 8 < 2 ^ 64 \<Longrightarrow> length (id_block mx) = unat mx"
  using unat_mult_small[of mx 8] by (simp add: id_block_def)

lemma id_cap_grow:
  assumes "id_cap ids mx" and "length ids < 2 ^ 60"
  shows "id_cap (take n ids @ drop n (id_block (mx * 2))) (mx * 2) \<or> length ids < n"
    and "length (id_block (mx * 2)) = 2 * length ids"
proof -
  have mx: "unat (mx * 2) = 2 * unat mx" "unat (mx * 2) * 8 < 2 ^ 64"
    using assms unat_mult_small[of mx 2] by (auto simp: id_cap_def)
  then show len: "length (id_block (mx * 2)) = 2 * length ids"
    using assms(1) by (simp add: id_block_length id_cap_def)
  from mx len assms(1) show "id_cap (take n ids @ drop n (id_block (mx * 2))) (mx * 2) \<or> length ids < n"
    by (auto simp: id_cap_def)
qed

lemma listOfBuffers_loop_ids:
  assumes "\<forall>n w. fst (sys_alloc E n w)" and "id_cap ids mx" and "cnt \<le> length ids"
    and "cnt + length (filter is_buffer_entry es) < 2 ^ 60"
  shows "\<exists>ids' mx' s'. listOfBuffers_loop E es cnt ids mx s
      = Some (Inr (cnt + length (filter is_buffer_entry es), ids', mx'), s') \<and> id_cap ids' mx' \<and>
    take (cnt + length (filter is_buffer_entry es)) ids' = take cnt ids @ map entry_id (filter is_buffer_entry es) \<and>
    devs s' = devs s"
  using assms(2-)
proof (induction es arbitrary: cnt ids mx s)
  case Nil
  then show ?case by simp
next
  case (Cons e es)
  show ?case
  proof (cases "is_buffer_entry e")
    case False
    with Cons show ?thesis by simp
  next
    case True
    define ids1 where "ids1 = (if length ids \<le> cnt then take cnt ids @ drop cnt (id_block (mx * 2)) else ids)"
    define mx1 where "mx1 = (if length ids \<le> cnt then mx * 2 else mx)"
    have len: "length ids = unat mx" "0 < length ids" using Cons.prems(1) by (auto simp: id_cap_def)
    have cap: "id_cap ids1 mx1" "cnt < length ids1" "take cnt ids1 = take cnt ids"
      using Cons.prems True id_cap_grow(1)[OF Cons.prems(1), of cnt] id_cap_grow(2)[OF Cons.prems(1)] len
      by (auto simp: ids1_def mx1_def id_cap_def split: if_splits)
    define ids2 where "ids2 = ids1[cnt := entry_id e]"
    define s1 where "s1 = (if length ids \<le> cnt then snd (c_alloc E (unat (mx * 2 * 8)) s) else s)"
    have s1: "listOfBuffers_loop E (e # es) cnt ids mx s = listOfBuffers_loop E es (Suc cnt) ids2 mx1 s1"
      "devs s1 = devs s"
    proof -
      show "devs s1 = devs s" by (simp add: s1_def)
      have "length ids \<le> cnt \<Longrightarrow> cnt \<le> length (id_block (mx * 2))"
        using id_cap_grow(2)[OF Cons.prems(1)] Cons.prems(2,3) True by simp
      then show "listOfBuffers_loop E (e # es) cnt ids mx s = listOfBuffers_loop E es (Suc cnt) ids2 mx1 s1"
        using True cap(2) Cons.prems(2) len(1) assms(1)
        by (cases "length ids \<le> cnt")
          (simp_all add: list_put_def entry_id_def ids2_def ids1_def mx1_def s1_def Let_def c_alloc_ok)
    qed
    have "id_cap ids2 mx1" "Suc cnt \<le> length ids2"
      using cap by (auto simp: ids2_def id_cap_def)
    from Cons.IH[OF this, of s1] Cons.prems(3) True obtain ids' mx' s' where
      "listOfBuffers_loop E es (Suc cnt) ids2 mx1 s1
        = Some (Inr (Suc cnt + length (filter is_buffer_entry es), ids', mx'), s')" "id_cap ids' mx'"
      "take (Suc cnt + length (filter is_buffer_entry es)) ids' = take (Suc cnt) ids2 @ map entry_id (filter is_buffer_entry es)"
      "devs s' = devs s1" by auto
    moreover have "take (Suc cnt) ids2 = take cnt ids @ [entry_id e]"
      using cap(2,3) by (simp add: ids2_def take_Suc_conv_app_nth)
    ultimately show ?thesis
      using True s1 by auto
  qed
qed

definition ids_ok :: "PciDevice \<Rightarrow> bool" where
  "ids_ok dev \<longleftrightarrow>
     (case dma_buffer_id_list dev of
        None \<Rightarrow> id_cap (id_block (dma_buffer_id_list_max_entries dev)) (dma_buffer_id_list_max_entries dev)
      | Some ids \<Rightarrow> id_cap ids (dma_buffer_id_list_max_entries dev))"

text \<open>
  C28. \<open>PciDevice_getListOfBuffers\<close> returns the number of buffer directories the driver shows and an
  array that starts with their ids in directory order, however many there are: the array is
  doubled in time, no entry is written outside of it, and the recorded capacity stays right for
  the next call.
\<close>

theorem getListOfBuffers_ids:
  assumes "\<forall>n w. fst (sys_alloc E n w)" and "devs s d = Some dev" and "ids_ok dev"
    and "\<forall>w. fst (sys_opendir E (dma_path (dev_bdf dev) []) w) = Inr entries"
    and "length (filter is_buffer_entry entries) < 2 ^ 60"
  shows "\<exists>ids s' dev'. PciDevice_getListOfBuffers E d s
      = Some ((of_nat (length (filter is_buffer_entry entries)), Some ids), s') \<and>
    take (length (filter is_buffer_entry entries)) ids = map entry_id (filter is_buffer_entry entries) \<and>
    devs s' d = Some dev' \<and> ids_ok dev' \<and> dma_buffer_id_list dev' = Some ids"
proof -
  let ?mx = "dma_buffer_id_list_max_entries dev"
  obtain ids s1 where ids: "id_cap ids ?mx" "devs s1 = devs s"
    "(case dma_buffer_id_list dev of
        Some ids \<Rightarrow> Some (ids, s)
      | None \<Rightarrow> (case c_alloc E (unat (?mx * 8)) s of (True, s) \<Rightarrow> Some (id_block ?mx, s) | (False, s) \<Rightarrow> None))
     = Some (ids, s1)"
    using assms(1,3) by (cases "dma_buffer_id_list dev") (auto simp: ids_ok_def c_alloc_ok)
  obtain s2 where s2: "c_sys (sys_opendir E (dma_path (dev_bdf dev) [])) s1 = (Some entries, s2)" "devs s2 = devs s"
    using assms(4)[rule_format, of "world s1"] ids(2)
    by (cases "sys_opendir E (dma_path (dev_bdf dev) []) (world s1)") (auto simp: c_sys_def)
  obtain ids' mx' s3 where s3: "listOfBuffers_loop E entries 0 ids ?mx s2
      = Some (Inr (length (filter is_buffer_entry entries), ids', mx'), s3)" "id_cap ids' mx'"
    "take (length (filter is_buffer_entry entries)) ids' = map entry_id (filter is_buffer_entry entries)" "devs s3 = devs s"
    using listOfBuffers_loop_ids[OF assms(1) ids(1), of 0 entries s2] assms(5) s2(2) by auto
  have eq: "PciDevice_getListOfBuffers E d s = do {
      s \<leftarrow> upd_dev d (\<lambda>d. d\<lparr>dma_buffer_id_list := Some ids', dma_buffer_id_list_max_entries := mx'\<rparr>) s3;
      Some ((of_nat (length (filter is_buffer_entry entries)), Some ids'), s\<lparr>world := sys_closedir E (world s)\<rparr>) }"
    unfolding PciDevice_getListOfBuffers_def by (simp add: assms(2) ids(3) s2(1) s3(1) cong: option.case_cong)
  with s3 assms(2) show ?thesis by (simp add: upd_dev_def ids_ok_def)
qed

definition three_entries :: "dirent list" where
  "three_entries = [\<lparr>d_name = ''.'', d_is_dir = True\<rparr>, \<lparr>d_name = ''12'', d_is_dir = True\<rparr>,
     \<lparr>d_name = ''request'', d_is_dir = False\<rparr>, \<lparr>d_name = ''7'', d_is_dir = True\<rparr>]"

definition listing_env :: "unit env" where
  "listing_env = calm_env\<lparr>sys_opendir := (\<lambda>_ w. (Inr three_entries, w))\<rparr>"

lemma three_entries_buffers:
  "filter is_buffer_entry three_entries = [\<lparr>d_name = ''12'', d_is_dir = True\<rparr>, \<lparr>d_name = ''7'', d_is_dir = True\<rparr>]"
  by (simp add: three_entries_def is_buffer_entry_def)

theorem getListOfBuffers_ids_witness:
  "\<exists>ids s'. PciDevice_getListOfBuffers listing_env 1 (demo_process\<lparr>devs := [1 \<mapsto> demo_device\<lparr>dma_buffer_id_list_max_entries := 256\<rparr>]\<rparr>)
      = Some ((2, Some ids), s') \<and>
    take 2 ids = [entry_id \<lparr>d_name = ''12'', d_is_dir = True\<rparr>, entry_id \<lparr>d_name = ''7'', d_is_dir = True\<rparr>]"
proof -
  let ?d = "demo_device\<lparr>dma_buffer_id_list_max_entries := 256\<rparr>"
  have "ids_ok ?d"
    by (simp add: ids_ok_def id_cap_def id_block_length demo_device_def zero_PciDevice_def)
  moreover have "\<forall>n w. fst (sys_alloc listing_env n w)" "\<forall>p w. fst (sys_opendir listing_env p w) = Inr three_entries"
    by (simp_all add: listing_env_def calm_env_def)
  moreover have len: "length (filter is_buffer_entry three_entries) = 2"
    by (simp add: three_entries_buffers)
  ultimately show ?thesis
    using getListOfBuffers_ids[of listing_env "demo_process\<lparr>devs := [1 \<mapsto> ?d]\<rparr>" 1 ?d three_entries,
        unfolded len, unfolded three_entries_buffers] by fastforce
qed

text \<open>
  \<open>PciDevice_deleteDMABuffer\<close> of a buffer of the device removes exactly that buffer from its
  list, wherever it stands, moves the device's head pointer when it was the first, and frees the
  object, whatever the driver answers.
\<close>

lemma deleteDMABuffer_result:
  assumes "good_env E" and "\<not> unlock_fails E" and "buffer_list s d xs" and "a \<in> set xs" and "0 \<le> errno s"
  shows "\<exists>r s'. PciDevice_deleteDMABuffer E (Some d) (Some a) s = Some (r, s') \<and>
    buffer_list s' d (remove1 a xs) \<and> bufs s' a = None"
proof -
  obtain ys zs where xs: "xs = ys @ a # zs" "a \<notin> set ys" using assms(4) by (metis split_list_first)
  then have "remove1 a xs = ys @ zs" by (simp add: remove1_append)
  with deleteDMABuffer_outcome[OF assms(1,2) _ assms(5), of d ys a zs] assms(3) xs show ?thesis by auto
qed

end
