(* ===== verification/PDA_DeviceLife.thy ===== *)
theory PDA_DeviceLife
  imports PDA_DeviceBuffers
begin

text \<open>
  The end of a device: \<open>PciDevice_delete\<close> releases the registers, the buffers and the object, and
  \<open>PciDevice_freeAllBuffers\<close> releases the buffers of a device that stays. The interrupt thread is
  described by the turns of its loop, and \<open>DMABuffer_wrapMap\<close> by what the process sees in the two mappings.
\<close>

section \<open>Registers\<close>

definition bar_live :: "'w pstate \<Rightarrow> addr \<Rightarrow> bool" where
  "bar_live s p \<longleftrightarrow> (\<exists>b i. bars s p = Some b \<and> bar_internal b = Some i)"

lemma Bar_delete_live:
  assumes "bar_live s p"
  shows "\<exists>s'. Bar_delete E (Some p) s = Some (PDA_SUCCESS, s') \<and> bars s' = (bars s)(p := None) \<and>
    devs s' = devs s \<and> bufs s' = bufs s \<and> brk s' = brk s"
  using assms by (auto simp: bar_live_def Bar_delete_def Bar_delete_int_def upd_bar_def)

definition live_bars :: "'w pstate \<Rightarrow> ptr list \<Rightarrow> bool" where
  "live_bars s bs \<longleftrightarrow> distinct (filter (\<lambda>b. b \<noteq> None) bs) \<and> (\<forall>p. Some p \<in> set bs \<longrightarrow> bar_live s p)"

lemma delete_bars_live:
  assumes "live_bars s bs"
  shows "\<exists>s'. delete_bars E bs ret s = Some (ret, s') \<and> (\<forall>p. Some p \<in> set bs \<longrightarrow> bars s' p = None) \<and>
    (\<forall>p. bars s p = None \<longrightarrow> bars s' p = None) \<and> devs s' = devs s \<and> bufs s' = bufs s \<and> brk s' = brk s"
  using assms
proof (induction bs arbitrary: s)
  case Nil
  then show ?case by simp
next
  case (Cons b bs)
  show ?case
  proof (cases b)
    case None
    with Cons show ?thesis by (auto simp: live_bars_def)
  next
    case (Some p)
    obtain s1 where s1: "Bar_delete E (Some p) s = Some (PDA_SUCCESS, s1)" "bars s1 = (bars s)(p := None)"
      "devs s1 = devs s" "bufs s1 = bufs s" "brk s1 = brk s"
      using Bar_delete_live[of s p E] Cons.prems Some by (auto simp: live_bars_def)
    have "live_bars s1 bs"
      using Cons.prems Some s1(2) by (auto simp: live_bars_def bar_live_def)
    from Cons.IH[OF this] s1 Some show ?thesis by fastforce
  qed
qed

section \<open>Deleting a device\<close>

lemma freeAllBuffersInt_list:
  assumes "posix_env E" and "\<not> unlock_fails E" and "dll (bufs s) xs"
  shows "\<exists>r s'. DMABuffer_freeAllBuffersInt E (head_ptr xs) p s = Some (r, s') \<and> devs s' = devs s \<and> brk s' = brk s \<and> bars s' = bars s \<and>
    (\<forall>x \<in> set xs. bufs s' x = None) \<and> (\<forall>x. bufs s x = None \<longrightarrow> bufs s' x = None)"
proof -
  have "DMABuffer_getHead (bufs s) (head_ptr xs) = Some (head_ptr xs)"
    using assms(3) DMABuffer_getHead_dll[of "bufs s" "[]"] by (cases xs) (auto simp: DMABuffer_getHead_def)
  moreover obtain r s' zs where "freeAll_loop E p (head_ptr xs) PDA_SUCCESS s = Some (r, s')"
    "devs s' = devs s" "brk s' = brk s" "bars s' = bars s" "\<forall>x \<in> set xs - set zs. bufs s' x = None"
    "\<forall>x. bufs s x = None \<longrightarrow> bufs s' x = None" "zs \<noteq> [] \<longrightarrow> unlock_fails E"
    using freeAll_loop_outcome[OF assms(1), of s "[]" xs p PDA_SUCCESS] assms(3) by auto
  ultimately show ?thesis
    using assms(2) by (cases zs) (auto simp: DMABuffer_freeAllBuffersInt_def)
qed

lemma delete_dep_total:
  assumes "devs s d = Some dev" "dev_internal dev = Some i"
  shows "\<exists>s'. PciDevice_delete_dep E d s = Some (PDA_SUCCESS, s') \<and> bufs s' = bufs s \<and> bars s' = bars s \<and>
    brk s' = brk s \<and> (\<forall>x. x \<noteq> d \<longrightarrow> devs s' x = devs s x)"
  using assms by (auto simp: PciDevice_delete_dep_def get_workp_def upd_workp_def)

lemma PciDevice_delete_outcome:
  assumes E: "posix_env E" "\<not> unlock_fails E" and inv: "buffer_list s d xs" and dev: "devs s d = Some dev"
    and live: "live_bars s (dev_bar dev)"
  shows "\<exists>r s'. PciDevice_delete E (Some d) p s
      = Some (if interrupt dev = None then Returns r else Thread_exits, s') \<and>
    devs s' = (devs s)(d := None) \<and> brk s' = brk s \<and> (\<forall>x. bufs s x = None \<longrightarrow> bufs s' x = None) \<and> (\<forall>x \<in> set xs. bufs s' x = None) \<and> (\<forall>q. Some q \<in> set (dev_bar dev) \<longrightarrow> bars s' q = None)"
proof -
  obtain w where w: "dev_internal dev = Some w" "dma_buffer_list dev = head_ptr xs" "dll (bufs s) xs"
    using inv dev by (auto simp: buffer_list_def)
  define s1 where "s1 = (if interrupt dev \<noteq> None then s\<lparr>world := sys_pthread_cancel E (interrupt_thread dev) (world s)\<rparr> else s)"
  have kill: "(if interrupt dev \<noteq> None then PciDevice_killISR E d s else Some s) = Some s1"
    using dev by (simp add: s1_def PciDevice_killISR_def)
  have s1: "devs s1 = devs s" "bufs s1 = bufs s" "brk s1 = brk s" "live_bars s1 (dev_bar dev)"
    using live by (simp_all add: s1_def live_bars_def bar_live_def)
  obtain s2 where s2: "delete_bars E (dev_bar dev) PDA_SUCCESS s1 = Some (PDA_SUCCESS, s2)" "devs s2 = devs s" "bufs s2 = bufs s"
    "brk s2 = brk s"
    "\<forall>q. Some q \<in> set (dev_bar dev) \<longrightarrow> bars s2 q = None"
    using delete_bars_live[OF s1(4), of E PDA_SUCCESS] s1 by auto
  obtain r s3 where s3: "DMABuffer_freeAllBuffersInt E (head_ptr xs) p s2 = Some (r, s3)" "devs s3 = devs s" "bars s3 = bars s2"
    "brk s3 = brk s" "\<forall>x. bufs s x = None \<longrightarrow> bufs s3 x = None"
    "\<forall>x \<in> set xs. bufs s3 x = None"
    using freeAllBuffersInt_list[OF E, of s2 xs p] s2 w(3) by auto
  define s4 where "s4 = s3\<lparr>devs := (devs s)(d \<mapsto> dev\<lparr>dma_buffer_list := None\<rparr>)\<rparr>"
  obtain s5 where s5: "PciDevice_delete_dep E d s4 = Some (PDA_SUCCESS, s5)" "bufs s5 = bufs s3" "bars s5 = bars s3"
    "brk s5 = brk s3" "\<forall>x. x \<noteq> d \<longrightarrow> devs s5 x = devs s x"
    using delete_dep_total[of s4 d "dev\<lparr>dma_buffer_list := None\<rparr>" w E] w(1) by (auto simp: s4_def)
  have "PciDevice_delete E (Some d) p s
      = Some (if interrupt dev = None then Returns r else Thread_exits, s5\<lparr>devs := (devs s5)(d := None)\<rparr>)"
    using dev kill s2(1) w(2) s3(1,2) s5(1)
    by (simp add: PciDevice_delete_def upd_dev_def s4_def[symmetric] cong: if_cong)
  moreover have "(devs s5)(d := None) = (devs s)(d := None)" using s5(5) by auto
  ultimately show ?thesis using s2(5) s3(3-) s5(2-4) by auto
qed

section \<open>Properties\<close>


text \<open>
  With an interrupt routine registered the call releases the same but does not return: after \<open>pthread_cancel\<close> of the interrupt thread
  it ends its own thread.
\<close>

lemma delete_with_routine_never_returns:
  assumes "posix_env E" and "\<not> unlock_fails E" and "buffer_list s d xs" and "devs s d = Some dev"
    and "live_bars s (dev_bar dev)" and "interrupt dev \<noteq> None"
  shows "\<exists>s'. PciDevice_delete E (Some d) p s = Some (Thread_exits, s') \<and> devs s' d = None"
  using PciDevice_delete_outcome[OF assms(1-5), of p] assms(6) by auto

lemma listed_process_device: "devs listed_process 1 = Some (demo_device\<lparr>dma_buffer_list := Some 3\<rparr>)"
  by (simp add: listed_process_def)

lemma demo_device_bars: "dev_bar demo_device = replicate 6 None"
  by (simp add: demo_device_def zero_PciDevice_def PDA_MAX_PCI_32_BARS_def)


subsection \<open>Freeing all buffers of a device\<close>

lemma write_free_frame: "write_free E path nm s = (ok, s') \<Longrightarrow> same_heaps s s'"
  by (auto simp: write_free_def split: prod.splits if_splits
      dest!: pda_spinOpen_heaps c_sys_heaps intro: same_heaps_trans)
    (auto simp: same_heaps_def)

lemma delete_entries_frame: "same_heaps s (snd (delete_entries E path es s))"
proof (induction es arbitrary: s)
  case (Cons e es)
  obtain ok s1 where w: "write_free E path (d_name e) s = (ok, s1)" by fastforce
  have "same_heaps s1 (snd (ERROR E (errno s1) s1))" by (simp add: same_heaps_def)
  with Cons.IH[of s] Cons.IH[of s1] write_free_frame[OF w] w show ?case
    by (cases ok) (auto intro: same_heaps_trans)
qed simp

lemma delete_not_attached_total:
  assumes "devs s d = Some dev"
  shows "\<exists>r s'. DMABuffer_delete_not_attached_buffers E (Some d) s = Some (r, s') \<and> same_heaps s s'"
proof -
  obtain r s1 where od: "c_sys (sys_opendir E (dma_path (dev_bdf dev) [])) s = (r, s1)" by fastforce
  have "same_heaps s s1" using c_sys_heaps[OF od] .
  show ?thesis
  proof (cases r)
    case None
    with assms od \<open>same_heaps s s1\<close> show ?thesis
      by (auto simp: DMABuffer_delete_not_attached_buffers_def DMABuffer_get_ids_def same_heaps_def)
  next
    case (Some es)
    obtain ok s2 where del: "delete_entries E (dma_path (dev_bdf dev) ''free'') es s1 = (ok, s2)" by fastforce
    have "same_heaps s1 s2" using delete_entries_frame[of s1 E _ es] del by (metis snd_conv)
    with \<open>same_heaps s s1\<close> assms od Some del show ?thesis
      by (cases ok) (auto simp: DMABuffer_delete_not_attached_buffers_def DMABuffer_get_ids_def same_heaps_def)
  qed
qed

text \<open>
  \<open>PciDevice_freeAllBuffers\<close> frees the buffers but leaves the device's head pointer as it was, so
  the pointer dangles and the next \<open>PciDevice_delete\<close> follows it.
\<close>

lemma freeAllBuffers_dangles:
  assumes E: "posix_env E" "\<not> unlock_fails E" and inv: "buffer_list s d (x # xs)"
  shows "\<exists>r s' dev. PciDevice_freeAllBuffers E d s = Some (r, s') \<and> devs s' d = Some dev \<and>
    dma_buffer_list dev = Some x \<and> bufs s' x = None \<and> DMABuffer_freeAllBuffersInt E (dma_buffer_list dev) p s' = None"
proof -
  obtain dev where dev: "devs s d = Some dev" "dma_buffer_list dev = head_ptr (x # xs)" "dll (bufs s) (x # xs)"
    using inv by (auto simp: buffer_list_def)
  obtain r s1 where s1: "DMABuffer_freeAllBuffersInt E (head_ptr (x # xs)) PDA_DELETE s = Some (r, s1)" "devs s1 = devs s"
    "bufs s1 x = None"
    using freeAllBuffersInt_list[OF E dev(3), of PDA_DELETE] by (metis list.set_intros(1))
  obtain r2 s2 where s2: "DMABuffer_delete_not_attached_buffers E (Some d) s1 = Some (r2, s2)" "same_heaps s1 s2"
    using delete_not_attached_total[of s1 d dev E] s1(2) dev(1) by auto
  obtain r' s' where "PciDevice_freeAllBuffers E d s = Some (r', s')" "devs s' = devs s" "bufs s' = bufs s1"
    using dev(1,2) s1(1,2) s2 by (cases "r = PDA_SUCCESS")
      (auto simp: PciDevice_freeAllBuffers_def DMABuffer_freeAllBuffers_def same_heaps_def)
  with dev s1(3) show ?thesis
    by (auto simp: DMABuffer_freeAllBuffersInt_def DMABuffer_getHead_def getHead_loop.simps)
qed

subsection \<open>The interrupt thread\<close>

text \<open>
  What the thread relies on, for a device with a legacy interrupt. The world is observed through \<open>armed\<close> (the interrupt disable bit
  of the device is clear), \<open>count\<close> (the events UIO has counted for the device), \<open>left\<close> (the interrupts the device still raises before
  it is removed) and \<open>calls\<close> (the arguments of the calls of the routine so far).
  \<^item> The upper byte of the command register can be read; writing it sets or clears the interrupt disable bit, bit 2 of the byte.
  \<^item> A read of the UIO device file blocks until there is an interrupt or the device is removed. An armed device raises its next
    interrupt; the handler of the kernel module masks it by the disable bit, and UIO returns the new count of events.
    A device that is not armed raises none: the read waits until the device is removed and then fails, as it does when no interrupt is left.
  \<^item> The routine leaves the device alone.
\<close>

definition uio_interrupts ::
  "'w env \<Rightarrow> PciDeviceInternal \<Rightarrow> addr \<Rightarrow> u64 \<Rightarrow> u8 \<Rightarrow> ('w \<Rightarrow> bool) \<Rightarrow> ('w \<Rightarrow> u32) \<Rightarrow> ('w \<Rightarrow> nat) \<Rightarrow> ('w \<Rightarrow> u32 list) \<Rightarrow> bool" where
  "uio_interrupts E i f data cmd armed count left calls \<longleftrightarrow>
     (\<forall>w. \<exists>w'. sys_pread E (uio_config_fd i) 1 5 w = (Inr [cmd], w') \<and> armed w' = armed w \<and> count w' = count w \<and> left w' = left w \<and> calls w' = calls w) \<and>
     (\<forall>b w. \<exists>w'. sys_pwrite E (uio_config_fd i) [b] 5 w = (Inr 1, w') \<and>
        armed w' = (b AND 0x4 = 0) \<and> count w' = count w \<and> left w' = left w \<and> calls w' = calls w) \<and>
     (\<forall>w. \<exists>r w'. sys_read E (uio_device_fd i) 4 w = (r, w') \<and> calls w' = calls w \<and>
        (if armed w \<and> 0 < left w
         then r = Inr (word_bytes (count w + 1)) \<and> \<not> armed w' \<and> count w' = count w + 1 \<and> left w' = left w - 1
         else \<exists>e. r = Inl e)) \<and>
     (\<forall>x w. let w' = sys_interrupt E f x data w in
        armed w' = armed w \<and> count w' = count w \<and> left w' = left w \<and> calls w' = calls w @ [x])"

lemma word_bytes_u32: "length (word_bytes (x :: u32)) = 4" "bytes_word (word_bytes (x :: u32)) = x"
  using bytes_word_word_bytes[of x] by (simp_all add: cell_size_def)

text \<open>The device the thread was started for.\<close>

definition isr_device :: "addr \<Rightarrow> PciDeviceInternal \<Rightarrow> addr \<Rightarrow> u64 \<Rightarrow> 'w pstate \<Rightarrow> bool" where
  "isr_device d i f data s \<longleftrightarrow>
     (\<exists>dev. devs s d = Some dev \<and> dev_internal dev = Some i \<and> interrupt dev = Some f \<and> interrupt_data dev = data)"

text \<open>One turn with the disable bit clear in the byte it writes: the next interrupt is served, or the thread ends.\<close>

lemma isr_turn_serves:
  assumes I: "uio_interrupts E i f data cmd armed count left calls" and "isr_device d i f data s" and c: "c AND 0x4 = 0"
  shows "\<exists>go s'. isr_turn E d c s = Some (go, s') \<and>
    (if 0 < left (world s)
     then go \<and> isr_device d i f data s' \<and> count (world s') = count (world s) + 1 \<and> left (world s') = left (world s) - 1 \<and>
       calls (world s') = calls (world s) @ [count (world s) + 1]
     else \<not> go \<and> calls (world s') = calls (world s))"
proof -
  obtain w1 where w1: "sys_pwrite E (uio_config_fd i) [c] 5 (world s) = (Inr 1, w1)" "armed w1" "count w1 = count (world s)"
    "left w1 = left (world s)" "calls w1 = calls (world s)"
    using I c unfolding uio_interrupts_def by metis
  obtain r w2 where w2: "sys_read E (uio_device_fd i) 4 w1 = (r, w2)" "calls w2 = calls w1"
    "if 0 < left w1 then r = Inr (word_bytes (count w1 + 1)) \<and> count w2 = count w1 + 1 \<and> left w2 = left w1 - 1 else \<exists>e. r = Inl e"
    using conjunct1[OF conjunct2[OF conjunct2[OF I[unfolded uio_interrupts_def]]], THEN spec[of _ w1]] w1(2) by (auto split: if_splits)
  obtain dev where dev: "devs s d = Some dev" "dev_internal dev = Some i" "interrupt dev = Some f" "interrupt_data dev = data"
    using assms(2) by (auto simp: isr_device_def)
  let ?x = "count (world s) + 1"
  show ?thesis
  proof (cases "0 < left (world s)")
    case True
    then have r: "r = Inr (word_bytes ?x)" "count w2 = ?x" "left w2 = left (world s) - 1" using w2(3) w1(3,4) by simp_all
    have "isr_turn E d c s = Some (True, s\<lparr>world := sys_interrupt E f ?x data w2\<rparr>)"
      using w1(1) w2(1) dev r(1) word_bytes_u32[of ?x] by (simp add: isr_turn_def get_workp_def c_sys_def)
    moreover have "count (sys_interrupt E f ?x data w2) = count w2" "left (sys_interrupt E f ?x data w2) = left w2"
      "calls (sys_interrupt E f ?x data w2) = calls w2 @ [?x]" using I unfolding uio_interrupts_def Let_def by blast+
    ultimately show ?thesis using True r w2(2) w1(5) assms(2) by (auto simp: isr_device_def)
  next
    case False
    then obtain e where "r = Inl e" using w2(3) w1(4) by auto
    then have "isr_turn E d c s = Some (False, snd (ERROR E ECHILD (s\<lparr>world := w2, errno := e\<rparr>)))"
      using w1(1) w2(1) dev by (simp add: isr_turn_def get_workp_def c_sys_def)
    then show ?thesis using False w2(2) w1(5) by auto
  qed
qed

text \<open>The counts UIO returns for the next \<open>n\<close> interrupts, modulo \<open>2\<^sup>3\<^sup>2\<close>.\<close>

definition next_counts :: "u32 \<Rightarrow> nat \<Rightarrow> u32 list" where
  "next_counts c n = map (\<lambda>j. c + of_nat j) [1..<Suc n]"

lemma next_counts_Suc: "next_counts c (Suc n) = (c + 1) # next_counts (c + 1) n"
proof -
  have "[1..<Suc (Suc n)] = 1 # map Suc [1..<Suc n]" by (simp add: map_Suc_upt upt_conv_Cons del: upt_Suc)
  then show ?thesis by (simp only: next_counts_def list.map map_map comp_def of_nat_1 of_nat_Suc add.assoc)
qed

lemma isr_loop_calls:
  assumes I: "uio_interrupts E i f data cmd armed count left calls" and "isr_device d i f data s" and c: "c AND 0x4 = 0"
    and "left (world s) = n"
  shows "\<exists>s'. isr_loop E d c s = Some s' \<and> calls (world s') = calls (world s) @ next_counts (count (world s)) n"
  using assms(2,4)
proof (induction n arbitrary: s)
  case 0
  obtain s' where "isr_turn E d c s = Some (False, s')" "calls (world s') = calls (world s)"
    using isr_turn_serves[OF I "0.prems"(1) c] "0.prems"(2) by auto
  then show ?case by (simp add: isr_loop.simps[of E d c s] next_counts_def)
next
  case (Suc n)
  obtain s1 where s1: "isr_turn E d c s = Some (True, s1)" "isr_device d i f data s1" "count (world s1) = count (world s) + 1"
    "left (world s1) = n" "calls (world s1) = calls (world s) @ [count (world s) + 1]"
    using isr_turn_serves[OF I Suc.prems(1) c] Suc.prems(2) by auto
  from Suc.IH[OF s1(2,4)] s1 show ?case by (auto simp: isr_loop.simps[of E d c s] next_counts_Suc)
qed


text \<open>A device that is masked at first and at every interrupt.\<close>

record uio_world =
  uw_armed :: bool
  uw_count :: u32
  uw_left :: nat
  uw_calls :: "u32 list"

definition script_env :: "uio_world env" where
  "script_env = calm_env\<lparr>
     sys_pread := (\<lambda>_ _ _ w. (Inr [0x07], w)),
     sys_pwrite := (\<lambda>_ bs _ w. (Inr (length bs), w\<lparr>uw_armed := hd bs AND 0x4 = 0\<rparr>)),
     sys_read := (\<lambda>_ _ w. if uw_armed w \<and> 0 < uw_left w
        then (Inr (word_bytes (uw_count w + 1)), w\<lparr>uw_armed := False, uw_count := uw_count w + 1, uw_left := uw_left w - 1\<rparr>)
        else (Inl 5, w)),
     sys_interrupt := (\<lambda>_ x _ w. w\<lparr>uw_calls := uw_calls w @ [x]\<rparr>)\<rparr>"

lemma script_env_interrupts: "uio_interrupts script_env i f data 0x07 uw_armed uw_count uw_left uw_calls"
  by (auto simp: uio_interrupts_def script_env_def Let_def)

definition script_process :: "uio_world pstate" where
  "script_process = \<lparr>errno = 0, debug_mask = 0, activated = 0, channel = [],
     world = \<lparr>uw_armed = False, uw_count = 4, uw_left = 3, uw_calls = []\<rparr>, bufs = Map.empty,
     bars = Map.empty, devs = [1 \<mapsto> demo_device\<lparr>interrupt := Some 99\<rparr>], brk = 2, uio_sysfs_dir = []\<rparr>"


text \<open>The thread ends as well when the configuration space cannot be written, without a call of the routine in that turn.\<close>

lemma isr_turn_config_fails:
  assumes "isr_device d i f data s" and "sys_pwrite E (uio_config_fd i) [c] 5 (world s) = (Inl e, w)"
  shows "\<exists>s'. isr_loop E d c s = Some s' \<and> world s' = w"
  using assms by (auto simp: isr_loop.simps[of E d c s] isr_turn_def get_workp_def isr_device_def c_sys_def)

subsection \<open>Wrap mapping\<close>

text \<open>
  What the process sees: \<open>view w x\<close> is the cell of memory behind the address \<open>x\<close>, if there is one, and \<open>cell fd k\<close> the cell behind offset \<open>k\<close> of
  the open file \<open>fd\<close>.
  \<^item> A new mapping shows the file from its start, as far as it reaches. The address given is a hint, so it never replaces a mapping that
    exists.
  \<^item> \<open>mremap\<close> with \<open>MREMAP_FIXED\<close> moves a mapping to the address given.
  \<^item> Allocation of memory leaves the other mappings alone.
\<close>

definition mappings :: "'w env \<Rightarrow> ('w \<Rightarrow> u64 \<Rightarrow> 'c option) \<Rightarrow> (int \<Rightarrow> nat \<Rightarrow> 'c) \<Rightarrow> bool" where
  "mappings E view cell \<longleftrightarrow>
     (\<forall>a len fd w m w'. sys_mmap E a len fd w = (Inr m, w') \<longrightarrow>
        (\<forall>k < unat len. view w' (m + of_nat k) = Some (cell fd k)) \<and> (\<forall>x. view w x \<noteq> None \<longrightarrow> view w' x = view w x)) \<and>
     (\<forall>old len new w m w'. sys_mremap E old len new w = (Inr m, w') \<longrightarrow>
        m = new \<and> (\<forall>k < unat len. view w' (new + of_nat k) = view w (old + of_nat k))) \<and>
     (\<forall>al len w r w'. sys_memalign E al len w = (r, w') \<longrightarrow> (\<forall>x. view w x \<noteq> None \<longrightarrow> view w' x = view w x))"

lemma mappings_mmap:
  assumes "mappings E view cell" and "c_mmap (sys_mmap E a len fd) s = (m, s')" and "m \<noteq> MAP_FAILED"
  shows "\<forall>k < unat len. view (world s') (m + of_nat k) = Some (cell fd k)" and "\<forall>x. view (world s) x \<noteq> None \<longrightarrow> view (world s') x = view (world s) x"
proof -
  obtain w where "sys_mmap E a len fd (world s) = (Inr m, w)" "world s' = w"
    using assms(2,3) by (auto simp: c_mmap_def c_sys_def split: prod.splits sum.splits option.splits)
  with conjunct1[OF assms(1)[unfolded mappings_def]]
  show "\<forall>k < unat len. view (world s') (m + of_nat k) = Some (cell fd k)" "\<forall>x. view (world s) x \<noteq> None \<longrightarrow> view (world s') x = view (world s) x"
    by simp_all
qed

lemma mappings_mremap:
  assumes "mappings E view cell" and "c_mmap (sys_mremap E old len new) s = (m, s')" and "m \<noteq> MAP_FAILED"
  shows "\<forall>k < unat len. view (world s') (m + of_nat k) = view (world s) (old + of_nat k)"
proof -
  obtain w where "sys_mremap E old len new (world s) = (Inr m, w)" "world s' = w"
    using assms(2,3) by (auto simp: c_mmap_def c_sys_def split: prod.splits sum.splits option.splits)
  then show ?thesis using assms(1) unfolding mappings_def by blast
qed

text \<open>The buffer is mapped twice in a row: both mappings show the first \<open>len\<close> cells of the file.\<close>

definition wrapped :: "('w \<Rightarrow> u64 \<Rightarrow> 'c option) \<Rightarrow> (nat \<Rightarrow> 'c) \<Rightarrow> u64 \<Rightarrow> addr \<Rightarrow> 'w pstate \<Rightarrow> bool" where
  "wrapped view cells len a s \<longleftrightarrow>
     (\<exists>b. bufs s a = Some b \<and> buf_length b = len \<and> map_two b = buf_map b + len \<and>
        (\<forall>k < unat len. view (world s) (buf_map b + of_nat k) = Some (cells k) \<and> view (world s) (map_two b + of_nat k) = Some (cells k)))"

text \<open>The world after the old mappings of a buffer of the driver were given back.\<close>

definition released_world :: "'w env \<Rightarrow> DMABuffer \<Rightarrow> 'w \<Rightarrow> 'w" where
  "released_world E b w =
     (let w = (if buf_map b \<noteq> MAP_FAILED then snd (sys_munmap E (buf_map b) (buf_length b) w) else w) in
      if map_two b \<noteq> MAP_FAILED then snd (sys_munmap E (map_two b) (buf_length b) w) else w)"

lemma c_void_world: "world (c_void f s) = snd (f (world s))" "bufs (c_void f s) = bufs s"
  by (simp_all add: c_void_def c_sys_def split: prod.splits sum.splits)

lemma kernel_wrap:
  assumes "posix_env E" "mappings E view cell" and b: "bufs s a = Some b" "internal b = Some i"
    and len: "unat (buf_length b) < 2 ^ 63" and wrap: "\<forall>k < unat (buf_length b). cell (map_fd i) (unat (buf_length b) + k) = cell (map_fd i) k"
  shows "\<exists>r s'. DMABuffer_handleFailedKernelWrapMap E a s = Some (r, s') \<and>
    (r = PDA_SUCCESS \<longrightarrow> wrapped view (cell (map_fd i)) (buf_length b) a s') \<and>
    (r = PDA_SUCCESS \<longleftrightarrow> (\<exists>m w'. sys_mmap E (buf_map b) (buf_length b * 2) (map_fd i) (released_world E b (world s)) = (Inr m, w')))"
proof -
  define s1 where "s1 = (if buf_map b \<noteq> MAP_FAILED then c_void (sys_munmap E (buf_map b) (buf_length b)) s else s)"
  define s2 where "s2 = (if map_two b \<noteq> MAP_FAILED then c_void (sys_munmap E (map_two b) (buf_length b)) s1 else s1)"
  obtain m s3 where m: "c_mmap (sys_mmap E (buf_map b) (buf_length b * 2) (map_fd i)) s2 = (m, s3)" by fastforce
  have s2: "bufs s2 = bufs s" "world s2 = released_world E b (world s)"
    by (simp_all add: s1_def s2_def released_world_def c_void_world)
  have s3: "bufs s3 = bufs s" using c_mmap_heaps[OF m] s2(1) by (simp add: same_heaps_def)
  have ok: "m \<noteq> MAP_FAILED \<longleftrightarrow> (\<exists>m w'. sys_mmap E (buf_map b) (buf_length b * 2) (map_fd i) (released_world E b (world s)) = (Inr m, w'))"
    using m posix_mmap(2)[OF assms(1)] s2(2) by (auto simp: c_mmap_def c_sys_def split: prod.splits sum.splits option.splits)
  have run: "m \<noteq> MAP_FAILED \<Longrightarrow> DMABuffer_handleFailedKernelWrapMap E a s =
      Some (PDA_SUCCESS, s3\<lparr>bufs := (bufs s3)(a \<mapsto> b\<lparr>buf_map := m, map_two := m + buf_length b\<rparr>)\<rparr>)"
    and fail: "m = MAP_FAILED \<Longrightarrow> \<exists>s'. DMABuffer_handleFailedKernelWrapMap E a s = Some (not_PDA_SUCCESS, s')"
    using b m s3 s2(1) by (auto simp: DMABuffer_handleFailedKernelWrapMap_def s1_def[symmetric] s2_def[symmetric] Let_def[of s1] Let_def[of s2]
        upd_buf_def split_beta Let_def[of "c_mmap f s" for f s])
  show ?thesis
  proof (cases "m = MAP_FAILED")
    case True
    then show ?thesis using fail ok by auto
  next
    case False
    have two: "unat (buf_length b * 2) = 2 * unat (buf_length b)" using len by (simp add: unat_word_ariths)
    note v = mappings_mmap(1)[OF assms(2) m False, unfolded two]
    have "view (world s3) (m + buf_length b + of_nat k) = Some (cell (map_fd i) k)" if "k < unat (buf_length b)" for k
      using v[rule_format, of "unat (buf_length b) + k"] wrap that by (simp add: add.assoc)
    then have "wrapped view (cell (map_fd i)) (buf_length b) a (s3\<lparr>bufs := (bufs s3)(a \<mapsto> b\<lparr>buf_map := m, map_two := m + buf_length b\<rparr>)\<rparr>)"
      using v by (auto simp: wrapped_def)
    with run False ok show ?thesis by simp
  qed
qed

lemma user_wrap:
  assumes "mappings E view cell" and b: "bufs s a = Some b" "internal b = Some i"
    and mapped: "\<forall>k < unat (buf_length b). view (world s) (buf_map b + of_nat k) = Some (cell (map_fd i) k)"
  shows "\<exists>r s'. userWrapMap E a area s = Some (r, s') \<and> (r = PDA_SUCCESS \<longrightarrow> wrapped view (cell (map_fd i)) (buf_length b) a s')"
proof -
  have exit: "\<exists>r s'. userWrapMap_exit E a t = Some (r, s') \<and> r \<noteq> PDA_SUCCESS" if "bufs t a = Some c" for t :: "'a pstate" and c
    using that by (auto simp: userWrapMap_exit_def unmap_two_def upd_buf_def heap_upd_def prod_eq_iff)
  show ?thesis
  proof (cases "buf_map b = 0")
    case True
    with exit[OF b(1)] b(1) show ?thesis by (auto simp: userWrapMap_def)
  next
    case False
    obtain m1 s1 where 1: "c_mmap (sys_mremap E (buf_map b) (buf_length b) area) s = (m1, s1)" by fastforce
    define t1 where "t1 = s1\<lparr>bufs := (bufs s)(a \<mapsto> b\<lparr>buf_map := m1\<rparr>)\<rparr>"
    obtain m2 s2 where 2: "c_mmap (sys_mmap E (m1 + buf_length b) (buf_length b) (map_fd i)) t1 = (m2, s2)" by fastforce
    let ?b = "b\<lparr>buf_map := m1, map_two := m2\<rparr>"
    define t2 where "t2 = s2\<lparr>bufs := (bufs s)(a \<mapsto> ?b)\<rparr>"
    have h: "bufs s1 = bufs s" "bufs s2 = bufs t1" using c_mmap_heaps[OF 1] c_mmap_heaps[OF 2] by (simp_all add: same_heaps_def)
    have run: "userWrapMap E a area s = (if m1 = MAP_FAILED \<or> m2 = MAP_FAILED \<or> m2 \<noteq> m1 + buf_length b then userWrapMap_exit E a t2 else Some (PDA_SUCCESS, t2))"
      using False b 1 2 h by (simp add: userWrapMap_def upd_buf_def heap_upd_def t1_def t2_def)
    have t2: "bufs t2 a = Some ?b" "world t2 = world s2" "world t1 = world s1" by (simp_all add: t1_def t2_def)
    show ?thesis
    proof (cases "m1 = MAP_FAILED \<or> m2 = MAP_FAILED \<or> m2 \<noteq> m1 + buf_length b")
      case True
      with exit[OF t2(1)] run show ?thesis by auto
    next
      case False
      then have one: "\<forall>k < unat (buf_length b). view (world t1) (m1 + of_nat k) = Some (cell (map_fd i) k)"
        using mappings_mremap[OF assms(1) 1] mapped t2(3) by simp
      moreover have "\<forall>k < unat (buf_length b). view (world s2) (m1 + of_nat k) = Some (cell (map_fd i) k)"
        using one mappings_mmap(2)[OF assms(1) 2] False by auto
      ultimately have "wrapped view (cell (map_fd i)) (buf_length b) a t2"
        using mappings_mmap(1)[OF assms(1) 2] False t2 by (auto simp: wrapped_def)
      then show ?thesis using run False by simp
    qed
  qed
qed

text \<open>
  C34. \<open>DMABuffer_wrapMap\<close> of a complete buffer always returns. Let its file show the buffer repeatedly, as the kernel module maps it, and
  let the buffer be mapped. When the call succeeds, for a buffer of the driver or of the user, the second mapping starts exactly where the
  first ends, and both are there and show the same memory: byte \<open>k\<close> of the buffer is found at offset \<open>k\<close> and at offset
  \<open>length + k\<close> of the first mapping, so an access running over the end continues at the start of the buffer. For a buffer of the driver it
  succeeds exactly if the system grants the mapping of twice the length.
\<close>

theorem wrapMap_adjacent:
  assumes "posix_env E" and "mappings E view cell" and b: "bufs s a = Some b" "internal b = Some i"
    and "unat (buf_length b) < 2 ^ 63" and "\<forall>k < unat (buf_length b). cell (map_fd i) (unat (buf_length b) + k) = cell (map_fd i) k"
    and mapped: "\<forall>k < unat (buf_length b). view (world s) (buf_map b + of_nat k) = Some (cell (map_fd i) k)"
  shows "\<exists>r s'. DMABuffer_wrapMap E (Some a) s = Some (r, s') \<and>
    (r = PDA_SUCCESS \<longrightarrow> (\<exists>b'. bufs s' a = Some b' \<and> buf_length b' = buf_length b \<and> map_two b' = buf_map b' + buf_length b \<and>
       (\<forall>k < unat (buf_length b). view (world s') (buf_map b' + of_nat k) = Some (cell (map_fd i) k) \<and>
          view (world s') (map_two b' + of_nat k) = Some (cell (map_fd i) k)))) \<and>
    (buf_type b = PDA_BUFFER_KERNEL \<longrightarrow> (r = PDA_SUCCESS \<longleftrightarrow>
       (\<exists>m w'. sys_mmap E (buf_map b) (buf_length b * 2) (map_fd i) (released_world E b (world s)) = (Inr m, w'))))"
proof (cases "buf_type b = PDA_BUFFER_KERNEL")
  case True
  then have "DMABuffer_wrapMap E (Some a) s = DMABuffer_handleFailedKernelWrapMap E a s"
    using b by (simp add: DMABuffer_wrapMap_def)
  with kernel_wrap[OF assms(1-6)] show ?thesis unfolding wrapped_def by auto
next
  case False
  obtain r s1 where m: "c_sys (sys_memalign E (PAGE_SIZE E) (2 * buf_length b)) s = (r, s1)" by fastforce
  then have s1: "bufs s1 a = Some b" using b c_sys_heaps[OF m] by (simp add: same_heaps_def)
  have "\<forall>x. view (world s) x \<noteq> None \<longrightarrow> view (world s1) x = view (world s) x"
    using m assms(2) unfolding mappings_def by (auto simp: c_sys_def split: prod.splits sum.splits)
  then have mapped1: "\<forall>k < unat (buf_length b). view (world s1) (buf_map b + of_nat k) = Some (cell (map_fd i) k)"
    using mapped by auto
  have eq: "DMABuffer_wrapMap E (Some a) s =
      (case r of None \<Rightarrow> Some (ERROR E EINVAL (snd (ERROR E (errno s1) s1)))
       | Some area \<Rightarrow> if buf_type b = PDA_BUFFER_USER then userWrapMap E a area s1 else Some (ERROR E EINVAL s1))"
    using False b m by (cases r) (simp_all add: DMABuffer_wrapMap_def)
  have err: "\<exists>s'. Some (ERROR E EINVAL t) = Some (EINVAL, s')" "EINVAL \<noteq> PDA_SUCCESS" for t :: "'a pstate"
    by (simp_all add: prod_eq_iff)
  show ?thesis
    using False user_wrap[OF assms(2) s1 b(2) mapped1, of "the r"] err unfolding eq wrapped_def by (fastforce split: option.split)
qed

text \<open>
  A world that is the view of the process, with a mapping granted if the place for it is free, and a process with a mapped buffer of one page
  whose file shows the page repeatedly.
\<close>

definition demo_place :: u64 where "demo_place = 0x7f0000000000"

definition place :: "u64 \<Rightarrow> u64 \<Rightarrow> (nat \<Rightarrow> nat option) \<Rightarrow> (u64 \<Rightarrow> nat option) \<Rightarrow> u64 \<Rightarrow> nat option" where
  "place m len c w = (\<lambda>x. if unat (x - m) < unat len then c (unat (x - m)) else w x)"

definition view_env :: "(u64 \<Rightarrow> nat option) env" where
  "view_env = calm_env\<lparr>
     sys_mmap := (\<lambda>_ len _ w. if \<forall>k < unat len. w (demo_place + of_nat k) = None
        then (Inr demo_place, place demo_place len (\<lambda>k. Some (k mod 4096)) w) else (Inl 12, w)),
     sys_munmap := (\<lambda>m len w. (Inr (), place m len (\<lambda>_. None) w)),
     sys_mremap := (\<lambda>old len new w. (Inl 12, w))\<rparr>"

lemma view_env_laws: "posix_env view_env" "mappings view_env (\<lambda>w. w) (\<lambda>fd k. k mod 4096)"
proof -
  show "posix_env view_env"
    using calm_env_posix by (auto simp: posix_env_def errno_law_def view_env_def calm_env_def demo_place_def)
  have "unat (of_nat k :: u64) = k" if "k < unat len" for k and len :: u64
    using that unat_bound[of len] by (simp add: unat_of_nat)
  moreover have "w x = None" if "\<forall>k < unat len. w (m + of_nat k) = None" "unat (x - m) < unat len" for w x m and len :: u64
    using that(1)[rule_format, OF that(2)] by simp
  ultimately show "mappings view_env (\<lambda>w. w) (\<lambda>fd k. k mod 4096)"
    by (auto simp: mappings_def view_env_def calm_env_def place_def split: if_splits)
qed

definition one_page_buffer :: DMABuffer where
  "one_page_buffer = (named_buffer 7)\<lparr>buf_type := PDA_BUFFER_KERNEL, buf_length := 4096, buf_map := demo_place, map_two := MAP_FAILED\<rparr>"

definition view_process :: "(u64 \<Rightarrow> nat option) pstate" where
  "view_process = \<lparr>errno = 0, debug_mask = 0, activated = 0, channel = [], world = place demo_place 4096 (\<lambda>k. Some k) (\<lambda>x. None),
     bufs = [3 \<mapsto> one_page_buffer], bars = Map.empty, devs = Map.empty, brk = 10, uio_sysfs_dir = []\<rparr>"

theorem wrapMap_adjacent_witness:
  "\<exists>s' b. DMABuffer_wrapMap view_env (Some 3) view_process = Some (PDA_SUCCESS, s') \<and> bufs s' 3 = Some b \<and>
    map_two b = buf_map b + 4096 \<and> world s' (buf_map b + 17) = Some 17 \<and> world s' (buf_map b + 4096 + 17) = Some 17"
proof -
  obtain i where b: "bufs view_process 3 = Some one_page_buffer" "internal one_page_buffer = Some i"
    by (simp add: view_process_def one_page_buffer_def named_buffer_def)
  have f: "buf_length one_page_buffer = 4096" "buf_map one_page_buffer = demo_place" "map_two one_page_buffer = MAP_FAILED" "demo_place \<noteq> MAP_FAILED"
    "buf_type one_page_buffer = PDA_BUFFER_KERNEL" by (simp_all add: one_page_buffer_def demo_place_def)
  have small: "unat (of_nat k :: u64) = k" if "k < 4096" for k using that by (simp add: unat_of_nat)
  have "world view_process (demo_place + of_nat k) = Some (k mod 4096)" if "k < 4096" for k
    using that by (simp add: view_process_def place_def small)
  moreover have "released_world view_env one_page_buffer (world view_process) = (\<lambda>x. None)"
    by (auto simp: released_world_def f view_env_def view_process_def place_def fun_eq_iff)
  then have "\<exists>m w'. sys_mmap view_env demo_place 8192 (map_fd i) (released_world view_env one_page_buffer (world view_process)) = (Inr m, w')"
    by (simp add: view_env_def)
  ultimately show ?thesis
    using wrapMap_adjacent[OF view_env_laws b, unfolded f] by (fastforce simp: f(5) dest: spec[of _ 17])
qed

text \<open>
  When the double mapping fails but the single one that replaces it succeeds, the second pointer is
  left at \<open>MAP_FAILED + length\<close>, which \<open>DMABuffer_free\<close> later takes for a mapping.
\<close>

lemma wrapMap_failure_stale_pointer:
  assumes "bufs s a = Some b" "internal b = Some i" "buf_map b = MAP_FAILED" "map_two b = MAP_FAILED"
    and "c_mmap (sys_mmap E MAP_FAILED (buf_length b * 2) (map_fd i)) s = (MAP_FAILED, s1)"
    and "c_mmap (sys_mmap E 0 (buf_length b) (map_fd i)) (s1\<lparr>bufs := (bufs s)(a \<mapsto> b\<lparr>buf_map := MAP_FAILED,
        map_two := MAP_FAILED + buf_length b\<rparr>)\<rparr>) = (m, s2)" "m \<noteq> MAP_FAILED"
  shows "\<exists>s'. DMABuffer_handleFailedKernelWrapMap E a s = Some (not_PDA_SUCCESS, s') \<and>
    bufs s' a = Some (b\<lparr>buf_map := m, map_two := MAP_FAILED + buf_length b\<rparr>)"
proof -
  have "bufs s1 = bufs s" using c_mmap_heaps[OF assms(5)] by (simp add: same_heaps_def)
  moreover have "bufs s2 = (bufs s)(a \<mapsto> b\<lparr>buf_map := MAP_FAILED, map_two := MAP_FAILED + buf_length b\<rparr>)"
    using c_mmap_heaps[OF assms(6)] by (simp add: same_heaps_def)
  ultimately show ?thesis
    using assms by (simp add: DMABuffer_handleFailedKernelWrapMap_def upd_buf_def)
qed

end
