(* ===== verification/PDA_DeviceOperator.thy ===== *)
theory PDA_DeviceOperator
  imports PDA_DeviceLife
begin

text \<open>
  The entry of the library (\<open>src/device_operator.c\<close>, \<open>arch/linux_x86_uio/device_operator_inc.c\<close>):
  version checks, initialisation, and the operator that enumerates the devices with given ids,
  hands them out and deletes them.

  An operator has a single owner, so it is a value of type \<open>DeviceOperator\<close> that the operations
  take and return; \<open>None\<close> is the \<open>NULL\<close> pointer. The version of the library comes from the build
  and is a parameter.
\<close>

section \<open>Versions\<close>

definition PDACheckVersion :: "u8 \<times> u8 \<times> u8 \<Rightarrow> u8 \<Rightarrow> u8 \<Rightarrow> u8 \<Rightarrow> PdaDebugReturnCode" where
  "PDACheckVersion lib current revision age =
     (case lib of (PDA_CURRENT, PDA_REVISION, PDA_AGE) \<Rightarrow>
        if PDA_CURRENT = 99 \<and> PDA_REVISION = 99 \<and> PDA_AGE = 99 then PDA_SUCCESS
        else if current = PDA_CURRENT \<and> revision = PDA_REVISION \<and> age = PDA_AGE then PDA_SUCCESS
        else if age \<le> PDA_AGE \<and> current \<le> PDA_CURRENT \<and> revision = 0 then PDA_SUCCESS
        else if revision \<le> PDA_REVISION \<and> age = PDA_AGE \<and> current = PDA_CURRENT then PDA_SUCCESS
        else ENOSYS)"

definition UIO_PCI_DMA_VERSION :: string where
  "UIO_PCI_DMA_VERSION = ''0.13.0''"

text \<open>The loops over the modules and over the info list of each.\<close>

fun kmod_loop :: "'w env \<Rightarrow> string \<Rightarrow> kmod_module list \<Rightarrow> 'w pstate \<Rightarrow> bool \<times> 'w pstate" where
  "kmod_loop E version [] s = (False, s)"
| "kmod_loop E version (m # ms) s =
     (case m of
        None \<Rightarrow> (False, snd (ERROR E EACCES s))
      | Some info \<Rightarrow>
          if (''version'', version) \<in> set info then (True, s) else kmod_loop E version ms s)"

definition isCorrectVersion :: "'w env \<Rightarrow> string \<Rightarrow> string \<Rightarrow> 'w pstate \<Rightarrow> bool \<times> 'w pstate" where
  "isCorrectVersion E module_name module_version s =
     (if \<not> cfg_KMOD_AVAIL E then (True, s)
      else (case sys_uname E (world s) of
          None \<Rightarrow> (False, snd (ERROR E EACCES s))
        | Some release \<Rightarrow>
            (case sys_kmod_modules E (c_snprintf PDA_STRING_LIMIT (''/lib/modules/'' @ release)) module_name (world s) of
               None \<Rightarrow> (False, snd (ERROR E EACCES s))
             | Some modules \<Rightarrow> kmod_loop E module_version modules s)))"

definition c_system :: "'w env \<Rightarrow> string \<Rightarrow> 'w pstate \<Rightarrow> int \<times> 'w pstate" where
  "c_system E cmd s = (case sys_system E cmd (world s) of (r, w) \<Rightarrow> (r, s\<lparr>world := w\<rparr>))"

definition PDAInit :: "'w env \<Rightarrow> 'w pstate \<Rightarrow> PdaDebugReturnCode \<times> 'w pstate" where
  "PDAInit E s =
     (let s = s\<lparr>uio_sysfs_dir := c_snprintf PDA_STRING_LIMIT UIO_DMA_SYSFS_DIR\<rparr> in
      case isCorrectVersion E ''uio_pci_dma'' UIO_PCI_DMA_VERSION s of
        (False, s) \<Rightarrow> (not_PDA_SUCCESS, s)
      | (True, s) \<Rightarrow>
          if cfg_MODPROBE_MODE E
          then (case c_system E ''/sbin/modprobe uio_pci_dma'' s of
              (retval, s) \<Rightarrow> (if retval < 0 \<or> retval = 32512 then not_PDA_SUCCESS else PDA_SUCCESS, s))
          else (PDA_SUCCESS, s))"

definition PDAFinalize :: "'w env \<Rightarrow> 'w pstate \<Rightarrow> PdaDebugReturnCode \<times> 'w pstate" where
  "PDAFinalize E s =
     (PDA_SUCCESS, snd (c_system E ''/sbin/rmmod uio_pci_generic'' (snd (c_system E ''/sbin/rmmod uio_pci_dma'' s))))"

section \<open>The operator\<close>

definition PDA_MAX_PCI_DEVICES :: nat where "PDA_MAX_PCI_DEVICES = 256"

record DeviceOperator =
  pci_devices :: "ptr list"
  pci_devices_number :: u64

definition zero_DeviceOperator :: DeviceOperator where
  "zero_DeviceOperator = \<lparr>pci_devices = replicate PDA_MAX_PCI_DEVICES None, pci_devices_number = 0\<rparr>"

definition sizeof_DeviceOperator :: nat where "sizeof_DeviceOperator = 2056"

text \<open>
  The loop of \<open>DeviceOperator_delete\<close> from element \<open>i\<close> on: it reads the array until it meets a
  \<open>NULL\<close>, also behind its end. The deletion of a device with an interrupt routine ends the thread.
\<close>

fun delete_devices ::
  "'w env \<Rightarrow> u8 \<Rightarrow> ptr list \<Rightarrow> PdaDebugReturnCode \<Rightarrow> 'w pstate \<Rightarrow> (delete_result \<times> 'w pstate) option" where
  "delete_devices E persistant [] ret s = None"
| "delete_devices E persistant (p # ps) ret s =
     (case p of
        None \<Rightarrow> Some (Returns ret, s)
      | Some a \<Rightarrow>
          Option.bind (PciDevice_delete E (Some a) persistant s) (\<lambda>(r, s).
            case r of
              Thread_exits \<Rightarrow> Some (Thread_exits, s)
            | Returns c \<Rightarrow> delete_devices E persistant ps (ret + c) s))"

definition DeviceOperator_delete_inc :: "'w pstate \<Rightarrow> PdaDebugReturnCode \<times> 'w pstate" where
  "DeviceOperator_delete_inc s = (PDA_SUCCESS, s)"

text \<open>The result carries the operator when it was not freed.\<close>

definition DeviceOperator_delete ::
  "'w env \<Rightarrow> DeviceOperator option \<Rightarrow> u8 \<Rightarrow> 'w pstate
   \<Rightarrow> ((delete_result \<times> DeviceOperator option) \<times> 'w pstate) option" where
  "DeviceOperator_delete E dev_operator delete_persistant s =
     (case dev_operator of
        None \<Rightarrow> Some ((Returns PDA_SUCCESS, None), s)
      | Some op \<Rightarrow>
          (case DeviceOperator_delete_inc s of
             (r, s) \<Rightarrow>
               if r \<noteq> PDA_SUCCESS then Some ((Returns not_PDA_SUCCESS, dev_operator), s)
               else do {
                 (res, s) \<leftarrow> delete_devices E delete_persistant (pci_devices op) PDA_SUCCESS s;
                 Some (if res = Returns PDA_SUCCESS then (Returns PDA_SUCCESS, None)
                       else (case res of Returns _ \<Rightarrow> Returns not_PDA_SUCCESS | Thread_exits \<Rightarrow> Thread_exits, dev_operator), s)
               }))"

definition DeviceOperator_getPciDevice ::
  "'w env \<Rightarrow> DeviceOperator option \<Rightarrow> u64 \<Rightarrow> 'w pstate
   \<Rightarrow> ((PdaDebugReturnCode \<times> ptr option) \<times> 'w pstate) option" where
  "DeviceOperator_getPciDevice E device_operator device_number s =
     (case device_operator of
        None \<Rightarrow> Some (let (c, s) = ERROR E EINVAL s in ((c, None), s))
      | Some op \<Rightarrow>
          if device_number < pci_devices_number op then do {
            p \<leftarrow> list_get (pci_devices op) (unat device_number);
            if p \<noteq> None then Some ((PDA_SUCCESS, Some p), s)
            else Some (let (c, s) = ERROR E EFAULT s in ((c, None), s))
          }
          else Some (let (c, s) = ERROR E EFAULT s in ((c, None), s)))"

definition DeviceOperator_getPciDeviceCount ::
  "'w env \<Rightarrow> DeviceOperator option \<Rightarrow> bool \<Rightarrow> 'w pstate \<Rightarrow> (PdaDebugReturnCode \<times> u64 option) \<times> 'w pstate" where
  "DeviceOperator_getPciDeviceCount E device_operator target s =
     (case device_operator of
        None \<Rightarrow> (let (c, s) = ERROR E EINVAL s in ((c, None), s))
      | Some op \<Rightarrow>
          if \<not> target then (let (c, s) = ERROR E EINVAL s in ((c, None), s))
          else ((PDA_SUCCESS, Some (pci_devices_number op)), s))"

section \<open>Enumeration\<close>

text \<open>Passing the ids to the driver; \<open>False\<close> stands for the jump to the exit block.\<close>

fun pass_ids :: "'w env \<Rightarrow> string list \<Rightarrow> 'w pstate \<Rightarrow> bool \<times> 'w pstate" where
  "pass_ids E [] s = (True, s)"
| "pass_ids E (i # is) s =
     (case c_sys (sys_fopen E (c_snprintf PDA_STRING_LIMIT (uio_sysfs_dir s @ ''/new_id'')) O_WRONLY) s of
        (None, s) \<Rightarrow> (False, snd (ERROR E (errno s) s))
      | (Some fp, s) \<Rightarrow> pass_ids E is (s\<lparr>world := sys_fclose E fp (sys_fprintf E fp i (world s))\<rparr>))"

text \<open>Six characters of an id file, and the C string they form in the array.\<close>

definition read6 :: "'w env \<Rightarrow> nat \<Rightarrow> 'w pstate \<Rightarrow> string \<times> 'w pstate" where
  "read6 E fp s = (case sys_fread E fp 6 (world s) of (str, w) \<Rightarrow> (str, s\<lparr>world := sys_fclose E fp w\<rparr>))"

definition c_str :: "string \<Rightarrow> string" where
  "c_str s = takeWhile (\<lambda>c. c \<noteq> char_of (0 :: nat)) s"

text \<open>
  One directory entry, for the given vendor and device id. \<open>Inl\<close> is the jump to the exit block.
\<close>

definition check_entry ::
  "'w env \<Rightarrow> string \<Rightarrow> string \<Rightarrow> dirent \<Rightarrow> DeviceOperator \<Rightarrow> 'w pstate
   \<Rightarrow> ((DeviceOperator + DeviceOperator) \<times> 'w pstate) option" where
  "check_entry E vendor_given device_given e op s =
     (let dir = uio_sysfs_dir s;
          path = (\<lambda>f. c_snprintf PDA_STRING_LIMIT (dir @ ''/'' @ d_name e @ f)) in
      case c_sys (sys_lstat_islnk E (path [])) s of
        (None, s) \<Rightarrow> Some (Inr op, snd (ERROR E (errno s) s))
      | (Some False, s) \<Rightarrow> Some (Inr op, s)
      | (Some True, s) \<Rightarrow>
          (case c_sys (sys_fopen E (path ''/vendor'') O_RDONLY) s of
             (None, s) \<Rightarrow> Some (Inr op, s)
           | (Some fp_vendor, s) \<Rightarrow>
               (case c_sys (sys_fopen E (path ''/device'') O_RDONLY) s of
                  (None, s) \<Rightarrow> Some (Inl op, snd (ERROR E (errno s) (s\<lparr>world := sys_fclose E fp_vendor (world s)\<rparr>)))
                | (Some fp_device, s) \<Rightarrow>
                    (case read6 E fp_vendor s of
                       (vendor, s) \<Rightarrow>
                         if length vendor \<noteq> 6 then Some (Inl op, snd (ERROR E EINVAL s))
                         else (case read6 E fp_device s of
                             (device, s) \<Rightarrow>
                               if length device \<noteq> 6 then Some (Inl op, snd (ERROR E EINVAL s))
                               else if vendor_given \<noteq> c_str vendor \<or> device_given \<noteq> c_str device then Some (Inr op, s)
                               else (case parse_bdf (d_name e) of
                                   None \<Rightarrow> Some (Inl op, snd (ERROR E EINVAL s))
                                 | Some ids \<Rightarrow> do {
                                     (dev, s) \<leftarrow> PciDevice_new_op E (d_name e) (c_str vendor) (c_str device) ids s;
                                     devices \<leftarrow> list_put (pci_devices op) (unat (pci_devices_number op)) dev;
                                     let op = op\<lparr>pci_devices := devices\<rparr>;
                                     if dev = None then Some (Inl op, snd (ERROR E ENXIO s))
                                     else Some (Inr (op\<lparr>pci_devices_number := pci_devices_number op + 1\<rparr>), s)
                                   }))))))"

fun check_entries ::
  "'w env \<Rightarrow> string \<Rightarrow> string \<Rightarrow> dirent list \<Rightarrow> DeviceOperator \<Rightarrow> 'w pstate
   \<Rightarrow> ((DeviceOperator + DeviceOperator) \<times> 'w pstate) option" where
  "check_entries E vendor_given device_given [] op s = Some (Inr op, s)"
| "check_entries E vendor_given device_given (e # es) op s =
     Option.bind (check_entry E vendor_given device_given e op s) (\<lambda>(res, s).
       case res of
         Inl op \<Rightarrow> Some (Inl op, s)
       | Inr op \<Rightarrow> check_entries E vendor_given device_given es op s)"

text \<open>
  The loop over the ids. An id shorter than five characters makes the code read behind its end. The
  exit block closes the directory unless \<open>opendir\<close> failed.
\<close>

fun search_ids ::
  "'w env \<Rightarrow> string list \<Rightarrow> DeviceOperator \<Rightarrow> 'w pstate \<Rightarrow> ((DeviceOperator + DeviceOperator) \<times> 'w pstate) option" where
  "search_ids E [] op s = Some (Inr op, s)"
| "search_ids E (i # is) op s =
     (if length i < 5 then None
      else (case c_sys (sys_opendir E (uio_sysfs_dir s)) s of
          (None, s) \<Rightarrow> Some (Inl op, snd (ERROR E (errno s) s))
        | (Some entries, s) \<Rightarrow>
            Option.bind (check_entries E (''0x'' @ take 4 i) (''0x'' @ take 4 (drop 5 i)) entries op s) (\<lambda>(res, s).
              let s = s\<lparr>world := sys_closedir E (world s)\<rparr> in
              case res of
                Inl op \<Rightarrow> Some (Inl op, s)
              | Inr op \<Rightarrow> search_ids E is op s)))"

definition DeviceOperator_new_exit ::
  "'w env \<Rightarrow> DeviceOperator option \<Rightarrow> 'w pstate \<Rightarrow> (DeviceOperator option \<times> 'w pstate) option" where
  "DeviceOperator_new_exit E op s =
     do { (_, s) \<leftarrow> DeviceOperator_delete E op PDA_DELETE_PERSISTANT s; Some (None, s) }"

definition DeviceOperator_new ::
  "'w env \<Rightarrow> string list \<Rightarrow> bool \<Rightarrow> 'w pstate \<Rightarrow> (DeviceOperator option \<times> 'w pstate) option" where
  "DeviceOperator_new E pci_ids enumerate_ids s =
     (case PDAInit E s of
        (r, s) \<Rightarrow>
          if r \<noteq> PDA_SUCCESS then Some (None, s)
          else (case c_alloc E sizeof_DeviceOperator s of
              (False, s) \<Rightarrow> DeviceOperator_new_exit E None (snd (ERROR E ENOMEM s))
            | (True, s) \<Rightarrow>
                (case (if enumerate_ids then pass_ids E pci_ids s else (True, s)) of
                   (False, s) \<Rightarrow> DeviceOperator_new_exit E (Some zero_DeviceOperator) s
                 | (True, s) \<Rightarrow> do {
                     (res, s) \<leftarrow> search_ids E pci_ids zero_DeviceOperator s;
                     (case res of
                        Inl op \<Rightarrow> DeviceOperator_new_exit E (Some op) s
                      | Inr op \<Rightarrow> Some (Some op, s))
                   })))"

section \<open>Devices of an operator\<close>

text \<open>A device as \<open>PciDevice_new_op\<close> leaves it: no buffers, no registers, no interrupt routine.\<close>

definition idle :: "PciDevice \<Rightarrow> bool" where
  "idle d \<longleftrightarrow> dev_internal d \<noteq> None \<and> dma_buffer_list d = None \<and> dev_bar d = replicate PDA_MAX_PCI_32_BARS None
     \<and> interrupt d = None"

definition grown :: "'w pstate \<Rightarrow> 'w pstate \<Rightarrow> bool" where
  "grown s s' \<longleftrightarrow> brk s \<le> brk s' \<and> devs s' = devs s \<and> bufs s' = bufs s \<and> uio_sysfs_dir s' = uio_sysfs_dir s"

lemma grown_refl [simp]: "grown s s"
  by (simp add: grown_def)

lemma grown_trans [trans]: "grown s s1 \<Longrightarrow> grown s1 s2 \<Longrightarrow> grown s s2"
  by (simp add: grown_def)

lemma grown_same_heaps: "same_heaps s s' \<Longrightarrow> grown s s'"
  by (simp add: same_heaps_def grown_def)

lemma grown_ERROR [simp]: "grown s (snd (ERROR E c s')) = grown s s'"
  by (simp add: grown_def)

lemma grown_world [simp]: "grown s (s'\<lparr>world := w\<rparr>) = grown s s'"
  by (simp add: grown_def)

text \<open>The state after a new device was created at \<open>a\<close>.\<close>

definition created :: "bdf \<Rightarrow> addr \<Rightarrow> 'w pstate \<Rightarrow> 'w pstate \<Rightarrow> bool" where
  "created ids a s s' \<longleftrightarrow> a = brk s \<and> brk s' = Suc a \<and> bufs s' = bufs s \<and> uio_sysfs_dir s' = uio_sysfs_dir s \<and>
     (\<exists>d. devs s' = (devs s)(a \<mapsto> d) \<and> idle d \<and> dev_bdf d = ids)"

lemma new_int_outcome:
  assumes "PciDevice_new_int E s = (p, s')"
  shows "(p = None \<and> grown s s') \<or>
    (\<exists>d. p = Some (brk s) \<and> brk s' = Suc (brk s) \<and> bufs s' = bufs s \<and> uio_sysfs_dir s' = uio_sysfs_dir s \<and>
      devs s' = (devs s)(brk s \<mapsto> d) \<and> dev_internal d \<noteq> None \<and> dma_buffer_list d = None \<and> interrupt d = None)"
  using assms
  by (auto simp: PciDevice_new_int_def c_new_def c_alloc_def grown_def split: prod.splits bool.splits option.splits)

lemma setNumaNodeAffinity_total:
  assumes "get_workp a s = Some i"
  shows "\<exists>n s'. PciDevice_setNumaNodeAffinity E a s = Some (n, s') \<and> same_heaps s s'"
proof (cases "sys_numa_available E (world s)")
  case False
  then show ?thesis by (simp add: PciDevice_setNumaNodeAffinity_def)
next
  case True
  obtain fp s1 where o: "pda_spinOpen E (c_snprintf PDA_STRING_LIMIT (uio_sysfs_path i @ ''/numa_node''))
      O_RDONLY PDA_OPEN_DEFAULT_SPIN s = (fp, s1)" by fastforce
  obtain r s2 where rd: "c_sys (sys_read E fp 3) s1 = (r, s2)" by fastforce
  have h: "same_heaps s s1" "same_heaps s1 s2" using pda_spinOpen_heaps[OF o] c_sys_heaps[OF rd] by auto
  let ?bs = "case r of None \<Rightarrow> [] | Some bs \<Rightarrow> take 3 bs"
  let ?s3 = "snd (c_close E fp s2)"
  obtain ok w where run: "sys_numa_run_on_node E (scan_numa (numa_string ?bs)) (world ?s3) = (ok, w)" by fastforce
  show ?thesis
    using True assms o rd run h
    by (simp add: PciDevice_setNumaNodeAffinity_def Let_def cong: if_cong)
      (auto simp: same_heaps_def split: option.splits)
qed

lemma new_op_outcome:
  assumes "length vendor < 7" and "length nm < 7"
  shows "\<exists>p s'. PciDevice_new_op E entry vendor nm ids s = Some (p, s') \<and>
    (case p of None \<Rightarrow> grown s s' | Some a \<Rightarrow> created ids a s s') \<and> (granting E \<longrightarrow> p \<noteq> None)"
proof -
  let ?path = "c_snprintf PDA_STRING_LIMIT (uio_sysfs_dir s @ ''/'' @ entry)"
  obtain r s1 where acc: "c_sys (sys_access E ?path) s = (r, s1)" by fastforce
  have h1: "same_heaps s s1" using c_sys_heaps[OF acc] .
  obtain p s2 where int: "PciDevice_new_int E s1 = (p, s2)" by fastforce
  have "granting E \<Longrightarrow> r \<noteq> None \<and> p \<noteq> None"
    using c_sys_granted[OF granting_laws(3) acc] int granting_laws(12)[of E]
    by (auto simp: PciDevice_new_int_def c_new_def c_alloc_ok split: prod.splits bool.splits)
  then show ?thesis
  proof (cases "r = None \<or> p = None")
    case True
    with \<open>granting E \<Longrightarrow> r \<noteq> None \<and> p \<noteq> None\<close> acc int new_int_outcome[OF int] grown_same_heaps[OF h1] show ?thesis
      by (cases r) (auto simp: PciDevice_new_op_def new_op_exit_def PciDevice_delete_def grown_def)
  next
    case False
    with new_int_outcome[OF int] obtain d where d: "p = Some (brk s1)" "brk s2 = Suc (brk s1)" "bufs s2 = bufs s1"
      "uio_sysfs_dir s2 = uio_sysfs_dir s1" "devs s2 = (devs s1)(brk s1 \<mapsto> d)" "dev_internal d \<noteq> None"
      "dma_buffer_list d = None" "interrupt d = None" by auto
    then obtain i where i: "dev_internal d = Some i" by auto
    let ?i = "i\<lparr>uio_sysfs_entry := c_snprintf PDA_STRING_LIMIT entry,
      uio_sysfs_path := c_snprintf PDA_STRING_LIMIT (uio_sysfs_dir s2 @ ''/'' @ entry), uio_device_fd := -1, uio_config_fd := -1\<rparr>"
    let ?d = "d\<lparr>dev_internal := Some ?i, vendor_str := vendor, device_str := nm, max_payload_size := 0,
      max_read_request_size := 0, bar_init := False, isr_init := False, domain_id := fst ids, bus_id := fst (snd ids),
      device_id := fst (snd (snd ids)), function_id := snd (snd (snd ids)), dev_bar := replicate PDA_MAX_PCI_32_BARS None\<rparr>"
    define s4 where "s4 = s2\<lparr>devs := (devs s1)(brk s1 \<mapsto> ?d)\<rparr>"
    have idle: "idle ?d" "dev_bdf ?d = ids" using d by (simp_all add: idle_def dev_bdf_def)
    have "get_workp (brk s1) s4 = Some ?i" by (simp add: get_workp_def s4_def)
    then obtain n s5 where numa: "PciDevice_setNumaNodeAffinity E (brk s1) s4 = Some (n, s5)" "same_heaps s4 s5"
      using setNumaNodeAffinity_total by blast
    have eq: "PciDevice_new_op E entry vendor nm ids s = (if cfg_NUMA_AVAIL E
        then Some (Some (brk s1), s5\<lparr>devs := (devs s1)(brk s1 \<mapsto> ?d\<lparr>dev_internal := Some (?i\<lparr>numa_node := n\<rparr>)\<rparr>)\<rparr>)
        else Some (Some (brk s1), s4))"
      using acc int False d(1,4,5) i numa assms
      by (auto simp: PciDevice_new_op_def upd_workp_def upd_dev_def s4_def same_heaps_def)
    have "idle (?d\<lparr>dev_internal := Some (?i\<lparr>numa_node := n\<rparr>)\<rparr>)" "dev_bdf (?d\<lparr>dev_internal := Some (?i\<lparr>numa_node := n\<rparr>)\<rparr>) = ids"
      using idle by (simp_all add: idle_def dev_bdf_def)
    with eq idle d numa(2) h1 show ?thesis
      by (auto simp: created_def same_heaps_def s4_def)
  qed
qed

text \<open>
  The invariant of the enumeration: the operator holds the devices \<open>as\<close>, created since the state
  \<open>s0\<close>, at the front of its array and nothing behind them.
\<close>

definition op_inv :: "addr list \<Rightarrow> DeviceOperator \<Rightarrow> 'w pstate \<Rightarrow> 'w pstate \<Rightarrow> bool" where
  "op_inv as op s0 s \<longleftrightarrow>
     pci_devices op = map Some as @ replicate (PDA_MAX_PCI_DEVICES - length as) None \<and>
     length as \<le> PDA_MAX_PCI_DEVICES \<and> pci_devices_number op = of_nat (length as) \<and> distinct as \<and>
     (\<forall>a \<in> set as. brk s0 \<le> a \<and> a < brk s \<and> (\<exists>d. devs s a = Some d \<and> idle d)) \<and>
     (\<forall>a. a \<notin> set as \<longrightarrow> devs s a = devs s0 a) \<and> bufs s = bufs s0 \<and> brk s0 \<le> brk s"

lemma op_inv_grown: "op_inv as op s0 s \<Longrightarrow> grown s s' \<Longrightarrow> op_inv as op s0 s'"
  unfolding op_inv_def grown_def by (fastforce intro: order_less_le_trans)

lemma op_inv_zero: "grown s0 s \<Longrightarrow> op_inv [] zero_DeviceOperator s0 s"
  by (simp add: op_inv_def zero_DeviceOperator_def grown_def)

lemma op_inv_number: "op_inv as op s0 s \<Longrightarrow> unat (pci_devices_number op) = length as"
  by (simp add: op_inv_def PDA_MAX_PCI_DEVICES_def unat_of_nat)

lemma op_inv_put:
  assumes inv: "op_inv as op s0 s" and room: "length as < PDA_MAX_PCI_DEVICES"
  shows "list_put (pci_devices op) (unat (pci_devices_number op)) p
    = Some (map Some as @ p # replicate (PDA_MAX_PCI_DEVICES - Suc (length as)) None)"
proof -
  have "replicate (PDA_MAX_PCI_DEVICES - length as) (None :: ptr) = None # replicate (PDA_MAX_PCI_DEVICES - Suc (length as)) None"
    using room by (metis Suc_diff_Suc replicate_Suc)
  then show ?thesis
    using op_inv_number[OF inv] inv by (simp add: list_put_def op_inv_def list_update_append)
qed

lemma op_inv_put_None:
  "op_inv as op s0 s \<Longrightarrow> length as < PDA_MAX_PCI_DEVICES \<Longrightarrow>
   list_put (pci_devices op) (unat (pci_devices_number op)) None = Some (pci_devices op)"
  using op_inv_put[of as op s0 s None] by (simp add: op_inv_def) (metis Suc_diff_Suc replicate_Suc)

lemma op_inv_created:
  assumes inv: "op_inv as op s0 s" and room: "length as < PDA_MAX_PCI_DEVICES" and new: "created ids a s s'"
  shows "op_inv (as @ [a]) (op\<lparr>pci_devices := map Some as @ Some a # replicate (PDA_MAX_PCI_DEVICES - Suc (length as)) None,
    pci_devices_number := pci_devices_number op + 1\<rparr>) s0 s'"
proof -
  obtain d where d: "devs s' = (devs s)(a \<mapsto> d)" "idle d" "a = brk s" "brk s' = Suc a" "bufs s' = bufs s"
    using new by (auto simp: created_def)
  have "a \<notin> set as" using inv d(3) by (auto simp: op_inv_def)
  then show ?thesis
    using inv room d unfolding op_inv_def by (auto simp: less_Suc_eq)
qed

text \<open>What the enumeration leaves behind, whether it went on or jumped to the exit block.\<close>

definition search_ok :: "nat \<Rightarrow> 'w pstate \<Rightarrow> ((DeviceOperator + DeviceOperator) \<times> 'w pstate) option \<Rightarrow> bool" where
  "search_ok n s0 r \<longleftrightarrow> (\<exists>res s' as. r = Some (res, s') \<and> length as \<le> n \<and>
     op_inv as (case res of Inl op \<Rightarrow> op | Inr op \<Rightarrow> op) s0 s')"

lemma search_okI: "op_inv as op s0 s \<Longrightarrow> grown s s' \<Longrightarrow> length as \<le> n \<Longrightarrow> search_ok n s0 (Some (Inl op, s'))"
  "op_inv as op s0 s \<Longrightarrow> grown s s' \<Longrightarrow> length as \<le> n \<Longrightarrow> search_ok n s0 (Some (Inr op, s'))"
  by (auto simp: search_ok_def intro: op_inv_grown)

lemma c_str_length: "length s = 6 \<Longrightarrow> length (c_str s) < 7"
  unfolding c_str_def by (simp add: le_less_trans[OF length_takeWhile_le])

lemma check_entry_ok:
  assumes inv: "op_inv as op s0 s" and room: "length as < PDA_MAX_PCI_DEVICES"
  shows "search_ok (Suc (length as)) s0 (check_entry E vg dg e op s)"
proof -
  let ?p = "\<lambda>f. c_snprintf PDA_STRING_LIMIT (uio_sysfs_dir s @ ''/'' @ d_name e @ f)"
  obtain l s1 where l: "c_sys (sys_lstat_islnk E (?p [])) s = (l, s1)" by fastforce
  obtain v s2 where v: "c_sys (sys_fopen E (?p ''/vendor'') O_RDONLY) s1 = (v, s2)" by fastforce
  obtain w s3 where w: "c_sys (sys_fopen E (?p ''/device'') O_RDONLY) s2 = (w, s3)" by fastforce
  obtain vs s4 where r1: "read6 E (the v) s3 = (vs, s4)" by fastforce
  obtain ds s5 where r2: "read6 E (the w) s4 = (ds, s5)" by fastforce
  have g: "grown s s1" "grown s s2" "grown s s3" "grown s s4" "grown s s5"
    using l v w r1 r2 by (auto simp: read6_def dest!: c_sys_heaps grown_same_heaps intro: grown_trans split: prod.splits)
  have ok: "search_ok (Suc (length as)) s0 (Some (Inl op, t))" "search_ok (Suc (length as)) s0 (Some (Inr op, t))"
    if "grown s t" for t using search_okI[OF inv that] by simp_all
  show ?thesis
  proof (cases "l = Some True \<and> v \<noteq> None \<and> w \<noteq> None \<and> length vs = 6 \<and> length ds = 6 \<and> vg = c_str vs \<and> dg = c_str ds
      \<and> parse_bdf (d_name e) \<noteq> None")
    case False
    then show ?thesis
      using l v w r1 r2 g
      by (auto simp: check_entry_def Let_def split: option.splits bool.splits intro!: ok)
  next
    case True
    then obtain ids where ids: "parse_bdf (d_name e) = Some ids" by auto
    obtain p s6 where p: "PciDevice_new_op E (d_name e) (c_str vs) (c_str ds) ids s5 = Some (p, s6)"
      "case p of None \<Rightarrow> grown s5 s6 | Some a \<Rightarrow> created ids a s5 s6"
      using new_op_outcome[of "c_str vs" "c_str ds"] True c_str_length by blast
    have eq: "check_entry E vg dg e op s = do {
        devices \<leftarrow> list_put (pci_devices op) (unat (pci_devices_number op)) p;
        let op = op\<lparr>pci_devices := devices\<rparr>;
        if p = None then Some (Inl op, snd (ERROR E ENXIO s6))
        else Some (Inr (op\<lparr>pci_devices_number := pci_devices_number op + 1\<rparr>), s6) }"
      using True l v w r1 r2 ids p(1) by (auto simp: check_entry_def Let_def split: option.splits)
    have inv5: "op_inv as op s0 s5" using op_inv_grown[OF inv g(5)] .
    show ?thesis
    proof (cases p)
      case None
      then show ?thesis
        using eq op_inv_put_None[OF inv room] p(2) g(5) by (auto intro!: ok grown_trans[of s s5])
    next
      case (Some a)
      with op_inv_created[OF inv5 room, of ids a s6] p(2) op_inv_put[OF inv room] eq show ?thesis
        by (auto simp: search_ok_def intro!: exI[of _ "as @ [a]"])
    qed
  qed
qed

lemma search_ok_mono:
  assumes "search_ok m s0 r" and "m \<le> n"
  shows "search_ok n s0 r"
proof -
  obtain res s' as where "r = Some (res, s')" "length as \<le> m" "op_inv as (case res of Inl op \<Rightarrow> op | Inr op \<Rightarrow> op) s0 s'"
    using assms(1) by (auto simp: search_ok_def)
  with assms(2) show ?thesis by (auto simp: search_ok_def intro!: exI[of _ as])
qed

lemma check_entries_ok:
  assumes "op_inv as op s0 s" and "length as + length es \<le> PDA_MAX_PCI_DEVICES"
  shows "search_ok (length as + length es) s0 (check_entries E vg dg es op s)"
  using assms
proof (induction es arbitrary: as op s)
  case Nil
  then show ?case by (auto intro: search_okI)
next
  case (Cons e es)
  have "length as < PDA_MAX_PCI_DEVICES" using Cons.prems(2) by simp
  from check_entry_ok[OF Cons.prems(1) this, of E vg dg e] obtain res s1 as1 where
    r: "check_entry E vg dg e op s = Some (res, s1)" "length as1 \<le> Suc (length as)"
      "op_inv as1 (case res of Inl op \<Rightarrow> op | Inr op \<Rightarrow> op) s0 s1" by (auto simp: search_ok_def)
  show ?case
  proof (cases res)
    case (Inl op1)
    with r show ?thesis by (auto intro: search_okI)
  next
    case (Inr op1)
    with r Cons.IH[of as1 op1 s1] Cons.prems(2) show ?thesis
      by (auto intro: search_ok_mono)
  qed
qed

text \<open>At most \<open>k\<close> entries in the directory of the driver.\<close>

definition dir_bound :: "'w env \<Rightarrow> nat \<Rightarrow> bool" where
  "dir_bound E k \<longleftrightarrow> (\<forall>path w es w'. sys_opendir E path w = (Inr es, w') \<longrightarrow> length es \<le> k)"

lemma search_ids_ok:
  assumes k: "dir_bound E k" and "op_inv as op s0 s" and "length as + k * length is \<le> PDA_MAX_PCI_DEVICES"
    and "\<forall>i \<in> set is. 5 \<le> length i"
  shows "search_ok (length as + k * length is) s0 (search_ids E is op s)"
  using assms(2-)
proof (induction "is" arbitrary: as op s)
  case Nil
  then show ?case by (auto intro: search_okI)
next
  case (Cons i "is")
  obtain r s1 where od: "c_sys (sys_opendir E (uio_sysfs_dir s)) s = (r, s1)" by fastforce
  have inv1: "op_inv as op s0 s1" using op_inv_grown[OF Cons.prems(1) grown_same_heaps[OF c_sys_heaps[OF od]]] .
  show ?case
  proof (cases r)
    case None
    with od Cons.prems(3) inv1 show ?thesis by (auto intro!: search_okI)
  next
    case (Some es)
    then have "length es \<le> k"
      using od k by (auto simp: c_sys_def dir_bound_def split: prod.splits sum.splits)
    then have "length as + length es \<le> PDA_MAX_PCI_DEVICES" using Cons.prems(2) by simp
    from check_entries_ok[OF inv1 this, of E "''0x'' @ take 4 i" "''0x'' @ take 4 (drop 5 i)"] obtain res s2 as2 where
      r: "check_entries E (''0x'' @ take 4 i) (''0x'' @ take 4 (drop 5 i)) es op s1 = Some (res, s2)"
        "length as2 \<le> length as + length es" "op_inv as2 (case res of Inl op \<Rightarrow> op | Inr op \<Rightarrow> op) s0 s2"
      by (auto simp: search_ok_def)
    let ?s3 = "s2\<lparr>world := sys_closedir E (world s2)\<rparr>"
    have eq: "search_ids E (i # is) op s = (case res of Inl op \<Rightarrow> Some (Inl op, ?s3) | Inr op \<Rightarrow> search_ids E is op ?s3)"
      using od Some r(1) Cons.prems(3) by (simp add: Let_def)
    have le: "length as2 \<le> length as + k" using r(2) \<open>length es \<le> k\<close> by simp
    show ?thesis
    proof (cases res)
      case (Inl op1)
      with eq r(3) le show ?thesis by (auto intro!: search_okI)
    next
      case (Inr op1)
      have "op_inv as2 op1 s0 ?s3" using op_inv_grown[of as2 op1 s0 s2 ?s3] r(3) Inr by simp
      from Cons.IH[OF this] Cons.prems(2,3) le have "search_ok (length as2 + k * length is) s0 (search_ids E is op1 ?s3)"
        by simp
      with eq Inr le show ?thesis by (auto intro: search_ok_mono)
    qed
  qed
qed

lemma pass_ids_grown: "grown s (snd (pass_ids E is s))"
proof (induction "is" arbitrary: s)
  case (Cons i "is")
  obtain r s1 where r: "c_sys (sys_fopen E (c_snprintf PDA_STRING_LIMIT (uio_sysfs_dir s @ ''/new_id'')) O_WRONLY) s = (r, s1)"
    by fastforce
  have "grown s s1" using grown_same_heaps[OF c_sys_heaps[OF r]] .
  then show ?case
    using r Cons.IH by (cases r) (auto intro: grown_trans[of s s1] grown_trans[OF _ Cons.IH])
qed simp

section \<open>Deleting the operator\<close>

lemma delete_bars_none: "delete_bars E (replicate n None) ret s = Some (ret, s)"
  by (induction n) simp_all

lemma idle_delete:
  assumes d: "devs s a = Some d" "idle d"
  shows "\<exists>s'. PciDevice_delete E (Some a) p s = Some (Returns PDA_SUCCESS, s') \<and> devs s' = (devs s)(a := None)"
proof -
  obtain i where i: "dev_internal d = Some i" "dma_buffer_list d = None" "dev_bar d = replicate PDA_MAX_PCI_32_BARS None" "interrupt d = None"
    using d(2) by (auto simp: idle_def)
  let ?s = "s\<lparr>devs := (devs s)(a \<mapsto> d\<lparr>dma_buffer_list := None\<rparr>)\<rparr>"
  obtain s' where s': "PciDevice_delete_dep E a ?s = Some (PDA_SUCCESS, s')" "\<forall>x. x \<noteq> a \<longrightarrow> devs s' x = devs ?s x"
    using delete_dep_total[of ?s a "d\<lparr>dma_buffer_list := None\<rparr>" i E] i(1) by auto
  have "PciDevice_delete E (Some a) p s = Some (Returns PDA_SUCCESS, s'\<lparr>devs := (devs s')(a := None)\<rparr>)"
    using d(1) i s'(1) by (simp add: PciDevice_delete_def delete_bars_none DMABuffer_freeAllBuffersInt_def DMABuffer_getHead_def
        freeAll_loop.simps upd_dev_def)
  moreover have "(devs s')(a := None) = (devs s)(a := None)" using s'(2) by auto
  ultimately show ?thesis by simp
qed

lemma delete_devices_idle:
  assumes "distinct as" and "\<forall>a \<in> set as. \<exists>d. devs s a = Some d \<and> idle d"
  shows "\<exists>s'. delete_devices E p (map Some as @ None # ps) ret s = Some (Returns ret, s') \<and>
    devs s' = (\<lambda>a. if a \<in> set as then None else devs s a)"
  using assms
proof (induction as arbitrary: s ret)
  case Nil
  then show ?case by simp
next
  case (Cons a as)
  obtain d where d: "devs s a = Some d" "idle d" using Cons.prems(2) by auto
  obtain s1 where s1: "PciDevice_delete E (Some a) p s = Some (Returns PDA_SUCCESS, s1)" "devs s1 = (devs s)(a := None)"
    using idle_delete[OF d, of E p] by auto
  have "\<forall>x \<in> set as. \<exists>d. devs s1 x = Some d \<and> idle d" using Cons.prems(1,2) s1(2) by auto
  with Cons.IH[of s1 ret] Cons.prems(1) s1 show ?case by (auto simp: fun_eq_iff)
qed

lemma op_inv_devices:
  "op_inv as op s0 s \<Longrightarrow> length as < PDA_MAX_PCI_DEVICES \<Longrightarrow>
   pci_devices op = map Some as @ None # replicate (PDA_MAX_PCI_DEVICES - Suc (length as)) None"
  by (simp add: op_inv_def) (metis Suc_diff_Suc replicate_Suc)

lemma DeviceOperator_delete_outcome:
  assumes inv: "op_inv as op s0 s" and room: "length as < PDA_MAX_PCI_DEVICES" and new: "\<forall>x. brk s0 \<le> x \<longrightarrow> devs s0 x = None"
  shows "\<exists>s'. DeviceOperator_delete E (Some op) p s = Some ((Returns PDA_SUCCESS, None), s') \<and> devs s' = devs s0"
proof -
  from delete_devices_idle[of as s E p "replicate (PDA_MAX_PCI_DEVICES - Suc (length as)) None" PDA_SUCCESS] inv
  obtain s' where del: "delete_devices E p (pci_devices op) PDA_SUCCESS s = Some (Returns PDA_SUCCESS, s')"
    "devs s' = (\<lambda>a. if a \<in> set as then None else devs s a)"
    by (auto simp: op_inv_devices[OF inv room] op_inv_def)
  have "devs s' a = devs s0 a" for a
    using del(2) inv new by (cases "a \<in> set as") (auto simp: op_inv_def)
  then have "devs s' = devs s0" by blast
  then show ?thesis using del(1) by (auto simp: DeviceOperator_delete_def DeviceOperator_delete_inc_def)
qed

section \<open>Properties\<close>

text \<open>A process as the library finds it: nothing at the addresses it will use.\<close>

definition clean_from :: "'w pstate \<Rightarrow> bool" where
  "clean_from s \<longleftrightarrow> (\<forall>x. brk s \<le> x \<longrightarrow> bufs s x = None \<and> devs s x = None)"

lemma PDAInit_frame:
  "devs (snd (PDAInit E s)) = devs s \<and> bufs (snd (PDAInit E s)) = bufs s \<and> brk (snd (PDAInit E s)) = brk s"
proof -
  have "same_heaps s (snd (kmod_loop E v ms s))" for v ms s
    by (induction ms) (auto simp: same_heaps_def split: option.split)
  then have "same_heaps s (snd (isCorrectVersion E m v s))" for m v s
    by (auto simp: isCorrectVersion_def same_heaps_def split: option.split)
  from this[of "s\<lparr>uio_sysfs_dir := c_snprintf PDA_STRING_LIMIT UIO_DMA_SYSFS_DIR\<rparr>" "''uio_pci_dma''" UIO_PCI_DMA_VERSION]
  show ?thesis
    by (auto simp: PDAInit_def Let_def c_system_def same_heaps_def split: prod.splits bool.splits)
qed

text \<open>
  C25. \<open>DeviceOperator_new\<close>, for ids of the documented form and a driver directory small enough for the
  array of the operator, is defined. It returns either an operator whose array holds exactly the
  devices it created, front to back and each once, with the count to match, or \<open>NULL\<close> after having
  deleted every device it had created: none is left behind.
\<close>

theorem DeviceOperator_new_result:
  assumes E: "posix_env E" "\<not> unlock_fails E" and s: "clean_from s" and k: "dir_bound E k"
    "k * length pci_ids < PDA_MAX_PCI_DEVICES" "\<forall>i \<in> set pci_ids. 5 \<le> length i"
  shows "\<exists>r s'. DeviceOperator_new E pci_ids en s = Some (r, s') \<and>
    (case r of
       None \<Rightarrow> devs s' = devs s
     | Some op \<Rightarrow> \<exists>as. op_inv as op s s' \<and> length as \<le> k * length pci_ids)"
proof -
  obtain c s1 where init: "PDAInit E s = (c, s1)" "devs s1 = devs s" "bufs s1 = bufs s" "brk s1 = brk s"
    using PDAInit_frame[of E s] by (cases "PDAInit E s") auto
  obtain ok s2 where al: "c_alloc E sizeof_DeviceOperator s1 = (ok, s2)" by fastforce
  define x where "x = (if en then pass_ids E pci_ids s2 else (True, s2))"
  have frame: "op_inv [] zero_DeviceOperator s t" "devs t = devs s" if "grown s1 t" for t
    using that init(2-4) by (auto simp: op_inv_def zero_DeviceOperator_def grown_def)
  have g: "grown s1 s2" "grown s1 (snd x)"
    using c_alloc_heaps[OF al] pass_ids_grown[of s2 E pci_ids] by (auto simp: x_def dest!: grown_same_heaps intro: grown_trans)
  have exit: "\<exists>s'. DeviceOperator_new_exit E (Some op) t = Some (None, s') \<and> devs s' = devs s"
    if "op_inv as op s t" "length as < PDA_MAX_PCI_DEVICES" for as op t
    using DeviceOperator_delete_outcome[OF that, of E PDA_DELETE_PERSISTANT] s
    by (auto simp: DeviceOperator_new_exit_def clean_from_def)
  consider "c \<noteq> PDA_SUCCESS \<or> \<not> ok" | "c = PDA_SUCCESS" "ok" "\<not> fst x" | "c = PDA_SUCCESS" "ok" "fst x" by blast
  then show ?thesis
  proof cases
    case 1
    with init al g(1) frame(2)[OF g(1)] show ?thesis
      by (auto simp: DeviceOperator_new_def DeviceOperator_new_exit_def DeviceOperator_delete_def)
  next
    case 2
    with init al exit[OF frame(1)[OF g(2)]] show ?thesis
      by (cases x) (auto simp: DeviceOperator_new_def x_def[symmetric] PDA_MAX_PCI_DEVICES_def)
  next
    case 3
    obtain res s4 as where r: "search_ids E pci_ids zero_DeviceOperator (snd x) = Some (res, s4)"
      "length as \<le> k * length pci_ids" "op_inv as (case res of Inl op \<Rightarrow> op | Inr op \<Rightarrow> op) s s4"
      using search_ids_ok[OF k(1) frame(1)[OF g(2)], of pci_ids] k(2,3) by (auto simp: search_ok_def)
    have eq: "DeviceOperator_new E pci_ids en s
        = (case res of Inl op \<Rightarrow> DeviceOperator_new_exit E (Some op) s4 | Inr op \<Rightarrow> Some (Some op, s4))"
      using 3 init(1) al r(1) by (cases x) (auto simp: DeviceOperator_new_def x_def[symmetric])
    show ?thesis
    proof (cases res)
      case (Inl op)
      with r(2,3) k(2) exit[of as op s4] obtain s' where "DeviceOperator_new_exit E (Some op) s4 = Some (None, s')" "devs s' = devs s"
        by auto
      with eq Inl show ?thesis by auto
    next
      case (Inr op)
      with eq r(2,3) show ?thesis by auto
    qed
  qed
qed

lemma calm_env_dir_bound: "dir_bound calm_env 0"
  by (simp add: dir_bound_def calm_env_def)

definition one_device_env :: "unit env" where
  "one_device_env = calm_env\<lparr>sys_opendir := (\<lambda>_ w. (Inr [\<lparr>d_name = ''0000:01:00.0'', d_is_dir = False\<rparr>], w))\<rparr>"

lemma one_device_env_laws:
  "posix_env one_device_env" "\<not> unlock_fails one_device_env" "dir_bound one_device_env 1"
  by (simp_all add: one_device_env_def posix_env_def errno_law_def unlock_fails_def dir_bound_def calm_env_def)

theorem DeviceOperator_new_result_witness:
  "\<exists>r s'. DeviceOperator_new one_device_env [''10dc beaf''] True some_process = Some (r, s') \<and>
    (case r of None \<Rightarrow> devs s' = devs some_process | Some op \<Rightarrow> \<exists>as. op_inv as op some_process s' \<and> length as \<le> 1)"
proof -
  have "clean_from some_process" by (simp add: clean_from_def some_process_def)
  from DeviceOperator_new_result[OF one_device_env_laws(1,2) this one_device_env_laws(3), of "[''10dc beaf'']" True]
  show ?thesis by (simp add: PDA_MAX_PCI_DEVICES_def cong: option.case_cong)
qed

text \<open>
  C35. With the operator of \<open>DeviceOperator_new\<close>, \<open>DeviceOperator_getPciDevice\<close> hands out the device of
  that number for every number below the count that \<open>DeviceOperator_getPciDeviceCount\<close> reports, and
  fails with \<open>EFAULT\<close> for every other number; it never reads outside of the array.
\<close>

theorem getPciDevice_result:
  assumes "op_inv as op s0 s"
  shows "DeviceOperator_getPciDeviceCount E (Some op) True s = ((PDA_SUCCESS, Some (of_nat (length as))), s) \<and>
    DeviceOperator_getPciDevice E (Some op) n s =
      (if unat n < length as then Some ((PDA_SUCCESS, Some (Some (as ! unat n))), s)
       else Some (let (c, s) = ERROR E EFAULT s in ((c, None), s)))"
proof -
  have "n < pci_devices_number op \<longleftrightarrow> unat n < length as"
    using op_inv_number[OF assms] by (simp add: word_less_nat_alt)
  moreover have "list_get (pci_devices op) (unat n) = Some (Some (as ! unat n))" if "unat n < length as"
    using assms that by (auto simp: op_inv_def list_get_def nth_append)
  moreover have "pci_devices_number op = of_nat (length as)" using assms by (simp add: op_inv_def)
  ultimately show ?thesis
    by (auto simp: DeviceOperator_getPciDevice_def DeviceOperator_getPciDeviceCount_def Let_def)
qed

theorem getPciDevice_result_witness:
  "DeviceOperator_getPciDevice calm_env (Some (zero_DeviceOperator\<lparr>pci_devices := Some 1 # replicate 255 None,
      pci_devices_number := 1\<rparr>)) 0 (listed_process\<lparr>devs := [1 \<mapsto> demo_device]\<rparr>)
   = Some ((PDA_SUCCESS, Some (Some 1)), listed_process\<lparr>devs := [1 \<mapsto> demo_device]\<rparr>)"
proof -
  let ?s = "listed_process\<lparr>devs := [1 \<mapsto> demo_device]\<rparr>"
  have "idle demo_device"
    by (simp add: idle_def demo_device_def zero_PciDevice_def)
  then have "op_inv [1] (zero_DeviceOperator\<lparr>pci_devices := Some 1 # replicate 255 None, pci_devices_number := 1\<rparr>)
      (?s\<lparr>devs := Map.empty, brk := 0\<rparr>) ?s"
    by (simp add: op_inv_def PDA_MAX_PCI_DEVICES_def listed_process_facts)
  from getPciDevice_result[OF this, of calm_env 0] show ?thesis by simp
qed

text \<open>
  C36. \<open>DeviceOperator_delete\<close> of an operator whose devices are all idle, as \<open>DeviceOperator_new\<close> leaves them, without buffers,
  without registers and without an interrupt routine, and with room left in its array, always returns: it reports success, deletes exactly its
  devices, and frees the operator.
\<close>

theorem DeviceOperator_delete_result:
  assumes "op_inv as op s0 s" and "length as < PDA_MAX_PCI_DEVICES" and "clean_from s0"
  shows "\<exists>s'. DeviceOperator_delete E (Some op) p s = Some ((Returns PDA_SUCCESS, None), s') \<and> devs s' = devs s0"
  using DeviceOperator_delete_outcome[OF assms(1,2)] assms(3) unfolding clean_from_def by blast

text \<open>An operator with two devices, at the addresses 10 and 11.\<close>

definition two_devices :: DeviceOperator where
  "two_devices = zero_DeviceOperator\<lparr>pci_devices := [Some 10, Some 11] @ replicate 254 None, pci_devices_number := 2\<rparr>"

theorem DeviceOperator_delete_result_witness:
  "\<exists>s'. DeviceOperator_delete calm_env (Some two_devices) PDA_DELETE
      (some_process\<lparr>devs := (devs some_process)(10 \<mapsto> demo_device, 11 \<mapsto> demo_device), brk := 12\<rparr>)
     = Some ((Returns PDA_SUCCESS, None), s') \<and> devs s' = devs some_process"
proof -
  let ?s = "some_process\<lparr>devs := (devs some_process)(10 \<mapsto> demo_device, 11 \<mapsto> demo_device), brk := 12\<rparr>"
  have c: "clean_from some_process" by (simp add: clean_from_def some_process_def)
  have "idle demo_device" by (simp add: idle_def demo_device_def zero_PciDevice_def)
  then have "op_inv [10, 11] two_devices some_process ?s"
    by (auto simp: op_inv_def two_devices_def PDA_MAX_PCI_DEVICES_def some_process_def)
  from DeviceOperator_delete_result[OF this _ c, of calm_env PDA_DELETE] show ?thesis by (simp add: PDA_MAX_PCI_DEVICES_def)
qed

text \<open>
  The first device with an interrupt routine ends the deletion: \<open>PciDevice_delete\<close> exits the calling thread, and the devices behind it
  stay, as does the operator.
\<close>

lemma operator_delete_stops_at_routine:
  assumes E: "posix_env E" "\<not> unlock_fails E" and dev: "buffer_list s a xs" "devs s a = Some d" "live_bars s (dev_bar d)" "interrupt d \<noteq> None"
    and op: "pci_devices op = Some a # ps"
  shows "\<exists>s'. DeviceOperator_delete E (Some op) p s = Some ((Thread_exits, Some op), s') \<and> (\<forall>x. x \<noteq> a \<longrightarrow> devs s' x = devs s x)"
proof -
  obtain s' where s': "PciDevice_delete E (Some a) p s = Some (Thread_exits, s')" "devs s' = (devs s)(a := None)"
    using PciDevice_delete_outcome[OF E dev(1-3), of p] dev(4) by auto
  then show ?thesis using op by (auto simp: DeviceOperator_delete_def DeviceOperator_delete_inc_def)
qed

subsection \<open>Limits\<close>

text \<open>A full array has no \<open>NULL\<close> behind its devices: the deletion reads past its end.\<close>

lemma full_operator_overrun:
  assumes "distinct as" and "\<forall>a \<in> set as. \<exists>d. devs s a = Some d \<and> idle d"
  shows "delete_devices E p (map Some as) ret s = None"
  using assms
proof (induction as arbitrary: s ret)
  case (Cons a as)
  obtain d where d: "devs s a = Some d" "idle d" using Cons.prems(2) by auto
  obtain s1 where s1: "PciDevice_delete E (Some a) p s = Some (Returns PDA_SUCCESS, s1)" "devs s1 = (devs s)(a := None)"
    using idle_delete[OF d, of E p] by auto
  have "\<forall>x \<in> set as. \<exists>d. devs s1 x = Some d \<and> idle d" using Cons.prems(1,2) s1(2) by auto
  with Cons.IH[of s1 ret] Cons.prems(1) s1 show ?case by auto
qed simp

text \<open>
  The version check compares \<open>current\<close> and \<open>age\<close> separately. A library of interface 12 that supports
  no older interface (age 0) is accepted for a program built against interface 3.
\<close>

lemma checkVersion_accepts_removed_interface: "PDACheckVersion (12, 1, 0) 3 0 0 = PDA_SUCCESS"
  by (simp add: PDACheckVersion_def)

text \<open>
  \<open>PDACheckVersion\<close> accepts exactly: any program for the development version 99.99.99, a program
  of revision 0 whose \<open>current\<close> and \<open>age\<close> do not exceed those of the library, and a program of the
  same \<open>current\<close> and \<open>age\<close> and no newer revision; every other program gets \<open>ENOSYS\<close>.
\<close>

lemma PDACheckVersion_accepts:
  "PDACheckVersion (C, R, A) current revision age =
    (if (C, R, A) = (99, 99, 99) \<or> (revision = 0 \<and> current \<le> C \<and> age \<le> A) \<or> (current = C \<and> age = A \<and> revision \<le> R)
     then PDA_SUCCESS else ENOSYS)"
  by (auto simp: PDACheckVersion_def)

end
