(* ===== verification/PDA_Enumeration.thy ===== *)
theory PDA_Enumeration
  imports PDA_DeviceOperator
begin

text \<open>
  Which devices a device operator finds. When the driver's directory in sysfs shows a fixed set of
  entries, whose files \<open>vendor\<close> and \<open>device\<close> read back their contents, and the system grants every call,
  \<open>DeviceOperator_new\<close> creates exactly the devices whose ids were asked for, in the order of the ids and
  then of the entries.
\<close>

section \<open>The directory of the driver\<close>

text \<open>
  The directory \<open>dir\<close> shows the entries \<open>es\<close>; those that are links to devices have the contents of
  their two id files in \<open>ids\<close>, and every other entry is no link or, as the entry \<open>module\<close>, a link to a
  directory without a file \<open>vendor\<close>. The calls are taken in the order in which they follow each other.
\<close>

definition sysfs_devices :: "'w env \<Rightarrow> string \<Rightarrow> dirent list \<Rightarrow> (dirent \<Rightarrow> (string \<times> string) option) \<Rightarrow> bool" where
  "sysfs_devices E dir es ids \<longleftrightarrow>
     (\<forall>w. \<exists>w'. sys_opendir E dir w = (Inr es, w')) \<and>
     (\<forall>e \<in> set es. \<forall>w. ids e = None \<longrightarrow> (\<exists>link w1.
        sys_lstat_islnk E (c_snprintf PDA_STRING_LIMIT (dir @ ''/'' @ d_name e)) w = (Inr link, w1) \<and>
        (link \<longrightarrow> (\<exists>c w2. sys_fopen E (c_snprintf PDA_STRING_LIMIT (dir @ ''/'' @ d_name e @ ''/vendor'')) O_RDONLY w1 = (Inl c, w2))))) \<and>
     (\<forall>e \<in> set es. \<forall>v d w. ids e = Some (v, d) \<longrightarrow> length v = 6 \<and> length d = 6 \<and>
        (\<exists>w0 fv w1 fd w2 w3 w4.
           sys_lstat_islnk E (c_snprintf PDA_STRING_LIMIT (dir @ ''/'' @ d_name e)) w = (Inr True, w0) \<and>
           sys_fopen E (c_snprintf PDA_STRING_LIMIT (dir @ ''/'' @ d_name e @ ''/vendor'')) O_RDONLY w0 = (Inr fv, w1) \<and>
           sys_fopen E (c_snprintf PDA_STRING_LIMIT (dir @ ''/'' @ d_name e @ ''/device'')) O_RDONLY w1 = (Inr fd, w2) \<and>
           sys_fread E fv 6 w2 = (v, w3) \<and> sys_fread E fd 6 (sys_fclose E fv w3) = (d, w4)))"

definition matches :: "string \<Rightarrow> string \<Rightarrow> (dirent \<Rightarrow> (string \<times> string) option) \<Rightarrow> dirent \<Rightarrow> bool" where
  "matches vg dg ids e \<longleftrightarrow> (case ids e of None \<Rightarrow> False | Some (v, d) \<Rightarrow> c_str v = vg \<and> c_str d = dg)"

text \<open>The entries an id such as \<open>10dc beaf\<close> stands for.\<close>

definition wanted :: "dirent list \<Rightarrow> (dirent \<Rightarrow> (string \<times> string) option) \<Rightarrow> string \<Rightarrow> dirent list" where
  "wanted es ids i = filter (matches (''0x'' @ take 4 i) (''0x'' @ take 4 (drop 5 i)) ids) es"

text \<open>The operator holds the devices \<open>as\<close>, which were made for the entries \<open>fs\<close>, one for each.\<close>

definition holds_for :: "dirent list \<Rightarrow> addr list \<Rightarrow> DeviceOperator \<Rightarrow> 'w pstate \<Rightarrow> 'w pstate \<Rightarrow> bool" where
  "holds_for fs as op s0 s \<longleftrightarrow> op_inv as op s0 s \<and>
     map (\<lambda>a. map_option dev_bdf (devs s a)) as = map (\<lambda>e. parse_bdf (d_name e)) fs"

lemma holds_for_grown: "holds_for fs as op s0 s \<Longrightarrow> grown s s' \<Longrightarrow> holds_for fs as op s0 s'"
  unfolding holds_for_def by (auto intro: op_inv_grown simp: grown_def)

lemma holds_for_created:
  assumes "holds_for fs as op s0 s" and "length as < PDA_MAX_PCI_DEVICES" and "created ids a s s'" and "parse_bdf (d_name e) = Some ids"
  shows "holds_for (fs @ [e]) (as @ [a]) (op\<lparr>pci_devices := map Some as @ Some a # replicate (PDA_MAX_PCI_DEVICES - Suc (length as)) None,
    pci_devices_number := pci_devices_number op + 1\<rparr>) s0 s'"
proof -
  have inv: "op_inv as op s0 s" using assms(1) by (simp add: holds_for_def)
  obtain d where d: "devs s' = (devs s)(a \<mapsto> d)" "dev_bdf d = ids" "a = brk s" using assms(3) by (auto simp: created_def)
  have "a \<notin> set as" using inv d(3) by (auto simp: op_inv_def)
  then have "map (\<lambda>x. map_option dev_bdf (devs s' x)) as = map (\<lambda>x. map_option dev_bdf (devs s x)) as"
    by (intro map_cong) (auto simp: d(1))
  moreover have "map_option dev_bdf (devs s' a) = parse_bdf (d_name e)" using d(1,2) assms(4) by simp
  ultimately have "map (\<lambda>x. map_option dev_bdf (devs s' x)) (as @ [a]) = map (\<lambda>e. parse_bdf (d_name e)) (fs @ [e])"
    using assms(1) by (simp only: holds_for_def map_append list.map)
  with op_inv_created[OF inv assms(2,3)] show ?thesis unfolding holds_for_def by blast
qed

section \<open>The search\<close>

lemma check_entry_other:
  assumes "sysfs_devices E (uio_sysfs_dir s) es ids" and "e \<in> set es" and "ids e = None"
  shows "\<exists>c w. check_entry E vg dg e op s = Some (Inr op, s\<lparr>errno := c, world := w\<rparr>)"
proof -
  let ?p = "\<lambda>f. c_snprintf PDA_STRING_LIMIT (uio_sysfs_dir s @ ''/'' @ d_name e @ f)"
  obtain link w1 where l: "sys_lstat_islnk E (c_snprintf PDA_STRING_LIMIT (uio_sysfs_dir s @ ''/'' @ d_name e)) (world s) = (Inr link, w1)"
      "link \<Longrightarrow> \<exists>c w2. sys_fopen E (?p ''/vendor'') O_RDONLY w1 = (Inl c, w2)"
    using assms unfolding sysfs_devices_def by blast
  show ?thesis
  proof (cases link)
    case True
    then obtain c w2 where "sys_fopen E (?p ''/vendor'') O_RDONLY w1 = (Inl c, w2)" using l(2) by blast
    with True l(1) show ?thesis
      by (intro exI[of _ c] exI[of _ w2]) (simp add: check_entry_def Let_def c_sys_def)
  next
    case False
    with l(1) show ?thesis
      by (intro exI[of _ "errno s"] exI[of _ w1]) (simp add: check_entry_def Let_def c_sys_def)
  qed
qed

lemma check_entry_reads:
  assumes "sysfs_devices E (uio_sysfs_dir s) es ids" and "e \<in> set es" and vd: "ids e = Some (v, d)"
  obtains w where "length v = 6" "length d = 6"
    "check_entry E vg dg e op s = (if vg \<noteq> c_str v \<or> dg \<noteq> c_str d then Some (Inr op, s\<lparr>world := w\<rparr>)
      else (case parse_bdf (d_name e) of
          None \<Rightarrow> Some (Inl op, snd (ERROR E EINVAL (s\<lparr>world := w\<rparr>)))
        | Some ids \<Rightarrow> do {
            (dev, s) \<leftarrow> PciDevice_new_op E (d_name e) (c_str v) (c_str d) ids (s\<lparr>world := w\<rparr>);
            devices \<leftarrow> list_put (pci_devices op) (unat (pci_devices_number op)) dev;
            let op = op\<lparr>pci_devices := devices\<rparr>;
            if dev = None then Some (Inl op, snd (ERROR E ENXIO s))
            else Some (Inr (op\<lparr>pci_devices_number := pci_devices_number op + 1\<rparr>), s) }))"
proof -
  let ?p = "\<lambda>f. c_snprintf PDA_STRING_LIMIT (uio_sysfs_dir s @ ''/'' @ d_name e @ f)"
  have "\<exists>w1 fv w2 fd w3 w4 w5. sys_lstat_islnk E (c_snprintf PDA_STRING_LIMIT (uio_sysfs_dir s @ ''/'' @ d_name e)) (world s) = (Inr True, w1) \<and>
      sys_fopen E (?p ''/vendor'') O_RDONLY w1 = (Inr fv, w2) \<and> sys_fopen E (?p ''/device'') O_RDONLY w2 = (Inr fd, w3) \<and> sys_fread E fv 6 w3 = (v, w4) \<and>
      sys_fread E fd 6 (sys_fclose E fv w4) = (d, w5)" and len: "length v = 6" "length d = 6"
    using assms unfolding sysfs_devices_def by blast+
  then obtain w1 fv w2 fd w3 w4 w5 where l: "sys_lstat_islnk E (c_snprintf PDA_STRING_LIMIT (uio_sysfs_dir s @ ''/'' @ d_name e)) (world s) = (Inr True, w1)"
    and f: "sys_fopen E (?p ''/vendor'') O_RDONLY w1 = (Inr fv, w2)" "sys_fopen E (?p ''/device'') O_RDONLY w2 = (Inr fd, w3)"
      "sys_fread E fv 6 w3 = (v, w4)" "sys_fread E fd 6 (sys_fclose E fv w4) = (d, w5)" by blast
  show thesis
    by (rule that[OF len, of "sys_fclose E fd w5"])
      (use l f len vd in \<open>simp add: check_entry_def Let_def c_sys_def read6_def cong: if_cong option.case_cong\<close>)
qed

lemma check_entry_finds:
  assumes E: "granting E" and dir: "sysfs_devices E (uio_sysfs_dir s) es ids" and e: "e \<in> set es"
    and inv: "holds_for fs as op s0 s" and room: "matches vg dg ids e \<longrightarrow> length as < PDA_MAX_PCI_DEVICES"
    and name: "matches vg dg ids e \<longrightarrow> parse_bdf (d_name e) \<noteq> None"
  shows "\<exists>op' s' as'. check_entry E vg dg e op s = Some (Inr op', s') \<and> uio_sysfs_dir s' = uio_sysfs_dir s \<and>
    holds_for (if matches vg dg ids e then fs @ [e] else fs) as' op' s0 s'"
proof (cases "ids e")
  case None
  obtain c w where "check_entry E vg dg e op s = Some (Inr op, s\<lparr>errno := c, world := w\<rparr>)"
    using check_entry_other[OF dir e None, of vg dg op] by blast
  moreover have "holds_for fs as op s0 (s\<lparr>errno := c, world := w\<rparr>)" using holds_for_grown[OF inv] by (simp add: grown_def)
  ultimately show ?thesis using None by (auto simp: matches_def)
next
  case (Some vd)
  then obtain v d where vd: "ids e = Some (v, d)" by (cases vd) auto
  obtain w where len: "length v = 6" "length d = 6" and eq: "check_entry E vg dg e op s =
      (if vg \<noteq> c_str v \<or> dg \<noteq> c_str d then Some (Inr op, s\<lparr>world := w\<rparr>)
      else (case parse_bdf (d_name e) of
          None \<Rightarrow> Some (Inl op, snd (ERROR E EINVAL (s\<lparr>world := w\<rparr>)))
        | Some ids \<Rightarrow> do {
            (dev, s) \<leftarrow> PciDevice_new_op E (d_name e) (c_str v) (c_str d) ids (s\<lparr>world := w\<rparr>);
            devices \<leftarrow> list_put (pci_devices op) (unat (pci_devices_number op)) dev;
            let op = op\<lparr>pci_devices := devices\<rparr>;
            if dev = None then Some (Inl op, snd (ERROR E ENXIO s))
            else Some (Inr (op\<lparr>pci_devices_number := pci_devices_number op + 1\<rparr>), s) }))"
    by (rule check_entry_reads[OF dir e vd])
  have inv5: "holds_for fs as op s0 (s\<lparr>world := w\<rparr>)" using holds_for_grown[OF inv] by (simp add: grown_def)
  show ?thesis
  proof (cases "matches vg dg ids e")
    case False
    then have "check_entry E vg dg e op s = Some (Inr op, s\<lparr>world := w\<rparr>)" using vd eq by (auto simp: matches_def)
    with False inv5 show ?thesis by auto
  next
    case True
    then obtain b where b: "parse_bdf (d_name e) = Some b" "vg = c_str v" "dg = c_str d" using name vd by (auto simp: matches_def)
    obtain a s6 where new: "PciDevice_new_op E (d_name e) (c_str v) (c_str d) b (s\<lparr>world := w\<rparr>) = Some (Some a, s6)" "created b a (s\<lparr>world := w\<rparr>) s6"
      using new_op_outcome[of "c_str v" "c_str d" E "d_name e" b "s\<lparr>world := w\<rparr>"] c_str_length len E by auto
    have room': "length as < PDA_MAX_PCI_DEVICES" using True room by blast
    have "op_inv as op s0 (s\<lparr>world := w\<rparr>)" using inv5 by (simp add: holds_for_def)
    from op_inv_put[OF this room', of "Some a"] new b eq holds_for_created[OF inv5 room' new(2) b(1)] True
    show ?thesis by (auto simp: created_def)
  qed
qed

lemma holds_for_length: "holds_for fs as op s0 s \<Longrightarrow> length as = length fs"
  unfolding holds_for_def by (metis length_map)

lemma check_entries_finds:
  assumes E: "granting E" and dir: "sysfs_devices E dir es ids"
    and "set xs \<subseteq> set es" and "uio_sysfs_dir s = dir" and "holds_for fs as op s0 s"
    and "length fs + length (filter (matches vg dg ids) xs) \<le> PDA_MAX_PCI_DEVICES"
    and "\<forall>e \<in> set xs. matches vg dg ids e \<longrightarrow> parse_bdf (d_name e) \<noteq> None"
  shows "\<exists>op' s' as'. check_entries E vg dg xs op s = Some (Inr op', s') \<and> uio_sysfs_dir s' = dir \<and>
    holds_for (fs @ filter (matches vg dg ids) xs) as' op' s0 s'"
  using assms(3-)
proof (induction xs arbitrary: fs as op s)
  case Nil
  then show ?case by auto
next
  case (Cons e xs)
  let ?m = "matches vg dg ids"
  have "\<exists>op' s' as'. check_entry E vg dg e op s = Some (Inr op', s') \<and> uio_sysfs_dir s' = uio_sysfs_dir s \<and>
      holds_for (if ?m e then fs @ [e] else fs) as' op' s0 s'"
    using Cons.prems dir holds_for_length[OF Cons.prems(3)] by (intro check_entry_finds[OF E]) auto
  then obtain op1 s1 as1 where 1: "check_entry E vg dg e op s = Some (Inr op1, s1)" "uio_sysfs_dir s1 = dir"
    "holds_for (if ?m e then fs @ [e] else fs) as1 op1 s0 s1" using Cons.prems(2) by auto
  from Cons.IH[OF _ 1(2,3)] Cons.prems show ?case using 1(1) by (auto split: if_splits)
qed

lemma search_ids_finds:
  assumes E: "granting E" and dir: "sysfs_devices E dir es ids"
    and "uio_sysfs_dir s = dir" and "holds_for fs as op s0 s" and "\<forall>i \<in> set is. 5 \<le> length i"
    and "length fs + length (concat (map (wanted es ids) is)) \<le> PDA_MAX_PCI_DEVICES"
    and "\<forall>i \<in> set is. \<forall>e \<in> set (wanted es ids i). parse_bdf (d_name e) \<noteq> None"
  shows "\<exists>op' s' as'. search_ids E is op s = Some (Inr op', s') \<and> holds_for (fs @ concat (map (wanted es ids) is)) as' op' s0 s'"
  using assms(3-)
proof (induction "is" arbitrary: fs as op s)
  case Nil
  then show ?case by auto
next
  case (Cons i "is")
  let ?vg = "''0x'' @ take 4 i" and ?dg = "''0x'' @ take 4 (drop 5 i)"
  obtain w1 where od: "c_sys (sys_opendir E (uio_sysfs_dir s)) s = (Some es, s\<lparr>world := w1\<rparr>)"
    using dir Cons.prems(1) unfolding sysfs_devices_def c_sys_def by (metis (mono_tags, lifting) case_prod_conv old.sum.simps(6))
  have "holds_for fs as op s0 (s\<lparr>world := w1\<rparr>)" using holds_for_grown[OF Cons.prems(2)] by simp
  from check_entries_finds[OF E dir subset_refl _ this, of ?vg ?dg] Cons.prems obtain op2 s2 as2 where
    2: "check_entries E ?vg ?dg es op (s\<lparr>world := w1\<rparr>) = Some (Inr op2, s2)" "uio_sysfs_dir s2 = dir"
      "holds_for (fs @ wanted es ids i) as2 op2 s0 s2" by (auto simp: wanted_def)
  let ?s3 = "s2\<lparr>world := sys_closedir E (world s2)\<rparr>"
  have "holds_for (fs @ wanted es ids i) as2 op2 s0 ?s3" using holds_for_grown[OF 2(3)] by simp
  from Cons.IH[OF _ this] 2(2) Cons.prems(3-) obtain op' s' as' where
    "search_ids E is op2 ?s3 = Some (Inr op', s')" "holds_for ((fs @ wanted es ids i) @ concat (map (wanted es ids) is)) as' op' s0 s'"
    by auto
  then show ?case using od 2(1) Cons.prems(3) by (auto simp: Let_def)
qed

lemma pass_ids_granted:
  assumes "\<forall>path. granted (sys_fopen E path O_WRONLY)"
  shows "fst (pass_ids E is s)" and "uio_sysfs_dir (snd (pass_ids E is s)) = uio_sysfs_dir s"
proof -
  have "fst (pass_ids E is s) \<and> uio_sysfs_dir (snd (pass_ids E is s)) = uio_sysfs_dir s"
  proof (induction "is" arbitrary: s)
    case (Cons i "is")
    obtain r s1 where r: "c_sys (sys_fopen E (c_snprintf PDA_STRING_LIMIT (uio_sysfs_dir s @ ''/new_id'')) O_WRONLY) s = (r, s1)"
      by fastforce
    then have "r \<noteq> None" "uio_sysfs_dir s1 = uio_sysfs_dir s"
      using c_sys_granted[OF _ r] assms c_sys_heaps[OF r] by (auto simp: same_heaps_def)
    then show ?case using r Cons.IH by auto
  qed simp
  then show "fst (pass_ids E is s)" "uio_sysfs_dir (snd (pass_ids E is s)) = uio_sysfs_dir s" by auto
qed

lemma PDAInit_dir: "uio_sysfs_dir (snd (PDAInit E s)) = c_snprintf PDA_STRING_LIMIT UIO_DMA_SYSFS_DIR"
proof -
  have "uio_sysfs_dir (snd (kmod_loop E v ms s)) = uio_sysfs_dir s" for v ms s
    by (induction ms) (auto split: option.split)
  then have "uio_sysfs_dir (snd (isCorrectVersion E m v s)) = uio_sysfs_dir s" for m v s
    by (auto simp: isCorrectVersion_def split: option.split)
  from this[of "''uio_pci_dma''" UIO_PCI_DMA_VERSION "s\<lparr>uio_sysfs_dir := c_snprintf PDA_STRING_LIMIT UIO_DMA_SYSFS_DIR\<rparr>"]
  show ?thesis
    by (auto simp: PDAInit_def Let_def c_system_def split: prod.splits bool.splits)
qed

text \<open>
  C18. With the driver loaded, a system that grants every call and a driver directory whose entries and
  id files read back their contents, \<open>DeviceOperator_new\<close> succeeds. The devices of the operator are
  then exactly those of the entries whose vendor and device files match one of the ids, in the order
  of the ids and, for each id, in the order of the directory; each carries the domain, bus, device and
  function number of its entry's name.
\<close>

theorem DeviceOperator_new_finds:
  assumes E: "granting E" "en \<longrightarrow> (\<forall>path. granted (sys_fopen E path O_WRONLY))" and init: "fst (PDAInit E s) = PDA_SUCCESS"
    and dir: "sysfs_devices E (c_snprintf PDA_STRING_LIMIT UIO_DMA_SYSFS_DIR) es ids"
    and req: "\<forall>i \<in> set pci_ids. 5 \<le> length i \<and> (\<forall>e \<in> set (wanted es ids i). parse_bdf (d_name e) \<noteq> None)"
    and room: "length (concat (map (wanted es ids) pci_ids)) \<le> PDA_MAX_PCI_DEVICES"
  shows "\<exists>op s' as. DeviceOperator_new E pci_ids en s = Some (Some op, s') \<and> op_inv as op s s' \<and>
    map (\<lambda>a. map_option dev_bdf (devs s' a)) as = map (\<lambda>e. parse_bdf (d_name e)) (concat (map (wanted es ids) pci_ids))"
proof -
  obtain s1 where 1: "PDAInit E s = (PDA_SUCCESS, s1)" using init by (cases "PDAInit E s") auto
  obtain s2 where 2: "c_alloc E sizeof_DeviceOperator s1 = (True, s2)" "same_heaps s1 s2"
    using c_alloc_ok[of E sizeof_DeviceOperator s1] granting_laws(12)[OF E(1)] c_alloc_heaps[of E sizeof_DeviceOperator s1] by auto
  define x where "x = (if en then pass_ids E pci_ids s2 else (True, s2))"
  have g: "fst x" "grown s2 (snd x)" "uio_sysfs_dir (snd x) = uio_sysfs_dir s2"
    using pass_ids_granted[of E pci_ids s2] pass_ids_grown[of s2 E pci_ids] E(2) by (auto simp: x_def)
  have "op_inv [] zero_DeviceOperator s (snd x)" "uio_sysfs_dir (snd x) = c_snprintf PDA_STRING_LIMIT UIO_DMA_SYSFS_DIR"
    using g 1 2(2) PDAInit_frame[of E s] PDAInit_dir[of E s]
    by (auto simp: op_inv_def zero_DeviceOperator_def grown_def same_heaps_def)
  then have "holds_for [] [] zero_DeviceOperator s (snd x)" and d: "uio_sysfs_dir (snd x) = c_snprintf PDA_STRING_LIMIT UIO_DMA_SYSFS_DIR"
    by (simp_all add: holds_for_def)
  from search_ids_finds[OF E(1) dir d this(1), of pci_ids] req room obtain op s' as where
    "search_ids E pci_ids zero_DeviceOperator (snd x) = Some (Inr op, s')" "holds_for (concat (map (wanted es ids) pci_ids)) as op s s'"
    by auto
  then show ?thesis
    using 1 2(1) g(1) by (cases x) (auto simp: DeviceOperator_new_def x_def[symmetric] holds_for_def)
qed

definition two_devices_env :: "unit env" where
  "two_devices_env = calm_env\<lparr>
     sys_opendir := (\<lambda>_ w. (Inr [\<lparr>d_name = ''module'', d_is_dir = False\<rparr>, \<lparr>d_name = ''0000:01:00.0'', d_is_dir = False\<rparr>,
       \<lparr>d_name = ''0000:02:00.0'', d_is_dir = False\<rparr>], w)),
     sys_fopen := (\<lambda>path mode w.
       if path = UIO_DMA_SYSFS_DIR @ ''/module/vendor'' \<and> mode = O_RDONLY then (Inl ENOENT, w)
       else if path = UIO_DMA_SYSFS_DIR @ ''/0000:01:00.0/device'' then (Inr 8, w)
       else if path = UIO_DMA_SYSFS_DIR @ ''/0000:02:00.0/device'' then (Inr 9, w)
       else (Inr 7, w)),
     sys_fread := (\<lambda>fp _ w. (if fp = 8 then ''0xbeaf'' else if fp = 9 then ''0xcafe'' else ''0x10dc'', w))\<rparr>"

definition two_devices_ids :: "dirent \<Rightarrow> (string \<times> string) option" where
  "two_devices_ids e = (if d_name e = ''module'' then None
     else Some (''0x10dc'', if d_name e = ''0000:01:00.0'' then ''0xbeaf'' else ''0xcafe''))"

lemma two_devices_laws:
  "granting two_devices_env" "\<forall>path. granted (sys_fopen two_devices_env path O_WRONLY)"
  by (auto simp: two_devices_env_def granting_def granted_def calm_env_def)

lemma sysfs_paths:
  "length nm \<le> 100 \<Longrightarrow> c_snprintf PDA_STRING_LIMIT (UIO_DMA_SYSFS_DIR @ nm) = UIO_DMA_SYSFS_DIR @ nm"
  "c_snprintf PDA_STRING_LIMIT UIO_DMA_SYSFS_DIR = UIO_DMA_SYSFS_DIR"
  by (simp_all add: c_snprintf_def PDA_STRING_LIMIT_def UIO_DMA_SYSFS_DIR_def)

lemma two_devices_sysfs:
  "sysfs_devices two_devices_env (c_snprintf PDA_STRING_LIMIT UIO_DMA_SYSFS_DIR)
    [\<lparr>d_name = ''module'', d_is_dir = False\<rparr>, \<lparr>d_name = ''0000:01:00.0'', d_is_dir = False\<rparr>, \<lparr>d_name = ''0000:02:00.0'', d_is_dir = False\<rparr>]
    two_devices_ids"
  by (auto simp: sysfs_devices_def two_devices_env_def two_devices_ids_def calm_env_def sysfs_paths)

theorem DeviceOperator_new_finds_witness:
  "\<exists>op s' as. DeviceOperator_new two_devices_env [''10dc beaf''] True some_process = Some (Some op, s') \<and>
    op_inv as op some_process s' \<and> map (\<lambda>a. map_option dev_bdf (devs s' a)) as = [Some (0, 1, 0, 0)]"
proof -
  let ?es = "[\<lparr>d_name = ''module'', d_is_dir = False\<rparr>, \<lparr>d_name = ''0000:01:00.0'', d_is_dir = False\<rparr>, \<lparr>d_name = ''0000:02:00.0'', d_is_dir = False\<rparr>]"
  have w: "wanted ?es two_devices_ids ''10dc beaf'' = [\<lparr>d_name = ''0000:01:00.0'', d_is_dir = False\<rparr>]"
    by code_simp
  have b: "parse_bdf ''0000:01:00.0'' = Some (0, 1, 0, 0)" by code_simp
  have i: "fst (PDAInit two_devices_env some_process) = PDA_SUCCESS" by code_simp
  from DeviceOperator_new_finds[OF two_devices_laws(1) _ i two_devices_sysfs, of True "[''10dc beaf'']"] two_devices_laws(2)
  show ?thesis by (simp add: w b PDA_MAX_PCI_DEVICES_def)
qed

end
