(* ===== verification/PDA_KernelMem.thy ===== *)
theory PDA_KernelMem
  imports PDA_Env "HOL-Library.Multiset"
begin

text \<open>
  The memory of DMA buffers in the kernel module (\<open>patches/linux_uio/uio_pci_dma.c\<close>): allocation of
  kernel pages in chunks of consecutive pages, pinning of user pages, the scatter/gather table
  with its conversion for user space, and the release of all of them.

  The module is modelled as it is built: \<open>UIO_PDA_IOMMU\<close> defined, \<open>UIO_PDA_USE_PAGEFAULT_HANDLER\<close>
  and the debug switches undefined; \<open>PDA_KernelFault\<close> models what differs with the page fault
  handler. The services of the kernel are the fields of a \<open>kenv\<close>, acting
  on an abstract kernel state \<open>'w\<close>. A \<open>struct page*\<close> is its address. The state keeps account of
  the memory the module holds: \<open>blocks\<close> maps the first page of every block obtained from the page
  allocator and not yet returned to its order, \<open>reserved\<close> is the set of pages with the reserved
  flag, \<open>pinned\<close> the user pages with a reference of the module. Returning a block that is not
  held, or with the wrong order, and every invalid pointer access are undefined (\<open>None\<close>), and so is
  a loop that does not end.
\<close>

section \<open>Data\<close>

definition KPAGE_SIZE :: u64 where "KPAGE_SIZE = 4096"
definition sizeof_page :: u64 where "sizeof_page = 64"
definition sizeof_scatterlist :: nat where "sizeof_scatterlist = 32"

abbreviation (input) UIO_PCI_DMA_SUCCESS :: int where "UIO_PCI_DMA_SUCCESS \<equiv> 0"
abbreviation (input) UIO_PCI_DMA_ERROR :: int where "UIO_PCI_DMA_ERROR \<equiv> -1"

text \<open>The kernel's \<open>struct scatterlist\<close>; the two low bits of \<open>page_link\<close> are flags.\<close>

record scatterlist =
  page_link :: u64
  sl_offset :: u32
  sl_length :: u32
  dma_address :: u64
  dma_length :: u32

definition sg_page :: "scatterlist \<Rightarrow> u64" where
  "sg_page e = page_link e AND NOT 3"

definition sg_is_last :: "scatterlist \<Rightarrow> bool" where
  "sg_is_last e \<longleftrightarrow> page_link e AND 2 \<noteq> 0"

definition sg_set_page :: "scatterlist \<Rightarrow> u64 \<Rightarrow> u32 \<Rightarrow> u32 \<Rightarrow> scatterlist" where
  "sg_set_page e page len off = e\<lparr>page_link := (page_link e AND 3) OR page, sl_offset := off, sl_length := len\<rparr>"

definition zero_sg :: scatterlist where
  "zero_sg = \<lparr>page_link = 0, sl_offset = 0, sl_length = 0, dma_address = 0, dma_length = 0\<rparr>"

text \<open>\<open>sg_init_table\<close> clears the table and marks its last entry.\<close>

definition sg_init_table :: "nat \<Rightarrow> scatterlist list" where
  "sg_init_table n = (replicate n zero_sg)[n - 1 := zero_sg\<lparr>page_link := 2\<rparr>]"

definition sg_after :: "scatterlist list \<Rightarrow> nat \<Rightarrow> nat option" where
  "sg_after sg i = (if sg_is_last (sg ! i) then None else Some (Suc i))"

text \<open>
  \<open>struct uio_pci_dma_private\<close>. The lists are \<open>None\<close> while the pointer is \<open>NULL\<close>; of the embedded
  kobject only the name is kept. \<open>buffer\<close> and \<open>pfn_list\<close> are always \<open>NULL\<close> in this build and left out.
\<close>

record uio_pci_dma_private =
  pv_name :: string
  pv_size :: u64
  pv_numa_node :: u32
  pv_start :: u64
  pv_kobj :: string
  pv_sg :: "scatterlist list option"
  pv_scatter :: "scatter list option"
  pv_length :: u64
  pv_old_length :: u64
  pv_pages :: u64
  pv_page_list :: "u64 list option"

section \<open>Kernel services\<close>

record 'w kenv =
  sizeof_private :: nat
  MAX_PAGE_ORDER :: nat
  cfg_NUMA :: bool
  get_order :: "u64 \<Rightarrow> nat"
  page_to_pfn :: "u64 \<Rightarrow> u64"
  k_zalloc :: "nat \<Rightarrow> 'w \<Rightarrow> bool \<times> 'w"
  k_alloc_pages :: "u32 option \<Rightarrow> nat \<Rightarrow> (u64 \<rightharpoonup> nat) \<Rightarrow> 'w \<Rightarrow> u64 option \<times> 'w"
  k_get_user_pages :: "u64 \<Rightarrow> u64 \<Rightarrow> 'w \<Rightarrow> (int \<times> u64 list) \<times> 'w"
  k_dma_map_sg :: "scatterlist list \<Rightarrow> nat \<Rightarrow> 'w \<Rightarrow> (nat \<times> scatterlist list) \<times> 'w"
  k_dma_unmap_sg :: "scatterlist list \<Rightarrow> nat \<Rightarrow> 'w \<Rightarrow> 'w"
  k_sort :: "(scatterlist \<Rightarrow> scatterlist \<Rightarrow> int) \<Rightarrow> (nat \<Rightarrow> nat \<Rightarrow> scatterlist list \<Rightarrow> scatterlist list)
    \<Rightarrow> scatterlist list \<Rightarrow> scatterlist list"
  k_remap_pfn_range :: "u64 \<Rightarrow> u64 \<Rightarrow> u64 \<Rightarrow> 'w \<Rightarrow> int \<times> 'w"
  k_remap_vmalloc_range :: "scatter list \<Rightarrow> u64 \<Rightarrow> 'w \<Rightarrow> int \<times> 'w"
  k_kobject_add :: "string \<Rightarrow> 'w \<Rightarrow> bool \<times> 'w"
  k_kobject_del :: "string \<Rightarrow> 'w \<Rightarrow> 'w"
  k_create_bin_file :: "string \<Rightarrow> string \<Rightarrow> u64 \<Rightarrow> 'w \<Rightarrow> bool \<times> 'w"
  k_remove_bin_file :: "string \<Rightarrow> string \<Rightarrow> 'w \<Rightarrow> 'w"
  k_freed_intact :: "'w \<Rightarrow> bool"

record 'w kstate =
  kworld :: 'w
  blocks :: "u64 \<rightharpoonup> nat"
  reserved :: "u64 set"
  pinned :: "u64 multiset"

definition kalloc :: "'w kenv \<Rightarrow> nat \<Rightarrow> 'w kstate \<Rightarrow> bool \<times> 'w kstate" where
  "kalloc E n s = (case k_zalloc E n (kworld s) of (ok, w) \<Rightarrow> (ok, s\<lparr>kworld := w\<rparr>))"

definition alloc_pages :: "'w kenv \<Rightarrow> u32 option \<Rightarrow> nat \<Rightarrow> 'w kstate \<Rightarrow> u64 option \<times> 'w kstate" where
  "alloc_pages E node order s =
     (case k_alloc_pages E node order (blocks s) (kworld s) of
        (None, w) \<Rightarrow> (None, s\<lparr>kworld := w\<rparr>)
      | (Some page, w) \<Rightarrow> (Some page, s\<lparr>kworld := w, blocks := (blocks s)(page \<mapsto> order)\<rparr>))"

text \<open>The pages \<open>page[0]\<close> to \<open>page[n - 1]\<close>.\<close>

definition pages_of :: "u64 \<Rightarrow> nat \<Rightarrow> u64 set" where
  "pages_of page n = (\<lambda>i. page + sizeof_page * of_nat i) ` {..<n}"

definition free_pages :: "u64 \<Rightarrow> nat \<Rightarrow> 'w kstate \<Rightarrow> 'w kstate option" where
  "free_pages page order s =
     (if blocks s page = Some order then Some (s\<lparr>blocks := (blocks s)(page := None)\<rparr>) else None)"

section \<open>Release\<close>

text \<open>
  One turn of the loop of \<open>uio_pci_dma_free_kernel_memory\<close>. The inner loop counts the length down
  page by page; a length that is no multiple of the page size makes it miss the zero.
\<close>

definition free_chunk :: "'w kenv \<Rightarrow> scatterlist \<Rightarrow> 'w kstate \<Rightarrow> 'w kstate option" where
  "free_chunk E e s =
     (let chunk_length = (ucast (sl_length e) :: u64) in
      if chunk_length mod KPAGE_SIZE \<noteq> 0 then None
      else free_pages (sg_page e) (get_order E chunk_length)
             (s\<lparr>reserved := reserved s - pages_of (sg_page e) (unat (chunk_length div KPAGE_SIZE))\<rparr>))"

fun free_chunks :: "'w kenv \<Rightarrow> scatterlist list \<Rightarrow> nat option \<Rightarrow> nat \<Rightarrow> 'w kstate \<Rightarrow> 'w kstate option" where
  "free_chunks E sg sgp 0 s = Some s"
| "free_chunks E sg sgp (Suc n) s =
     do {
       i \<leftarrow> sgp;
       e \<leftarrow> list_get sg i;
       s \<leftarrow> free_chunk E e s;
       free_chunks E sg (sg_after sg i) n s
     }"

definition uio_pci_dma_free_kernel_memory ::
  "'w kenv \<Rightarrow> uio_pci_dma_private \<Rightarrow> 'w kstate \<Rightarrow> (int \<times> 'w kstate) option" where
  "uio_pci_dma_free_kernel_memory E priv s =
     do {
       s \<leftarrow> (case pv_sg priv of
               None \<Rightarrow> if pv_length priv = 0 then Some s else None
             | Some sg \<Rightarrow> free_chunks E sg (Some 0) (unat (pv_length priv)) s);
       Some (UIO_PCI_DMA_SUCCESS, s)
     }"

fun put_pages :: "u64 list \<Rightarrow> nat \<Rightarrow> nat \<Rightarrow> 'w kstate \<Rightarrow> 'w kstate option" where
  "put_pages page_list i 0 s = Some s"
| "put_pages page_list i (Suc n) s =
     do {
       page \<leftarrow> list_get page_list i;
       if page \<in># pinned s then put_pages page_list (Suc i) n (s\<lparr>pinned := pinned s - {#page#}\<rparr>) else None
     }"

definition uio_pci_dma_free_user_memory ::
  "uio_pci_dma_private \<Rightarrow> 'w kstate \<Rightarrow> (int \<times> 'w kstate) option" where
  "uio_pci_dma_free_user_memory priv s =
     do {
       s \<leftarrow> (case pv_page_list priv of
               None \<Rightarrow> if pv_pages priv = 0 then Some s else None
             | Some page_list \<Rightarrow> put_pages page_list 0 (unat (pv_pages priv)) s);
       Some (UIO_PCI_DMA_SUCCESS, s)
     }"

definition free_memory_lists :: "uio_pci_dma_private \<Rightarrow> uio_pci_dma_private" where
  "free_memory_lists priv = priv\<lparr>pv_page_list := None, pv_sg := None, pv_scatter := None\<rparr>"

section \<open>The table for the device\<close>

definition program_iommu ::
  "'w kenv \<Rightarrow> uio_pci_dma_private \<Rightarrow> 'w kstate \<Rightarrow> (int \<times> uio_pci_dma_private \<times> 'w kstate) option" where
  "program_iommu E priv s =
     do {
       sg \<leftarrow> pv_sg priv;
       (case k_dma_map_sg E sg (unat (pv_length priv)) (kworld s) of
          ((mapped, sg'), w) \<Rightarrow>
            let s = s\<lparr>kworld := w\<rparr> in
            if mapped = 0 then Some (UIO_PCI_DMA_ERROR, priv\<lparr>pv_sg := Some sg'\<rparr>, s)
            else Some (UIO_PCI_DMA_SUCCESS,
              priv\<lparr>pv_sg := Some sg', pv_old_length := pv_length priv, pv_length := of_nat mapped\<rparr>, s))
     }"

definition convert_entry :: "scatterlist \<Rightarrow> scatter" where
  "convert_entry e =
     \<lparr>sc_page_link = page_link e, sc_offset = sl_offset e, sc_length = dma_length e, sc_dma_address = dma_address e\<rparr>"

definition convert_sg ::
  "'w kenv \<Rightarrow> uio_pci_dma_private \<Rightarrow> 'w kstate \<Rightarrow> (int \<times> uio_pci_dma_private \<times> 'w kstate) option" where
  "convert_sg E priv s =
     (case kalloc E (unat (pv_length priv) * 24) s of
        (False, s) \<Rightarrow> Some (UIO_PCI_DMA_ERROR, priv\<lparr>pv_scatter := None\<rparr>, s)
      | (True, s) \<Rightarrow>
          do {
            sg \<leftarrow> pv_sg priv;
            if unat (pv_length priv) \<le> length sg
            then Some (UIO_PCI_DMA_SUCCESS,
                       priv\<lparr>pv_scatter := Some (map convert_entry (take (unat (pv_length priv)) sg))\<rparr>, s)
            else None
          })"

definition sort_sg_compare :: "scatterlist \<Rightarrow> scatterlist \<Rightarrow> int" where
  "sort_sg_compare sg1 sg2 = (if dma_address sg1 > dma_address sg2 then 1 else -1)"

definition sort_sg_swap :: "nat \<Rightarrow> nat \<Rightarrow> scatterlist list \<Rightarrow> scatterlist list" where
  "sort_sg_swap i j sg = (let sg_tmp = sg ! i; sg = sg[i := sg ! j] in sg[j := sg_tmp])"

section \<open>Kernel memory\<close>

text \<open>The inner loop: the largest order not above the given one that fits into the pages left.\<close>

fun lower_order :: "nat \<Rightarrow> nat \<Rightarrow> nat" where
  "lower_order 0 pages_left = 0"
| "lower_order (Suc order) pages_left =
     (if 2 ^ Suc order > pages_left then lower_order order pages_left else Suc order)"

lemma lower_order_fits: "0 < n \<Longrightarrow> 2 ^ lower_order order n \<le> n"
  by (induction order) auto

lemma lower_order_le: "lower_order order n \<le> order"
  by (induction order) auto

function alloc_chunks ::
  "'w kenv \<Rightarrow> nat \<Rightarrow> nat \<Rightarrow> uio_pci_dma_private \<Rightarrow> 'w kstate
   \<Rightarrow> (bool \<times> uio_pci_dma_private \<times> 'w kstate) option" where
  "alloc_chunks E order pages_left priv s =
     (if pages_left = 0 then Some (True, priv, s)
      else let order = lower_order order pages_left in
        (case alloc_pages E (if cfg_NUMA E \<and> pv_numa_node priv \<noteq> -1 then Some (pv_numa_node priv) else None) order s of
           (None, s) \<Rightarrow> Some (False, priv, s)
         | (Some page, s) \<Rightarrow>
             do {
               let s = s\<lparr>reserved := reserved s \<union> pages_of page (2 ^ order)\<rparr>;
               sg \<leftarrow> pv_sg priv;
               e \<leftarrow> list_get sg (unat (pv_length priv));
               if page AND 3 \<noteq> 0 then None
               else alloc_chunks E order (pages_left - 2 ^ order)
                 (priv\<lparr>pv_sg := Some (sg[unat (pv_length priv) := sg_set_page e page (of_nat (2 ^ order * unat KPAGE_SIZE)) 0]),
                    pv_length := pv_length priv + 1\<rparr>) s
             }))"
  by pat_completeness auto
termination
  by (relation "measure (\<lambda>(E, order, n, v, s). n)") (auto simp: lower_order_fits)

declare alloc_chunks.simps [simp del]

definition rounded_pages :: "u64 \<Rightarrow> u64 \<times> u64" where
  "rounded_pages sz =
     (let pages = sz div KPAGE_SIZE in
      if sz mod KPAGE_SIZE \<noteq> 0 then (pages + 1, (pages + 1) * KPAGE_SIZE) else (pages, sz))"

text \<open>The \<open>exit\<close> block gives back the chunks entered so far.\<close>

definition allocate_kernel_exit ::
  "'w kenv \<Rightarrow> uio_pci_dma_private \<Rightarrow> 'w kstate \<Rightarrow> (int \<times> uio_pci_dma_private \<times> 'w kstate) option" where
  "allocate_kernel_exit E priv s =
     do { (_, s) \<leftarrow> uio_pci_dma_free_kernel_memory E priv s; Some (UIO_PCI_DMA_ERROR, priv, s) }"

text \<open>The code behind the loop: programming the IOMMU, sorting, conversion.\<close>

definition allocate_kernel_tail ::
  "'w kenv \<Rightarrow> uio_pci_dma_private \<Rightarrow> 'w kstate \<Rightarrow> (int \<times> uio_pci_dma_private \<times> 'w kstate) option" where
  "allocate_kernel_tail E priv s =
     do {
       (r, priv, s) \<leftarrow> program_iommu E priv s;
       if r = UIO_PCI_DMA_ERROR then allocate_kernel_exit E priv s
       else do {
         sg \<leftarrow> pv_sg priv;
         let n = unat (pv_length priv);
         let priv = priv\<lparr>pv_sg := Some (k_sort E sort_sg_compare sort_sg_swap (take n sg) @ drop n sg)\<rparr>;
         (r, priv, s) \<leftarrow> convert_sg E priv s;
         if r \<noteq> UIO_PCI_DMA_SUCCESS then allocate_kernel_exit E priv s
         else Some (UIO_PCI_DMA_SUCCESS, priv, s)
       }
     }"

definition uio_pci_dma_allocate_kernel_memory ::
  "'w kenv \<Rightarrow> uio_pci_dma_private \<Rightarrow> 'w kstate \<Rightarrow> (int \<times> uio_pci_dma_private \<times> 'w kstate) option" where
  "uio_pci_dma_allocate_kernel_memory E priv s =
     (if pv_size priv < 1 then allocate_kernel_exit E priv s
      else let (pages, sz) = rounded_pages (pv_size priv);
               priv = priv\<lparr>pv_pages := pages, pv_size := sz\<rparr> in
        (case kalloc E (unat pages * sizeof_scatterlist) s of
           (False, s) \<Rightarrow> allocate_kernel_exit E (priv\<lparr>pv_sg := None\<rparr>) s
         | (True, s) \<Rightarrow>
             do {
               let priv = priv\<lparr>pv_sg := Some (sg_init_table (unat pages)), pv_length := 0\<rparr>;
               (ok, priv, s) \<leftarrow> alloc_chunks E (min (get_order E sz) (MAX_PAGE_ORDER E)) (unat pages) priv s;
               if \<not> ok then allocate_kernel_exit E priv s
               else allocate_kernel_tail E priv s
             }))"

section \<open>User memory\<close>

text \<open>
  The number of pages is an \<open>int\<close> here. The table has one entry of one page for every page of the
  user; the pages the kernel pinned stay pinned on the error paths.
\<close>

definition user_pages :: "u64 \<Rightarrow> 32 word \<times> u64" where
  "user_pages sz =
     (let pages = (ucast (sz div KPAGE_SIZE) :: 32 word) in
      if sz mod KPAGE_SIZE \<noteq> 0 then (pages + 1, scast (pages + 1) * KPAGE_SIZE) else (pages, sz))"

fun put_into_list :: "u64 list \<Rightarrow> nat \<Rightarrow> nat \<Rightarrow> scatterlist list \<Rightarrow> scatterlist list option" where
  "put_into_list page_list i 0 sg = Some sg"
| "put_into_list page_list i (Suc n) sg =
     do {
       current_page \<leftarrow> list_get page_list i;
       e \<leftarrow> list_get sg i;
       if current_page AND 3 \<noteq> 0 then None
       else put_into_list page_list (Suc i) n (sg[i := sg_set_page e current_page (ucast KPAGE_SIZE) 0])
     }"

text \<open>The code behind the loop.\<close>

definition allocate_user_tail ::
  "'w kenv \<Rightarrow> uio_pci_dma_private \<Rightarrow> 'w kstate \<Rightarrow> (int \<times> uio_pci_dma_private \<times> 'w kstate) option" where
  "allocate_user_tail E priv s =
     do {
       (r, priv, s) \<leftarrow> program_iommu E priv s;
       if r = UIO_PCI_DMA_ERROR then Some (UIO_PCI_DMA_ERROR, priv, s)
       else do {
         (r, priv, s) \<leftarrow> convert_sg E priv s;
         Some (if r \<noteq> UIO_PCI_DMA_SUCCESS then UIO_PCI_DMA_ERROR else UIO_PCI_DMA_SUCCESS, priv, s)
       }
     }"

definition uio_pci_dma_allocate_user_memory ::
  "'w kenv \<Rightarrow> uio_pci_dma_private \<Rightarrow> 'w kstate \<Rightarrow> (int \<times> uio_pci_dma_private \<times> 'w kstate) option" where
  "uio_pci_dma_allocate_user_memory E priv s =
     (if pv_size priv < 1 then Some (UIO_PCI_DMA_ERROR, priv, s)
      else let (pages, sz) = user_pages (pv_size priv);
               n = (scast pages :: u64);
               priv = priv\<lparr>pv_size := sz, pv_length := n, pv_pages := n\<rparr> in
        if pv_start priv mod KPAGE_SIZE \<noteq> 0 then Some (UIO_PCI_DMA_ERROR, priv, s)
        else (case kalloc E (unat (n * 8)) s of
           (False, s) \<Rightarrow> Some (UIO_PCI_DMA_ERROR, priv\<lparr>pv_page_list := None\<rparr>, s)
         | (True, s) \<Rightarrow>
             (case k_get_user_pages E (pv_start priv) n (kworld s) of
                ((pages_mapped, page_list), w) \<Rightarrow>
                  let s = s\<lparr>kworld := w, pinned := pinned s + mset page_list\<rparr>;
                      priv = priv\<lparr>pv_page_list := Some page_list\<rparr> in
                  if pages_mapped \<noteq> sint pages then Some (UIO_PCI_DMA_ERROR, priv, s)
                  else (case kalloc E (unat (n * of_nat sizeof_scatterlist)) s of
                     (False, s) \<Rightarrow> Some (UIO_PCI_DMA_ERROR, priv\<lparr>pv_sg := None\<rparr>, s)
                   | (True, s) \<Rightarrow>
                       do {
                         sg \<leftarrow> put_into_list page_list 0 (unat n) (sg_init_table (unat n));
                         allocate_user_tail E (priv\<lparr>pv_sg := Some sg\<rparr>) s
                       }))))"

section \<open>Documented behaviour of the kernel services\<close>

text \<open>What \<open>dma_map_sg\<close> leaves alone of an entry: its memory.\<close>

definition sg_memory :: "scatterlist \<Rightarrow> u64 \<times> u32 \<times> u32" where
  "sg_memory e = (page_link e, sl_offset e, sl_length e)"

text \<open>A comparison that orders a list: of two entries at different places one is before the other.\<close>

definition orders :: "('a \<Rightarrow> 'a \<Rightarrow> int) \<Rightarrow> 'a list \<Rightarrow> bool" where
  "orders cmp xs \<longleftrightarrow> distinct xs \<and>
     (\<forall>x \<in> set xs. \<forall>y \<in> set xs. x \<noteq> y \<longrightarrow> (cmp x y < 0 \<longleftrightarrow> \<not> cmp y x < 0)) \<and>
     (\<forall>x \<in> set xs. \<forall>y \<in> set xs. \<forall>z \<in> set xs. x \<noteq> z \<longrightarrow> cmp x y < 0 \<longrightarrow> cmp y z < 0 \<longrightarrow> cmp x z < 0)"

text \<open>
  \<^item> \<open>get_order\<close> is the smallest order whose blocks have at least the given size.
  \<^item> The page allocator returns an aligned page and never a block that is in use.
  \<^item> \<open>dma_map_sg\<close> assigns device addresses and lengths, to no more entries than given, and leaves the
    memory of the entries alone.
  \<^item> \<open>sort\<close> permutes, and orders if the comparison does.
\<close>

definition kernel_laws :: "'w kenv \<Rightarrow> bool" where
  "kernel_laws E \<longleftrightarrow>
     1 \<le> MAX_PAGE_ORDER E \<and> MAX_PAGE_ORDER E < 20 \<and>
     (\<forall>sz order. 0 < sz \<longrightarrow> (get_order E sz \<le> order \<longleftrightarrow> unat sz \<le> 2 ^ order * 4096)) \<and>
     (\<forall>node order B w p w'. k_alloc_pages E node order B w = (Some p, w') \<longrightarrow> p AND 3 = 0 \<and> B p = None) \<and>
     (\<forall>sg n w c sg' w'. k_dma_map_sg E sg n w = ((c, sg'), w') \<longrightarrow> c \<le> n \<and> map sg_memory sg' = map sg_memory sg) \<and>
     (\<forall>cmp swap xs.
        (\<forall>i j ys. i < length ys \<and> j < length ys \<longrightarrow> swap i j ys = ys[i := ys ! j, j := ys ! i]) \<longrightarrow>
        mset (k_sort E cmp swap xs) = mset xs \<and>
        (orders cmp xs \<longrightarrow> sorted_wrt (\<lambda>a b. cmp a b < 0) (k_sort E cmp swap xs)))"

text \<open>A device without merging of entries, as under the direct mapping of the kernel.\<close>

definition direct_mapping :: "'w kenv \<Rightarrow> bool" where
  "direct_mapping E \<longleftrightarrow>
     (\<forall>sg n w c sg' w'. k_dma_map_sg E sg n w = ((c, sg'), w') \<longrightarrow> c = 0 \<or>
        c = n \<and> (\<forall>e \<in> set (take n sg'). dma_length e = sl_length e))"

text \<open>
  \<open>k_freed_intact\<close> tells whether the structure given to \<open>kfree\<close> last still has its contents. The module reads
  freed structures in two places; what becomes of them there depends on the allocator. A slab
  allocator without poisoning and without clearing on release (neither \<open>slub_debug=P\<close> nor \<open>init_on_free\<close>, both off by
  default) keeps the contents until the slot is used again: \<open>lazy_kfree\<close> says that it does so and that nobody else
  takes the slot in between. It is a premise of every statement that needs it.
\<close>

definition lazy_kfree :: "'w kenv \<Rightarrow> bool" where
  "lazy_kfree E \<longleftrightarrow> (\<forall>w. k_freed_intact E w)"

definition eager_kfree :: "'w kenv \<Rightarrow> bool" where
  "eager_kfree E \<longleftrightarrow> (\<forall>w. \<not> k_freed_intact E w)"

lemma kernel_get_order: "kernel_laws E \<Longrightarrow> 0 < sz \<Longrightarrow> get_order E sz \<le> order \<longleftrightarrow> unat sz \<le> 2 ^ order * 4096"
  by (simp add: kernel_laws_def)

lemma kernel_alloc:
  "kernel_laws E \<Longrightarrow> k_alloc_pages E node order B w = (Some p, w') \<Longrightarrow> p AND 3 = 0 \<and> B p = None"
  unfolding kernel_laws_def by metis

lemma kernel_dma:
  "kernel_laws E \<Longrightarrow> k_dma_map_sg E sg n w = ((c, sg'), w') \<Longrightarrow> c \<le> n \<and> map sg_memory sg' = map sg_memory sg"
  unfolding kernel_laws_def by metis

lemma sort_sg_swap_swaps:
  "i < length ys \<Longrightarrow> j < length ys \<Longrightarrow> sort_sg_swap i j ys = ys[i := ys ! j, j := ys ! i]"
  by (simp add: sort_sg_swap_def)

lemma kernel_sort:
  assumes "kernel_laws E"
  shows "mset (k_sort E cmp sort_sg_swap xs) = mset xs"
    and "orders cmp xs \<Longrightarrow> sorted_wrt (\<lambda>a b. cmp a b < 0) (k_sort E cmp sort_sg_swap xs)"
  using assms sort_sg_swap_swaps unfolding kernel_laws_def by blast+

text \<open>
  A kernel with memory to spare: \<open>avail B w n\<close> says that in the state \<open>w\<close>, with the blocks \<open>B\<close> handed out,
  \<open>n\<close> more pages can be had in blocks of any size that fits. Then no service fails, only the
  page allocator takes from the supply, and what is given back is not missing.
\<close>

definition plentiful :: "'w kenv \<Rightarrow> ((u64 \<rightharpoonup> nat) \<Rightarrow> 'w \<Rightarrow> nat \<Rightarrow> bool) \<Rightarrow> bool" where
  "plentiful E avail \<longleftrightarrow> (\<forall>B w n. avail B w n \<longrightarrow>
     (\<forall>k. \<exists>w'. k_zalloc E k w = (True, w') \<and> avail B w' n) \<and>
     (\<forall>node order. 2 ^ order \<le> n \<longrightarrow>
        (\<exists>p w'. k_alloc_pages E node order B w = (Some p, w') \<and> avail (B(p \<mapsto> order)) w' (n - 2 ^ order))) \<and>
     (\<forall>start k. \<exists>pl w'. k_get_user_pages E start k w = ((uint k, pl), w') \<and> avail B w' n) \<and>
     (\<forall>sg k. \<exists>c sg' w'. k_dma_map_sg E sg k w = ((c, sg'), w') \<and> (0 < k \<longrightarrow> 0 < c) \<and> avail B w' n) \<and>
     (\<forall>nm. \<exists>w'. k_kobject_add E nm w = (True, w') \<and> avail B w' n) \<and>
     (\<forall>d nm sz. \<exists>w'. k_create_bin_file E d nm sz w = (True, w') \<and> avail B w' n) \<and>
     (\<forall>B' m. B' \<subseteq>\<^sub>m B \<and> m \<le> n \<longrightarrow> avail B' w m) \<and>
     (\<forall>sg k. avail B (k_dma_unmap_sg E sg k w) n) \<and>
     (\<forall>nm. avail B (k_kobject_del E nm w) n) \<and>
     (\<forall>d nm. avail B (k_remove_bin_file E d nm w) n))"

lemma plentiful_laws:
  assumes "plentiful E avail" and "avail B w n"
  shows "\<exists>w'. k_zalloc E k w = (True, w') \<and> avail B w' n"
    and "2 ^ order \<le> n \<Longrightarrow> \<exists>p w'. k_alloc_pages E node order B w = (Some p, w') \<and> avail (B(p \<mapsto> order)) w' (n - 2 ^ order)"
    and "\<exists>pl w'. k_get_user_pages E start m w = ((uint m, pl), w') \<and> avail B w' n"
    and "\<exists>c sg' w'. k_dma_map_sg E sg k w = ((c, sg'), w') \<and> (0 < k \<longrightarrow> 0 < c) \<and> avail B w' n"
    and "\<exists>w'. k_kobject_add E nm w = (True, w') \<and> avail B w' n"
    and "\<exists>w'. k_create_bin_file E d nm sz w = (True, w') \<and> avail B w' n"
    and "B' \<subseteq>\<^sub>m B \<Longrightarrow> j \<le> n \<Longrightarrow> avail B' w j"
    and "avail B (k_dma_unmap_sg E sg k w) n" and "avail B (k_kobject_del E nm w) n" and "avail B (k_remove_bin_file E d nm w) n"
  using assms(1)[unfolded plentiful_def, THEN spec[of _ B], THEN spec[of _ w], THEN spec[of _ n], THEN mp, OF assms(2)]
  by simp_all

lemma kalloc_plentiful:
  "plentiful E avail \<Longrightarrow> avail (blocks s) (kworld s) n \<Longrightarrow> kalloc E k s = (ok, s') \<Longrightarrow> ok \<and> avail (blocks s') (kworld s') n"
  using plentiful_laws(1)[of E avail "blocks s" "kworld s" n k] by (auto simp: kalloc_def)

section \<open>A concrete kernel\<close>

text \<open>
  Services that satisfy the laws: pages are handed out one block after the other, the device sees
  physical addresses, and the table is sorted by insertion.
\<close>

fun insert_by :: "('a \<Rightarrow> 'a \<Rightarrow> int) \<Rightarrow> 'a \<Rightarrow> 'a list \<Rightarrow> 'a list" where
  "insert_by cmp x [] = [x]"
| "insert_by cmp x (y # ys) = (if cmp x y < 0 then x # y # ys else y # insert_by cmp x ys)"

definition sort_by :: "('a \<Rightarrow> 'a \<Rightarrow> int) \<Rightarrow> 'a list \<Rightarrow> 'a list" where
  "sort_by cmp xs = foldr (insert_by cmp) xs []"

lemma mset_insert_by [simp]: "mset (insert_by cmp x ys) = add_mset x (mset ys)"
  by (induction ys) auto

lemma mset_sort_by: "mset (sort_by cmp xs) = mset xs"
  by (induction xs) (auto simp: sort_by_def)

lemma orders_trans:
  "orders cmp xs \<Longrightarrow> x \<in> set xs \<Longrightarrow> y \<in> set xs \<Longrightarrow> z \<in> set xs \<Longrightarrow> x \<noteq> z \<Longrightarrow> cmp x y < 0 \<Longrightarrow> cmp y z < 0 \<Longrightarrow> cmp x z < 0"
  unfolding orders_def by blast

lemma orders_subset: "orders cmp (x # xs) \<Longrightarrow> orders cmp xs"
  unfolding orders_def list.set distinct.simps by blast

lemma sorted_insert_by:
  assumes "orders cmp (x # xs)" and "set ys = set xs" and "sorted_wrt (\<lambda>a b. cmp a b < 0) ys"
  shows "sorted_wrt (\<lambda>a b. cmp a b < 0) (insert_by cmp x ys)"
proof -
  have sub: "set ys \<subseteq> set xs" using assms(2) by simp
  have x: "x \<notin> set xs" using assms(1) by (simp add: orders_def)
  have "set zs \<subseteq> set xs \<Longrightarrow> sorted_wrt (\<lambda>a b. cmp a b < 0) zs \<Longrightarrow> sorted_wrt (\<lambda>a b. cmp a b < 0) (insert_by cmp x zs)" for zs
  proof (induction zs)
    case (Cons z zs)
    have set: "set (insert_by cmp x zs) = insert x (set zs)"
      using mset_eq_setD[of "insert_by cmp x zs" "x # zs"] by simp
    have ne: "x \<noteq> z" "z \<in> set xs" using Cons.prems x by auto
    show ?case
    proof (cases "cmp x z < 0")
      case True
      have "cmp x b < 0" if "b \<in> set zs" for b
      proof -
        have "b \<noteq> x" "b \<in> set xs" "cmp z b < 0" using that Cons.prems x by auto
        then show ?thesis using orders_trans[OF assms(1), of x z b] True ne by simp
      qed
      with True Cons show ?thesis by simp
    next
      case False
      then have "cmp z x < 0" using assms(1) ne unfolding orders_def by (meson list.set_intros)
      then show ?thesis using False Cons set by auto
    qed
  qed simp
  from this[OF sub assms(3)] show ?thesis .
qed

lemma sorted_sort_by: "orders cmp xs \<Longrightarrow> sorted_wrt (\<lambda>a b. cmp a b < 0) (sort_by cmp xs)"
proof (induction xs)
  case (Cons x xs)
  have "set (sort_by cmp xs) = set xs" using mset_sort_by by (rule mset_eq_setD)
  from sorted_insert_by[OF Cons.prems this Cons.IH[OF orders_subset[OF Cons.prems]]] show ?case by (simp add: sort_by_def)
qed (simp add: sort_by_def)

definition order_of_size :: "u64 \<Rightarrow> nat" where
  "order_of_size sz = length (takeWhile (\<lambda>order. 2 ^ order * 4096 < unat sz) [0..<52])"

lemma order_of_size_le: "order_of_size sz \<le> order \<longleftrightarrow> unat sz \<le> 2 ^ order * 4096"
proof
  let ?P = "\<lambda>order. 2 ^ order * 4096 < unat sz"
  assume le: "order_of_size sz \<le> order"
  have "unat sz \<le> 2 ^ order_of_size sz * 4096"
  proof (cases "order_of_size sz < 52")
    case True
    then show ?thesis using nth_length_takeWhile[of ?P "[0..<52]"] by (simp add: order_of_size_def not_less)
  next
    case False
    then have "(2 :: nat) ^ 52 * 4096 \<le> 2 ^ order_of_size sz * 4096" by (intro mult_le_mono1 power_increasing) auto
    then show ?thesis using unat_bound[of sz] by simp
  qed
  also have "\<dots> \<le> 2 ^ order * 4096" using le by (intro mult_le_mono1 power_increasing) auto
  finally show "unat sz \<le> 2 ^ order * 4096" .
next
  let ?P = "\<lambda>order. 2 ^ order * 4096 < unat sz"
  assume sz: "unat sz \<le> 2 ^ order * 4096"
  show "order_of_size sz \<le> order"
  proof (rule ccontr)
    assume "\<not> order_of_size sz \<le> order"
    then have o: "order < length (takeWhile ?P [0..<52])" by (simp add: order_of_size_def)
    then have "?P ([0..<52] ! order)" by (metis nth_mem set_takeWhileD takeWhile_nth)
    with o sz show False using length_takeWhile_le[of ?P "[0..<52]"] by simp
  qed
qed

definition demo_kernel :: "nat kenv" where
  "demo_kernel =
     \<lparr>sizeof_private = 1228, MAX_PAGE_ORDER = 10, cfg_NUMA = False, get_order = order_of_size, page_to_pfn = (\<lambda>p. p div sizeof_page),
      k_zalloc = (\<lambda>n w. (True, w)),
      k_alloc_pages = (\<lambda>node order B w. let p = of_nat (64 * w) in
        if B p = None \<and> p AND 3 = 0 then (Some p, w + 2 ^ order) else (None, w)),
      k_get_user_pages = (\<lambda>start n w. ((uint n, map (\<lambda>i. 64 * of_nat i) [0..<unat n]), w)),
      k_dma_map_sg = (\<lambda>sg n w. ((n, map (\<lambda>e. e\<lparr>dma_address := sg_page e div sizeof_page * KPAGE_SIZE, dma_length := sl_length e\<rparr>) sg), w)),
      k_dma_unmap_sg = (\<lambda>sg n w. w), k_sort = (\<lambda>cmp swap. sort_by cmp),
      k_remap_pfn_range = (\<lambda>a pfn sz w. (0, w)), k_remap_vmalloc_range = (\<lambda>sc n w. (0, w)),
      k_kobject_add = (\<lambda>nm w. (True, w)), k_kobject_del = (\<lambda>nm w. w),
      k_create_bin_file = (\<lambda>d nm sz w. (True, w)), k_remove_bin_file = (\<lambda>d nm w. w), k_freed_intact = (\<lambda>w. True)\<rparr>"

lemma demo_kernel_laws: "kernel_laws demo_kernel"
  by (auto simp: kernel_laws_def demo_kernel_def order_of_size_le mset_sort_by sorted_sort_by Let_def sg_memory_def
      split: if_splits)

lemma demo_kernel_lazy: "lazy_kfree demo_kernel"
  by (simp add: lazy_kfree_def demo_kernel_def)

lemma demo_kernel_direct: "direct_mapping demo_kernel"
  by (auto simp: direct_mapping_def demo_kernel_def take_map)

definition demo_avail :: "(u64 \<rightharpoonup> nat) \<Rightarrow> nat \<Rightarrow> nat \<Rightarrow> bool" where
  "demo_avail B w n \<longleftrightarrow> 64 * (w + n) < 2 ^ 64 \<and> (\<forall>i. w \<le> i \<and> i < w + n \<longrightarrow> B (of_nat (64 * i)) = None)"

lemma page_aligned: "(64 * x :: u64) AND 3 = 0"
proof -
  have "64 * x = push_bit 6 x" by (simp add: push_bit_eq_mult)
  moreover have "push_bit 6 x AND 3 = 0"
    by (rule bit_word_eqI) (auto simp: bit_simps bit_numeral_rec split: nat.splits)
  ultimately show ?thesis by simp
qed

lemma page_address_inj: "64 * i < 2 ^ 64 \<Longrightarrow> 64 * j < 2 ^ 64 \<Longrightarrow> (of_nat (64 * i) :: u64) = of_nat (64 * j) \<Longrightarrow> i = j"
proof -
  assume "64 * i < 2 ^ 64" and "64 * j < 2 ^ 64" and e: "(of_nat (64 * i) :: u64) = of_nat (64 * j)"
  then have "(64 * i) mod 2 ^ LENGTH(64) = (64 * j) mod 2 ^ LENGTH(64)" "64 * i < 2 ^ LENGTH(64)" "64 * j < 2 ^ LENGTH(64)"
    by (simp_all only: of_nat_eq_iff word_of_nat_eq_iff take_bit_eq_mod) simp_all
  then have "64 * i = 64 * j" by (simp only: mod_less)
  then show "i = j" by simp
qed

lemma demo_kernel_plentiful: "plentiful demo_kernel demo_avail"
proof -
  have "\<exists>p w'. k_alloc_pages demo_kernel node order B w = (Some p, w') \<and> demo_avail (B(p \<mapsto> order)) w' (n - 2 ^ order)"
    if a: "demo_avail B w n" and o: "2 ^ order \<le> n" for B w n node order
  proof -
    have one: "1 \<le> (2 :: nat) ^ order" by simp
    have "w < w + n" using o one by linarith
    then have "B (of_nat (64 * w)) = None" using a unfolding demo_avail_def by blast
    then have "k_alloc_pages demo_kernel node order B w = (Some (of_nat (64 * w)), w + 2 ^ order)"
      using page_aligned[of "of_nat w"] by (simp add: demo_kernel_def Let_def)
    moreover have "(of_nat (64 * i) :: u64) \<noteq> of_nat (64 * w)" if "w + 2 ^ order \<le> i" "i < w + n" for i
      using page_address_inj[of i w] a that o one by (auto simp: demo_avail_def)
    then have "demo_avail (B(of_nat (64 * w) \<mapsto> order)) (w + 2 ^ order) (n - 2 ^ order)"
      using a o by (auto simp: demo_avail_def)
    ultimately show ?thesis by blast
  qed
  moreover have "demo_avail B' w j" if a: "demo_avail B w n" and le: "B' \<subseteq>\<^sub>m B" "j \<le> n" for B B' w n j
  proof -
    have "B' p = None" if "B p = None" for p using le(1) that by (metis domIff map_le_implies_dom_le subsetD)
    then show ?thesis using a le(2) by (auto simp: demo_avail_def)
  qed
  ultimately show ?thesis unfolding plentiful_def by (auto simp: demo_kernel_def)
qed

end
