(* ===== verification/PDA_KernelAlloc.thy ===== *)
theory PDA_KernelAlloc
  imports PDA_KernelMem
begin

text \<open>
  The memory of a buffer from its allocation to its release: the chunk loop hands out blocks that add
  up to the requested pages, every error path gives all of them back, and the release of an
  allocated buffer returns exactly its blocks.
\<close>

section \<open>Chunks of a table\<close>

definition chunk_order :: "'w kenv \<Rightarrow> scatterlist \<Rightarrow> nat" where
  "chunk_order E e = get_order E (ucast (sl_length e))"

definition chunk_ok :: "'w kenv \<Rightarrow> scatterlist \<Rightarrow> bool" where
  "chunk_ok E e \<longleftrightarrow> chunk_order E e \<le> MAX_PAGE_ORDER E \<and> unat (sl_length e) = 2 ^ chunk_order E e * 4096"

definition chunk_pages :: "scatterlist list \<Rightarrow> nat" where
  "chunk_pages xs = (\<Sum>e\<leftarrow>xs. unat (sl_length e) div 4096)"

text \<open>The blocks \<open>B'\<close> are the blocks \<open>B\<close> and those of the table, without overlap.\<close>

definition holds :: "'w kenv \<Rightarrow> (u64 \<rightharpoonup> nat) \<Rightarrow> scatterlist list \<Rightarrow> (u64 \<rightharpoonup> nat) \<Rightarrow> bool" where
  "holds E B xs B' \<longleftrightarrow> distinct (map sg_page xs) \<and> (\<forall>e \<in> set xs. B (sg_page e) = None) \<and>
     B' = B ++ map_of (map (\<lambda>e. (sg_page e, chunk_order E e)) xs)"

lemma holds_Nil [simp]: "holds E B [] B' \<longleftrightarrow> B' = B"
  by (auto simp: holds_def)

lemma holds_Cons:
  "holds E B (e # xs) B' \<longleftrightarrow> B' (sg_page e) = Some (chunk_order E e) \<and> holds E B xs (B'(sg_page e := None)) \<and>
     sg_page e \<notin> sg_page ` set xs"
proof
  assume h: "holds E B (e # xs) B'"
  then have n: "map_of (map (\<lambda>e. (sg_page e, chunk_order E e)) xs) (sg_page e) = None"
    by (auto simp: holds_def map_of_eq_None_iff)
  with h show "B' (sg_page e) = Some (chunk_order E e) \<and> holds E B xs (B'(sg_page e := None)) \<and>
     sg_page e \<notin> sg_page ` set xs"
    by (auto simp: holds_def map_add_def fun_eq_iff)
next
  assume h: "B' (sg_page e) = Some (chunk_order E e) \<and> holds E B xs (B'(sg_page e := None)) \<and>
     sg_page e \<notin> sg_page ` set xs"
  then have x: "B'(sg_page e := None) = B ++ map_of (map (\<lambda>e. (sg_page e, chunk_order E e)) xs)"
    by (simp add: holds_def)
  have "B (sg_page e) = None" using fun_cong[OF x, of "sg_page e"] by (auto simp: map_add_def split: option.splits)
  moreover have "B' = B ++ map_of (map (\<lambda>e. (sg_page e, chunk_order E e)) (e # xs))"
  proof
    fix p
    show "B' p = (B ++ map_of (map (\<lambda>e. (sg_page e, chunk_order E e)) (e # xs))) p"
      using h fun_cong[OF x, of p] by (auto simp: map_add_def)
  qed
  ultimately show "holds E B (e # xs) B'" using h by (auto simp: holds_def)
qed

lemma holds_perm:
  assumes "mset xs = mset ys" and "holds E B xs B'"
  shows "holds E B ys B'"
proof -
  have d: "distinct (map sg_page ys)"
    using assms mset_eq_imp_distinct_iff[of "map sg_page xs" "map sg_page ys"] by (simp add: holds_def)
  have "map_of (map (\<lambda>e. (sg_page e, chunk_order E e)) xs) = map_of (map (\<lambda>e. (sg_page e, chunk_order E e)) ys)"
    using assms d mset_eq_setD[OF assms(1)] by (subst map_of_inject_set) (auto simp: holds_def comp_def)
  with assms d mset_eq_setD[OF assms(1)] show ?thesis by (simp add: holds_def)
qed

lemma holds_memory:
  assumes "map sg_memory xs = map sg_memory ys"
  shows "holds E B xs B' \<longleftrightarrow> holds E B ys B'"
proof -
  let ?p = "\<lambda>m. fst m AND NOT 3" and ?o = "\<lambda>m. get_order E (ucast (snd (snd m)))"
  have "holds E B zs B' \<longleftrightarrow> distinct (map ?p (map sg_memory zs)) \<and> (\<forall>m \<in> set (map sg_memory zs). B (?p m) = None) \<and>
     B' = B ++ map_of (map (\<lambda>m. (?p m, ?o m)) (map sg_memory zs))" for zs
    unfolding holds_def by (simp add: sg_page_def[abs_def] sg_memory_def chunk_order_def comp_def)
  then show ?thesis by (simp only: assms)
qed

lemma chunk_pages_perm: "mset xs = mset ys \<Longrightarrow> chunk_pages xs = chunk_pages ys"
  unfolding chunk_pages_def
  using mset_map[of "\<lambda>e. unat (sl_length e) div 4096" xs] mset_map[of "\<lambda>e. unat (sl_length e) div 4096" ys]
  by (simp flip: sum_mset_sum_list)

lemma chunk_pages_memory:
  assumes "map sg_memory xs = map sg_memory ys"
  shows "chunk_pages xs = chunk_pages ys"
proof -
  have "chunk_pages zs = (\<Sum>m\<leftarrow>map sg_memory zs. unat (snd (snd m)) div 4096)" for zs
    by (simp add: chunk_pages_def sg_memory_def comp_def)
  then show ?thesis by (simp only: assms)
qed

lemma all_memory:
  assumes "map sg_memory xs = map sg_memory ys" and "\<And>e. P e \<longleftrightarrow> Q (sg_memory e)"
  shows "(\<forall>e \<in> set xs. P e) \<longleftrightarrow> (\<forall>e \<in> set ys. P e)"
proof -
  have "(\<forall>e \<in> set zs. P e) \<longleftrightarrow> (\<forall>m \<in> set (map sg_memory zs). Q m)" for zs by (simp add: assms(2))
  then show ?thesis by (simp only: assms(1))
qed

section \<open>Release of a table\<close>

lemma list_get_nth [simp]: "i < length xs \<Longrightarrow> list_get xs i = Some (xs ! i)"
  by (simp add: list_get_def)

lemma unat_ucast_up: "unat (ucast (w :: u32) :: u64) = unat w"
  by (simp add: unsigned_ucast_eq take_bit_nat_eq_self_iff order_less_le_trans[OF unsigned_less])

lemma KPAGE_SIZE_div: "unat (w div KPAGE_SIZE) = unat w div 4096"
  by (simp add: KPAGE_SIZE_def unat_div_distrib)

lemma KPAGE_SIZE_mod: "w mod KPAGE_SIZE = 0 \<longleftrightarrow> unat w mod 4096 = 0"
  using unat_mod_distrib[of w 4096] by (simp add: KPAGE_SIZE_def unat_arith_simps(3))

lemma free_chunk_holds:
  assumes "chunk_ok E e" and "blocks s (sg_page e) = Some (chunk_order E e)"
  shows "free_chunk E e s = Some (s\<lparr>blocks := (blocks s)(sg_page e := None),
    reserved := reserved s - pages_of (sg_page e) (2 ^ chunk_order E e)\<rparr>)"
proof -
  have "unat (ucast (sl_length e) :: u64) = 2 ^ chunk_order E e * 4096" using assms by (simp add: chunk_ok_def unat_ucast_up)
  moreover from this have "(ucast (sl_length e) :: u64) mod KPAGE_SIZE = 0"
    and "unat ((ucast (sl_length e) :: u64) div KPAGE_SIZE) = 2 ^ chunk_order E e"
    by (simp_all add: KPAGE_SIZE_mod KPAGE_SIZE_div)
  ultimately show ?thesis using assms(2) by (simp add: free_chunk_def Let_def free_pages_def chunk_order_def)
qed

text \<open>No entry but the last of the table carries the end mark.\<close>

definition marked :: "scatterlist list \<Rightarrow> nat \<Rightarrow> bool" where
  "marked sg n \<longleftrightarrow> n \<le> length sg \<and> (\<forall>i. Suc i < n \<longrightarrow> \<not> sg_is_last (sg ! i))"

lemma free_chunks_holds:
  assumes "marked sg (i + n)" and "\<forall>e \<in> set (take n (drop i sg)). chunk_ok E e"
    and "holds E B (take n (drop i sg)) (blocks s)"
  shows "free_chunks E sg (Some i) n s = Some (s\<lparr>blocks := B,
    reserved := reserved s - (\<Union>e \<in> set (take n (drop i sg)). pages_of (sg_page e) (2 ^ chunk_order E e))\<rparr>)"
  using assms
proof (induction n arbitrary: i s)
  case 0
  then show ?case by simp
next
  case (Suc n)
  then have i: "i < length sg" by (simp add: marked_def)
  then have split: "take (Suc n) (drop i sg) = sg ! i # take n (drop (Suc i) sg)" by (simp add: drop_eq_Cons_nth)
  let ?e = "sg ! i"
  let ?s = "s\<lparr>blocks := (blocks s)(sg_page ?e := None), reserved := reserved s - pages_of (sg_page ?e) (2 ^ chunk_order E ?e)\<rparr>"
  have h: "blocks s (sg_page ?e) = Some (chunk_order E ?e)" "holds E B (take n (drop (Suc i) sg)) (blocks ?s)"
    "chunk_ok E ?e" using Suc.prems by (simp_all add: split holds_Cons)
  have step: "free_chunks E sg (Some i) (Suc n) s = free_chunks E sg (sg_after sg i) n ?s"
    using i by (simp add: free_chunk_holds[OF h(3,1)])
  show ?case
  proof (cases n)
    case 0
    then show ?thesis using step h(2) split by simp
  next
    case (Suc m)
    then have "sg_after sg i = Some (Suc i)" using Suc.prems(1) by (simp add: sg_after_def marked_def)
    moreover have "marked sg (Suc i + n)" "\<forall>e \<in> set (take n (drop (Suc i) sg)). chunk_ok E e"
      using Suc.prems by (auto simp: split)
    ultimately show ?thesis using step Suc.IH[OF _ _ h(2)] split by (simp add: Diff_eq Int_assoc)
  qed
qed

section \<open>The allocation loop\<close>

lemma flags_apart:
  fixes p m x :: u64
  assumes "p AND m = 0"
  shows "((x AND m) OR p) AND NOT m = p" and "n AND m = n \<Longrightarrow> ((x AND m) OR p) AND n = x AND n"
proof -
  have p: "bit p k \<Longrightarrow> \<not> bit m k" for k using assms by (metis bit_0_eq bit_and_iff bot_apply bot_bool_def)
  show "((x AND m) OR p) AND NOT m = p"
    by (rule bit_word_eqI) (use p in \<open>auto simp: bit_and_iff bit_or_iff bit_not_iff\<close>)
  assume "n AND m = n"
  then have "bit n k \<Longrightarrow> bit m k" for k by (metis bit_and_iff)
  with p show "((x AND m) OR p) AND n = x AND n"
    by (intro bit_word_eqI) (auto simp: bit_and_iff bit_or_iff)
qed

lemma sg_set_page_page:
  assumes "p AND 3 = 0"
  shows "sg_page (sg_set_page e p len off) = p" and "sg_is_last (sg_set_page e p len off) = sg_is_last e"
  using flags_apart(1)[OF assms] flags_apart(2)[OF assms, of 2]
  by (simp_all add: sg_page_def sg_is_last_def sg_set_page_def)

lemma chunk_order_set:
  fixes e :: scatterlist and p :: u64
  assumes "kernel_laws E" and "order \<le> MAX_PAGE_ORDER E"
  defines "e' \<equiv> sg_set_page e p (of_nat (2 ^ order * unat KPAGE_SIZE)) 0"
  shows "unat (sl_length e') = 2 ^ order * 4096" and "chunk_order E e' = order"
proof -
  have "order < 20" using assms by (simp add: kernel_laws_def)
  then have b: "(2 :: nat) ^ order * 4096 < 2 ^ 32"
    using power_strict_increasing[of order 20 "2 :: nat"] by simp
  have p: "unat KPAGE_SIZE = 4096" by (simp add: KPAGE_SIZE_def)
  show len: "unat (sl_length e') = 2 ^ order * 4096"
    using of_nat_inverse[where ?'a = 32, OF refl, of "2 ^ order * 4096"] b
    unfolding e'_def sg_set_page_def p by (simp del: of_nat_mult of_nat_power)
  have "(ucast (sl_length e') :: u64) \<noteq> 0" using len by (simp flip: unat_eq_0 add: unat_ucast_up)
  then have "0 < (ucast (sl_length e') :: u64)" by (simp add: word_gt_0)
  from kernel_get_order[OF assms(1) this] have "chunk_order E e' \<le> m \<longleftrightarrow> order \<le> m" for m
    by (simp add: chunk_order_def unat_ucast_up len)
  then show "chunk_order E e' = order" by (meson le_antisym order_refl)
qed

lemma chunk_ok_set:
  "kernel_laws E \<Longrightarrow> order \<le> MAX_PAGE_ORDER E \<Longrightarrow> chunk_ok E (sg_set_page e p (of_nat (2 ^ order * unat KPAGE_SIZE)) 0)"
  by (simp only: chunk_ok_def chunk_order_set simp_thms)

text \<open>
  The state of the loop with \<open>left\<close> of the pages still to allocate. A table of more than one page
  keeps a free entry at its end, so that its end mark is not among the entries that get sorted.
\<close>

definition table_inv ::
  "'w kenv \<Rightarrow> (u64 \<rightharpoonup> nat) \<Rightarrow> nat \<Rightarrow> nat \<Rightarrow> uio_pci_dma_private \<Rightarrow> 'w kstate \<Rightarrow> bool" where
  "table_inv E B pages left v s \<longleftrightarrow>
     (\<exists>sg k. pv_sg v = Some sg \<and> k = unat (pv_length v) \<and> length sg = pages \<and> left + chunk_pages (take k sg) = pages \<and>
        k + left \<le> pages \<and> (pages = 1 \<or> k = 0 \<or> k + left < pages) \<and>
        holds E B (take k sg) (blocks s) \<and> (\<forall>e \<in> set (take k sg). chunk_ok E e) \<and>
        (\<forall>i. Suc i < pages \<longrightarrow> \<not> sg_is_last (sg ! i)))"

lemma holds_append:
  "holds E B xs B' \<Longrightarrow> B' (sg_page e) = None \<Longrightarrow> holds E B (xs @ [e]) (B'(sg_page e \<mapsto> chunk_order E e))"
proof (induction xs arbitrary: B')
  case Nil
  then show ?case by (auto simp: holds_def map_add_def)
next
  case (Cons x xs)
  then have "sg_page e \<noteq> sg_page x" by (auto simp: holds_Cons)
  then show ?case using Cons.prems Cons.IH[of "B'(sg_page x := None)"]
    unfolding append_Cons holds_Cons by (simp add: fun_upd_twist[of "sg_page e" "sg_page x"] del: fun_upd_apply) simp
qed

lemma lower_order_pos: "1 \<le> order \<Longrightarrow> 2 \<le> n \<Longrightarrow> 1 \<le> lower_order order n"
proof (induction order)
  case (Suc order)
  then show ?case by (cases order) auto
qed simp

lemma table_inv_step:
  assumes E: "kernel_laws E" "order \<le> MAX_PAGE_ORDER E" and inv: "table_inv E B pages left v s"
    and left: "2 ^ order \<le> left" and pages: "pages < 2 ^ 64"
    and first: "pv_length v = 0 \<Longrightarrow> 1 < pages \<Longrightarrow> 1 \<le> order"
    and p: "p AND 3 = 0" "blocks s p = None" and sg: "pv_sg v = Some sg" and k: "k = unat (pv_length v)"
  defines "e \<equiv> sg_set_page (sg ! k) p (of_nat (2 ^ order * unat KPAGE_SIZE)) 0"
  shows "k < length sg" and "table_inv E B pages (left - 2 ^ order)
    (v\<lparr>pv_sg := Some (sg[k := e]), pv_length := pv_length v + 1\<rparr>) (s\<lparr>kworld := w, blocks := (blocks s)(p \<mapsto> order), reserved := R\<rparr>)"
proof -
  have i: "length sg = pages" "left + chunk_pages (take k sg) = pages" "k + left \<le> pages"
      "pages = 1 \<or> k = 0 \<or> k + left < pages"
      "holds E B (take k sg) (blocks s)" "\<forall>e \<in> set (take k sg). chunk_ok E e" "\<forall>i. Suc i < pages \<longrightarrow> \<not> sg_is_last (sg ! i)"
    using inv sg k by (auto simp: table_inv_def)
  have one: "1 \<le> (2 :: nat) ^ order" by simp
  then show kl: "k < length sg" using i(1,3) left by linarith
  have k': "unat (pv_length v + 1) = Suc k" using kl i(1) pages k by (simp add: unat_word_ariths)
  have take: "take (Suc k) (sg[k := e]) = take k sg @ [e]" using kl by (simp add: take_Suc_snoc)
  have e: "sg_page e = p" "sg_is_last e = sg_is_last (sg ! k)" "chunk_order E e = order" "unat (sl_length e) div 4096 = 2 ^ order"
    "chunk_ok E e"
    using sg_set_page_page[OF p(1)] chunk_order_set[OF E] chunk_ok_set[OF E] by (simp_all add: e_def)
  have h: "holds E B (take k sg @ [e]) ((blocks s)(p \<mapsto> order))" using holds_append[OF i(5), of e] e p by simp
  have sum: "left - 2 ^ order + chunk_pages (take k sg @ [e]) = pages"
    using i(2) left e(4) by (simp add: chunk_pages_def)
  have free: "pages = 1 \<or> Suc k + (left - 2 ^ order) < pages"
  proof (cases "k = 0 \<and> 1 < pages")
    case True
    then have "2 \<le> (2 :: nat) ^ order" using first k by (simp add: unat_eq_0 self_le_power)
    then show ?thesis using True i(3) left by linarith
  next
    case False
    then show ?thesis using i(4,3) left one kl i(1) by linarith
  qed
  show "table_inv E B pages (left - 2 ^ order)
    (v\<lparr>pv_sg := Some (sg[k := e]), pv_length := pv_length v + 1\<rparr>) (s\<lparr>kworld := w, blocks := (blocks s)(p \<mapsto> order), reserved := R\<rparr>)"
    unfolding table_inv_def
  proof (intro exI conjI)
    show "pv_sg (v\<lparr>pv_sg := Some (sg[k := e]), pv_length := pv_length v + 1\<rparr>) = Some (sg[k := e])" by simp
    show "Suc k = unat (pv_length (v\<lparr>pv_sg := Some (sg[k := e]), pv_length := pv_length v + 1\<rparr>))" using k' by simp
    show "left - 2 ^ order + chunk_pages (take (Suc k) (sg[k := e])) = pages" using sum take by simp
    show "Suc k + (left - 2 ^ order) \<le> pages" using free kl i(1) left one i(3) by linarith
    show "pages = 1 \<or> Suc k = 0 \<or> Suc k + (left - 2 ^ order) < pages" using free by blast
    show "\<forall>x \<in> set (take (Suc k) (sg[k := e])). chunk_ok E x" using i(6) e(5) by (simp add: take)
    show "\<forall>j. Suc j < pages \<longrightarrow> \<not> sg_is_last (sg[k := e] ! j)" using i(1,7) e(2) kl by (auto simp: nth_list_update)
  qed (use i(1) h in \<open>simp_all add: take\<close>)
qed

text \<open>What the loop leaves alone.\<close>

definition same_request :: "uio_pci_dma_private \<Rightarrow> uio_pci_dma_private \<Rightarrow> bool" where
  "same_request v v' \<longleftrightarrow> pv_name v' = pv_name v \<and> pv_start v' = pv_start v \<and> pv_kobj v' = pv_kobj v \<and>
     pv_size v' = pv_size v \<and> pv_pages v' = pv_pages v \<and> pv_page_list v' = pv_page_list v"

lemma same_request_refl [simp]: "same_request v v"
  by (simp add: same_request_def)

lemma same_request_trans [trans]: "same_request v1 v2 \<Longrightarrow> same_request v2 v3 \<Longrightarrow> same_request v1 v3"
  by (simp add: same_request_def)

lemma same_request_table [simp]:
  "same_request v (v'\<lparr>pv_sg := sg\<rparr>) = same_request v v'" "same_request v (v'\<lparr>pv_length := n\<rparr>) = same_request v v'"
  "same_request v (v'\<lparr>pv_old_length := n\<rparr>) = same_request v v'" "same_request v (v'\<lparr>pv_scatter := sc\<rparr>) = same_request v v'"
  by (simp_all add: same_request_def)

lemma alloc_chunks_inv:
  assumes E: "kernel_laws E" and pages: "pages < 2 ^ 64"
  shows "order \<le> MAX_PAGE_ORDER E \<Longrightarrow> table_inv E B pages left v s \<Longrightarrow>
    (pv_length v = 0 \<Longrightarrow> 1 < pages \<Longrightarrow> 1 \<le> order \<and> left = pages) \<Longrightarrow>
    \<exists>ok v' s' left'. alloc_chunks E order left v s = Some (ok, v', s') \<and> table_inv E B pages left' v' s' \<and>
      (ok \<longrightarrow> left' = 0) \<and> same_request v v' \<and> pinned s' = pinned s"
proof (induction left arbitrary: order v s rule: less_induct)
  case (less left)
  show ?case
  proof (cases "left = 0")
    case True
    then show ?thesis using less.prems by (auto simp: alloc_chunks.simps[of E _ 0])
  next
    case False
    define o' where "o' = lower_order order left"
    let ?node = "if cfg_NUMA E \<and> pv_numa_node v \<noteq> -1 then Some (pv_numa_node v) else None"
    obtain r w where a: "k_alloc_pages E ?node o' (blocks s) (kworld s) = (r, w)" by fastforce
    show ?thesis
    proof (cases r)
      case None
      then show ?thesis using a False less.prems
        by (auto simp: alloc_chunks.simps[of E order left] alloc_pages_def table_inv_def Let_def simp flip: o'_def intro!: exI[of _ left])
    next
      case (Some p)
      obtain sg where sg: "pv_sg v = Some sg" using less.prems(2) by (auto simp: table_inv_def)
      have p: "p AND 3 = 0" "blocks s p = None" using kernel_alloc[OF E] a Some by blast+
      have fits: "2 ^ o' \<le> left" "o' \<le> MAX_PAGE_ORDER E"
        using False lower_order_fits[of left order] lower_order_le[of order left] less.prems(1) by (auto simp: o'_def)
      have first: "1 \<le> o'" if "pv_length v = 0" "1 < pages"
        using less.prems(3)[OF that] that(2) lower_order_pos[of order pages] by (simp add: o'_def)
      let ?k = "unat (pv_length v)"
      let ?e = "sg_set_page (sg ! ?k) p (of_nat (2 ^ o' * unat KPAGE_SIZE)) 0"
      let ?v = "v\<lparr>pv_sg := Some (sg[?k := ?e]), pv_length := pv_length v + 1\<rparr>"
      let ?s = "s\<lparr>kworld := w, blocks := (blocks s)(p \<mapsto> o'), reserved := reserved s \<union> pages_of p (2 ^ o')\<rparr>"
      note step = table_inv_step[OF E fits(2) less.prems(2) fits(1) pages first p sg refl]
      have eq: "alloc_chunks E order left v s = alloc_chunks E o' (left - 2 ^ o') ?v ?s"
        using False a Some p step(1) sg
        by (simp add: alloc_chunks.simps[of E order left] alloc_pages_def Let_def flip: o'_def)
      have "unat (pv_length v + 1) = Suc ?k"
        using step(1) pages less.prems(2) sg by (auto simp: table_inv_def unat_word_ariths)
      then have "pv_length ?v \<noteq> 0" by (auto simp: unat_eq_zero)
      then have "\<exists>ok v' s' left'. alloc_chunks E o' (left - 2 ^ o') ?v ?s = Some (ok, v', s') \<and>
          table_inv E B pages left' v' s' \<and> (ok \<longrightarrow> left' = 0) \<and> same_request ?v v' \<and> pinned s' = pinned ?s"
        using False fits by (intro less.IH step(2)) auto
      then show ?thesis by (auto simp: eq same_request_def)
    qed
  qed
qed

section \<open>Allocated buffers\<close>

text \<open>
  The chunks of a table can be given back: they are the blocks in \<open>blocks s\<close> beyond \<open>B\<close>.
\<close>

definition releasable :: "'w kenv \<Rightarrow> (u64 \<rightharpoonup> nat) \<Rightarrow> uio_pci_dma_private \<Rightarrow> 'w kstate \<Rightarrow> bool" where
  "releasable E B v s \<longleftrightarrow>
     (case pv_sg v of
        None \<Rightarrow> pv_length v = 0 \<and> blocks s = B
      | Some sg \<Rightarrow> let xs = take (unat (pv_length v)) sg in
          marked sg (unat (pv_length v)) \<and> holds E B xs (blocks s) \<and> (\<forall>e \<in> set xs. chunk_ok E e))"

lemma free_kernel_memory_releases:
  assumes "releasable E B v s"
  shows "\<exists>R. uio_pci_dma_free_kernel_memory E v s = Some (UIO_PCI_DMA_SUCCESS, s\<lparr>blocks := B, reserved := R\<rparr>)"
proof (cases "pv_sg v")
  case None
  with assms show ?thesis
    by (auto simp: releasable_def uio_pci_dma_free_kernel_memory_def intro!: exI[of _ "reserved s"])
next
  case (Some sg)
  with assms show ?thesis
    using free_chunks_holds[of sg 0 "unat (pv_length v)" E B s]
    by (auto simp: releasable_def uio_pci_dma_free_kernel_memory_def Let_def)
qed

lemma allocate_kernel_exit_releases:
  "releasable E B v s \<Longrightarrow> \<exists>R. allocate_kernel_exit E v s = Some (UIO_PCI_DMA_ERROR, v, s\<lparr>blocks := B, reserved := R\<rparr>)"
  using free_kernel_memory_releases by (fastforce simp: allocate_kernel_exit_def)

text \<open>
  A table as the driver shows it to user space and to \<open>map\<close>: every entry describes whole pages, with
  the same length for the processor and for the device, they add up to the size of the buffer, and
  the exported list shows exactly these entries.
\<close>

definition exported :: "uio_pci_dma_private \<Rightarrow> scatterlist list \<Rightarrow> bool" where
  "exported v xs \<longleftrightarrow>
     (\<exists>sg. pv_sg v = Some sg \<and> xs = take (unat (pv_length v)) sg \<and> marked sg (unat (pv_length v))) \<and>
     xs \<noteq> [] \<and> (\<forall>e \<in> set xs. sl_length e \<noteq> 0 \<and> unat (sl_length e) mod 4096 = 0 \<and> dma_length e = sl_length e) \<and>
     chunk_pages xs = unat (pv_pages v) \<and> unat (pv_size v) = unat (pv_pages v) * 4096 \<and>
     pv_scatter v = Some (map convert_entry xs) \<and> pv_old_length v = pv_length v"

definition kernel_buffer :: "'w kenv \<Rightarrow> (u64 \<rightharpoonup> nat) \<Rightarrow> uio_pci_dma_private \<Rightarrow> (u64 \<rightharpoonup> nat) \<Rightarrow> bool" where
  "kernel_buffer E B v B' \<longleftrightarrow>
     (\<exists>xs. exported v xs \<and> holds E B xs B' \<and> (\<forall>e \<in> set xs. chunk_ok E e) \<and>
        (distinct (map dma_address xs) \<longrightarrow> sorted_wrt (<) (map dma_address xs)))"

lemma kernel_buffer_releasable: "kernel_buffer E B v (blocks s) \<Longrightarrow> releasable E B v s"
  by (auto simp: kernel_buffer_def exported_def releasable_def)

lemma table_inv_releasable: "table_inv E B pages left v s \<Longrightarrow> releasable E B v s"
  by (fastforce simp: table_inv_def releasable_def marked_def)

lemma sg_is_last_memory: "sg_is_last e \<longleftrightarrow> fst (sg_memory e) AND 2 \<noteq> 0"
  by (simp add: sg_is_last_def sg_memory_def)

lemma chunk_ok_memory: "chunk_ok E e \<longleftrightarrow> (let n = snd (snd (sg_memory e)); order = get_order E (ucast n) in
    order \<le> MAX_PAGE_ORDER E \<and> unat n = 2 ^ order * 4096)"
  by (simp add: chunk_ok_def chunk_order_def sg_memory_def Let_def)

text \<open>Programming the IOMMU keeps the invariant of the table.\<close>

lemma table_inv_memory:
  assumes "table_inv E B pages left v s" and "pv_sg v = Some sg" and mem: "map sg_memory sg' = map sg_memory sg"
    and "pv_length v' = pv_length v" and "pv_sg v' = Some sg'" and "blocks s' = blocks s"
  shows "table_inv E B pages left v' s'"
proof -
  have len: "length sg' = length sg" using mem by (metis length_map)
  have tk: "map sg_memory (take k sg') = map sg_memory (take k sg)" for k by (metis mem take_map)
  have "sg_is_last (sg' ! i) = sg_is_last (sg ! i)" if "i < length sg" for i
    using mem that len by (metis sg_is_last_memory nth_map)
  then show ?thesis
    using assms(1,2,4-6) len holds_memory[OF tk, of E] chunk_pages_memory[OF tk] all_memory[OF tk, of "chunk_ok E", OF chunk_ok_memory]
    unfolding table_inv_def by (auto simp: Suc_lessD)
qed

lemma sorted_by_address:
  assumes "kernel_laws E" and "distinct (map dma_address xs)"
  shows "sorted_wrt (<) (map dma_address (k_sort E sort_sg_compare sort_sg_swap xs))"
proof -
  have inj: "inj_on dma_address (set xs)" "distinct xs" using assms(2) by (simp_all add: distinct_map)
  have "orders sort_sg_compare xs"
    unfolding orders_def
    using inj by (auto simp: sort_sg_compare_def inj_on_def not_less split: if_splits dest: order_trans)
  from kernel_sort(2)[OF assms(1) this]
  have s: "sorted_wrt (\<lambda>a b. sort_sg_compare a b < 0) (k_sort E sort_sg_compare sort_sg_swap xs)" .
  have perm: "mset (k_sort E sort_sg_compare sort_sg_swap xs) = mset xs" by (rule kernel_sort(1)[OF assms(1)])
  then have d: "distinct (map dma_address (k_sort E sort_sg_compare sort_sg_swap xs))"
    using assms(2) mset_eq_imp_distinct_iff mset_map by metis
  have "sorted_wrt (\<lambda>a b. dma_address a \<le> dma_address b) (k_sort E sort_sg_compare sort_sg_swap xs)"
    using s by (rule sorted_wrt_mono_rel[rotated]) (auto simp: sort_sg_compare_def split: if_splits)
  then have "sorted (map dma_address (k_sort E sort_sg_compare sort_sg_swap xs))" by (simp add: sorted_wrt_map)
  with d show ?thesis unfolding strict_sorted_iff by blast
qed

text \<open>Sorting the entries in use keeps the end mark behind them.\<close>

lemma table_inv_sorted:
  assumes "kernel_laws E" and "table_inv E B pages left v s" and sg: "pv_sg v = Some sg" and n: "n = unat (pv_length v)"
    and "0 < n"
  defines "ys \<equiv> k_sort E sort_sg_compare sort_sg_swap (take n sg)"
  shows "mset ys = mset (take n sg)" and "length ys = n" and "marked (ys @ drop n sg) n"
proof -
  show perm: "mset ys = mset (take n sg)" unfolding ys_def by (rule kernel_sort(1)[OF assms(1)])
  have i: "length sg = pages" "n + left \<le> pages" "pages = 1 \<or> n + left < pages" "\<forall>i. Suc i < pages \<longrightarrow> \<not> sg_is_last (sg ! i)"
    using assms(2,5) sg n by (auto simp: table_inv_def)
  show len: "length ys = n" using perm i by (metis add_leD1 length_take min_absorb2 size_mset)
  show "marked (ys @ drop n sg) n"
  proof (cases "pages = 1")
    case True
    then show ?thesis using len i by (auto simp: marked_def)
  next
    case False
    have "\<not> sg_is_last e" if e: "e \<in> set (take n sg)" for e
    proof -
      obtain j where "j < n" "e = sg ! j" using e unfolding in_set_conv_nth by auto
      then show ?thesis using i False by auto
    qed
    then have "\<forall>e \<in> set ys. \<not> sg_is_last e" using perm by (metis mset_eq_setD)
    then show ?thesis using len by (auto simp: marked_def nth_append)
  qed
qed

text \<open>The two outcomes of the allocation.\<close>

definition kernel_outcome ::
  "'w kenv \<Rightarrow> uio_pci_dma_private \<Rightarrow> 'w kstate \<Rightarrow> int \<Rightarrow> uio_pci_dma_private \<Rightarrow> 'w kstate \<Rightarrow> bool" where
  "kernel_outcome E v s r v' s' \<longleftrightarrow> pinned s' = pinned s \<and>
     (r = UIO_PCI_DMA_SUCCESS \<and> kernel_buffer E (blocks s) v' (blocks s') \<and> same_request v v' \<or>
      r = UIO_PCI_DMA_ERROR \<and> blocks s' = blocks s)"

lemma kernel_exit_outcome:
  assumes "releasable E (blocks s) v1 s1" and "pinned s1 = pinned s"
  shows "\<exists>r v' s'. allocate_kernel_exit E v1 s1 = Some (r, v', s') \<and> kernel_outcome E v s r v' s'"
  using allocate_kernel_exit_releases[OF assms(1)] assms(2) by (auto simp: kernel_outcome_def)

lemma program_iommu_direct:
  assumes E: "kernel_laws E" "direct_mapping E" and sg: "pv_sg v = Some sg"
  obtains (failed) sg' w where "program_iommu E v s = Some (UIO_PCI_DMA_ERROR, v\<lparr>pv_sg := Some sg'\<rparr>, s\<lparr>kworld := w\<rparr>)"
      "map sg_memory sg' = map sg_memory sg"
  | (mapped) sg' w where
      "program_iommu E v s = Some (UIO_PCI_DMA_SUCCESS, v\<lparr>pv_sg := Some sg', pv_old_length := pv_length v\<rparr>, s\<lparr>kworld := w\<rparr>)"
      "map sg_memory sg' = map sg_memory sg" "0 < unat (pv_length v)"
      "\<forall>e \<in> set (take (unat (pv_length v)) sg'). dma_length e = sl_length e"
proof -
  obtain c sg' w where m: "k_dma_map_sg E sg (unat (pv_length v)) (kworld s) = ((c, sg'), w)" by (metis surj_pair)
  have mem: "map sg_memory sg' = map sg_memory sg" using kernel_dma[OF E(1) m] by blast
  show thesis
  proof (cases "c = 0")
    case True
    then show thesis using failed[OF _ mem, of w] m sg by (simp add: program_iommu_def Let_def)
  next
    case False
    then have "c = unat (pv_length v)" "\<forall>e \<in> set (take c sg'). dma_length e = sl_length e"
      using E(2) m unfolding direct_mapping_def by blast+
    then show thesis using mapped[OF _ mem, of w] m sg False by (simp add: program_iommu_def Let_def)
  qed
qed

lemma program_iommu_cases:
  assumes E: "kernel_laws E" "direct_mapping E" and inv: "table_inv E B pages 0 v s" and sg: "pv_sg v = Some sg"
  obtains (failed) v' s' where "program_iommu E v s = Some (UIO_PCI_DMA_ERROR, v', s')" "releasable E B v' s'" "pinned s' = pinned s"
  | (mapped) v' s' sg' where "program_iommu E v s = Some (UIO_PCI_DMA_SUCCESS, v', s')" "table_inv E B pages 0 v' s'"
      "pv_sg v' = Some sg'" "\<forall>e \<in> set (take (unat (pv_length v')) sg'). dma_length e = sl_length e"
      "pv_old_length v' = pv_length v'" "0 < unat (pv_length v')" "same_request v v'" "pinned s' = pinned s"
  using E sg
proof (cases rule: program_iommu_direct[of E v sg s])
  case (failed sg' w)
  show thesis by (rule that(1)[OF failed(1) table_inv_releasable[OF table_inv_memory[OF inv sg failed(2)]]]) simp_all
next
  case (mapped sg' w)
  with that(2)[OF mapped(1) table_inv_memory[OF inv sg mapped(2)]] show thesis by simp
qed

lemma kernel_tail_outcome:
  assumes E: "kernel_laws E" "direct_mapping E" and inv: "table_inv E (blocks s) (unat (pv_pages v)) 0 v1 s1"
    and size: "unat (pv_size v) = unat (pv_pages v) * 4096" and frame: "same_request v v1" "pinned s1 = pinned s"
  shows "\<exists>r v' s'. allocate_kernel_tail E v1 s1 = Some (r, v', s') \<and> kernel_outcome E v s r v' s'"
proof -
  obtain sg1 where sg1: "pv_sg v1 = Some sg1" using inv by (auto simp: table_inv_def)
  from E inv sg1 show ?thesis
  proof (cases rule: program_iommu_cases)
    case (failed v2 s2)
    then show ?thesis using kernel_exit_outcome[of E s v2 s2 v] frame by (simp add: allocate_kernel_tail_def)
  next
    case (mapped v2 s2 sg)
    define n where "n = unat (pv_length v2)"
    define ys where "ys = k_sort E sort_sg_compare sort_sg_swap (take n sg)"
    note srt = table_inv_sorted[OF E(1) mapped(2,3) n_def, folded ys_def]
    have n: "0 < n" using mapped(6) by (simp add: n_def)
    note y = srt[OF n]
    have i: "holds E (blocks s) (take n sg) (blocks s2)" "\<forall>e \<in> set (take n sg). chunk_ok E e"
      "chunk_pages (take n sg) = unat (pv_pages v)" using mapped(2,3) by (auto simp: table_inv_def n_def)
    have set: "set ys = set (take n sg)" using y(1) by (rule mset_eq_setD)
    have h: "holds E (blocks s) ys (blocks s2)" using holds_perm[OF y(1)[symmetric] i(1)] .
    let ?v = "v2\<lparr>pv_sg := Some (ys @ drop n sg)\<rparr>"
    obtain ok s3 where a: "kalloc E (n * 24) s2 = (ok, s3)" by fastforce
    then have s3: "blocks s3 = blocks s2" "pinned s3 = pinned s2" by (auto simp: kalloc_def split: prod.splits)
    show ?thesis
    proof (cases ok)
      case False
      let ?w = "?v\<lparr>pv_scatter := None\<rparr>"
      have "releasable E (blocks s) ?w s3" using h y i(2) s3 by (simp add: releasable_def set flip: n_def)
      from kernel_exit_outcome[OF this, of v] show ?thesis
        using mapped a False s3 frame
        by (simp add: allocate_kernel_tail_def convert_sg_def flip: n_def ys_def)
    next
      case True
      let ?w = "?v\<lparr>pv_scatter := Some (map convert_entry ys)\<rparr>"
      have tk: "take n (ys @ drop n sg) = ys" using y(2) by simp
      have "exported ?w ys"
        unfolding exported_def
        using y mapped(4,5,7) i(2,3) n size frame chunk_pages_perm[OF y(1)] tk
        by (auto simp: same_request_def set chunk_ok_def unat_eq_zero simp flip: n_def)
      moreover have "distinct (map dma_address ys) \<longrightarrow> sorted_wrt (<) (map dma_address ys)"
        using sorted_by_address[OF E(1), of "take n sg"] mset_eq_imp_distinct_iff[of "map dma_address ys" "map dma_address (take n sg)"] y(1)
        by (simp add: ys_def)
      ultimately have "kernel_outcome E v s UIO_PCI_DMA_SUCCESS ?w s3"
        using h i(2) s3 mapped(7,8) frame same_request_trans[OF frame(1) mapped(7)]
        by (auto simp: kernel_outcome_def kernel_buffer_def set)
      then show ?thesis
        using mapped a True y(2) tk by (simp add: allocate_kernel_tail_def convert_sg_def flip: n_def ys_def)
    qed
  qed
qed

lemma unat_mult_distrib_small:
  "unat (a :: u64) * unat b < 2 ^ 64 \<Longrightarrow> unat (a * b) = unat a * unat b"
  by (simp add: unat_word_ariths)

lemma round_up_div: "((n :: nat) + 4095) div 4096 = (if n mod 4096 = 0 then n div 4096 else Suc (n div 4096))"
proof -
  have "(n + 4095) div 4096 = n div 4096 + (n mod 4096 + 4095) div 4096" by (simp add: div_add1_eq[of n 4095 4096])
  moreover have "(n mod 4096 + 4095) div 4096 = (if n mod 4096 = 0 then 0 else 1)"
    using mod_less_divisor[of 4096 n] by (auto simp: div_nat_eqI)
  ultimately show ?thesis by simp
qed

lemma rounded_pages_bounds:
  assumes "rounded_pages sz = (pages, sz')" and "sz \<noteq> 0" and "unat sz \<le> 2 ^ 64 - 4096"
  shows "unat pages = (unat sz + 4095) div 4096" and "unat sz' = unat pages * 4096" and "0 < unat pages" and "sz' \<noteq> 0"
proof -
  have small: "unat sz div 4096 \<le> 2 ^ 52 - 1" "0 < unat sz" using assms by (auto simp: unat_gt_0)
  have up: "unat (sz div KPAGE_SIZE + 1) = unat sz div 4096 + 1" using small KPAGE_SIZE_div[of sz] unat_add_no_wrap[of "sz div KPAGE_SIZE" 1] by simp
  then have mult: "unat ((sz div KPAGE_SIZE + 1) * KPAGE_SIZE) = (unat sz div 4096 + 1) * 4096" if "unat sz mod 4096 \<noteq> 0"
  proof -
    have "unat sz \<noteq> (2 ^ 52 - 1) * 4096" using that by (metis mod_mult_self2_is_0)
    then have "unat sz < (2 ^ 52 - 1) * 4096" using assms(3) by simp
    then have "unat sz div 4096 < 2 ^ 52 - 1" by (rule less_mult_imp_div_less)
    then show ?thesis using unat_mult_distrib_small[of "sz div KPAGE_SIZE + 1" KPAGE_SIZE] up by (simp add: KPAGE_SIZE_def)
  qed
  show p: "unat pages = (unat sz + 4095) div 4096" and s: "unat sz' = unat pages * 4096"
    using assms(1) up mult small by (auto simp: round_up_div rounded_pages_def Let_def KPAGE_SIZE_mod KPAGE_SIZE_div split: if_splits)
  show n: "0 < unat pages" using p small by (auto simp: round_up_div)
  then show "sz' \<noteq> 0" using s by (auto simp: unat_eq_zero)
qed

lemma sg_init_table_inv:
  assumes "0 < pages"
  shows "table_inv E (blocks s) pages pages (v\<lparr>pv_sg := Some (sg_init_table pages), pv_length := 0\<rparr>) s"
  using assms by (auto simp: table_inv_def sg_init_table_def chunk_pages_def nth_list_update zero_sg_def sg_is_last_def)

lemma allocate_kernel_memory_outcome:
  assumes E: "kernel_laws E" "direct_mapping E" and v: "pv_sg v = None" "pv_length v = 0" "unat (pv_size v) \<le> 2 ^ 64 - 4096"
  shows "\<exists>r v' s' v1. uio_pci_dma_allocate_kernel_memory E v s = Some (r, v', s') \<and> kernel_outcome E v1 s r v' s' \<and>
    v1 = v\<lparr>pv_pages := fst (rounded_pages (pv_size v)), pv_size := snd (rounded_pages (pv_size v))\<rparr>"
proof (cases "pv_size v = 0")
  case True
  have "releasable E (blocks s) v s" using v by (simp add: releasable_def)
  from kernel_exit_outcome[OF this refl] True show ?thesis by (simp add: uio_pci_dma_allocate_kernel_memory_def)
next
  case False
  obtain pages sz where r: "rounded_pages (pv_size v) = (pages, sz)" by fastforce
  note b = rounded_pages_bounds[OF r False v(3)]
  define v1 where "v1 = v\<lparr>pv_pages := pages, pv_size := sz\<rparr>"
  define v2 where "v2 = v1\<lparr>pv_sg := Some (sg_init_table (unat pages)), pv_length := 0\<rparr>"
  define order where "order = min (get_order E sz) (MAX_PAGE_ORDER E)"
  obtain ok s1 where a: "kalloc E (unat pages * sizeof_scatterlist) s = (ok, s1)" by fastforce
  then have s1: "blocks s1 = blocks s" "pinned s1 = pinned s" by (auto simp: kalloc_def split: prod.splits)
  have run: "uio_pci_dma_allocate_kernel_memory E v s = (if ok
      then do { (ok, v, s) \<leftarrow> alloc_chunks E order (unat pages) v2 s1;
                if \<not> ok then allocate_kernel_exit E v s else allocate_kernel_tail E v s }
      else allocate_kernel_exit E (v1\<lparr>pv_sg := None\<rparr>) s1)"
    using False r a by (simp add: uio_pci_dma_allocate_kernel_memory_def Let_def v1_def v2_def order_def word_less_1)
  have "\<exists>r v' s'. uio_pci_dma_allocate_kernel_memory E v s = Some (r, v', s') \<and> kernel_outcome E v1 s r v' s'"
  proof (cases ok)
    case no: False
    have "releasable E (blocks s) (v1\<lparr>pv_sg := None\<rparr>) s1" using v s1 by (simp add: releasable_def v1_def)
    from kernel_exit_outcome[OF this s1(2)] no show ?thesis by (simp add: run)
  next
    case True
    have inv: "table_inv E (blocks s) (unat pages) (unat pages) v2 s1"
      using sg_init_table_inv[OF b(3), of E s1 v1] s1 by (simp add: v2_def)
    have sz: "0 < sz" using b(4) by (simp add: word_gt_0)
    have "1 \<le> order" if "1 < unat pages"
      using that kernel_get_order[OF E(1) sz, of 0] b(2) E(1) by (simp add: order_def kernel_laws_def)
    then obtain ok v3 s2 left where l: "alloc_chunks E order (unat pages) v2 s1 = Some (ok, v3, s2)"
      "table_inv E (blocks s) (unat pages) left v3 s2" "ok \<longrightarrow> left = 0" "same_request v2 v3" "pinned s2 = pinned s1"
      using alloc_chunks_inv[OF E(1) _ _ inv, of order] unat_bound[of pages] by (auto simp: order_def)
    have v3: "same_request v1 v3" using l(4) by (simp add: same_request_def v2_def)
    show ?thesis
    proof (cases ok)
      case False
      then show ?thesis
        using kernel_exit_outcome[OF table_inv_releasable[OF l(2)], of v1] l True s1 by (simp add: run)
    next
      case yes: True
      then show ?thesis
        using kernel_tail_outcome[OF E, of s v1 v3 s2] l True s1 v3 b(2) by (simp add: run v1_def)
    qed
  qed
  then show ?thesis by (auto simp: r v1_def)
qed

text \<open>With memory to spare no step of the allocation fails.\<close>

lemma alloc_chunks_plentiful:
  assumes "plentiful E avail"
  shows "avail (blocks s) (kworld s) (left + k) \<Longrightarrow> alloc_chunks E order left v s = Some (ok, v', s') \<Longrightarrow>
    ok \<and> avail (blocks s') (kworld s') k"
proof (induction left arbitrary: order v s rule: less_induct)
  case (less left)
  show ?case
  proof (cases "left = 0")
    case True
    then show ?thesis using less.prems by (auto simp: alloc_chunks.simps[of E _ 0])
  next
    case False
    define o' where "o' = lower_order order left"
    have fits: "2 ^ o' \<le> left" using False lower_order_fits by (simp add: o'_def)
    let ?node = "if cfg_NUMA E \<and> pv_numa_node v \<noteq> -1 then Some (pv_numa_node v) else None"
    obtain p w where a: "k_alloc_pages E ?node o' (blocks s) (kworld s) = (Some p, w)"
        "avail ((blocks s)(p \<mapsto> o')) w (left - 2 ^ o' + k)"
      using plentiful_laws(2)[OF assms less.prems(1) trans_le_add1[OF fits]] unfolding diff_add_assoc2[OF fits, symmetric] by blast
    let ?s = "s\<lparr>kworld := w, blocks := (blocks s)(p \<mapsto> o'), reserved := reserved s \<union> pages_of p (2 ^ o')\<rparr>"
    obtain v1 where "alloc_chunks E o' (left - 2 ^ o') v1 ?s = Some (ok, v', s')"
      using less.prems(2) False a(1)
      by (auto simp: alloc_chunks.simps[of E order left] alloc_pages_def Let_def bind_eq_Some_conv simp flip: o'_def split: if_splits)
    moreover have "left - 2 ^ o' < left" using False fits by simp
    ultimately show ?thesis using less.IH[of "left - 2 ^ o'" ?s o' v1] a(2) by (simp add: fun_upd_def)
  qed
qed

lemma program_iommu_plentiful:
  assumes "plentiful E avail" and "avail (blocks s) (kworld s) n" and "0 < unat (pv_length v)"
    and "program_iommu E v s = Some (r, v', s')"
  shows "r = UIO_PCI_DMA_SUCCESS \<and> avail (blocks s') (kworld s') n"
proof -
  obtain sg where sg: "pv_sg v = Some sg" using assms(4) by (auto simp: program_iommu_def bind_eq_Some_conv)
  obtain c sg' w where "k_dma_map_sg E sg (unat (pv_length v)) (kworld s) = ((c, sg'), w)" "0 < c" "avail (blocks s) w n"
    using plentiful_laws(4)[OF assms(1,2)] assms(3) by metis
  then show ?thesis using assms(4) sg by (auto simp: program_iommu_def Let_def)
qed

lemma convert_sg_plentiful:
  assumes "plentiful E avail" and "avail (blocks s) (kworld s) n" and "convert_sg E v s = Some (r, v', s')"
  shows "r = UIO_PCI_DMA_SUCCESS \<and> avail (blocks s') (kworld s') n"
proof -
  obtain ok s1 where "kalloc E (unat (pv_length v) * 24) s = (ok, s1)" by fastforce
  with kalloc_plentiful[OF assms(1,2) this] assms(3) show ?thesis
    by (auto simp: convert_sg_def bind_eq_Some_conv split: if_splits)
qed

lemma allocate_kernel_tail_plentiful:
  assumes "plentiful E avail" and "avail (blocks s) (kworld s) n" and "0 < unat (pv_length v)"
    and "allocate_kernel_tail E v s = Some (r, v', s')"
  shows "r = UIO_PCI_DMA_SUCCESS \<and> avail (blocks s') (kworld s') n"
proof -
  obtain r1 v1 s1 where p: "program_iommu E v s = Some (r1, v1, s1)"
    using assms(4) by (auto simp: allocate_kernel_tail_def bind_eq_Some_conv)
  note g = program_iommu_plentiful[OF assms(1-3) p]
  obtain v2 r2 v3 s2 where "convert_sg E v2 s1 = Some (r2, v3, s2)" "(r2 = UIO_PCI_DMA_SUCCESS \<longrightarrow> r = UIO_PCI_DMA_SUCCESS \<and> s' = s2)"
    using assms(4) p g by (auto simp: allocate_kernel_tail_def bind_eq_Some_conv Let_def split: if_splits)
  with convert_sg_plentiful[OF assms(1)] g show ?thesis by blast
qed

lemma allocate_kernel_memory_plentiful:
  assumes E: "kernel_laws E" and plenty: "plentiful E avail" "avail (blocks s) (kworld s) ((unat (pv_size v) + 4095) div 4096 + k)"
    and v: "pv_size v \<noteq> 0" "unat (pv_size v) \<le> 2 ^ 64 - 4096"
    and run: "uio_pci_dma_allocate_kernel_memory E v s = Some (r, v', s')"
  shows "r = UIO_PCI_DMA_SUCCESS \<and> avail (blocks s') (kworld s') k"
proof -
  obtain pages sz where rp: "rounded_pages (pv_size v) = (pages, sz)" by fastforce
  note b = rounded_pages_bounds[OF rp v]
  define v2 where "v2 = v\<lparr>pv_pages := pages, pv_size := sz, pv_sg := Some (sg_init_table (unat pages)), pv_length := 0\<rparr>"
  define order where "order = min (get_order E sz) (MAX_PAGE_ORDER E)"
  obtain s1 where a: "kalloc E (unat pages * sizeof_scatterlist) s = (True, s1)" "avail (blocks s1) (kworld s1) (unat pages + k)"
    using kalloc_plentiful[OF plenty] b(1) by (metis surj_pair)
  have inv: "table_inv E (blocks s1) (unat pages) (unat pages) v2 s1"
    using sg_init_table_inv[OF b(3), of E s1 "v\<lparr>pv_pages := pages, pv_size := sz\<rparr>"] by (simp add: v2_def)
  have "0 < sz" using b(4) by (simp add: word_gt_0)
  then have "1 \<le> order" if "1 < unat pages"
    using that kernel_get_order[OF E, of sz 0] b(2) E by (simp add: order_def kernel_laws_def)
  then obtain ok v3 s2 left where l: "alloc_chunks E order (unat pages) v2 s1 = Some (ok, v3, s2)"
    "table_inv E (blocks s1) (unat pages) left v3 s2" "ok \<longrightarrow> left = 0"
    using alloc_chunks_inv[OF E _ _ inv, of order] unat_bound[of pages] by (auto simp: order_def)
  note g = alloc_chunks_plentiful[OF plenty(1) a(2) l(1)]
  then have "0 < unat (pv_length v3)" using l(2,3) b(3) by (auto simp: table_inv_def chunk_pages_def intro!: gr0I)
  moreover have "allocate_kernel_tail E v3 s2 = Some (r, v', s')"
    using run g v(1) rp a(1) l(1) by (simp add: uio_pci_dma_allocate_kernel_memory_def Let_def word_less_1 v2_def order_def)
  ultimately show ?thesis using allocate_kernel_tail_plentiful[OF plenty(1)] g by blast
qed

section \<open>The contract of the allocation\<close>

text \<open>
  C7. On a system that maps without merging, \<open>uio_pci_dma_allocate_kernel_memory\<close> always ends and
  follows no invalid pointer, and it succeeds for every size but zero if the kernel can provide the
  pages. On success the buffer has the requested size rounded up to whole
  pages, made of blocks of consecutive pages that were free before, no larger than the kernel can
  provide, that add up to this size; the table exported to user space lists them in the order of
  their device addresses, and the end of the table stays behind them. On failure every block it had
  obtained is given back.
\<close>

theorem allocate_kernel_memory_result:
  assumes "kernel_laws E" and "direct_mapping E" and "pv_sg v = None" and "pv_length v = 0"
    and "unat (pv_size v) \<le> 2 ^ 64 - 4096"
  shows "\<exists>r v' s'. uio_pci_dma_allocate_kernel_memory E v s = Some (r, v', s') \<and>
    (if r = UIO_PCI_DMA_SUCCESS
     then kernel_buffer E (blocks s) v' (blocks s') \<and> unat (pv_size v') = (unat (pv_size v) + 4095) div 4096 * 4096
     else r = UIO_PCI_DMA_ERROR \<and> blocks s' = blocks s) \<and>
    (\<forall>avail. plentiful E avail \<and> avail (blocks s) (kworld s) ((unat (pv_size v) + 4095) div 4096) \<and> pv_size v \<noteq> 0
       \<longrightarrow> r = UIO_PCI_DMA_SUCCESS)"
proof -
  obtain r v' s' where *: "uio_pci_dma_allocate_kernel_memory E v s = Some (r, v', s')"
    "kernel_outcome E (v\<lparr>pv_pages := fst (rounded_pages (pv_size v)), pv_size := snd (rounded_pages (pv_size v))\<rparr>) s r v' s'"
    using allocate_kernel_memory_outcome[OF assms] by blast
  show ?thesis
  proof (cases "pv_size v = 0")
    case True
    then have "r = UIO_PCI_DMA_ERROR"
      using *(1) assms(3,4) by (auto simp: uio_pci_dma_allocate_kernel_memory_def allocate_kernel_exit_def
          uio_pci_dma_free_kernel_memory_def)
    with * True show ?thesis by (auto simp: kernel_outcome_def)
  next
    case False
    obtain pages sz where r: "rounded_pages (pv_size v) = (pages, sz)" by fastforce
    have plenty: "r = UIO_PCI_DMA_SUCCESS"
      if "plentiful E avail" "avail (blocks s) (kworld s) ((unat (pv_size v) + 4095) div 4096)" for avail
      using allocate_kernel_memory_plentiful[where k = 0, OF assms(1) that(1) _ False assms(5) *(1)] that(2) by simp
    have "if r = UIO_PCI_DMA_SUCCESS
     then kernel_buffer E (blocks s) v' (blocks s') \<and> unat (pv_size v') = (unat (pv_size v) + 4095) div 4096 * 4096
     else r = UIO_PCI_DMA_ERROR \<and> blocks s' = blocks s"
      using * rounded_pages_bounds(1,2)[OF r False assms(5)] by (auto simp: r kernel_outcome_def same_request_def)
    with *(1) plenty show ?thesis by blast
  qed
qed

definition demo_request :: uio_pci_dma_private where
  "demo_request = \<lparr>pv_name = ''3'', pv_size = 12000, pv_numa_node = -1, pv_start = 0, pv_kobj = ''3'', pv_sg = None,
     pv_scatter = None, pv_length = 0, pv_old_length = 0, pv_pages = 0, pv_page_list = None\<rparr>"

definition demo_kstate :: "nat kstate" where
  "demo_kstate = \<lparr>kworld = 1, blocks = Map.empty, reserved = {}, pinned = {#}\<rparr>"

lemma demo_request_simps [simp]:
  "pv_sg demo_request = None" "pv_length demo_request = 0" "pv_size demo_request = 12000" "blocks demo_kstate = Map.empty"
  by (simp_all add: demo_request_def demo_kstate_def)

lemma demo_kstate_avail: "n < 2 ^ 57 \<Longrightarrow> demo_avail (blocks demo_kstate) (kworld demo_kstate) n"
  by (simp add: demo_avail_def demo_kstate_def)

lemma demo_allocation_succeeds:
  "map_option fst (uio_pci_dma_allocate_kernel_memory demo_kernel demo_request demo_kstate) = Some UIO_PCI_DMA_SUCCESS"
proof -
  obtain r v' s' where r: "uio_pci_dma_allocate_kernel_memory demo_kernel demo_request demo_kstate = Some (r, v', s')"
    using allocate_kernel_memory_outcome[OF demo_kernel_laws demo_kernel_direct, of demo_request demo_kstate] by auto
  have "r = UIO_PCI_DMA_SUCCESS"
    by (rule allocate_kernel_memory_plentiful[where k = 0, OF demo_kernel_laws demo_kernel_plentiful _ _ _ r, THEN conjunct1])
      (simp_all add: demo_kstate_avail[of 3, simplified])
  with r show ?thesis by simp
qed

theorem allocate_kernel_memory_result_witness:
  "\<exists>v' s'. uio_pci_dma_allocate_kernel_memory demo_kernel demo_request demo_kstate = Some (UIO_PCI_DMA_SUCCESS, v', s') \<and>
    kernel_buffer demo_kernel Map.empty v' (blocks s') \<and> unat (pv_size v') = 12288"
  using allocate_kernel_memory_result[OF demo_kernel_laws demo_kernel_direct, of demo_request demo_kstate]
    demo_kernel_plentiful demo_kstate_avail[of 3]
  by (force split: if_splits)

text \<open>
  C16. \<open>uio_pci_dma_free_kernel_memory\<close> returns exactly the blocks of the buffer, each with the order
  it was allocated with, whatever else the module holds, and no page of them stays reserved.
\<close>

theorem free_kernel_memory_result:
  assumes "kernel_buffer E B v (blocks s)"
  shows "\<exists>s'. uio_pci_dma_free_kernel_memory E v s = Some (UIO_PCI_DMA_SUCCESS, s') \<and> blocks s' = B \<and>
    (\<exists>xs. exported v xs \<and> (\<forall>e \<in> set xs. reserved s' \<inter> pages_of (sg_page e) (unat (sl_length e) div 4096) = {}))"
proof -
  obtain sg xs where k: "exported v xs" "pv_sg v = Some sg" "xs = take (unat (pv_length v)) sg"
      "marked sg (unat (pv_length v))" "holds E B xs (blocks s)" "\<forall>e \<in> set xs. chunk_ok E e"
    using assms by (auto simp: kernel_buffer_def exported_def)
  with free_chunks_holds[of sg 0 "unat (pv_length v)" E B s] show ?thesis
    by (auto simp: uio_pci_dma_free_kernel_memory_def chunk_ok_def intro!: exI[of _ xs])
qed

theorem free_kernel_memory_result_witness:
  "\<exists>v s s'. kernel_buffer demo_kernel Map.empty v (blocks s) \<and>
    uio_pci_dma_free_kernel_memory demo_kernel v s = Some (UIO_PCI_DMA_SUCCESS, s') \<and> blocks s' = Map.empty"
proof -
  obtain v s where "kernel_buffer demo_kernel Map.empty v (blocks (s :: nat kstate))"
    using allocate_kernel_memory_outcome[OF demo_kernel_laws demo_kernel_direct, of demo_request demo_kstate]
      demo_allocation_succeeds by (auto simp: kernel_outcome_def)
  then show ?thesis using free_kernel_memory_result[of demo_kernel Map.empty v s] by blast
qed

section \<open>User memory\<close>

text \<open>\<open>get_user_pages\<close> returns the number of pages it pinned, in the order of the addresses.\<close>

definition gup_law :: "'w kenv \<Rightarrow> bool" where
  "gup_law E \<longleftrightarrow> (\<forall>start n w r pl w'. k_get_user_pages E start n w = ((r, pl), w') \<longrightarrow>
     (\<forall>p \<in> set pl. p AND 3 = 0) \<and> (0 \<le> r \<longrightarrow> r = int (length pl)))"

lemma put_into_list_result:
  assumes "\<forall>p \<in> set pl. p AND 3 = 0"
  shows "i + n \<le> length pl \<Longrightarrow> i + n \<le> length sg \<Longrightarrow>
    put_into_list pl i n sg = Some (take i sg @ map (\<lambda>j. sg_set_page (sg ! j) (pl ! j) (ucast KPAGE_SIZE) 0) [i..<i + n] @ drop (i + n) sg)"
proof (induction n arbitrary: i sg)
  case 0
  then show ?case by simp
next
  case (Suc n)
  let ?e = "sg_set_page (sg ! i) (pl ! i) (ucast KPAGE_SIZE) 0"
  have a: "pl ! i AND 3 = 0" using assms Suc.prems by simp
  have up: "[i..<i + Suc n] = i # [Suc i..<Suc i + n]" by (simp add: upt_rec)
  have m: "map (\<lambda>j. sg_set_page (sg[i := ?e] ! j) (pl ! j) (ucast KPAGE_SIZE) 0) [Suc i..<Suc i + n] =
      map (\<lambda>j. sg_set_page (sg ! j) (pl ! j) (ucast KPAGE_SIZE) 0) [Suc i..<Suc i + n]" by (rule map_cong) auto
  have t: "take (Suc i) (sg[i := ?e]) = take i sg @ [?e]" using Suc.prems by (simp add: take_Suc_snoc)
  have d: "drop (Suc i + n) (sg[i := ?e]) = drop (i + Suc n) sg" by simp
  have "put_into_list pl i (Suc n) sg = put_into_list pl (Suc i) n (sg[i := ?e])" using a Suc.prems by simp
  also have "\<dots> = Some (take (Suc i) (sg[i := ?e]) @
      map (\<lambda>j. sg_set_page (sg[i := ?e] ! j) (pl ! j) (ucast KPAGE_SIZE) 0) [Suc i..<Suc i + n] @ drop (Suc i + n) (sg[i := ?e]))"
    using Suc.prems by (intro Suc.IH) auto
  also have "\<dots> = Some (take i sg @ map (\<lambda>j. sg_set_page (sg ! j) (pl ! j) (ucast KPAGE_SIZE) 0) [i..<i + Suc n] @ drop (i + Suc n) sg)"
    by (simp only: up m t d list.map append_assoc append_Cons append_Nil)
  finally show ?case .
qed

lemma put_pages_releases:
  "i + n \<le> length pl \<Longrightarrow> pinned s = M + mset (take n (drop i pl)) \<Longrightarrow> put_pages pl i n s = Some (s\<lparr>pinned := M\<rparr>)"
proof (induction n arbitrary: i s)
  case (Suc n)
  then have split: "take (Suc n) (drop i pl) = pl ! i # take n (drop (Suc i) pl)" by (simp add: drop_eq_Cons_nth)
  have "put_pages pl (Suc i) n (s\<lparr>pinned := pinned s - {#pl ! i#}\<rparr>) = Some (s\<lparr>pinned := M\<rparr>)"
    using Suc.IH[of "Suc i" "s\<lparr>pinned := pinned s - {#pl ! i#}\<rparr>"] Suc.prems by (simp add: split)
  with Suc.prems show ?case by (simp add: split)
qed simp

lemma small_signed:
  assumes "unat (w :: u32) < 2 ^ 31"
  shows "sint w = int (unat w)" and "unat (scast w :: u64) = unat w"
proof -
  have "int (unat w) < int (2 ^ 31)" using assms by (simp only: of_nat_less_iff)
  then have "uint w < 2 ^ 31" by simp
  then have "signed_take_bit 31 (uint w) = uint w" 
    using order_trans[of "- (2 ^ 31)" 0 "uint w"] by (intro signed_take_bit_int_eq_self) auto
  then show s: "sint w = int (unat w)" by (simp add: sint_uint)
  have "(scast w :: u64) = of_nat (unat w)" unfolding scast_eq s by simp
  then show "unat (scast w :: u64) = unat w" by (simp add: unat_ucast_up)
qed

lemma user_pages_bounds:
  assumes "user_pages sz = (pages, sz')" and "sz \<noteq> 0" and "unat sz < 2 ^ 42"
  shows "unat (scast pages :: u64) = (unat sz + 4095) div 4096" and "sint pages = int ((unat sz + 4095) div 4096)"
    and "unat sz' = (unat sz + 4095) div 4096 * 4096" and "0 < (unat sz + 4095) div 4096"
proof -
  define d where "d = unat sz div 4096"
  have d: "d < 2 ^ 30" using assms(3) by (auto simp: d_def intro!: less_mult_imp_div_less)
  have w: "unat (ucast (sz div KPAGE_SIZE) :: u32) = d"
    using d by (simp add: d_def KPAGE_SIZE_div unsigned_ucast_eq take_bit_nat_eq_self)
  have w1: "unat ((ucast (sz div KPAGE_SIZE) :: u32) + 1) = Suc d"
    using d w unat_add_no_wrap[of "ucast (sz div KPAGE_SIZE) :: u32" 1] by simp
  have q: "(unat sz + 4095) div 4096 = (if unat sz mod 4096 = 0 then d else Suc d)" by (simp add: round_up_div d_def)
  have p: "unat pages = (unat sz + 4095) div 4096" and b: "unat pages < 2 ^ 31"
    using assms(1) w w1 d by (auto simp: q user_pages_def Let_def KPAGE_SIZE_mod split: if_splits)
  show n: "unat (scast pages :: u64) = (unat sz + 4095) div 4096" and "sint pages = int ((unat sz + 4095) div 4096)"
    using small_signed[OF b] p by auto
  show "0 < (unat sz + 4095) div 4096" using assms(2) unat_gt_0[of sz] by (auto simp: round_up_div dvd_imp_le intro!: div_greater_zero_iff[THEN iffD2])
  have "unat ((scast pages :: u64) * KPAGE_SIZE) = unat pages * 4096"
    using unat_mult_distrib_small[of "scast pages" KPAGE_SIZE] b small_signed(2)[OF b] by (simp add: KPAGE_SIZE_def)
  moreover have "unat sz = d * 4096" if "unat sz mod 4096 = 0" using that by (auto simp: d_def)
  ultimately show "unat sz' = (unat sz + 4095) div 4096 * 4096"
    using assms(1) p q by (auto simp: user_pages_def Let_def KPAGE_SIZE_mod split: if_splits)
qed

text \<open>
  A buffer of the user: its table has one entry for every page, in the order of the user's addresses,
  and the module holds a reference to each page.
\<close>

definition user_buffer :: "uio_pci_dma_private \<Rightarrow> u64 list \<Rightarrow> bool" where
  "user_buffer v pl \<longleftrightarrow> pv_page_list v = Some pl \<and> length pl = unat (pv_pages v) \<and>
     (\<exists>xs. exported v xs \<and> map sg_page xs = pl \<and> (\<forall>e \<in> set xs. unat (sl_length e) = 4096))"

text \<open>The table before the IOMMU is programmed.\<close>

lemma user_table:
  assumes "\<forall>p \<in> set pl. p AND 3 = 0" and "n = length pl"
  obtains sg where "put_into_list pl 0 n (sg_init_table n) = Some sg" "length sg = n" "map sg_page sg = pl"
    "\<forall>e \<in> set sg. unat (sl_length e) = 4096" "marked sg n"
proof -
  let ?sg = "map (\<lambda>j. sg_set_page (sg_init_table n ! j) (pl ! j) (ucast KPAGE_SIZE) 0) [0..<n]"
  have len: "length (sg_init_table n) = n" by (simp add: sg_init_table_def)
  have p: "pl ! j AND 3 = 0" if "j < n" for j using assms that by simp
  have "put_into_list pl 0 n (sg_init_table n) = Some ?sg"
    using put_into_list_result[OF assms(1), of 0 n "sg_init_table n"] assms(2) len by simp
  moreover have "map sg_page ?sg = pl" using assms(2) by (intro nth_equalityI) (auto simp: sg_set_page_page[OF p])
  moreover have "\<forall>e \<in> set ?sg. unat (sl_length e) = 4096" by (auto simp: sg_set_page_def KPAGE_SIZE_def)
  moreover have "\<not> sg_is_last (sg_init_table n ! j)" if "Suc j < n" for j
    using that by (simp add: sg_init_table_def nth_list_update sg_is_last_def zero_sg_def)
  then have "marked ?sg n" by (auto simp: marked_def sg_set_page_page(2)[OF p])
  ultimately show thesis using that by simp
qed

lemma convert_user_table:
  assumes mem: "map sg_memory sg' = map sg_memory sg" and sg: "length sg = n" "map sg_page sg = pl"
    "\<forall>e \<in> set sg. unat (sl_length e) = 4096" "marked sg n"
    and dma: "\<forall>e \<in> set sg'. dma_length e = sl_length e"
    and v: "pv_sg v = Some sg'" "unat (pv_length v) = n" "pv_page_list v = Some pl" "0 < n" "unat (pv_pages v) = n"
      "unat (pv_size v) = n * 4096" "pv_old_length v = pv_length v" "pv_scatter v = Some (map convert_entry sg')"
  shows "user_buffer v pl"
proof -
  have len: "length sg' = n" using mem sg(1) by (metis length_map)
  have "map sg_page zs = map (\<lambda>m. fst m AND NOT 3) (map sg_memory zs)" for zs
    by (simp add: sg_page_def[abs_def] sg_memory_def comp_def)
  then have pages: "map sg_page sg' = pl" using mem sg(2) by metis
  have one: "\<forall>e \<in> set sg'. unat (sl_length e) = 4096"
    using all_memory[OF mem, of "\<lambda>e. unat (sl_length e) = 4096" "\<lambda>m. unat (snd (snd m)) = 4096"] sg(3)
    by (simp add: sg_memory_def)
  have mk: "marked sg' n"
    using sg(1,4) len mem unfolding marked_def by (metis Suc_lessD nth_map order_refl sg_is_last_memory)
  have "chunk_pages sg' = (\<Sum>e\<leftarrow>sg'. 1)" unfolding chunk_pages_def using one by (intro arg_cong[where f = sum_list] map_cong) auto
  then have "chunk_pages sg' = n" using len by (simp add: sum_list_triv)
  moreover have "sl_length e \<noteq> 0" if "e \<in> set sg'" for e using one that by (metis unat_0 zero_neq_numeral)
  ultimately have "exported v sg'" unfolding exported_def using v mk one dma len by auto
  then show ?thesis using pages one v len unfolding user_buffer_def by (auto simp flip: pages)
qed

lemma user_tail_outcome:
  assumes E: "kernel_laws E" "direct_mapping E" and n: "0 < n"
    and sg: "length sg = n" "map sg_page sg = pl" "\<forall>e \<in> set sg. unat (sl_length e) = 4096" "marked sg n"
    and v: "pv_page_list v = Some pl" "unat (pv_length v) = n" "unat (pv_pages v) = n" "unat (pv_size v) = n * 4096"
  shows "\<exists>r v' s'. allocate_user_tail E (v\<lparr>pv_sg := Some sg\<rparr>) s = Some (r, v', s') \<and> blocks s' = blocks s \<and> pinned s' = pinned s \<and>
    (r = UIO_PCI_DMA_ERROR \<or> r = UIO_PCI_DMA_SUCCESS \<and> user_buffer v' pl \<and> pv_size v' = pv_size v \<and>
     pv_start v' = pv_start v \<and> pv_kobj v' = pv_kobj v)"
proof -
  let ?v = "v\<lparr>pv_sg := Some sg\<rparr>"
  have "pv_sg ?v = Some sg" by simp
  with E show ?thesis
  proof (cases rule: program_iommu_direct[of E ?v sg s])
    case (failed sg' w)
    then show ?thesis by (simp add: allocate_user_tail_def)
  next
    case (mapped sg' w)
    define v3 where "v3 = ?v\<lparr>pv_sg := Some sg', pv_old_length := pv_length ?v\<rparr>"
    have len: "unat (pv_length v3) = n" "length sg' = n" using v mapped(2) sg(1) by (auto simp: v3_def dest: map_eq_imp_length_eq)
    obtain ok s1 where a: "kalloc E (n * 24) (s\<lparr>kworld := w\<rparr>) = (ok, s1)" by fastforce
    then have k: "blocks s1 = blocks s" "pinned s1 = pinned s" by (auto simp: kalloc_def split: prod.splits)
    have "convert_sg E v3 (s\<lparr>kworld := w\<rparr>) = (if ok
        then Some (UIO_PCI_DMA_SUCCESS, v3\<lparr>pv_scatter := Some (map convert_entry sg')\<rparr>, s1)
        else Some (UIO_PCI_DMA_ERROR, v3\<lparr>pv_scatter := None\<rparr>, s1))"
      using a len by (simp add: convert_sg_def v3_def)
    moreover have "program_iommu E ?v s = Some (UIO_PCI_DMA_SUCCESS, v3, s\<lparr>kworld := w\<rparr>)" using mapped(1) by (simp add: v3_def)
    ultimately have eq: "allocate_user_tail E ?v s = (if ok
        then Some (UIO_PCI_DMA_SUCCESS, v3\<lparr>pv_scatter := Some (map convert_entry sg')\<rparr>, s1)
        else Some (UIO_PCI_DMA_ERROR, v3\<lparr>pv_scatter := None\<rparr>, s1))" by (simp add: allocate_user_tail_def)
    have "user_buffer (v3\<lparr>pv_scatter := Some (map convert_entry sg')\<rparr>) pl"
      using mapped(2,4) sg len v n by (intro convert_user_table[of sg' sg n pl]) (auto simp: v3_def)
    with eq k show ?thesis by (auto simp: v3_def)
  qed
qed

text \<open>The run of the function once the size and the start were accepted.\<close>

lemma allocate_user_memory_run:
  assumes "pv_size v \<noteq> 0" and "pv_start v mod KPAGE_SIZE = 0" and "user_pages (pv_size v) = (pages, sz)"
    and "unat (scast pages :: u64) = n" and "sint pages = int n"
    and "kalloc E (unat ((scast pages :: u64) * 8)) s = (ok, s1)"
    and "k_get_user_pages E (pv_start v) (scast pages) (kworld s1) = ((m, pl), w)"
    and "s2 = s1\<lparr>kworld := w, pinned := pinned s1 + mset pl\<rparr>"
    and "kalloc E (unat ((scast pages :: u64) * of_nat sizeof_scatterlist)) s2 = (ok2, s3)"
    and "v1 = v\<lparr>pv_size := sz, pv_length := scast pages, pv_pages := scast pages\<rparr>" and "v2 = v1\<lparr>pv_page_list := Some pl\<rparr>"
  shows "uio_pci_dma_allocate_user_memory E v s =
    (if \<not> ok then Some (UIO_PCI_DMA_ERROR, v1\<lparr>pv_page_list := None\<rparr>, s1)
     else if m \<noteq> int n then Some (UIO_PCI_DMA_ERROR, v2, s2)
     else if \<not> ok2 then Some (UIO_PCI_DMA_ERROR, v2\<lparr>pv_sg := None\<rparr>, s3)
     else do {
       sg \<leftarrow> put_into_list pl 0 n (sg_init_table n);
       allocate_user_tail E (v2\<lparr>pv_sg := Some sg\<rparr>) s3
     })"
  using assms by (simp add: uio_pci_dma_allocate_user_memory_def word_less_1 Let_def)

lemma allocate_user_memory_outcome:
  assumes E: "kernel_laws E" "direct_mapping E" "gup_law E" and size: "unat (pv_size v) < 2 ^ 42"
  shows "\<exists>r v' s'. uio_pci_dma_allocate_user_memory E v s = Some (r, v', s') \<and> blocks s' = blocks s \<and>
    (r = UIO_PCI_DMA_ERROR \<or> r = UIO_PCI_DMA_SUCCESS \<and>
     (\<exists>pl. user_buffer v' pl \<and> pinned s' = pinned s + mset pl \<and> pv_start v mod KPAGE_SIZE = 0 \<and>
       unat (pv_size v') = (unat (pv_size v) + 4095) div 4096 * 4096 \<and> pv_start v' = pv_start v \<and> pv_kobj v' = pv_kobj v))"
proof (cases "pv_size v = 0 \<or> pv_start v mod KPAGE_SIZE \<noteq> 0")
  case True
  then have "\<exists>v'. uio_pci_dma_allocate_user_memory E v s = Some (UIO_PCI_DMA_ERROR, v', s)"
    unfolding uio_pci_dma_allocate_user_memory_def
    by (cases "pv_size v = 0"; cases "user_pages (pv_size v)") (simp_all add: Let_def word_less_1)
  then show ?thesis by auto
next
  case False
  obtain pages sz where u: "user_pages (pv_size v) = (pages, sz)" by fastforce
  define n where "n = (unat (pv_size v) + 4095) div 4096"
  note b = user_pages_bounds[OF u _ size, folded n_def]
  have b: "unat (scast pages :: u64) = n" "sint pages = int n" "unat sz = n * 4096" "0 < n" using b False by auto
  define v1 where "v1 = v\<lparr>pv_size := sz, pv_length := scast pages, pv_pages := scast pages\<rparr>"
  obtain ok s1 where a1: "kalloc E (unat ((scast pages :: u64) * 8)) s = (ok, s1)" by fastforce
  obtain m pl w where g: "k_get_user_pages E (pv_start v) (scast pages) (kworld s1) = ((m, pl), w)" by (metis surj_pair)
  define s2 where "s2 = s1\<lparr>kworld := w, pinned := pinned s1 + mset pl\<rparr>"
  obtain ok2 s3 where a2: "kalloc E (unat ((scast pages :: u64) * of_nat sizeof_scatterlist)) s2 = (ok2, s3)" by fastforce
  define v2 where "v2 = v1\<lparr>pv_page_list := Some pl\<rparr>"
  have k: "blocks s1 = blocks s" "pinned s1 = pinned s" "blocks s3 = blocks s" "pinned s3 = pinned s + mset pl"
    "blocks s2 = blocks s"
    using a1 a2 by (auto simp: kalloc_def s2_def split: prod.splits)
  have run: "pv_size v \<noteq> 0" "pv_start v mod KPAGE_SIZE = 0" using False by auto
  note run = allocate_user_memory_run[OF run u b(1,2) a1 g s2_def a2 v1_def v2_def]
  show ?thesis
  proof (cases "ok \<and> m = int n \<and> ok2")
    case False
    then show ?thesis using k by (auto simp: run)
  next
    case True
    then have pl: "\<forall>p \<in> set pl. p AND 3 = 0" "n = length pl" using E(3) g unfolding gup_law_def by force+
    from user_table[OF this] obtain sg where sg: "put_into_list pl 0 n (sg_init_table n) = Some sg" "length sg = n"
      "map sg_page sg = pl" "\<forall>e \<in> set sg. unat (sl_length e) = 4096" "marked sg n" by metis
    have v2: "pv_page_list v2 = Some pl" "unat (pv_length v2) = n" "unat (pv_pages v2) = n" "unat (pv_size v2) = n * 4096"
      using b by (simp_all add: v2_def v1_def)
    from user_tail_outcome[OF E(1,2) b(4) sg(2-5) v2, of s3] obtain r v' s' where
      t: "allocate_user_tail E (v2\<lparr>pv_sg := Some sg\<rparr>) s3 = Some (r, v', s')" "blocks s' = blocks s3" "pinned s' = pinned s3"
        "r = UIO_PCI_DMA_ERROR \<or> r = UIO_PCI_DMA_SUCCESS \<and> user_buffer v' pl \<and> pv_size v' = pv_size v2 \<and> pv_start v' = pv_start v2 \<and> pv_kobj v' = pv_kobj v2"
      by blast
    then show ?thesis
      using True sg(1) k b False by (auto simp: run n_def v2_def v1_def)
  qed
qed

lemma free_user_memory_releases:
  assumes "user_buffer v pl" and "pinned s = M + mset pl"
  shows "uio_pci_dma_free_user_memory v s = Some (UIO_PCI_DMA_SUCCESS, s\<lparr>pinned := M\<rparr>)"
  using assms put_pages_releases[of 0 "unat (pv_pages v)" pl s M]
  by (auto simp: user_buffer_def uio_pci_dma_free_user_memory_def)

lemma user_tail_plentiful:
  assumes "plentiful E avail" and "avail (blocks s) (kworld s) n" and "0 < unat (pv_length v)"
    and run: "allocate_user_tail E v s = Some (r, v', s')"
  shows "r = UIO_PCI_DMA_SUCCESS \<and> avail (blocks s') (kworld s') n"
proof -
  obtain r1 v1 s1 where p: "program_iommu E v s = Some (r1, v1, s1)" using run by (auto simp: allocate_user_tail_def bind_eq_Some_conv)
  note q = program_iommu_plentiful[OF assms(1-3) p]
  then obtain r2 v2 s2 where c: "convert_sg E v1 s1 = Some (r2, v2, s2)"
    "r = (if r2 \<noteq> UIO_PCI_DMA_SUCCESS then UIO_PCI_DMA_ERROR else UIO_PCI_DMA_SUCCESS)" "s' = s2"
    using run p by (cases "convert_sg E v1 s1") (auto simp: allocate_user_tail_def)
  with convert_sg_plentiful[OF assms(1) conjunct2[OF q] c(1)] show ?thesis by simp
qed

lemma allocate_user_memory_plentiful:
  assumes plenty: "plentiful E avail" "avail (blocks s) (kworld s) k"
    and v: "pv_size v \<noteq> 0" "unat (pv_size v) < 2 ^ 42" "pv_start v mod KPAGE_SIZE = 0"
    and run: "uio_pci_dma_allocate_user_memory E v s = Some (r, v', s')"
  shows "r = UIO_PCI_DMA_SUCCESS \<and> avail (blocks s') (kworld s') k"
proof -
  obtain pages sz where u: "user_pages (pv_size v) = (pages, sz)" by fastforce
  define n where "n = (unat (pv_size v) + 4095) div 4096"
  have b: "unat (scast pages :: u64) = n" "sint pages = int n" "0 < n"
    using user_pages_bounds[OF u v(1,2)] by (simp_all add: n_def)
  have n: "uint (scast pages :: u64) = int n" using b(1) by (metis uint_nat)
  obtain s1 where a: "kalloc E (unat ((scast pages :: u64) * 8)) s = (True, s1)" "avail (blocks s1) (kworld s1) k"
    using kalloc_plentiful[OF plenty] by (metis surj_pair)
  obtain pl w where g: "k_get_user_pages E (pv_start v) (scast pages) (kworld s1) = ((int n, pl), w)" "avail (blocks s1) w k"
    using plentiful_laws(3)[OF plenty(1) a(2)] n by metis
  define s2 where "s2 = s1\<lparr>kworld := w, pinned := pinned s1 + mset pl\<rparr>"
  have p2: "avail (blocks s2) (kworld s2) k" using g(2) by (simp add: s2_def)
  obtain s3 where a2: "kalloc E (unat ((scast pages :: u64) * of_nat sizeof_scatterlist)) s2 = (True, s3)" "avail (blocks s3) (kworld s3) k"
    using kalloc_plentiful[OF plenty(1) p2] by (metis surj_pair)
  define v1 where "v1 = v\<lparr>pv_size := sz, pv_length := scast pages, pv_pages := scast pages\<rparr>"
  define v2 where "v2 = v1\<lparr>pv_page_list := Some pl\<rparr>"
  obtain sg where "allocate_user_tail E (v2\<lparr>pv_sg := Some sg\<rparr>) s3 = Some (r, v', s')"
    using run unfolding allocate_user_memory_run[OF v(1,3) u b(1,2) a(1) g(1) s2_def a2(1) v1_def v2_def]
    by (auto simp: bind_eq_Some_conv)
  moreover have "0 < unat (pv_length (v2\<lparr>pv_sg := Some sg\<rparr>))" for sg using b by (simp add: v2_def v1_def)
  ultimately show ?thesis using user_tail_plentiful[OF plenty(1) a2(2)] by blast
qed

text \<open>
  C15. \<open>uio_pci_dma_allocate_user_memory\<close>, for a range below 4 TB, always ends and follows no invalid
  pointer, and it succeeds for a nonempty range that starts on a page if the kernel pins all pages
  and has memory for the lists. On success the buffer has the size rounded up to whole pages and its table shows one
  entry of one page for each page of the user, in the order of the addresses, all of them pinned;
  \<open>uio_pci_dma_free_user_memory\<close> then gives back exactly the references that were taken.
\<close>

theorem user_memory_roundtrip:
  assumes "kernel_laws E" and "direct_mapping E" and "gup_law E" and "unat (pv_size v) < 2 ^ 42"
  shows "\<exists>r v' s'. uio_pci_dma_allocate_user_memory E v s = Some (r, v', s') \<and>
    (r = UIO_PCI_DMA_ERROR \<or>
     r = UIO_PCI_DMA_SUCCESS \<and> (\<exists>pl. user_buffer v' pl \<and> pinned s' = pinned s + mset pl) \<and>
     unat (pv_size v') = (unat (pv_size v) + 4095) div 4096 * 4096 \<and>
     uio_pci_dma_free_user_memory v' s' = Some (UIO_PCI_DMA_SUCCESS, s'\<lparr>pinned := pinned s\<rparr>)) \<and>
    (\<forall>avail. plentiful E avail \<and> avail (blocks s) (kworld s) 0 \<and> pv_size v \<noteq> 0 \<and> pv_start v mod KPAGE_SIZE = 0
       \<longrightarrow> r = UIO_PCI_DMA_SUCCESS)"
proof -
  obtain r v' s' where run: "uio_pci_dma_allocate_user_memory E v s = Some (r, v', s')"
    "r = UIO_PCI_DMA_ERROR \<or> r = UIO_PCI_DMA_SUCCESS \<and> (\<exists>pl. user_buffer v' pl \<and> pinned s' = pinned s + mset pl) \<and>
     unat (pv_size v') = (unat (pv_size v) + 4095) div 4096 * 4096"
    using allocate_user_memory_outcome[OF assms, of s] by blast
  have "r = UIO_PCI_DMA_SUCCESS"
    if "plentiful E avail" "avail (blocks s) (kworld s) 0" "pv_size v \<noteq> 0" "pv_start v mod KPAGE_SIZE = 0" for avail
    using allocate_user_memory_plentiful[OF that(1-3) assms(4) that(4) run(1)] by blast
  with run free_user_memory_releases[of v'] show ?thesis by blast
qed

lemma demo_kernel_gup: "gup_law demo_kernel"
  using page_aligned by (auto simp: gup_law_def demo_kernel_def)

theorem user_memory_roundtrip_witness:
  "\<exists>v' s'. uio_pci_dma_allocate_user_memory demo_kernel (demo_request\<lparr>pv_start := 0x7f0000000000\<rparr>) demo_kstate
      = Some (UIO_PCI_DMA_SUCCESS, v', s') \<and> unat (pv_size v') = 12288 \<and>
    uio_pci_dma_free_user_memory v' s' = Some (UIO_PCI_DMA_SUCCESS, s'\<lparr>pinned := {#}\<rparr>)"
proof -
  let ?v = "demo_request\<lparr>pv_start := 0x7f0000000000\<rparr>"
  have v: "pv_size ?v \<noteq> 0" "pv_start ?v mod KPAGE_SIZE = 0" "pinned demo_kstate = {#}" "unat (pv_size ?v) = 12000"
    "unat (pv_size ?v) < 2 ^ 42" "demo_avail (blocks demo_kstate) (kworld demo_kstate) 0"
    using demo_kstate_avail[of 0] by (simp_all add: KPAGE_SIZE_def demo_kstate_def)
  obtain r v' s' where r: "uio_pci_dma_allocate_user_memory demo_kernel ?v demo_kstate = Some (r, v', s')"
    "r = UIO_PCI_DMA_ERROR \<or> unat (pv_size v') = (unat (pv_size ?v) + 4095) div 4096 * 4096 \<and>
     uio_pci_dma_free_user_memory v' s' = Some (UIO_PCI_DMA_SUCCESS, s'\<lparr>pinned := pinned demo_kstate\<rparr>)" and plenty: "\<forall>avail. plentiful demo_kernel avail \<and> avail (blocks demo_kstate) (kworld demo_kstate) 0 \<and>
       pv_size ?v \<noteq> 0 \<and> pv_start ?v mod KPAGE_SIZE = 0 \<longrightarrow> r = UIO_PCI_DMA_SUCCESS"
    using user_memory_roundtrip[OF demo_kernel_laws demo_kernel_direct demo_kernel_gup v(5), of demo_kstate]
    by (elim exE conjE) (rule that, assumption, blast)
  have "r = UIO_PCI_DMA_SUCCESS" using spec[OF plenty, of demo_avail] demo_kernel_plentiful v(1,2,6) by blast
  moreover
  have "(unat (pv_size ?v) + 4095) div 4096 * 4096 = 12288" unfolding v(4) by simp
  ultimately show ?thesis using r v(3) by simp
qed

section \<open>Failures that keep memory\<close>

text \<open>
  When fewer user pages than requested could be pinned, the request fails and the references of
  those that were pinned are kept: the error path of \<open>uio_pci_dma_allocate_user_memory\<close> does not
  call \<open>put_page\<close>.
\<close>

lemma partial_pin_leaks:
  assumes "pv_size v \<noteq> 0" and "pv_start v mod KPAGE_SIZE = 0" and "\<forall>n w. k_zalloc E n w = (True, w)"
    and "k_get_user_pages E (pv_start v) (scast (fst (user_pages (pv_size v)))) (kworld s) = ((m, pl), w)"
    and "m \<noteq> sint (fst (user_pages (pv_size v)))"
  shows "\<exists>v' s'. uio_pci_dma_allocate_user_memory E v s = Some (UIO_PCI_DMA_ERROR, v', s') \<and>
    pinned s' = pinned s + mset pl"
  using assms unfolding uio_pci_dma_allocate_user_memory_def
  by (cases "user_pages (pv_size v)") (simp add: Let_def word_less_1 kalloc_def)

end
