(* ===== verification/PDA_KernelMap.thy ===== *)
theory PDA_KernelMap
  imports PDA_KernelAlloc
begin

text \<open>
  The mapping callbacks of the kernel module: \<open>uio_pci_dma_sysfs_map\<close> maps a buffer into a process,
  wrapping around when more than the buffer is asked for, \<open>uio_pci_dma_sysfs_map_sg\<close> maps the table
  for user space, \<open>uio_pci_dma_sysfs_bar_mmap\<close> maps a register space.

  The calls of \<open>remap_pfn_range\<close> that succeeded are collected in a list, as (user address, page
  frame, size); this is what the process sees afterwards.
\<close>

section \<open>Definitions\<close>

record vm_area_struct =
  vm_start :: u64
  vm_end :: u64
  vm_flags :: u64

definition VM_SHARED :: u64 where "VM_SHARED = 0x8"
definition VM_MAYWRITE :: u64 where "VM_MAYWRITE = 0x20"

type_synonym remap = "u64 \<times> u64 \<times> u64"

text \<open>The loop of \<open>uio_pci_dma_sysfs_map\<close>, with the return code of the last call.\<close>

partial_function (option) map_loop ::
  "'w kenv \<Rightarrow> scatterlist list \<Rightarrow> u64 \<Rightarrow> u64 \<Rightarrow> int \<Rightarrow> nat option \<Rightarrow> u64 \<Rightarrow> u64 \<Rightarrow> remap list \<Rightarrow> 'w kstate
   \<Rightarrow> (int \<times> remap list \<times> 'w kstate) option" where
  "map_loop E sg buffer_size request_size ret sgp start mapped_size done s =
     (if mapped_size < request_size then do {
        i \<leftarrow> sgp;
        e \<leftarrow> list_get sg i;
        let pfn = page_to_pfn E (sg_page e);
        let sg_size = (ucast (dma_length e) :: u64);
        (case k_remap_pfn_range E start pfn sg_size (kworld s) of
           (ret, w) \<Rightarrow>
             if ret < 0 then Some (UIO_PCI_DMA_ERROR, done, s\<lparr>kworld := w\<rparr>)
             else if buffer_size = 0 then None
             else map_loop E sg buffer_size request_size ret
                    (if (mapped_size + sg_size) mod buffer_size = 0 then Some 0 else sg_after sg i)
                    (start + sg_size) (mapped_size + sg_size) (done @ [(start, pfn, sg_size)]) (s\<lparr>kworld := w\<rparr>))
      }
      else Some (ret, done, s))"

declare map_loop.simps [code]

definition uio_pci_dma_sysfs_map ::
  "'w kenv \<Rightarrow> uio_pci_dma_private option \<Rightarrow> vm_area_struct \<Rightarrow> 'w kstate \<Rightarrow> (int \<times> remap list \<times> 'w kstate) option" where
  "uio_pci_dma_sysfs_map E kobj vma s =
     (case kobj of
        None \<Rightarrow> Some (UIO_PCI_DMA_ERROR, [], s)
      | Some priv \<Rightarrow>
          if vm_flags vma AND (VM_SHARED OR VM_MAYWRITE) = VM_MAYWRITE then Some (UIO_PCI_DMA_ERROR, [], s)
          else map_loop E (case pv_sg priv of None \<Rightarrow> [] | Some sg \<Rightarrow> sg) (pv_size priv) (vm_end vma - vm_start vma) 0
                 (map_option (\<lambda>_. 0) (pv_sg priv)) (vm_start vma) 0 [] s)"

text \<open>A size that does not match is reported as success, with nothing mapped.\<close>

definition uio_pci_dma_sysfs_map_sg ::
  "'w kenv \<Rightarrow> uio_pci_dma_private \<Rightarrow> vm_area_struct \<Rightarrow> 'w kstate \<Rightarrow> (int \<times> 'w kstate) option" where
  "uio_pci_dma_sysfs_map_sg E priv vma s =
     (let sg_size = pv_length priv * 24;
          sg_size = (if sg_size mod KPAGE_SIZE \<noteq> 0 then (sg_size div KPAGE_SIZE + 1) * KPAGE_SIZE else sg_size) in
      if vm_end vma - vm_start vma \<noteq> sg_size then Some (0, s)
      else do {
        scatter \<leftarrow> pv_scatter priv;
        (case k_remap_vmalloc_range E scatter sg_size (kworld s) of (ret, w) \<Rightarrow> Some (ret, s\<lparr>kworld := w\<rparr>))
      })"

definition PCI_NUM_RESOURCES :: nat where "PCI_NUM_RESOURCES = 17"

text \<open>
  The search for the attribute among those of the device; the attribute is given by its index in
  \<open>attr_bar\<close>, \<open>None\<close> for an attribute of something else.
\<close>

definition uio_pci_dma_sysfs_bar_mmap ::
  "'w kenv \<Rightarrow> (nat \<Rightarrow> u64) \<Rightarrow> nat option \<Rightarrow> vm_area_struct \<Rightarrow> 'w kstate \<Rightarrow> int \<times> remap list \<times> 'w kstate" where
  "uio_pci_dma_sysfs_bar_mmap E pci_resource_start attr vma s =
     (case find (\<lambda>i. attr = Some i) [0..<PCI_NUM_RESOURCES] of
        None \<Rightarrow> (- EINVAL, [], s)
      | Some bar_number \<Rightarrow>
          let pfn = drop_bit 12 (pci_resource_start bar_number);
              len = vm_end vma - vm_start vma in
          (case k_remap_pfn_range E (vm_start vma) pfn len (kworld s) of
             (ret, w) \<Rightarrow> (ret, (if ret < 0 then [] else [(vm_start vma, pfn, len)]), s\<lparr>kworld := w\<rparr>)))"

section \<open>Cyclic order of the entries\<close>

definition entry_size :: "scatterlist \<Rightarrow> nat" where
  "entry_size e = unat (sl_length e)"

definition entry_offset :: "scatterlist list \<Rightarrow> nat \<Rightarrow> nat" where
  "entry_offset xs i = (\<Sum>e\<leftarrow>take i xs. entry_size e)"

text \<open>The bytes mapped by the first \<open>k\<close> turns of the loop.\<close>

definition turn_offset :: "scatterlist list \<Rightarrow> nat \<Rightarrow> nat" where
  "turn_offset xs k = k div length xs * entry_offset xs (length xs) + entry_offset xs (k mod length xs)"

lemma entry_offset_Suc: "i < length xs \<Longrightarrow> entry_offset xs (Suc i) = entry_offset xs i + entry_size (xs ! i)"
  by (simp add: entry_offset_def take_Suc_snoc)

lemma turn_offset_0 [simp]: "turn_offset xs 0 = 0"
  by (simp add: turn_offset_def entry_offset_def)

lemma turn_offset_Suc:
  assumes "xs \<noteq> []"
  shows "turn_offset xs (Suc k) = turn_offset xs k + entry_size (xs ! (k mod length xs))"
proof -
  have m: "k mod length xs < length xs" using assms by simp
  show ?thesis
  proof (cases "Suc (k mod length xs) = length xs")
    case True
    then have "entry_offset xs (length xs) = entry_offset xs (k mod length xs) + entry_size (xs ! (k mod length xs))"
      using entry_offset_Suc[OF m] by simp
    with True show ?thesis by (simp add: turn_offset_def mod_Suc div_Suc entry_offset_def)
  next
    case False
    then show ?thesis using entry_offset_Suc[OF m] by (simp add: turn_offset_def mod_Suc div_Suc)
  qed
qed

lemma entry_offset_less:
  assumes "\<forall>e \<in> set xs. 0 < entry_size e" and "i < length xs"
  shows "entry_offset xs i < entry_offset xs (length xs)"
proof -
  have "entry_offset xs (length xs) = entry_offset xs i + (\<Sum>e\<leftarrow>drop i xs. entry_size e)"
    by (simp add: entry_offset_def flip: sum_list_append map_append)
  moreover have "0 < (\<Sum>e\<leftarrow>drop i xs. entry_size e)" using assms by (simp add: drop_eq_Cons_nth)
  ultimately show ?thesis by simp
qed

lemma entry_offset_pos:
  assumes "\<forall>e \<in> set xs. 0 < entry_size e" and "0 < i" and "i \<le> length xs"
  shows "0 < entry_offset xs i"
proof -
  have "xs \<noteq> []" using assms by auto
  then obtain x ys where "xs = x # ys" by (cases xs) auto
  then show ?thesis using assms by (cases i) (auto simp: entry_offset_def)
qed

text \<open>The wrap is at the end of the table.\<close>

lemma turn_wraps:
  assumes "\<forall>e \<in> set xs. 0 < entry_size e" and "xs \<noteq> []"
  shows "turn_offset xs k mod entry_offset xs (length xs) = 0 \<longleftrightarrow> k mod length xs = 0"
proof -
  have m: "k mod length xs < length xs" using assms by simp
  from entry_offset_less[OF assms(1) m]
  have "turn_offset xs k mod entry_offset xs (length xs) = entry_offset xs (k mod length xs)" by (simp add: turn_offset_def)
  moreover have "entry_offset xs (k mod length xs) = 0 \<longleftrightarrow> k mod length xs = 0"
  proof (cases "k mod length xs = 0")
    case False
    then show ?thesis using entry_offset_pos[OF assms(1), of "k mod length xs"] m by simp
  qed (simp add: entry_offset_def)
  ultimately show ?thesis by simp
qed

section \<open>The loop\<close>

text \<open>The calls of the first \<open>k\<close> turns.\<close>

definition turns :: "'w kenv \<Rightarrow> scatterlist list \<Rightarrow> u64 \<Rightarrow> nat \<Rightarrow> remap list" where
  "turns E xs start k = map (\<lambda>j. let e = xs ! (j mod length xs) in
     (start + of_nat (turn_offset xs j), page_to_pfn E (sg_page e), ucast (sl_length e))) [0..<k]"

lemma turn_offset_mono:
  assumes "\<forall>e \<in> set xs. 0 < entry_size e" and "xs \<noteq> []"
  shows "k < m \<Longrightarrow> turn_offset xs k < turn_offset xs m"
proof (induction m)
  case (Suc m)
  have "0 < entry_size (xs ! (m mod length xs))" using assms by simp
  then have "turn_offset xs m < turn_offset xs (Suc m)" by (simp add: turn_offset_Suc[OF assms(2)])
  with Suc show ?case by (cases "k = m") auto
qed simp

lemma turns_Suc:
  "turns E xs start (Suc k) = turns E xs start k @ [(start + of_nat (turn_offset xs k),
     page_to_pfn E (sg_page (xs ! (k mod length xs))), ucast (sl_length (xs ! (k mod length xs))))]"
  by (simp add: turns_def Let_def)

lemma map_loop_turns:
  assumes xs: "xs = take n sg" "marked sg n" "xs \<noteq> []" and pos: "\<forall>e \<in> set xs. 0 < entry_size e"
    and dma: "\<forall>e \<in> set xs. dma_length e = sl_length e"
    and sz: "unat buffer_size = entry_offset xs (length xs)" and req: "unat request_size = turn_offset xs K"
    and remap: "\<forall>a p l w. fst (k_remap_pfn_range E a p l w) = 0"
  shows "k \<le> K \<Longrightarrow> \<exists>s'. map_loop E sg buffer_size request_size 0 (Some (k mod length xs)) (start + of_nat (turn_offset xs k))
      (of_nat (turn_offset xs k)) (turns E xs start k) s = Some (0, turns E xs start K, s')"
proof (induction "K - k" arbitrary: k s)
  case 0
  then have "k = K" by simp
  then show ?case using req[symmetric] by (simp add: map_loop.simps[of E sg])
next
  case (Suc d)
  let ?i = "k mod length xs" and ?m = "of_nat (turn_offset xs k) :: u64"
  let ?e = "xs ! ?i"
  have len: "length xs = n" "n \<le> length sg" using xs by (auto simp: marked_def)
  have i: "?i < length xs" using xs(3) by simp
  with len have "?i < length sg" by linarith
  note i = i this
  have e: "sg ! ?i = ?e" "?e \<in> set xs" using i(1) xs(1) len nth_mem[OF i(1)] by simp_all
  have lt: "turn_offset xs k < turn_offset xs K" using turn_offset_mono[OF pos xs(3)] Suc by simp
  have small: "turn_offset xs K < 2 ^ 64" using req unat_bound[of request_size] by simp
  have m: "unat ?m = turn_offset xs k" using lt small by (simp add: unat_of_nat)
  have next_m: "?m + ucast (dma_length ?e) = of_nat (turn_offset xs (Suc k))"
    using dma e by (simp add: turn_offset_Suc[OF xs(3)] entry_size_def)
  have "turn_offset xs (Suc k) \<le> turn_offset xs K"
  proof (cases "Suc k = K")
    case False
    then have "Suc k < K" using Suc.hyps(2) by linarith
    then show ?thesis using turn_offset_mono[OF pos xs(3)] by (simp add: less_imp_le)
  qed simp
  then have "unat (of_nat (turn_offset xs (Suc k)) :: u64) = turn_offset xs (Suc k)" using small by (simp add: unat_of_nat)
  then have wrap: "(of_nat (turn_offset xs (Suc k)) :: u64) mod buffer_size = 0 \<longleftrightarrow> Suc k mod length xs = 0"
    using turn_wraps[OF pos xs(3), of "Suc k"] sz unat_mod_distrib[of "of_nat (turn_offset xs (Suc k))" buffer_size]
    by (simp flip: unat_eq_0)
  have "sg_after sg ?i = Some (Suc k mod length xs)" if "Suc k mod length xs \<noteq> 0"
    using that i xs(2) len by (auto simp: sg_after_def marked_def mod_Suc split: if_splits)
  then have sgp: "(if (of_nat (turn_offset xs (Suc k)) :: u64) mod buffer_size = 0 then Some 0 else sg_after sg ?i)
      = Some (Suc k mod length xs)" using wrap by auto
  have bs: "buffer_size \<noteq> 0" using sz entry_offset_pos[OF pos, of "length xs"] xs(3) by (auto simp: unat_eq_zero)
  obtain w where r: "k_remap_pfn_range E (start + ?m) (page_to_pfn E (sg_page ?e)) (ucast (dma_length ?e)) (kworld s) = (0, w)"
    using remap by (metis prod.collapse)
  have "map_loop E sg buffer_size request_size 0 (Some ?i) (start + ?m) ?m (turns E xs start k) s
      = map_loop E sg buffer_size request_size 0 (Some (Suc k mod length xs)) (start + of_nat (turn_offset xs (Suc k)))
          (of_nat (turn_offset xs (Suc k))) (turns E xs start (Suc k)) (s\<lparr>kworld := w\<rparr>)"
    using lt m req i e r bs sgp dma next_m
    by (subst map_loop.simps) (simp add: word_less_nat_alt turns_Suc add.assoc)
  then show ?case using Suc.hyps(1)[of "Suc k"] Suc by simp
qed

section \<open>Pages\<close>

text \<open>The page frames of a table, and the pages a list of calls maps.\<close>

definition entry_frames :: "'w kenv \<Rightarrow> scatterlist \<Rightarrow> u64 list" where
  "entry_frames E e = map (\<lambda>k. page_to_pfn E (sg_page e) + of_nat k) [0..<entry_size e div 4096]"

definition frames :: "'w kenv \<Rightarrow> scatterlist list \<Rightarrow> u64 list" where
  "frames E xs = concat (map (entry_frames E) xs)"

definition remap_pages :: "remap list \<Rightarrow> (u64 \<times> u64) list" where
  "remap_pages rs = concat (map (\<lambda>(a, pfn, sz). map (\<lambda>k. (a + 4096 * of_nat k, pfn + of_nat k)) [0..<unat sz div 4096]) rs)"

definition whole_pages :: "scatterlist list \<Rightarrow> bool" where
  "whole_pages xs \<longleftrightarrow> xs \<noteq> [] \<and> (\<forall>e \<in> set xs. 0 < entry_size e \<and> entry_size e mod 4096 = 0)"

lemma entry_offset_pages:
  assumes "whole_pages xs"
  shows "entry_offset xs i mod 4096 = 0" and "entry_offset xs i div 4096 = length (frames E (take i xs))"
proof -
  have "sum_list (map entry_size ys) mod 4096 = 0 \<and> sum_list (map entry_size ys) div 4096 = length (frames E ys)"
    if "\<forall>e \<in> set ys. entry_size e mod 4096 = 0" for ys
    using that by (induction ys) (auto simp: frames_def entry_frames_def div_add mod_eq_0_iff_dvd)
  moreover have "\<forall>e \<in> set (take i xs). entry_size e mod 4096 = 0" using assms by (auto simp: whole_pages_def dest: in_set_takeD)
  ultimately show "entry_offset xs i mod 4096 = 0" "entry_offset xs i div 4096 = length (frames E (take i xs))"
    by (auto simp: entry_offset_def)
qed

lemma frames_nth:
  assumes "i < length xs" and "k < entry_size (xs ! i) div 4096"
  shows "frames E xs ! (length (frames E (take i xs)) + k) = page_to_pfn E (sg_page (xs ! i)) + of_nat k"
proof -
  have "frames E xs = frames E (take i xs) @ entry_frames E (xs ! i) @ frames E (drop (Suc i) xs)"
    using assms(1) by (subst id_take_nth_drop[of i xs]) (auto simp: frames_def)
  then show ?thesis using assms(2) by (simp add: nth_append entry_frames_def)
qed

lemma turn_offset_pages:
  assumes "whole_pages xs"
  shows "turn_offset xs k mod 4096 = 0"
    and "turn_offset xs k div 4096 = k div length xs * length (frames E xs) + length (frames E (take (k mod length xs) xs))"
proof -
  have full: "entry_offset xs (length xs) mod 4096 = 0" "entry_offset xs (length xs) div 4096 = length (frames E xs)"
    using entry_offset_pages(1)[OF assms, of "length xs"] entry_offset_pages(2)[OF assms, of "length xs" E] by simp_all
  note part = entry_offset_pages(1)[OF assms, of "k mod length xs"] entry_offset_pages(2)[OF assms, of "k mod length xs" E]
  have d: "4096 dvd k div length xs * entry_offset xs (length xs)" "4096 dvd entry_offset xs (k mod length xs)"
    using full part by (auto simp: mod_eq_0_iff_dvd)
  then show "turn_offset xs k mod 4096 = 0" by (simp add: turn_offset_def mod_eq_0_iff_dvd)
  have "k div length xs * entry_offset xs (length xs) div 4096 = k div length xs * (entry_offset xs (length xs) div 4096)"
    using full(1) by (simp add: div_mult_swap mod_eq_0_iff_dvd)
  then show "turn_offset xs k div 4096 = k div length xs * length (frames E xs) + length (frames E (take (k mod length xs) xs))"
    using d full part by (simp add: turn_offset_def div_add)
qed

lemma frames_less:
  assumes "i < length xs" and "k < entry_size (xs ! i) div 4096"
  shows "length (frames E (take i xs)) + k < length (frames E xs)"
proof -
  have "frames E xs = frames E (take i xs) @ entry_frames E (xs ! i) @ frames E (drop (Suc i) xs)"
    using assms(1) by (subst id_take_nth_drop[of i xs]) (auto simp: frames_def)
  then show ?thesis using assms(2) by (simp add: entry_frames_def)
qed

text \<open>The pages mapped by the first turns, counted from the start of the area.\<close>

lemma remap_pages_append: "remap_pages (rs @ ts) = remap_pages rs @ remap_pages ts"
  by (simp add: remap_pages_def)

lemma remap_pages_turns:
  assumes "whole_pages xs"
  shows "remap_pages (turns E xs start k) =
    map (\<lambda>j. (start + 4096 * of_nat j, frames E xs ! (j mod length (frames E xs)))) [0..<turn_offset xs k div 4096]"
proof (induction k)
  case 0
  then show ?case by (simp add: turns_def remap_pages_def)
next
  case (Suc k)
  have ne: "xs \<noteq> []" using assms by (simp add: whole_pages_def)
  let ?i = "k mod length xs"
  let ?e = "xs ! ?i" and ?p = "turn_offset xs k div 4096"
  have i: "?i < length xs" using ne by simp
  have e: "entry_size ?e mod 4096 = 0" using assms i by (simp add: whole_pages_def)
  have "turn_offset xs k = 4096 * ?p" using turn_offset_pages(1)[OF assms, of k] by auto
  then have off: "(of_nat (turn_offset xs k) :: u64) = 4096 * of_nat ?p" by (metis of_nat_mult of_nat_numeral)
  have more: "turn_offset xs (Suc k) div 4096 = ?p + entry_size ?e div 4096"
    using turn_offset_pages(1)[OF assms, of k] e by (simp add: turn_offset_Suc[OF ne] div_add mod_eq_0_iff_dvd)
  have nth: "frames E xs ! ((?p + t) mod length (frames E xs)) = page_to_pfn E (sg_page ?e) + of_nat t"
    if "t < entry_size ?e div 4096" for t
  proof -
    have "?p + t = k div length xs * length (frames E xs) + (length (frames E (take ?i xs)) + t)"
      using turn_offset_pages(2)[OF assms, of k E] by simp
    then have "(?p + t) mod length (frames E xs) = length (frames E (take ?i xs)) + t"
      using frames_less[OF i that, of E] by (metis mod_less mod_mult_self3)
    then show ?thesis using frames_nth[OF i that] by simp
  qed
  have "remap_pages [(start + of_nat (turn_offset xs k), page_to_pfn E (sg_page ?e), ucast (sl_length ?e))]
      = map (\<lambda>t. (start + 4096 * of_nat (?p + t), frames E xs ! ((?p + t) mod length (frames E xs)))) [0..<entry_size ?e div 4096]"
    using nth by (auto simp: remap_pages_def unat_ucast_up off distrib_left add.assoc simp flip: entry_size_def)
  also have "\<dots> = map (\<lambda>j. (start + 4096 * of_nat j, frames E xs ! (j mod length (frames E xs)))) [?p..<?p + entry_size ?e div 4096]"
    by (rule map_upt_shift[symmetric])
  finally show ?case
    by (simp only: Suc turns_Suc remap_pages_append more upt_add_eq_append[OF le0] map_append)
qed

section \<open>The mapping of a buffer\<close>

lemma exported_pages:
  assumes "exported v xs"
  shows "whole_pages xs" and "length (frames E xs) = unat (pv_pages v)" and "entry_offset xs (length xs) = unat (pv_size v)"
proof -
  have x: "\<forall>e \<in> set xs. sl_length e \<noteq> 0 \<and> unat (sl_length e) mod 4096 = 0" "chunk_pages xs = unat (pv_pages v)"
    "unat (pv_size v) = unat (pv_pages v) * 4096" "xs \<noteq> []" using assms by (auto simp: exported_def)
  then show w: "whole_pages xs" by (auto simp: whole_pages_def entry_size_def unat_gt_0)
  have "length (frames E ys) = chunk_pages ys" for ys
    by (induction ys) (auto simp: frames_def entry_frames_def chunk_pages_def entry_size_def)
  with x show f: "length (frames E xs) = unat (pv_pages v)" by simp
  from entry_offset_pages(1)[OF w, of "length xs"] entry_offset_pages(2)[OF w, of "length xs" E] f x(3)
  show "entry_offset xs (length xs) = unat (pv_size v)" by auto
qed

lemma map_outcome:
  assumes "exported v xs" and "\<forall>a p l w. fst (k_remap_pfn_range E a p l w) = 0"
    and "vm_flags vma AND (VM_SHARED OR VM_MAYWRITE) \<noteq> VM_MAYWRITE"
    and "unat (vm_end vma - vm_start vma) = m * unat (pv_size v)"
  shows "\<exists>rs s'. uio_pci_dma_sysfs_map E (Some v) vma s = Some (0, rs, s') \<and>
    remap_pages rs = map (\<lambda>j. (vm_start vma + 4096 * of_nat j, frames E xs ! (j mod unat (pv_pages v)))) [0..<m * unat (pv_pages v)]"
proof -
  note p = exported_pages[OF assms(1)]
  obtain sg where sg: "pv_sg v = Some sg" "xs = take (unat (pv_length v)) sg" "marked sg (unat (pv_length v))"
    "xs \<noteq> []" "\<forall>e \<in> set xs. dma_length e = sl_length e" using assms(1) by (auto simp: exported_def)
  have pos: "\<forall>e \<in> set xs. 0 < entry_size e" using p(1) by (simp add: whole_pages_def)
  let ?K = "m * length xs"
  have K: "turn_offset xs ?K = m * unat (pv_size v)" using sg(4) p(3) by (simp add: turn_offset_def entry_offset_def[of xs 0])
  have req: "unat (vm_end vma - vm_start vma) = turn_offset xs ?K" using assms(4) K by simp
  obtain s' where "map_loop E sg (pv_size v) (vm_end vma - vm_start vma) 0 (Some 0) (vm_start vma) 0 [] s
      = Some (0, turns E xs (vm_start vma) ?K, s')"
    using map_loop_turns[OF sg(2,3,4) pos sg(5) p(3)[symmetric] req assms(2), of 0 "vm_start vma" s] by (auto simp: turns_def)
  moreover have "turn_offset xs ?K div 4096 = m * unat (pv_pages v)"
    using K assms(1) by (simp add: exported_def)
  ultimately show ?thesis
    using assms(3) sg(1) p(2)[of E] remap_pages_turns[OF p(1), of E "vm_start vma" ?K] by (simp add: uio_pci_dma_sysfs_map_def)
qed

text \<open>
  C6. Mapping a buffer, once or several times in a row, maps every page of the area exactly once and
  in order: page \<open>j\<close> of the area is page \<open>j\<close> of the buffer, modulo the size of the buffer. The loop
  ends, its steps through the table stay inside, and it wraps to the first entry exactly at the end
  of the buffer. This is what the overlapping mapping of a ring buffer relies on.
\<close>

theorem map_wraps:
  assumes "exported v xs" and "\<forall>a p l w. fst (k_remap_pfn_range E a p l w) = 0"
    and "vm_flags vma AND (VM_SHARED OR VM_MAYWRITE) \<noteq> VM_MAYWRITE"
    and "unat (vm_end vma - vm_start vma) = m * unat (pv_size v)"
  shows "\<exists>rs s'. uio_pci_dma_sysfs_map E (Some v) vma s = Some (0, rs, s') \<and>
    remap_pages rs = map (\<lambda>j. (vm_start vma + 4096 * of_nat j, frames E xs ! (j mod unat (pv_pages v)))) [0..<m * unat (pv_pages v)]"
  using map_outcome[OF assms] .

lemma demo_exported: "\<exists>v xs. exported v xs \<and> unat (pv_size v) = 12288 \<and> unat (pv_pages v) = 3"
proof -
  obtain v s xs where "exported v xs" "unat (pv_size v) = 12288"
    using allocate_kernel_memory_outcome[OF demo_kernel_laws demo_kernel_direct, of demo_request demo_kstate]
      demo_allocation_succeeds
    by (auto simp: kernel_outcome_def kernel_buffer_def same_request_def rounded_pages_def KPAGE_SIZE_def)
  moreover from this have "unat (pv_pages v) = 3" by (simp add: exported_def)
  ultimately show ?thesis by blast
qed

theorem map_wraps_witness:
  "\<exists>v xs rs s'. exported v xs \<and>
    uio_pci_dma_sysfs_map demo_kernel (Some v) \<lparr>vm_start = 0x7f0000000000, vm_end = 0x7f0000006000, vm_flags = 0xb\<rparr> demo_kstate
      = Some (0, rs, s') \<and>
    remap_pages rs = map (\<lambda>j. (0x7f0000000000 + 4096 * of_nat j, frames demo_kernel xs ! (j mod 3))) [0..<6]"
proof -
  obtain v xs where v: "exported v xs" "unat (pv_size v) = 12288" "unat (pv_pages v) = 3" using demo_exported by blast
  let ?vma = "\<lparr>vm_start = 0x7f0000000000, vm_end = 0x7f0000006000, vm_flags = 0xb\<rparr>"
  have "\<exists>rs s'. uio_pci_dma_sysfs_map demo_kernel (Some v) ?vma demo_kstate = Some (0, rs, s') \<and>
    remap_pages rs = map (\<lambda>j. (vm_start ?vma + 4096 * of_nat j, frames demo_kernel xs ! (j mod unat (pv_pages v)))) [0..<2 * unat (pv_pages v)]"
    by (rule map_wraps[OF v(1)]) (simp_all add: v demo_kernel_def VM_SHARED_def VM_MAYWRITE_def)
  then show ?thesis using v by auto
qed

text \<open>
  A request for less than the first entry maps this entry all the same: the calls reach behind the
  end of the area.
\<close>

lemma short_map_overruns:
  assumes "exported v xs" and "\<forall>a p l w. fst (k_remap_pfn_range E a p l w) = 0"
    and "vm_flags vma AND (VM_SHARED OR VM_MAYWRITE) \<noteq> VM_MAYWRITE"
    and "0 < unat (vm_end vma - vm_start vma)" and "unat (vm_end vma - vm_start vma) < entry_size (hd xs)"
  shows "\<exists>s' pfn sz. uio_pci_dma_sysfs_map E (Some v) vma s = Some (0, [(vm_start vma, pfn, sz)], s') \<and>
    unat (vm_end vma - vm_start vma) < unat sz"
proof -
  obtain sg where sg: "pv_sg v = Some sg" "xs = take (unat (pv_length v)) sg" "marked sg (unat (pv_length v))"
    "xs \<noteq> []" "\<forall>e \<in> set xs. dma_length e = sl_length e" using assms(1) by (auto simp: exported_def)
  have h: "hd xs = sg ! 0" "sg \<noteq> []" using sg(2,4) by (auto simp: hd_conv_nth)
  moreover have "hd xs \<in> set xs" using sg(4) by simp
  ultimately have h: "hd xs = sg ! 0" "sg \<noteq> []" "dma_length (sg ! 0) = sl_length (hd xs)" using sg(5) by auto
  have bs: "pv_size v \<noteq> 0" using exported_pages(3)[OF assms(1)] entry_offset_pos[of xs "length xs"] exported_pages(1)[OF assms(1)]
    by (auto simp: whole_pages_def)
  obtain w where r: "k_remap_pfn_range E (vm_start vma) (page_to_pfn E (sg_page (sg ! 0))) (ucast (sl_length (hd xs))) (kworld s) = (0, w)"
    using assms(2) by (metis prod.collapse)
  have u: "unat (ucast (sl_length (hd xs)) :: u64) = entry_size (hd xs)" by (simp add: entry_size_def unat_ucast_up)
  show ?thesis
    using assms(3-5) sg(1) h bs r u
    by (simp add: uio_pci_dma_sysfs_map_def map_loop.simps[of E sg] word_less_nat_alt)
qed

end
