(* ===== verification/PDA_KernelRegistry.thy ===== *)
theory PDA_KernelRegistry
  imports PDA_KernelMap PDA_DMABuffer
begin

text \<open>
  The registry of buffers in the kernel module: the sysfs callbacks
  \<open>uio_pci_dma_sysfs_request_buffer_write\<close> and \<open>uio_pci_dma_sysfs_delete_buffer_write\<close>, the release of a
  buffer, and the release of all of them when the device is removed.

  The private structures live in a heap; \<open>kset_list\<close> is the list of the kset of the device. The list
  keeps a kobject until \<open>kobject_del\<close>, whether or not its structure was freed. Reading a freed
  structure in the search is undefined (\<open>None\<close>). \<open>kobject_del\<close> in a deletion and the step to the next list
  element in \<open>remove\<close> read a structure right after its \<open>kfree\<close>: they are undefined, too, unless the kernel says
  that its contents are still there (\<open>k_freed_intact\<close>). Reference counts are not modelled, the module never reads them.
\<close>

section \<open>State\<close>

record 'w dstate =
  mem :: "'w kstate"
  privs :: "addr \<rightharpoonup> uio_pci_dma_private"
  kset_list :: "addr list"
  next_priv :: addr
  alloc_free_lock :: bool

definition mutex_lock :: "'w dstate \<Rightarrow> 'w dstate option" where
  "mutex_lock s = (if alloc_free_lock s then None else Some (s\<lparr>alloc_free_lock := True\<rparr>))"

definition mutex_unlock :: "'w dstate \<Rightarrow> 'w dstate option" where
  "mutex_unlock s = (if alloc_free_lock s then Some (s\<lparr>alloc_free_lock := False\<rparr>) else None)"

definition kobj_service :: "('w \<Rightarrow> 'a \<times> 'w) \<Rightarrow> 'w dstate \<Rightarrow> 'a \<times> 'w dstate" where
  "kobj_service f s = (case f (kworld (mem s)) of (r, w) \<Rightarrow> (r, s\<lparr>mem := (mem s)\<lparr>kworld := w\<rparr>\<rparr>))"

definition kobj_void :: "('w \<Rightarrow> 'w) \<Rightarrow> 'w dstate \<Rightarrow> 'w dstate" where
  "kobj_void f s = s\<lparr>mem := (mem s)\<lparr>kworld := f (kworld (mem s))\<rparr>\<rparr>"

text \<open>\<open>KSET_FIND\<close>\<close>

fun KSET_FIND :: "(addr \<rightharpoonup> uio_pci_dma_private) \<Rightarrow> addr list \<Rightarrow> string \<Rightarrow> ptr option" where
  "KSET_FIND h [] nm = Some None"
| "KSET_FIND h (k # ks) nm =
     do { p \<leftarrow> h k; if pv_kobj p = nm then Some (Some k) else KSET_FIND h ks nm }"

text \<open>A structure that can be read: it is allocated, or it was freed last and has its contents still.\<close>

definition readable :: "'w kenv \<Rightarrow> addr \<Rightarrow> 'w dstate \<Rightarrow> bool" where
  "readable E a s \<longleftrightarrow> privs s a \<noteq> None \<or> k_freed_intact E (kworld (mem s))"

definition kobject_del :: "'w kenv \<Rightarrow> addr \<Rightarrow> string \<Rightarrow> 'w dstate \<Rightarrow> 'w dstate option" where
  "kobject_del E a nm s =
     (if readable E a s then Some (kobj_void (k_kobject_del E nm) (s\<lparr>kset_list := remove1 a (kset_list s)\<rparr>)) else None)"

section \<open>Requests\<close>

text \<open>A zero terminated string in a block of bytes.\<close>

definition bytes_string :: "u8 list \<Rightarrow> string" where
  "bytes_string bs = map (\<lambda>b. char_of (unat b)) (takeWhile (\<lambda>b. b \<noteq> 0) bs)"

text \<open>
  The fields of the packed request that the module reads; the pointers at its end are those of the
  writer. Until they are reset, the \<open>exit\<close> block passes them to \<open>vfree\<close>.
\<close>

definition field_word :: "nat \<Rightarrow> u8 list \<Rightarrow> u64" where
  "field_word off bs = bytes_word (take 8 (drop off bs))"

definition decode_request :: "u8 list \<Rightarrow> uio_pci_dma_private" where
  "decode_request bs =
     \<lparr>pv_name = bytes_string (take 1024 bs), pv_size = field_word 1024 bs,
      pv_numa_node = bytes_word (take 4 (drop 1032 bs)), pv_start = field_word 1036 bs, pv_kobj = [],
      pv_sg = None, pv_scatter = None, pv_length = field_word (length bs - 48) bs,
      pv_old_length = field_word (length bs - 40) bs, pv_pages = field_word (length bs - 32) bs, pv_page_list = None\<rparr>"

definition wild_pointers :: "u8 list \<Rightarrow> bool" where
  "wild_pointers bs \<longleftrightarrow> (\<exists>off \<in> {64, 56, 16, 8}. field_word (length bs - off) bs \<noteq> 0)"

definition request_exit :: "addr option \<Rightarrow> 'w dstate \<Rightarrow> (int \<times> 'w dstate) option" where
  "request_exit priv s =
     do {
       s \<leftarrow> mutex_unlock (case priv of None \<Rightarrow> s | Some a \<Rightarrow> s\<lparr>privs := (privs s)(a := None)\<rparr>);
       Some (-1, s)
     }"

definition request_exit_binfile :: "'w kenv \<Rightarrow> addr \<Rightarrow> string \<Rightarrow> 'w dstate \<Rightarrow> (int \<times> 'w dstate) option" where
  "request_exit_binfile E a nm s =
     do {
       s \<leftarrow> kobject_del E a nm (kobj_void (k_remove_bin_file E nm ''sg'') (kobj_void (k_remove_bin_file E nm ''map'') s));
       request_exit (Some a) s
     }"

definition allocate_memory ::
  "'w kenv \<Rightarrow> uio_pci_dma_private \<Rightarrow> 'w kstate \<Rightarrow> (int \<times> uio_pci_dma_private \<times> 'w kstate) option" where
  "allocate_memory E priv s =
     (if pv_start priv = 0 then uio_pci_dma_allocate_kernel_memory E priv s
      else uio_pci_dma_allocate_user_memory E priv s)"

text \<open>The attributes of a new buffer; their structures are used without a check for \<open>NULL\<close>.\<close>

definition create_attributes ::
  "'w kenv \<Rightarrow> addr \<Rightarrow> uio_pci_dma_private \<Rightarrow> 'w dstate \<Rightarrow> (int \<times> 'w dstate) option" where
  "create_attributes E a priv s =
     (case kobj_service (k_zalloc E 104) s of
        (False, s) \<Rightarrow> None
      | (True, s) \<Rightarrow>
          (case kobj_service (k_zalloc E 104) s of
             (False, s) \<Rightarrow> None
           | (True, s) \<Rightarrow>
               (case kobj_service (k_create_bin_file E (pv_kobj priv) ''map'' (pv_size priv)) s of
                  (False, s) \<Rightarrow> request_exit_binfile E a (pv_kobj priv) s
                | (True, s) \<Rightarrow>
                    (case kobj_service (k_create_bin_file E (pv_kobj priv) ''sg'' (pv_length priv * 24)) s of
                       (False, s) \<Rightarrow> request_exit_binfile E a (pv_kobj priv) s
                     | (True, s) \<Rightarrow> do { s \<leftarrow> mutex_unlock s; Some (int (sizeof_private E), s) }))))"

text \<open>The code behind the search. The name is the format string of \<open>kobject_add\<close>; a name with a conversion in it is undefined.\<close>

definition request_body ::
  "'w kenv \<Rightarrow> u8 list \<Rightarrow> addr \<Rightarrow> ptr \<Rightarrow> 'w dstate \<Rightarrow> (int \<times> 'w dstate) option" where
  "request_body E buffer a tmp_kobj s =
     (let request = decode_request buffer in
      if tmp_kobj \<noteq> None then (if wild_pointers buffer then None else request_exit (Some a) s)
      else if CHR ''%'' \<in> set (pv_name request) then None
      else
        (case kobj_service (k_kobject_add E (pv_name request)) s of
           (False, s) \<Rightarrow> if wild_pointers buffer then None else request_exit (Some a) s
         | (True, s) \<Rightarrow>
             do {
               let s = s\<lparr>kset_list := kset_list s @ [a]\<rparr>;
               (r, priv, m) \<leftarrow> allocate_memory E (request\<lparr>pv_kobj := pv_name request, pv_length := 0\<rparr>) (mem s);
               let s = s\<lparr>mem := m, privs := (privs s)(a \<mapsto> priv)\<rparr>;
               if r \<noteq> UIO_PCI_DMA_SUCCESS then request_exit (Some a) s
               else create_attributes E a priv s
             }))"

definition uio_pci_dma_sysfs_request_buffer_write ::
  "'w kenv \<Rightarrow> u8 list \<Rightarrow> 'w dstate \<Rightarrow> (int \<times> 'w dstate) option" where
  "uio_pci_dma_sysfs_request_buffer_write E buffer s =
     (if length buffer \<noteq> sizeof_private E then request_exit None s
      else do {
        s \<leftarrow> mutex_lock s;
        (case kobj_service (k_zalloc E (sizeof_private E)) s of
           (False, s) \<Rightarrow> request_exit None s
         | (True, s) \<Rightarrow>
             do {
               let a = next_priv s;
               let request = decode_request buffer;
               let s = s\<lparr>privs := (privs s)(a \<mapsto> request), next_priv := Suc a\<rparr>;
               tmp_kobj \<leftarrow> KSET_FIND (privs s) (kset_list s) (pv_name request);
               request_body E buffer a tmp_kobj s
             })
      })"

section \<open>Release\<close>

definition uio_pci_dma_free :: "'w kenv \<Rightarrow> ptr \<Rightarrow> 'w dstate \<Rightarrow> (int \<times> 'w dstate) option" where
  "uio_pci_dma_free E kobj s =
     (case kobj of
        None \<Rightarrow> Some (UIO_PCI_DMA_ERROR, s)
      | Some a \<Rightarrow>
          do {
            priv \<leftarrow> privs s a;
            (case pv_sg priv of
               None \<Rightarrow> Some (UIO_PCI_DMA_ERROR, s)
             | Some sg \<Rightarrow>
                 do {
                   let m = (mem s)\<lparr>kworld := k_dma_unmap_sg E sg (unat (pv_old_length priv)) (kworld (mem s))\<rparr>;
                   (r, m) \<leftarrow> (if pv_start priv = 0 then uio_pci_dma_free_kernel_memory E priv m
                             else uio_pci_dma_free_user_memory priv m);
                   if r \<noteq> UIO_PCI_DMA_SUCCESS then Some (UIO_PCI_DMA_ERROR, s\<lparr>mem := m\<rparr>)
                   else Some (UIO_PCI_DMA_SUCCESS, s\<lparr>mem := m, privs := (privs s)(a := None)\<rparr>)
                 })
          })"

definition uio_pci_dma_sysfs_delete_buffer_write ::
  "'w kenv \<Rightarrow> u8 list \<Rightarrow> 'w dstate \<Rightarrow> (int \<times> 'w dstate) option" where
  "uio_pci_dma_sysfs_delete_buffer_write E buffer s =
     do {
       s \<leftarrow> mutex_lock s;
       let tmp_string = c_snprintf UIO_PCI_DMA_BUFFER_NAME_SIZE (bytes_string buffer);
       buffer_kobj \<leftarrow> KSET_FIND (privs s) (kset_list s) tmp_string;
       s \<leftarrow> (case buffer_kobj of
               None \<Rightarrow> Some s
             | Some a \<Rightarrow>
                 do {
                   let s = kobj_void (k_remove_bin_file E tmp_string ''map'') s;
                   let s = kobj_void (k_remove_bin_file E tmp_string ''sg'') s;
                   (_, s) \<leftarrow> uio_pci_dma_free E (Some a) s;
                   kobject_del E a tmp_string s
                 });
       s \<leftarrow> mutex_unlock s;
       Some (int (length buffer), s)
     }"

text \<open>
  The loop of \<open>remove\<close> over the buffers. It frees them without taking them off the list, and reads the
  link to the next one, after the last one the link back to the head, from the freed structure.
\<close>

fun remove_buffers :: "'w kenv \<Rightarrow> addr list \<Rightarrow> 'w dstate \<Rightarrow> 'w dstate option" where
  "remove_buffers E [] s = Some s"
| "remove_buffers E (k # ks) s =
     do {
       (_, s) \<leftarrow> uio_pci_dma_free E (Some k) s;
       if readable E k s then remove_buffers E ks s else None
     }"

section \<open>The invariant\<close>

definition kernel_chunks :: "uio_pci_dma_private \<Rightarrow> scatterlist list" where
  "kernel_chunks v = (if pv_start v = 0 then (case pv_sg v of None \<Rightarrow> [] | Some sg \<Rightarrow> take (unat (pv_length v)) sg) else [])"

definition user_frames :: "uio_pci_dma_private \<Rightarrow> u64 list" where
  "user_frames v = (if pv_start v = 0 then [] else (case pv_page_list v of None \<Rightarrow> [] | Some pl \<Rightarrow> pl))"

definition buffer_ok :: "'w kenv \<Rightarrow> uio_pci_dma_private \<Rightarrow> bool" where
  "buffer_ok E v \<longleftrightarrow>
     (if pv_start v = 0 then exported v (kernel_chunks v) \<and> (\<forall>e \<in> set (kernel_chunks v). chunk_ok E e)
      else user_buffer v (user_frames v))"

definition buffers :: "'w dstate \<Rightarrow> uio_pci_dma_private list" where
  "buffers s = map (\<lambda>a. the (privs s a)) (kset_list s)"

definition names :: "'w dstate \<Rightarrow> string list" where
  "names s = map pv_kobj (buffers s)"

text \<open>
  The lock is free, every kobject of the list has a live structure with a complete buffer, the names
  differ, and apart from \<open>B0\<close> and \<open>M0\<close> the module holds exactly the memory of these buffers.
\<close>

definition driver_ok :: "'w kenv \<Rightarrow> (u64 \<rightharpoonup> nat) \<Rightarrow> u64 multiset \<Rightarrow> 'w dstate \<Rightarrow> bool" where
  "driver_ok E B0 M0 s \<longleftrightarrow> \<not> alloc_free_lock s \<and> distinct (kset_list s) \<and>
     (\<forall>a \<in> set (kset_list s). a < next_priv s \<and> privs s a \<noteq> None) \<and>
     (\<forall>v \<in> set (buffers s). buffer_ok E v) \<and> distinct (map pv_kobj (buffers s)) \<and>
     holds E B0 (concat (map kernel_chunks (buffers s))) (blocks (mem s)) \<and>
     pinned (mem s) = M0 + mset (concat (map user_frames (buffers s)))"

lemma KSET_FIND_find:
  "\<forall>a \<in> set ks. h a \<noteq> None \<Longrightarrow> KSET_FIND h ks nm = Some (find (\<lambda>a. pv_kobj (the (h a)) = nm) ks)"
  by (induction ks) auto

lemma holds_join:
  assumes "holds E B ys B1" and "holds E B1 xs B2"
  shows "holds E B (ys @ xs) B2"
proof -
  let ?m = "map (\<lambda>e. (sg_page e, chunk_order E e))"
  have B1: "B1 = B ++ map_of (?m ys)" and n: "\<forall>e \<in> set xs. B1 (sg_page e) = None"
    using assms by (simp_all add: holds_def)
  have "sg_page e \<notin> sg_page ` set ys \<and> B (sg_page e) = None" if "e \<in> set xs" for e
  proof -
    have "(B ++ map_of (?m ys)) (sg_page e) = None" using n that B1 by simp
    then show ?thesis by (auto simp: map_add_None map_of_eq_None_iff image_image)
  qed
  then have "holds E B (xs @ ys) B2"
    using assms B1 by (auto simp: holds_def map_of_append)
  then show ?thesis by (rule holds_perm[rotated]) simp
qed

lemma holds_part:
  assumes "holds E B (ys @ xs) B2"
  shows "\<exists>B1. holds E B ys B1 \<and> holds E B1 xs B2"
proof -
  let ?m = "map (\<lambda>e. (sg_page e, chunk_order E e))"
  let ?B1 = "B ++ map_of (?m ys)"
  have "holds E B (xs @ ys) B2" using assms by (rule holds_perm[rotated]) simp
  then have "holds E B ys ?B1" "holds E ?B1 xs B2"
    by (auto simp: holds_def map_of_append map_add_None map_of_eq_None_iff)
  then show ?thesis by blast
qed

lemma kobj_service_frame: "kobj_service f s = (r, s') \<Longrightarrow> \<exists>w. s' = s\<lparr>mem := (mem s)\<lparr>kworld := w\<rparr>\<rparr>"
  by (auto simp: kobj_service_def split: prod.splits)

lemma kobj_void_fields [simp]:
  "privs (kobj_void f s) = privs s" "kset_list (kobj_void f s) = kset_list s" "next_priv (kobj_void f s) = next_priv s"
  "alloc_free_lock (kobj_void f s) = alloc_free_lock s"
  "blocks (mem (kobj_void f s)) = blocks (mem s)" "pinned (mem (kobj_void f s)) = pinned (mem s)"
  by (simp_all add: kobj_void_def)

lemma driver_ok_cong:
  assumes "kset_list s' = kset_list s" and "\<forall>a \<in> set (kset_list s). privs s' a = privs s a"
    and "next_priv s \<le> next_priv s'" and "\<not> alloc_free_lock s'"
    and "blocks (mem s') = blocks (mem s)" and "pinned (mem s') = pinned (mem s)" and "driver_ok E B0 M0 s"
  shows "driver_ok E B0 M0 s'"
proof -
  have "buffers s' = buffers s" using assms by (simp add: buffers_def)
  with assms show ?thesis by (auto simp: driver_ok_def)
qed

section \<open>Release of a registered buffer\<close>

lemma free_registered:
  assumes "privs s a = Some v" and "buffer_ok E v" and "holds E B (kernel_chunks v) (blocks (mem s))"
    and "pinned (mem s) = M + mset (user_frames v)"
  shows "\<exists>m. uio_pci_dma_free E (Some a) s = Some (UIO_PCI_DMA_SUCCESS, s\<lparr>mem := m, privs := (privs s)(a := None)\<rparr>) \<and>
    blocks m = B \<and> pinned m = M"
proof -
  define m0 where "m0 = (mem s)\<lparr>kworld := k_dma_unmap_sg E (the (pv_sg v)) (unat (pv_old_length v)) (kworld (mem s))\<rparr>"
  show ?thesis
  proof (cases "pv_start v = 0")
    case True
    with assms obtain sg where sg: "pv_sg v = Some sg" by (auto simp: buffer_ok_def exported_def)
    have "releasable E B v m0" using True assms sg by (auto simp: m0_def buffer_ok_def kernel_chunks_def exported_def releasable_def)
    from free_kernel_memory_releases[OF this] True sg assms show ?thesis
      by (auto simp: uio_pci_dma_free_def m0_def user_frames_def)
  next
    case False
    with assms have u: "user_buffer v (user_frames v)" by (simp add: buffer_ok_def)
    then obtain sg where sg: "pv_sg v = Some sg" by (auto simp: user_buffer_def exported_def)
    from free_user_memory_releases[OF u, of m0 M] False sg assms show ?thesis
      by (auto simp: uio_pci_dma_free_def m0_def kernel_chunks_def)
  qed
qed

text \<open>Taking one buffer out of the accounts.\<close>

lemma driver_ok_take:
  assumes "driver_ok E B0 M0 s" and ks: "kset_list s = ks @ a # ls" and v: "privs s a = Some v"
  defines "rest \<equiv> map (\<lambda>a. the (privs s a)) (ks @ ls)"
  shows "buffer_ok E v" and "\<exists>B. holds E B (kernel_chunks v) (blocks (mem s)) \<and> holds E B0 (concat (map kernel_chunks rest)) B"
    and "pinned (mem s) = M0 + mset (concat (map user_frames rest)) + mset (user_frames v)"
proof -
  let ?pre = "map (\<lambda>a. the (privs s a)) ks" and ?post = "map (\<lambda>a. the (privs s a)) ls"
  have b: "buffers s = ?pre @ v # ?post" using ks v by (simp add: buffers_def)
  show "buffer_ok E v" using assms(1) b by (simp add: driver_ok_def)
  have "holds E B0 (concat (map kernel_chunks (?pre @ v # ?post))) (blocks (mem s))"
    using assms(1) b by (simp add: driver_ok_def)
  then have "holds E B0 (concat (map kernel_chunks rest) @ kernel_chunks v) (blocks (mem s))"
    by (rule holds_perm[rotated]) (simp add: rest_def)
  from holds_part[OF this] show "\<exists>B. holds E B (kernel_chunks v) (blocks (mem s)) \<and> holds E B0 (concat (map kernel_chunks rest)) B"
    by blast
  show "pinned (mem s) = M0 + mset (concat (map user_frames rest)) + mset (user_frames v)"
    using assms(1) b by (simp add: driver_ok_def rest_def)
qed

lemma driver_ok_drop:
  assumes "driver_ok E B0 M0 s" and ks: "kset_list s = ks @ a # ls"
    and "kset_list s' = ks @ ls" and "\<forall>b \<in> set (ks @ ls). privs s' b = privs s b" and "next_priv s' = next_priv s"
    and "\<not> alloc_free_lock s'"
    and "holds E B0 (concat (map kernel_chunks (map (\<lambda>a. the (privs s a)) (ks @ ls)))) (blocks (mem s'))"
    and "pinned (mem s') = M0 + mset (concat (map user_frames (map (\<lambda>a. the (privs s a)) (ks @ ls))))"
  shows "driver_ok E B0 M0 s'"
proof -
  have b: "buffers s' = map (\<lambda>a. the (privs s a)) (ks @ ls)" using assms(3,4) by (simp add: buffers_def)
  have "buffers s = map (\<lambda>a. the (privs s a)) (ks @ a # ls)" using ks by (simp add: buffers_def)
  with assms b show ?thesis by (auto simp: driver_ok_def)
qed

text \<open>
  Deletion of a registered name: all is well if the contents of the freed structure are still there
  in the state \<open>w\<close> of the kernel right after its release, and undefined if they are not.
\<close>

lemma delete_registered:
  assumes ok: "driver_ok E B0 M0 s" and nm: "nm = c_snprintf UIO_PCI_DMA_BUFFER_NAME_SIZE (bytes_string buffer)"
    and ks: "kset_list s = ks @ a # ls" and v: "privs s a = Some v" "pv_kobj v = nm"
  shows "\<exists>w s'. uio_pci_dma_sysfs_delete_buffer_write E buffer s = (if k_freed_intact E w then Some (int (length buffer), s') else None) \<and>
    driver_ok E B0 M0 s' \<and> kset_list s' = ks @ ls \<and> privs s' = (privs s)(a := None)"
proof -
  have d: "distinct (ks @ a # ls)" "\<forall>b \<in> set (ks @ a # ls). privs s b \<noteq> None" "\<not> alloc_free_lock s"
    using ok ks by (auto simp: driver_ok_def)
  have "nm \<notin> (\<lambda>b. pv_kobj (the (privs s b))) ` set ks"
    using ok ks v by (simp add: driver_ok_def buffers_def image_image)
  then have names: "\<forall>b \<in> set ks. pv_kobj (the (privs s b)) \<noteq> nm" by (metis imageI)
  define s1 where "s1 = kobj_void (k_remove_bin_file E nm ''sg'') (kobj_void (k_remove_bin_file E nm ''map'') (s\<lparr>alloc_free_lock := True\<rparr>))"
  note t = driver_ok_take[OF ok ks v(1)]
  from t(2) obtain B where B: "holds E B (kernel_chunks v) (blocks (mem s1))"
    "holds E B0 (concat (map kernel_chunks (map (\<lambda>a. the (privs s a)) (ks @ ls)))) B" by (auto simp: s1_def)
  have "privs s1 a = Some v" using v by (simp add: s1_def)
  from free_registered[OF this t(1) B(1), of "M0 + mset (concat (map user_frames (map (\<lambda>a. the (privs s a)) (ks @ ls))))"] t(3)
  obtain m where m: "uio_pci_dma_free E (Some a) s1 = Some (UIO_PCI_DMA_SUCCESS, s1\<lparr>mem := m, privs := (privs s1)(a := None)\<rparr>)"
    "blocks m = B" "pinned m = M0 + mset (concat (map user_frames (map (\<lambda>a. the (privs s a)) (ks @ ls))))" by (auto simp: s1_def)
  have "find (\<lambda>b. pv_kobj (the (privs s b)) = nm) (ks @ a # ls) = Some a"
    using names v by (induction ks) auto
  then have f: "KSET_FIND (privs s) (kset_list s) nm = Some (Some a)"
    using KSET_FIND_find[of "kset_list s" "privs s" nm] d(2) ks by simp
  define s2 where "s2 = kobj_void (k_kobject_del E nm) (s1\<lparr>mem := m, privs := (privs s1)(a := None),
      kset_list := remove1 a (kset_list s1), alloc_free_lock := False\<rparr>)"
  have run: "uio_pci_dma_sysfs_delete_buffer_write E buffer s = (if k_freed_intact E (kworld m) then Some (int (length buffer), s2) else None)"
    using d(3) f m(1) by (simp add: uio_pci_dma_sysfs_delete_buffer_write_def mutex_lock_def mutex_unlock_def s2_def kobject_del_def
        readable_def s1_def kobj_void_def flip: nm)
  have r: "remove1 a (ks @ a # ls) = ks @ ls" using d(1) by (simp add: remove1_append)
  have fields: "kset_list s2 = ks @ ls" "privs s2 = (privs s)(a := None)" "next_priv s2 = next_priv s"
    "\<not> alloc_free_lock s2" "blocks (mem s2) = B" "pinned (mem s2) = pinned m"
    using r ks m(2) by (simp_all add: s2_def s1_def)
  have "driver_ok E B0 M0 s2" using fields d(1) B(2) m(3) by (intro driver_ok_drop[OF ok ks]) auto
  then show ?thesis using run fields by blast
qed

section \<open>Registration of a buffer\<close>

definition kernel_ok :: "'w kenv \<Rightarrow> bool" where
  "kernel_ok E \<longleftrightarrow> kernel_laws E \<and> direct_mapping E \<and> gup_law E"

text \<open>Sizes the module can count: no overflow of the size or of the number of pages of a user range.\<close>

definition within_limits :: "u8 list \<Rightarrow> bool" where
  "within_limits buffer \<longleftrightarrow> (let v = decode_request buffer in
     if pv_start v = 0 then unat (pv_size v) \<le> 2 ^ 64 - 4096 else unat (pv_size v) < 2 ^ 42)"

text \<open>The buffer made for a request: its name and start, and its size in whole pages.\<close>

definition describes :: "uio_pci_dma_private \<Rightarrow> uio_pci_dma_private \<Rightarrow> bool" where
  "describes v v' \<longleftrightarrow> pv_kobj v' = pv_kobj v \<and> pv_start v' = pv_start v \<and>
     unat (pv_size v') = (unat (pv_size v) + 4095) div 4096 * 4096"

lemma rounded_size: "unat sz \<le> 2 ^ 64 - 4096 \<Longrightarrow> unat (snd (rounded_pages sz)) = (unat sz + 4095) div 4096 * 4096"
proof (cases "sz = 0")
  case False
  obtain pages sz' where "rounded_pages sz = (pages, sz')" by fastforce
  moreover assume "unat sz \<le> 2 ^ 64 - 4096"
  ultimately show ?thesis using rounded_pages_bounds(1,2)[of sz pages sz'] False by simp
qed (simp add: rounded_pages_def)

lemma allocate_memory_outcome:
  assumes "kernel_ok E" and "pv_sg v = None" and "pv_length v = 0"
    and "if pv_start v = 0 then unat (pv_size v) \<le> 2 ^ 64 - 4096 else unat (pv_size v) < 2 ^ 42"
  shows "\<exists>r v' m'. allocate_memory E v m = Some (r, v', m') \<and>
    (r = UIO_PCI_DMA_ERROR \<or> r = UIO_PCI_DMA_SUCCESS \<and> buffer_ok E v' \<and> describes v v' \<and>
     holds E (blocks m) (kernel_chunks v') (blocks m') \<and> pinned m' = pinned m + mset (user_frames v'))"
proof (cases "pv_start v = 0")
  case True
  with allocate_kernel_memory_outcome[of E v m] assms obtain r v' m' v1 where
    "uio_pci_dma_allocate_kernel_memory E v m = Some (r, v', m')" "kernel_outcome E v1 m r v' m'"
    "pv_start v1 = 0" "pv_kobj v1 = pv_kobj v" "pv_size v1 = snd (rounded_pages (pv_size v))" by (auto simp: kernel_ok_def)
  then show ?thesis
    using True rounded_size[of "pv_size v"] assms(4)
    by (auto simp: allocate_memory_def kernel_outcome_def kernel_buffer_def same_request_def buffer_ok_def describes_def
        kernel_chunks_def user_frames_def exported_def)
next
  case False
  with allocate_user_memory_outcome[of E v m] assms obtain r v' m' where a:
    "uio_pci_dma_allocate_user_memory E v m = Some (r, v', m')" "blocks m' = blocks m"
    "r = UIO_PCI_DMA_ERROR \<or> r = UIO_PCI_DMA_SUCCESS \<and> (\<exists>pl. user_buffer v' pl \<and> pinned m' = pinned m + mset pl \<and>
      describes v v')" by (auto simp: kernel_ok_def describes_def)
  show ?thesis
  proof (cases "r = UIO_PCI_DMA_ERROR")
    case True
    then show ?thesis using a(1) False by (simp add: allocate_memory_def)
  next
    case no: False
    then obtain pl where u: "user_buffer v' pl" "pinned m' = pinned m + mset pl" "describes v v'"
      using a(3) by auto
    then have "user_frames v' = pl" "pv_start v' \<noteq> 0" using False by (auto simp: user_frames_def user_buffer_def describes_def)
    with u show ?thesis
      using a False no by (simp add: allocate_memory_def buffer_ok_def kernel_chunks_def)
  qed
qed

lemma request_exit_code: "request_exit p s = Some (r, s') \<Longrightarrow> r = -1"
  by (auto simp: request_exit_def bind_eq_Some_conv)

lemma create_attributes_success:
  assumes "create_attributes E a priv s = Some (r, s')" and "r \<noteq> -1"
  shows "privs s' = privs s" "kset_list s' = kset_list s" "next_priv s' = next_priv s" "\<not> alloc_free_lock s'"
    "blocks (mem s') = blocks (mem s)" "pinned (mem s') = pinned (mem s)" "r = int (sizeof_private E)"
  using assms
  by (auto simp: create_attributes_def request_exit_binfile_def mutex_unlock_def bind_eq_Some_conv
      dest!: kobj_service_frame request_exit_code split: prod.splits bool.splits if_splits)

lemma driver_ok_add:
  assumes ok: "driver_ok E B0 M0 s" and "kset_list s' = kset_list s @ [a]" and "a = next_priv s"
    and "\<forall>b \<in> set (kset_list s). privs s' b = privs s b" and "privs s' a = Some v" and "next_priv s < next_priv s'"
    and "\<not> alloc_free_lock s'" and "buffer_ok E v" and "\<forall>w \<in> set (buffers s). pv_kobj w \<noteq> pv_kobj v"
    and "holds E (blocks (mem s)) (kernel_chunks v) (blocks (mem s'))"
    and "pinned (mem s') = pinned (mem s) + mset (user_frames v)"
  shows "driver_ok E B0 M0 s'"
proof -
  have b: "buffers s' = buffers s @ [v]" using assms(2,4,5) by (simp add: buffers_def)
  have "holds E B0 (concat (map kernel_chunks (buffers s)) @ kernel_chunks v) (blocks (mem s'))"
    using holds_join[OF _ assms(10)] ok by (auto simp: driver_ok_def)
  with assms b show ?thesis by (force simp: driver_ok_def)
qed

text \<open>The state in which the body runs.\<close>

definition request_entered :: "u8 list \<Rightarrow> 'w \<Rightarrow> 'w dstate \<Rightarrow> 'w dstate" where
  "request_entered buffer w s = s\<lparr>alloc_free_lock := True, mem := (mem s)\<lparr>kworld := w\<rparr>,
     privs := (privs s)(next_priv s \<mapsto> decode_request buffer), next_priv := Suc (next_priv s)\<rparr>"

lemma request_cases:
  assumes ok: "driver_ok E B0 M0 s" and len: "length buffer = sizeof_private E"
  obtains (no_memory) w where "uio_pci_dma_sysfs_request_buffer_write E buffer s = Some (-1, s\<lparr>mem := (mem s)\<lparr>kworld := w\<rparr>\<rparr>)"
      "\<not> fst (k_zalloc E (sizeof_private E) (kworld (mem s)))"
  | (entered) w where "uio_pci_dma_sysfs_request_buffer_write E buffer s =
      request_body E buffer (next_priv s) (find (\<lambda>a. pv_kobj (the (privs s a)) = pv_name (decode_request buffer)) (kset_list s))
        (request_entered buffer w s)" "k_zalloc E (sizeof_private E) (kworld (mem s)) = (True, w)"
proof -
  obtain zok w where z: "k_zalloc E (sizeof_private E) (kworld (mem s)) = (zok, w)" by fastforce
  have un: "\<not> alloc_free_lock s" and live: "\<forall>a \<in> set (kset_list s). a < next_priv s \<and> privs s a \<noteq> None"
    using ok by (auto simp: driver_ok_def)
  show thesis
  proof (cases zok)
    case False
    then have "uio_pci_dma_sysfs_request_buffer_write E buffer s = Some (-1, s\<lparr>mem := (mem s)\<lparr>kworld := w\<rparr>\<rparr>)"
      using z un len by (simp add: uio_pci_dma_sysfs_request_buffer_write_def mutex_lock_def kobj_service_def request_exit_def mutex_unlock_def)
    then show thesis using z False by (intro no_memory) simp_all
  next
    case True
    let ?h = "(privs s)(next_priv s \<mapsto> decode_request buffer)"
    have eq: "?h a = privs s a" if "a \<in> set (kset_list s)" for a using live that by auto
    have "KSET_FIND ?h (kset_list s) nm = Some (find (\<lambda>a. pv_kobj (the (?h a)) = nm) (kset_list s))" for nm
      using live eq by (intro KSET_FIND_find) auto
    moreover have "find (\<lambda>a. pv_kobj (the (?h a)) = nm) (kset_list s) = find (\<lambda>a. pv_kobj (the (privs s a)) = nm) (kset_list s)" for nm
      using eq by (intro find_cong) auto
    ultimately have f: "KSET_FIND ?h (kset_list s) nm = Some (find (\<lambda>a. pv_kobj (the (privs s a)) = nm) (kset_list s))" for nm
      by simp
    have "uio_pci_dma_sysfs_request_buffer_write E buffer s =
      request_body E buffer (next_priv s) (find (\<lambda>a. pv_kobj (the (privs s a)) = pv_name (decode_request buffer)) (kset_list s))
        (request_entered buffer w s)"
      using z un len True f
      by (simp add: uio_pci_dma_sysfs_request_buffer_write_def mutex_lock_def kobj_service_def request_entered_def Let_def)
    then show thesis using z True by (intro entered) simp_all
  qed
qed

lemma request_exit_outside:
  "alloc_free_lock s \<Longrightarrow> request_exit (Some a) s = Some (-1, s\<lparr>privs := (privs s)(a := None), alloc_free_lock := False\<rparr>)"
  by (simp add: request_exit_def mutex_unlock_def)

lemma request_registers:
  assumes E: "kernel_ok E" and ok: "driver_ok E B0 M0 s" and lim: "within_limits buffer"
    and run: "uio_pci_dma_sysfs_request_buffer_write E buffer s = Some (r, s')" and r: "r \<noteq> -1"
  shows "driver_ok E B0 M0 s' \<and> r = int (sizeof_private E) \<and>
    (\<exists>v. buffers s' = buffers s @ [v] \<and> describes ((decode_request buffer)\<lparr>pv_kobj := pv_name (decode_request buffer)\<rparr>) v)"
proof -
  let ?nm = "pv_name (decode_request buffer)" and ?a = "next_priv s"
  have len: "length buffer = sizeof_private E"
    using run r request_exit_code by (fastforce simp: uio_pci_dma_sysfs_request_buffer_write_def split: if_splits)
  from ok len obtain w where b: "request_body E buffer ?a (find (\<lambda>a. pv_kobj (the (privs s a)) = ?nm) (kset_list s))
        (request_entered buffer w s) = Some (r, s')"
    by (cases rule: request_cases) (use run r in auto)
  then have none: "find (\<lambda>a. pv_kobj (the (privs s a)) = ?nm) (kset_list s) = None"
    using r request_exit_code by (fastforce simp: request_body_def Let_def split: if_splits)
  obtain kok s1 where k: "kobj_service (k_kobject_add E ?nm) (request_entered buffer w s) = (kok, s1)" by fastforce
  from kobj_service_frame[OF k]
  obtain w1 where "s1 = (request_entered buffer w s)\<lparr>mem := (mem (request_entered buffer w s))\<lparr>kworld := w1\<rparr>\<rparr>" by (rule exE)
  then have s1: "s1 = request_entered buffer w1 s" by (simp add: request_entered_def)
  have kok: kok using b k none r request_exit_code by (fastforce simp: request_body_def Let_def split: if_splits bool.splits)
  let ?v = "(decode_request buffer)\<lparr>pv_kobj := ?nm, pv_length := 0\<rparr>"
  have v: "pv_sg ?v = None" "pv_length ?v = 0" by (simp_all add: decode_request_def)
  have "if pv_start ?v = 0 then unat (pv_size ?v) \<le> 2 ^ 64 - 4096 else unat (pv_size ?v) < 2 ^ 42"
    using lim by (simp add: within_limits_def Let_def split: if_splits)
  from allocate_memory_outcome[OF E v this, of "mem s1"] obtain c v m where al: "allocate_memory E ?v (mem s1) = Some (c, v, m)"
    "c = UIO_PCI_DMA_ERROR \<or> c = UIO_PCI_DMA_SUCCESS \<and> buffer_ok E v \<and> describes ?v v \<and>
     holds E (blocks (mem s1)) (kernel_chunks v) (blocks m) \<and> pinned m = pinned (mem s1) + mset (user_frames v)"
    by auto
  let ?s2 = "s1\<lparr>kset_list := kset_list s1 @ [?a], mem := m, privs := (privs s1)(?a \<mapsto> v)\<rparr>"
  have body: "(if c \<noteq> UIO_PCI_DMA_SUCCESS then request_exit (Some ?a) ?s2 else create_attributes E ?a v ?s2) = Some (r, s')"
    using b k kok none al(1) by (simp add: request_body_def Let_def split: if_splits)
  then have "create_attributes E ?a v ?s2 = Some (r, s')" using r request_exit_code by (fastforce split: if_splits)
  note f = create_attributes_success[OF this r]
  have c: "c = UIO_PCI_DMA_SUCCESS" using body r request_exit_code by (fastforce split: if_splits)
  then have "buffer_ok E v" "describes ?v v" "holds E (blocks (mem s)) (kernel_chunks v) (blocks (mem s'))"
    "pinned (mem s') = pinned (mem s) + mset (user_frames v)" using al(2) f s1 by (auto simp: request_entered_def)
  moreover from this have nm: "pv_kobj v = ?nm" by (simp add: describes_def)
  moreover have "\<forall>w \<in> set (buffers s). pv_kobj w \<noteq> ?nm" using none by (auto simp: buffers_def find_None_iff)
  moreover have "\<forall>b \<in> set (kset_list s). b \<noteq> ?a" using ok by (auto simp: driver_ok_def)
  ultimately have "driver_ok E B0 M0 s'" using f s1 by (intro driver_ok_add[OF ok]) (auto simp: request_entered_def)
  moreover have "buffers s' = buffers s @ [v]"
    using f s1 \<open>\<forall>b \<in> set (kset_list s). b \<noteq> ?a\<close> by (auto simp: request_entered_def buffers_def)
  ultimately show ?thesis using \<open>describes ?v v\<close> f(7) by (auto simp: describes_def)
qed

section \<open>The registry as a list of names\<close>

lemma names_find: "find (\<lambda>a. pv_kobj (the (privs s a)) = nm) (kset_list s) = None \<longleftrightarrow> nm \<notin> set (names s)"
  by (auto simp: find_None_iff names_def buffers_def)

lemma request_refused:
  assumes ok: "driver_ok E B0 M0 s" and len: "length buffer = sizeof_private E"
    and nm: "pv_name (decode_request buffer) \<in> set (names s)"
    and run: "uio_pci_dma_sysfs_request_buffer_write E buffer s = Some (r, s')"
  shows "r = -1 \<and> driver_ok E B0 M0 s' \<and> buffers s' = buffers s"
  using ok len
proof (cases rule: request_cases)
  case (no_memory w)
  with run have s': "r = -1" "s' = s\<lparr>mem := (mem s)\<lparr>kworld := w\<rparr>\<rparr>" by auto
  have "driver_ok E B0 M0 s'" by (rule driver_ok_cong[OF _ _ _ _ _ _ ok]) (use ok s' in \<open>auto simp: driver_ok_def\<close>)
  then show ?thesis using s' by (simp add: buffers_def)
next
  case (entered w)
  have live: "\<forall>a \<in> set (kset_list s). a < next_priv s" "\<not> alloc_free_lock s" using ok by (auto simp: driver_ok_def)
  from entered run nm names_find[of s]
  have s': "r = -1" "s' = (request_entered buffer w s)\<lparr>privs := (privs (request_entered buffer w s))(next_priv s := None), alloc_free_lock := False\<rparr>"
    by (auto simp: request_body_def Let_def request_exit_outside request_entered_def split: if_splits)
  have p: "\<forall>a \<in> set (kset_list s). privs s' a = privs s a" using live s' by (auto simp: request_entered_def)
  have "driver_ok E B0 M0 s'" by (rule driver_ok_cong[OF _ p _ _ _ _ ok]) (use s' in \<open>auto simp: request_entered_def\<close>)
  moreover have "kset_list s' = kset_list s" using s' by (simp add: request_entered_def)
  ultimately show ?thesis using s'(1) p by (simp add: buffers_def)
qed

lemma filter_other_keys:
  assumes "distinct (map f (xs @ v # ys))"
  shows "filter (\<lambda>w. f w \<noteq> f v) (xs @ v # ys) = xs @ ys"
proof -
  have "f v \<notin> f ` set xs" "f v \<notin> f ` set ys" using assms by auto
  then have "\<forall>w \<in> set xs. f w \<noteq> f v" "\<forall>w \<in> set ys. f w \<noteq> f v" by (metis imageI)+
  then have "filter (\<lambda>w. f w \<noteq> f v) xs = xs" "filter (\<lambda>w. f w \<noteq> f v) ys = ys" by (simp_all only: filter_id_conv)
  then show ?thesis by simp
qed

lemma map_without_key: "distinct (map f xs) \<Longrightarrow> map f (filter (\<lambda>v. f v \<noteq> k) xs) = remove1 k (map f xs)"
proof (induction xs)
  case (Cons x xs)
  have "filter (\<lambda>v. f v \<noteq> f x) (x # xs) = xs" using filter_other_keys[of f "[]" x xs] Cons.prems by simp
  then show ?case using Cons by (cases "f x = k") auto
qed simp

text \<open>Deletion of a name that is in use, and of one that is not.\<close>

lemma delete_present:
  assumes ok: "driver_ok E B0 M0 s" and nm: "nm = c_snprintf UIO_PCI_DMA_BUFFER_NAME_SIZE (bytes_string buffer)"
    and mem: "nm \<in> set (names s)"
  shows "\<exists>w s'. uio_pci_dma_sysfs_delete_buffer_write E buffer s = (if k_freed_intact E w then Some (int (length buffer), s') else None) \<and>
    driver_ok E B0 M0 s' \<and> buffers s' = filter (\<lambda>v. pv_kobj v \<noteq> nm) (buffers s)"
proof -
  from mem obtain a where a: "a \<in> set (kset_list s)" "pv_kobj (the (privs s a)) = nm" by (auto simp: names_def buffers_def)
  then obtain v where v: "privs s a = Some v" "pv_kobj v = nm" using ok by (auto simp: driver_ok_def)
  obtain ks ls where ks: "kset_list s = ks @ a # ls" using a(1) by (meson split_list)
  from delete_registered[OF ok nm ks v] obtain w s' where s':
    "uio_pci_dma_sysfs_delete_buffer_write E buffer s = (if k_freed_intact E w then Some (int (length buffer), s') else None)"
    "driver_ok E B0 M0 s'" "kset_list s' = ks @ ls" "privs s' = (privs s)(a := None)" by blast
  have d: "distinct (map pv_kobj (buffers s))" "distinct (kset_list s)" using ok by (auto simp: driver_ok_def)
  let ?bs = "map (\<lambda>b. the (privs s b))"
  have n: "buffers s = ?bs ks @ v # ?bs ls" using ks v by (simp add: buffers_def)
  moreover have "buffers s' = ?bs ks @ ?bs ls" using s'(3,4) d(2) ks by (auto simp: buffers_def)
  ultimately have "buffers s' = filter (\<lambda>v. pv_kobj v \<noteq> nm) (buffers s)"
    using filter_other_keys[of pv_kobj "?bs ks" v "?bs ls"] d(1) n v(2) by simp
  then show ?thesis using s' by blast
qed

lemma delete_absent:
  assumes ok: "driver_ok E B0 M0 s" and nm: "nm = c_snprintf UIO_PCI_DMA_BUFFER_NAME_SIZE (bytes_string buffer)"
    and mem: "nm \<notin> set (names s)"
  shows "uio_pci_dma_sysfs_delete_buffer_write E buffer s = Some (int (length buffer), s)"
    and "filter (\<lambda>v. pv_kobj v \<noteq> nm) (buffers s) = buffers s"
proof -
  have live: "\<forall>a \<in> set (kset_list s). privs s a \<noteq> None" "\<not> alloc_free_lock s" using ok by (auto simp: driver_ok_def)
  then have "KSET_FIND (privs s) (kset_list s) nm = Some None" using KSET_FIND_find[of "kset_list s" "privs s"] mem names_find[of s nm] by simp
  then show "uio_pci_dma_sysfs_delete_buffer_write E buffer s = Some (int (length buffer), s)"
    using live(2) by (simp add: uio_pci_dma_sysfs_delete_buffer_write_def mutex_lock_def mutex_unlock_def flip: nm)
  show "filter (\<lambda>v. pv_kobj v \<noteq> nm) (buffers s) = buffers s" using mem by (auto simp: names_def filter_id_conv)
qed

lemma delete_returned:
  assumes "driver_ok E B0 M0 s" and "nm = c_snprintf UIO_PCI_DMA_BUFFER_NAME_SIZE (bytes_string buffer)"
    and "uio_pci_dma_sysfs_delete_buffer_write E buffer s = Some (r, s')"
  shows "r = int (length buffer) \<and> driver_ok E B0 M0 s' \<and> buffers s' = filter (\<lambda>v. pv_kobj v \<noteq> nm) (buffers s)"
  using delete_present[OF assms(1,2)] delete_absent[OF assms(1,2)] assms(1,3)
  by (cases "nm \<in> set (names s)") (auto split: if_splits)

lemma delete_buffers:
  assumes "lazy_kfree E" and "driver_ok E B0 M0 s" and "nm = c_snprintf UIO_PCI_DMA_BUFFER_NAME_SIZE (bytes_string buffer)"
  shows "\<exists>s'. uio_pci_dma_sysfs_delete_buffer_write E buffer s = Some (int (length buffer), s') \<and> driver_ok E B0 M0 s' \<and>
    buffers s' = filter (\<lambda>v. pv_kobj v \<noteq> nm) (buffers s)"
  using delete_present[OF assms(2,3)] delete_absent[OF assms(2,3)] assms(1,2)
  by (cases "nm \<in> set (names s)") (auto simp: lazy_kfree_def)

lemma delete_undefined:
  assumes "eager_kfree E" and "driver_ok E B0 M0 s" and "nm = c_snprintf UIO_PCI_DMA_BUFFER_NAME_SIZE (bytes_string buffer)"
    and "nm \<in> set (names s)"
  shows "uio_pci_dma_sysfs_delete_buffer_write E buffer s = None"
  using delete_present[OF assms(2-4)] assms(1) by (auto simp: eager_kfree_def)

section \<open>Sequences of callbacks\<close>

text \<open>Requests that are served, requests for a name in use, and deletions, in any order.\<close>

inductive driver_step :: "'w kenv \<Rightarrow> 'w dstate \<Rightarrow> 'w dstate \<Rightarrow> bool" for E where
  served: "within_limits buffer \<Longrightarrow> uio_pci_dma_sysfs_request_buffer_write E buffer s = Some (r, s') \<Longrightarrow> r \<noteq> -1 \<Longrightarrow> driver_step E s s'"
| refused: "length buffer = sizeof_private E \<Longrightarrow> pv_name (decode_request buffer) \<in> set (names s) \<Longrightarrow>
    uio_pci_dma_sysfs_request_buffer_write E buffer s = Some (r, s') \<Longrightarrow> driver_step E s s'"
| deleted: "uio_pci_dma_sysfs_delete_buffer_write E buffer s = Some (r, s') \<Longrightarrow> driver_step E s s'"

lemma driver_step_ok: "driver_step E s s' \<Longrightarrow> kernel_ok E \<Longrightarrow> driver_ok E B0 M0 s \<Longrightarrow> driver_ok E B0 M0 s'"
proof (induction rule: driver_step.induct)
  case (served buffer s r s')
  then show ?case using request_registers by metis
next
  case (refused buffer s r s')
  then show ?case using request_refused by metis
next
  case (deleted buffer s r s')
  then show ?case using delete_returned by blast
qed

interpretation driver: step_system "driver_step E" "\<lambda>s. kernel_ok E \<and> driver_ok E B0 M0 s"
  by unfold_locales (auto intro: driver_step_ok)

section \<open>Requests and deletions\<close>

lemma create_attributes_defined:
  assumes "\<forall>n w. fst (k_zalloc E n w)" and "alloc_free_lock s" and "privs s a \<noteq> None"
  shows "create_attributes E a priv s \<noteq> None"
  using assms
  by (auto simp: create_attributes_def request_exit_binfile_def request_exit_def mutex_unlock_def kobject_del_def readable_def kobj_service_def
      split: prod.splits bool.splits) (metis fst_conv)+

lemma request_defined:
  assumes E: "kernel_ok E" "\<forall>n w. fst (k_zalloc E n w)" and ok: "driver_ok E B0 M0 s" and lim: "within_limits buffer"
    and len: "length buffer = sizeof_private E" and clean: "\<not> wild_pointers buffer" "CHR ''%'' \<notin> set (pv_name (decode_request buffer))"
  shows "uio_pci_dma_sysfs_request_buffer_write E buffer s \<noteq> None"
  using ok len
proof (cases rule: request_cases)
  case (entered w)
  let ?nm = "pv_name (decode_request buffer)"
  let ?v = "(decode_request buffer)\<lparr>pv_kobj := ?nm, pv_length := 0\<rparr>"
  obtain kok s1 where k: "kobj_service (k_kobject_add E ?nm) (request_entered buffer w s) = (kok, s1)" by fastforce
  then have lock: "alloc_free_lock s1" using kobj_service_frame[OF k] by (auto simp: request_entered_def)
  have v: "pv_sg ?v = None" "pv_length ?v = 0" by (simp_all add: decode_request_def)
  have "if pv_start ?v = 0 then unat (pv_size ?v) \<le> 2 ^ 64 - 4096 else unat (pv_size ?v) < 2 ^ 42"
    using lim by (simp add: within_limits_def Let_def split: if_splits)
  from allocate_memory_outcome[OF E(1) v this, of "mem s1"] obtain c v m where "allocate_memory E ?v (mem s1) = Some (c, v, m)" by auto
  then show ?thesis
    using k lock clean entered create_attributes_defined[OF E(2)]
    by (auto simp: request_body_def Let_def request_exit_def mutex_unlock_def request_entered_def split: bool.splits)
qed simp

text \<open>
  A request the kernel can serve: not empty, starting on a page, with the pages and the memory for
  it at hand and \<open>k\<close> more pages.
\<close>

definition new_pages :: "uio_pci_dma_private \<Rightarrow> nat" where
  "new_pages v = (if pv_start v = 0 then (unat (pv_size v) + 4095) div 4096 else 0)"

definition affordable :: "((u64 \<rightharpoonup> nat) \<Rightarrow> 'w \<Rightarrow> nat \<Rightarrow> bool) \<Rightarrow> nat \<Rightarrow> uio_pci_dma_private \<Rightarrow> 'w kstate \<Rightarrow> bool" where
  "affordable avail k v m \<longleftrightarrow> pv_size v \<noteq> 0 \<and> pv_start v mod KPAGE_SIZE = 0 \<and>
     avail (blocks m) (kworld m) (new_pages v + k)"

lemma allocate_memory_plentiful:
  assumes "kernel_ok E" and "plentiful E avail" and "affordable avail k v m"
    and "if pv_start v = 0 then unat (pv_size v) \<le> 2 ^ 64 - 4096 else unat (pv_size v) < 2 ^ 42"
    and "allocate_memory E v m = Some (r, v', m')"
  shows "r = UIO_PCI_DMA_SUCCESS \<and> avail (blocks m') (kworld m') k"
  using assms allocate_kernel_memory_plentiful[of E avail m v k r v' m'] allocate_user_memory_plentiful[of E avail m k v r v' m']
  by (auto simp: kernel_ok_def affordable_def new_pages_def allocate_memory_def split: if_splits)

lemma create_attributes_plentiful:
  assumes "plentiful E avail" and "avail (blocks (mem s)) (kworld (mem s)) n" and "create_attributes E a v s = Some (r, s')"
  shows "r = int (sizeof_private E) \<and> avail (blocks (mem s')) (kworld (mem s')) n"
proof -
  let ?B = "blocks (mem s)"
  obtain w1 where 1: "k_zalloc E 104 (kworld (mem s)) = (True, w1)" "avail ?B w1 n" using plentiful_laws(1)[OF assms(1,2)] by blast
  obtain w2 where 2: "k_zalloc E 104 w1 = (True, w2)" "avail ?B w2 n" using plentiful_laws(1)[OF assms(1) 1(2)] by blast
  obtain w3 where 3: "k_create_bin_file E (pv_kobj v) ''map'' (pv_size v) w2 = (True, w3)" "avail ?B w3 n"
    using plentiful_laws(6)[OF assms(1) 2(2)] by blast
  obtain w4 where 4: "k_create_bin_file E (pv_kobj v) ''sg'' (pv_length v * 24) w3 = (True, w4)" "avail ?B w4 n"
    using plentiful_laws(6)[OF assms(1) 3(2)] by blast
  from assms(3) 1 2 3 4 show ?thesis by (auto simp: create_attributes_def kobj_service_def bind_eq_Some_conv mutex_unlock_def split: if_splits)
qed

lemma request_plentiful:
  assumes E: "kernel_ok E" and plenty: "plentiful E avail" "affordable avail k (decode_request buffer) (mem s)"
    and ok: "driver_ok E B0 M0 s" and lim: "within_limits buffer" and len: "length buffer = sizeof_private E"
    and nm: "pv_name (decode_request buffer) \<notin> set (names s)"
    and run: "uio_pci_dma_sysfs_request_buffer_write E buffer s = Some (r, s')"
  shows "r = int (sizeof_private E) \<and> avail (blocks (mem s')) (kworld (mem s')) k"
  using ok len
proof (cases rule: request_cases)
  let ?nm = "pv_name (decode_request buffer)" and ?B = "blocks (mem s)"
  let ?v = "(decode_request buffer)\<lparr>pv_kobj := ?nm, pv_length := 0\<rparr>"
  let ?n = "new_pages (decode_request buffer) + k"
  have a: "avail ?B (kworld (mem s)) ?n" using plenty(2) by (simp add: affordable_def)
  {
    case (no_memory w)
    then show ?thesis using plentiful_laws(1)[OF plenty(1) a, of "sizeof_private E"] by auto
  next
    case (entered w)
    then have aw: "avail ?B w ?n" using plentiful_laws(1)[OF plenty(1) a, of "sizeof_private E"] by auto
    obtain w1 where w1: "k_kobject_add E ?nm w = (True, w1)" "avail ?B w1 ?n" using plentiful_laws(5)[OF plenty(1) aw] by blast
    let ?s1 = "request_entered buffer w1 s"
    have k: "kobj_service (k_kobject_add E ?nm) (request_entered buffer w s) = (True, ?s1)"
      using w1(1) by (simp add: kobj_service_def request_entered_def)
    have "request_body E buffer (next_priv s) None (request_entered buffer w s) = Some (r, s')"
      using entered(1) run names_find[of s ?nm] nm by simp
    then obtain c v m where al: "allocate_memory E ?v (mem ?s1) = Some (c, v, m)" and
      body: "(if c \<noteq> UIO_PCI_DMA_SUCCESS then request_exit (Some (next_priv s)) (?s1\<lparr>kset_list := kset_list ?s1 @ [next_priv s], mem := m, privs := (privs ?s1)(next_priv s \<mapsto> v)\<rparr>)
         else create_attributes E (next_priv s) v (?s1\<lparr>kset_list := kset_list ?s1 @ [next_priv s], mem := m, privs := (privs ?s1)(next_priv s \<mapsto> v)\<rparr>)) = Some (r, s')"
      using k by (auto simp: request_body_def Let_def bind_eq_Some_conv simp del: fun_upd_apply split: if_split_asm)
    have "affordable avail k ?v (mem ?s1)" using plenty(2) w1(2) by (auto simp: affordable_def request_entered_def new_pages_def)
    moreover have "if pv_start ?v = 0 then unat (pv_size ?v) \<le> 2 ^ 64 - 4096 else unat (pv_size ?v) < 2 ^ 42"
      using lim by (simp add: within_limits_def Let_def split: if_splits)
    ultimately have "c = UIO_PCI_DMA_SUCCESS" "avail (blocks m) (kworld m) k"
      using allocate_memory_plentiful[OF E plenty(1) _ _ al] by auto
    then show ?thesis
      using body create_attributes_plentiful[OF plenty(1), of "?s1\<lparr>kset_list := kset_list ?s1 @ [next_priv s], mem := m,
        privs := (privs ?s1)(next_priv s \<mapsto> v)\<rparr>" k] by simp
  }
qed

text \<open>
  C3. Whatever sequence of requests and deletions user space issues on a device with no buffers, as
  long as requests are served or refused for a name in use, every kobject of the registry has a
  complete live buffer, no two have the same name, the lock is free between calls, and the module
  holds exactly the pages of the registered buffers.
\<close>

theorem driver_calls_keep_registry:
  assumes "kernel_ok E" and "kset_list s = []" and "\<not> alloc_free_lock s" and "(driver_step E)\<^sup>*\<^sup>* s s'"
  shows "driver_ok E (blocks (mem s)) (pinned (mem s)) s'"
proof -
  have "driver_ok E (blocks (mem s)) (pinned (mem s)) s" using assms(2,3) by (simp add: driver_ok_def buffers_def)
  with driver.inv_reachable[OF assms(4)] assms(1) show ?thesis by blast
qed

text \<open>What every request leaves as it is, and what a failed one leaves behind.\<close>

lemma create_attributes_frame:
  assumes "create_attributes E a v s = Some (r, s')" and "privs s a \<noteq> None"
  shows "\<not> alloc_free_lock s'" and "\<forall>b. b \<noteq> a \<longrightarrow> privs s' b = privs s b"
    and "r = -1 \<Longrightarrow> privs s' a = None \<and> kset_list s' = remove1 a (kset_list s)"
  using assms
  by (auto simp: create_attributes_def request_exit_binfile_def kobject_del_def readable_def request_exit_def mutex_unlock_def bind_eq_Some_conv
      dest!: kobj_service_frame split: prod.splits bool.splits if_splits)

lemma request_body_frame:
  assumes "request_body E buffer a tmp s = Some (r, s')" and "alloc_free_lock s" and "a \<notin> set (kset_list s)"
  shows "\<not> alloc_free_lock s' \<and> (\<forall>b. b \<noteq> a \<longrightarrow> privs s' b = privs s b) \<and>
    (r = -1 \<longrightarrow> privs s' a = None \<and> kset_list s' \<in> {kset_list s, kset_list s @ [a]})"
proof (cases "tmp \<noteq> None \<or> \<not> fst (kobj_service (k_kobject_add E (pv_name (decode_request buffer))) s)")
  case True
  then show ?thesis using assms
    by (auto simp: request_body_def Let_def request_exit_def mutex_unlock_def bind_eq_Some_conv dest!: kobj_service_frame
        split: if_splits prod.splits bool.splits)
next
  case False
  let ?nm = "pv_name (decode_request buffer)"
  obtain s1 where k: "kobj_service (k_kobject_add E ?nm) s = (True, s1)" using False by (cases "kobj_service (k_kobject_add E ?nm) s") auto
  obtain c v m where "allocate_memory E ((decode_request buffer)\<lparr>pv_kobj := ?nm, pv_length := 0\<rparr>) (mem s1) = Some (c, v, m)" and c: "(if c \<noteq> UIO_PCI_DMA_SUCCESS then request_exit (Some a) (s1\<lparr>kset_list := kset_list s1 @ [a], mem := m, privs := (privs s1)(a \<mapsto> v)\<rparr>)
      else create_attributes E a v (s1\<lparr>kset_list := kset_list s1 @ [a], mem := m, privs := (privs s1)(a \<mapsto> v)\<rparr>)) = Some (r, s')"
    using assms(1) k False by (auto simp: request_body_def Let_def bind_eq_Some_conv simp del: fun_upd_apply split: if_split_asm)
  have s1: "kset_list s1 = kset_list s" "privs s1 = privs s" "alloc_free_lock s1" using kobj_service_frame[OF k] assms(2) by auto
  show ?thesis
  proof (cases "c = UIO_PCI_DMA_SUCCESS")
    case True
    with c have "create_attributes E a v (s1\<lparr>kset_list := kset_list s1 @ [a], mem := m, privs := (privs s1)(a \<mapsto> v)\<rparr>) = Some (r, s')" by simp
    from create_attributes_frame[OF this] s1 assms(3) show ?thesis by (auto simp: remove1_append)
  next
    case False
    then show ?thesis using c s1 by (auto simp: request_exit_outside)
  qed
qed

lemma request_frame:
  assumes ok: "driver_ok E B0 M0 s" and len: "length buffer = sizeof_private E" and z: "\<forall>n w. fst (k_zalloc E n w)"
    and run: "uio_pci_dma_sysfs_request_buffer_write E buffer s = Some (r, s')"
  shows "\<not> alloc_free_lock s' \<and> (\<forall>a \<in> set (kset_list s). privs s' a = privs s a) \<and>
    (r = -1 \<longrightarrow> privs s' (next_priv s) = None \<and> kset_list s' \<in> {kset_list s, kset_list s @ [next_priv s]})"
  using ok len
proof (cases rule: request_cases)
  case (no_memory w)
  then show ?thesis using z by blast
next
  case (entered w)
  have live: "next_priv s \<notin> set (kset_list s)" using ok by (auto simp: driver_ok_def)
  have "request_body E buffer (next_priv s) (find (\<lambda>a. pv_kobj (the (privs s a)) = pv_name (decode_request buffer)) (kset_list s))
      (request_entered buffer w s) = Some (r, s')" using entered run by simp
  from request_body_frame[OF this] live show ?thesis by (force simp: request_entered_def)
qed

lemma request_refused_frame:
  assumes ok: "driver_ok E B0 M0 s" and len: "length buffer = sizeof_private E" and z: "\<forall>n w. fst (k_zalloc E n w)"
    and nm: "pv_name (decode_request buffer) \<in> set (names s)"
    and run: "uio_pci_dma_sysfs_request_buffer_write E buffer s = Some (r, s')"
  shows "r = -1 \<and> kset_list s' = kset_list s \<and> privs s' = (privs s)(next_priv s := None) \<and> \<not> alloc_free_lock s' \<and>
    (\<exists>w. mem s' = (mem s)\<lparr>kworld := w\<rparr>)"
  using ok len
proof (cases rule: request_cases)
  case (no_memory w)
  then show ?thesis using z by blast
next
  case (entered w)
  then show ?thesis using run nm names_find[of s]
    by (auto simp: request_body_def Let_def request_exit_outside request_entered_def split: if_splits)
qed


section \<open>The request of the library\<close>

text \<open>
  The library writes the structure with its own stand-ins for the kernel types, 3164 bytes; sysfs
  cuts the write to the size of the attribute, the size the structure has in the kernel.
\<close>

lemma unat_of_char: "unat (of_char c :: u8) = of_char c"
proof -
  have "(of_char c :: u8) = of_nat (of_char c)" by (rule of_nat_of_char[symmetric])
  then show ?thesis using nat_of_char_less_256[of c] by (simp add: unat_of_nat)
qed

lemma of_char_zero: "(of_char c :: u8) = 0 \<longleftrightarrow> c = char_of (0 :: nat)"
proof -
  have "(of_char c :: u8) = 0 \<longleftrightarrow> of_char c = (0 :: nat)" by (simp flip: unat_eq_0 add: unat_of_char)
  also have "\<dots> \<longleftrightarrow> c = char_of (0 :: nat)" by (metis char_of_char of_char_of mod_0)
  finally show ?thesis .
qed

lemma bytes_string_char_bytes:
  assumes "char_of (0 :: nat) \<notin> set nm"
  shows "bytes_string (char_bytes nm @ replicate n 0) = nm"
proof -
  have "takeWhile (\<lambda>b. b \<noteq> 0) (char_bytes nm @ replicate n 0) = char_bytes nm"
    using assms by (induction nm) (auto simp: char_bytes_def of_char_zero takeWhile_replicate)
  then show ?thesis by (simp add: bytes_string_def char_bytes_def comp_def unat_of_char)
qed

lemma bytes_word_zeros: "bytes_word (replicate n 0) = (0 :: 'a::len word)"
  by (induction n) (auto simp: bytes_word_def)

lemma request_layout:
  fixes nm len numa start
  defines "nm' \<equiv> c_snprintf UIO_PCI_DMA_BUFFER_NAME_SIZE nm"
  shows "request_bytes nm len numa start = (char_bytes nm' @ replicate (1024 - length nm') 0) @ word_bytes len
      @ word_bytes (of_int numa :: u32) @ word_bytes start @ replicate 2120 0"
    and "length (char_bytes nm' @ replicate (1024 - length nm') 0) = 1024"
proof -
  have n: "length nm' \<le> 127" by (simp add: nm'_def c_snprintf_def UIO_PCI_DMA_BUFFER_NAME_SIZE_def)
  then show l: "length (char_bytes nm' @ replicate (1024 - length nm') 0) = 1024" by (simp add: char_bytes_def)
  show "request_bytes nm len numa start = (char_bytes nm' @ replicate (1024 - length nm') 0) @ word_bytes len
      @ word_bytes (of_int numa :: u32) @ word_bytes start @ replicate 2120 0"
    unfolding request_bytes_def pad_bytes_def nm'_def[symmetric]
    using n by (simp add: length_word_bytes char_bytes_def cell_size_def)
qed

lemma field_word_at:
  "length as = off \<Longrightarrow> off + 8 \<le> k \<Longrightarrow> field_word off (take k (as @ word_bytes w @ bs)) = w"
  by (simp add: field_word_def drop_take length_word_bytes cell_size_def bytes_word_word_bytes)

lemma field_word_zeros:
  assumes "length as \<le> off" and "k \<le> length as + n"
  shows "field_word off (take k (as @ replicate n 0)) = 0"
  using assms by (simp add: field_word_def drop_take bytes_word_zeros min_def)

lemma decode_request_bytes:
  fixes len start :: u64 and numa :: int
  assumes "char_of (0 :: nat) \<notin> set nm" and "1108 \<le> k" and "k \<le> 3164"
  defines "bs \<equiv> take k (request_bytes nm len numa start)"
  shows "pv_name (decode_request bs) = c_snprintf UIO_PCI_DMA_BUFFER_NAME_SIZE nm" and "pv_size (decode_request bs) = len"
    and "pv_numa_node (decode_request bs) = of_int numa" and "pv_start (decode_request bs) = start"
    and "length bs = k" and "\<not> wild_pointers bs"
    and "pv_length (decode_request bs) = 0" "pv_old_length (decode_request bs) = 0" "pv_pages (decode_request bs) = 0"
proof -
  define nm' where "nm' = c_snprintf UIO_PCI_DMA_BUFFER_NAME_SIZE nm"
  define A where "A = char_bytes nm' @ replicate (1024 - length nm') (0 :: u8)"
  define N where "N = word_bytes (of_int numa :: u32)"
  have A: "length A = 1024" and R: "request_bytes nm len numa start = A @ word_bytes len @ N @ word_bytes start @ replicate 2120 0"
    using request_layout(1)[of nm len numa start] request_layout(2)[of nm] by (simp_all add: A_def nm'_def N_def)
  have N: "length N = 4" by (simp add: N_def length_word_bytes cell_size_def)
  have W: "length (word_bytes (w :: u64)) = 8" for w by (simp add: length_word_bytes cell_size_def)
  have "char_of (0 :: nat) \<notin> set nm'" using assms(1) by (auto simp: nm'_def c_snprintf_def dest: in_set_takeD)
  moreover have "take 1024 bs = A" using A assms(2) by (simp add: bs_def R)
  ultimately show "pv_name (decode_request bs) = c_snprintf UIO_PCI_DMA_BUFFER_NAME_SIZE nm"
    by (simp add: decode_request_def A_def bytes_string_char_bytes nm'_def)
  have "field_word 1024 bs = len" unfolding bs_def R using assms(2) by (intro field_word_at[OF A]) simp
  then show "pv_size (decode_request bs) = len" by (simp add: decode_request_def)
  have "take 4 (drop 1032 bs) = N" using A N W assms(2) by (simp add: bs_def R drop_take)
  then show "pv_numa_node (decode_request bs) = of_int numa"
    by (simp add: decode_request_def N_def bytes_word_word_bytes cell_size_def)
  have "length (A @ word_bytes len @ N) = 1036" using A N W by simp
  from field_word_at[OF this, of k start "replicate 2120 0"] assms(2)
  have "field_word 1036 bs = start" unfolding bs_def R append_assoc by simp
  then show "pv_start (decode_request bs) = start" by (simp add: decode_request_def)
  show l: "length bs = k" using A N W assms(3) by (simp add: bs_def R)
  have "length (A @ word_bytes len @ N @ word_bytes start) = 1044" using A N W by simp
  from field_word_zeros[of "A @ word_bytes len @ N @ word_bytes start" _ k 2120] this
  have z: "field_word off bs = 0" if "1044 \<le> off" for off using that assms(3) by (simp add: bs_def R)
  then show "\<not> wild_pointers bs" using l assms(2) by (simp add: wild_pointers_def)
  show "pv_length (decode_request bs) = 0" "pv_old_length (decode_request bs) = 0" "pv_pages (decode_request bs) = 0"
    using z l assms(2) by (simp_all add: decode_request_def)
qed

text \<open>
  C23. The request the library writes arrives: cut to any size the structure can have in the kernel,
  the kernel module reads back the name, the length, the NUMA node and the start address the library put
  in, and finds no stray pointers in it.
\<close>

theorem request_roundtrip:
  assumes "char_of (0 :: nat) \<notin> set nm" and "1108 \<le> k" and "k \<le> 3164"
  shows "\<exists>v. v = decode_request (take k (request_bytes nm len numa start)) \<and>
    pv_name v = c_snprintf UIO_PCI_DMA_BUFFER_NAME_SIZE nm \<and> pv_size v = len \<and> pv_numa_node v = of_int numa \<and>
    pv_start v = start \<and> \<not> wild_pointers (take k (request_bytes nm len numa start))"
  by (rule exI, intro conjI, rule refl) (rule decode_request_bytes[OF assms])+

theorem request_roundtrip_witness:
  "\<exists>v. v = decode_request (take 1228 (request_bytes ''3'' 12000 (-1) 0)) \<and> pv_name v = ''3'' \<and> pv_size v = 12000 \<and>
    pv_numa_node v = -1 \<and> pv_start v = 0"
proof -
  have c: "char_of (0 :: nat) \<notin> set ''3''" by (simp add: char_of_def)
  have nm: "c_snprintf UIO_PCI_DMA_BUFFER_NAME_SIZE ''3'' = ''3''" by (simp add: c_snprintf_def UIO_PCI_DMA_BUFFER_NAME_SIZE_def)
  have "\<exists>v. v = decode_request (take 1228 (request_bytes ''3'' 12000 (-1) 0)) \<and>
    pv_name v = c_snprintf UIO_PCI_DMA_BUFFER_NAME_SIZE ''3'' \<and> pv_size v = 12000 \<and> pv_numa_node v = of_int (-1) \<and>
    pv_start v = 0 \<and> \<not> wild_pointers (take 1228 (request_bytes ''3'' 12000 (-1) 0))"
    by (rule request_roundtrip[OF c]) simp_all
  then show ?thesis unfolding nm by (elim exE conjE) (intro exI conjI, simp_all only: of_int_minus of_int_1)
qed

section \<open>A first request\<close>

definition demo_dstate :: "nat dstate" where
  "demo_dstate = \<lparr>mem = demo_kstate, privs = Map.empty, kset_list = [], next_priv = 1, alloc_free_lock = False\<rparr>"

definition demo_write :: "u8 list" where
  "demo_write = take 1228 (request_bytes ''3'' 12000 (-1) 0)"

lemma demo_write_facts:
  "pv_name (decode_request demo_write) = ''3''" "length demo_write = 1228" "\<not> wild_pointers demo_write"
  "within_limits demo_write"
proof -
  have c: "char_of (0 :: nat) \<notin> set ''3''" by (simp add: char_of_def)
  note d = decode_request_bytes[OF c, of 1228 12000 "-1" 0, folded demo_write_def, simplified]
  from d show "pv_name (decode_request demo_write) = ''3''" "length demo_write = 1228" "\<not> wild_pointers demo_write"
    by (simp_all add: c_snprintf_def UIO_PCI_DMA_BUFFER_NAME_SIZE_def)
  from d show "within_limits demo_write" by (simp add: within_limits_def Let_def)
qed

lemma demo_kernel_ok: "kernel_ok demo_kernel" "\<forall>n w. fst (k_zalloc demo_kernel n w)" "sizeof_private demo_kernel = 1228"
  using demo_kernel_laws demo_kernel_direct demo_kernel_gup by (simp_all only: kernel_ok_def) (simp_all add: demo_kernel_def)

lemma demo_dstate_ok: "driver_ok demo_kernel Map.empty {#} demo_dstate" "names demo_dstate = []"
  by (simp_all add: driver_ok_def demo_dstate_def demo_kstate_def buffers_def names_def)

lemma demo_write_decoded: "(decode_request demo_write)\<lparr>pv_kobj := ''3'', pv_length := 0\<rparr> = demo_request"
proof -
  have c: "char_of (0 :: nat) \<notin> set ''3''" by (simp add: char_of_def)
  note d = decode_request_bytes[OF c, of 1228 12000 "-1" 0, folded demo_write_def, simplified]
  have "pv_sg (decode_request demo_write) = None" "pv_scatter (decode_request demo_write) = None"
    "pv_page_list (decode_request demo_write) = None" by (simp_all add: decode_request_def)
  with d demo_write_facts(1) show ?thesis
    by (intro uio_pci_dma_private.equality) (simp_all add: demo_request_def)
qed

text \<open>The concrete kernel can serve the request.\<close>

lemma demo_affordable: "affordable demo_avail 0 (decode_request demo_write) (mem demo_dstate)"
proof -
  have "pv_size (decode_request demo_write) = 12000" "pv_start (decode_request demo_write) = 0"
    using arg_cong[OF demo_write_decoded, of pv_size] arg_cong[OF demo_write_decoded, of pv_start] by (simp_all add: demo_request_def)
  then show ?thesis using demo_kstate_avail[of 3] by (simp add: affordable_def new_pages_def demo_dstate_def)
qed


lemma demo_request_served:
  "\<exists>s. uio_pci_dma_sysfs_request_buffer_write demo_kernel demo_write demo_dstate = Some (1228, s) \<and>
    driver_ok demo_kernel Map.empty {#} s \<and> names s = [''3'']"
proof -
  obtain r s where s: "uio_pci_dma_sysfs_request_buffer_write demo_kernel demo_write demo_dstate = Some (r, s)"
    using request_defined[OF demo_kernel_ok(1,2) demo_dstate_ok(1) demo_write_facts(4)] demo_write_facts(1-3) demo_kernel_ok(3) by auto
  have "r = 1228"
    using request_plentiful[OF demo_kernel_ok(1) demo_kernel_plentiful demo_affordable demo_dstate_ok(1) demo_write_facts(4) _ _ s]
      demo_dstate_ok(2) demo_write_facts(2) demo_kernel_ok(3) by simp
  with request_registers[OF demo_kernel_ok(1) demo_dstate_ok(1) demo_write_facts(4) s] demo_write_facts(1) demo_dstate_ok(2)
  show ?thesis using s by (auto simp: names_def describes_def)
qed

lemma demo_registered: "\<exists>s. driver_ok demo_kernel Map.empty {#} s \<and> names s = [''3'']"
  using demo_request_served by blast

lemma demo_delete_name: "c_snprintf UIO_PCI_DMA_BUFFER_NAME_SIZE (bytes_string (char_bytes ''3'')) = ''3''"
proof -
  have "char_of (0 :: nat) \<notin> set ''3''" by (simp add: char_of_def)
  from bytes_string_char_bytes[OF this, of 0] show ?thesis by (simp add: c_snprintf_def UIO_PCI_DMA_BUFFER_NAME_SIZE_def)
qed

text \<open>The witness requests a buffer, asks for the same name again, and deletes the buffer.\<close>

theorem driver_calls_keep_registry_witness:
  "\<exists>s1 s2 s3. uio_pci_dma_sysfs_request_buffer_write demo_kernel demo_write demo_dstate = Some (1228, s1) \<and>
    uio_pci_dma_sysfs_request_buffer_write demo_kernel demo_write s1 = Some (-1, s2) \<and>
    uio_pci_dma_sysfs_delete_buffer_write demo_kernel (char_bytes ''3'') s2 = Some (1, s3) \<and>
    (driver_step demo_kernel)\<^sup>*\<^sup>* demo_dstate s3 \<and> driver_ok demo_kernel Map.empty {#} s3"
proof -
  obtain s1 where s1: "uio_pci_dma_sysfs_request_buffer_write demo_kernel demo_write demo_dstate = Some (1228, s1)"
    "driver_ok demo_kernel Map.empty {#} s1" "names s1 = [''3'']" using demo_request_served by blast
  have len: "length demo_write = sizeof_private demo_kernel" and used: "pv_name (decode_request demo_write) \<in> set (names s1)"
    using demo_write_facts(1,2) demo_kernel_ok(3) s1(3) by simp_all
  obtain r s2 where s2: "uio_pci_dma_sysfs_request_buffer_write demo_kernel demo_write s1 = Some (r, s2)"
    using request_defined[OF demo_kernel_ok(1,2) s1(2) demo_write_facts(4) len demo_write_facts(3)] demo_write_facts(1) by auto
  note ref = request_refused[OF s1(2) len used s2]
  obtain s3 where s3: "uio_pci_dma_sysfs_delete_buffer_write demo_kernel (char_bytes ''3'') s2 = Some (int (length (char_bytes ''3'')), s3)"
    using delete_buffers[OF demo_kernel_lazy _ refl, of Map.empty "{#}" s2 "char_bytes ''3''"] ref by blast
  have "driver_step demo_kernel demo_dstate s1" by (rule driver_step.served[OF demo_write_facts(4) s1(1)]) simp
  moreover have "driver_step demo_kernel s1 s2" by (rule driver_step.refused[OF len used s2])
  moreover have "driver_step demo_kernel s2 s3" by (rule driver_step.deleted[OF s3])
  ultimately have "(driver_step demo_kernel)\<^sup>*\<^sup>* demo_dstate s3" by (meson converse_rtranclp_into_rtranclp r_into_rtranclp)
  with driver_calls_keep_registry[OF demo_kernel_ok(1) _ _ this] s1(1) s2 s3 ref show ?thesis
    by (auto simp: demo_dstate_def demo_kstate_def char_bytes_def)
qed

section \<open>Deletion and removal\<close>

text \<open>
  C21. Deleting by name. A name that is not registered changes nothing at all. For a registered
  name, if the memory allocator leaves freed structures as they are until they are used again, the call returns and takes
  exactly the buffer of that name out of the registry, whatever else is registered; its pages go back to the kernel and
  all other buffers stay as they are. If freed structures lose their contents, the call is undefined, since it hands
  the kobject of the freed structure to \<open>kobject_del\<close>.
\<close>

theorem delete_buffer_result:
  assumes "driver_ok E B0 M0 s" and "nm = c_snprintf UIO_PCI_DMA_BUFFER_NAME_SIZE (bytes_string buffer)"
  shows "(nm \<notin> set (names s) \<longrightarrow> uio_pci_dma_sysfs_delete_buffer_write E buffer s = Some (int (length buffer), s)) \<and>
    (lazy_kfree E \<longrightarrow> (\<exists>s'. uio_pci_dma_sysfs_delete_buffer_write E buffer s = Some (int (length buffer), s') \<and> driver_ok E B0 M0 s' \<and>
       names s' = remove1 nm (names s) \<and> buffers s' = filter (\<lambda>v. pv_kobj v \<noteq> nm) (buffers s))) \<and>
    (eager_kfree E \<and> nm \<in> set (names s) \<longrightarrow> uio_pci_dma_sysfs_delete_buffer_write E buffer s = None)"
proof -
  have "distinct (map pv_kobj (buffers s))" using assms(1) by (simp add: driver_ok_def)
  then have "names s' = remove1 nm (names s)" if "buffers s' = filter (\<lambda>v. pv_kobj v \<noteq> nm) (buffers s)" for s' :: "'a dstate"
    using that by (simp add: names_def map_without_key)
  then show ?thesis
    using delete_absent(1)[OF assms] delete_buffers[OF _ assms] delete_undefined[OF _ assms] by blast
qed

text \<open>A kernel that clears what it frees; there the deletion of the buffer is undefined.\<close>

definition clearing_kernel :: "nat kenv" where
  "clearing_kernel = demo_kernel\<lparr>k_freed_intact := (\<lambda>w. False)\<rparr>"

theorem delete_buffer_result_witness:
  "\<exists>s s'. driver_ok demo_kernel Map.empty {#} s \<and> names s = [''3''] \<and>
    uio_pci_dma_sysfs_delete_buffer_write demo_kernel (char_bytes ''3'') s = Some (1, s') \<and> names s' = [] \<and> blocks (mem s') = Map.empty \<and>
    uio_pci_dma_sysfs_delete_buffer_write clearing_kernel (char_bytes ''3'') s = None"
proof -
  obtain s where s: "driver_ok demo_kernel Map.empty {#} s" "names s = [''3'']" using demo_registered by blast
  have same: "driver_ok clearing_kernel Map.empty {#} s" using s(1)
    by (auto simp: driver_ok_def clearing_kernel_def buffer_ok_def chunk_ok_def holds_def chunk_order_def)
  from delete_buffer_result[OF s(1) demo_delete_name[symmetric]] demo_kernel_lazy obtain s' where
    s': "uio_pci_dma_sysfs_delete_buffer_write demo_kernel (char_bytes ''3'') s = Some (1, s')" "driver_ok demo_kernel Map.empty {#} s'"
    "names s' = []" unfolding s(2) by (auto simp: char_bytes_def)
  then have "buffers s' = []" by (simp add: names_def)
  then have "blocks (mem s') = Map.empty" using s'(2) by (simp add: driver_ok_def)
  moreover have "uio_pci_dma_sysfs_delete_buffer_write clearing_kernel (char_bytes ''3'') s = None"
    using delete_buffer_result[OF same demo_delete_name[symmetric]] s(2) by (simp add: eager_kfree_def clearing_kernel_def)
  ultimately show ?thesis using s s' by blast
qed

lemma remove_buffers_frees:
  assumes "lazy_kfree E" and "distinct ks" and "\<forall>a \<in> set ks. privs s a \<noteq> None \<and> buffer_ok E (the (privs s a))"
    and "holds E B0 (concat (map (\<lambda>a. kernel_chunks (the (privs s a))) ks)) (blocks (mem s))"
    and "pinned (mem s) = M0 + mset (concat (map (\<lambda>a. user_frames (the (privs s a))) ks))"
  shows "\<exists>s'. remove_buffers E ks s = Some s' \<and> blocks (mem s') = B0 \<and> pinned (mem s') = M0 \<and>
    (\<forall>a. privs s' a = (if a \<in> set ks then None else privs s a)) \<and> kset_list s' = kset_list s"
  using assms
proof (induction ks arbitrary: s)
  case (Cons a ks)
  then obtain v where v: "privs s a = Some v" "buffer_ok E v" by auto
  have "holds E B0 (concat (map (\<lambda>a. kernel_chunks (the (privs s a))) ks) @ kernel_chunks v) (blocks (mem s))"
    using Cons.prems(4) v(1) by (intro holds_perm[OF _ Cons.prems(4)]) simp
  from holds_part[OF this] obtain B where B: "holds E B0 (concat (map (\<lambda>a. kernel_chunks (the (privs s a))) ks)) B"
    "holds E B (kernel_chunks v) (blocks (mem s))" by blast
  let ?M = "M0 + mset (concat (map (\<lambda>a. user_frames (the (privs s a))) ks))"
  have "pinned (mem s) = ?M + mset (user_frames v)" using Cons.prems(5) v(1) by simp
  from free_registered[OF v B(2) this] obtain m where
    m: "uio_pci_dma_free E (Some a) s = Some (UIO_PCI_DMA_SUCCESS, s\<lparr>mem := m, privs := (privs s)(a := None)\<rparr>)"
    "blocks m = B" "pinned m = ?M" by blast
  let ?s = "s\<lparr>mem := m, privs := (privs s)(a := None)\<rparr>"
  have same: "privs ?s b = privs s b" if "b \<in> set ks" for b using Cons.prems(2) that by auto
  have "\<exists>s'. remove_buffers E ks ?s = Some s' \<and> blocks (mem s') = B0 \<and> pinned (mem s') = M0 \<and>
    (\<forall>a. privs s' a = (if a \<in> set ks then None else privs ?s a)) \<and> kset_list s' = kset_list ?s"
    using Cons.prems B(1) m(2,3) same by (intro Cons.IH) (auto cong: map_cong)
  then show ?case using m(1) Cons.prems(1) by (auto simp: readable_def lazy_kfree_def split: if_splits)
qed simp

text \<open>
  The loop of \<open>remove\<close> frees every buffer of the device: no page of any buffer is held afterwards
  and no private structure is left, if freed structures keep their contents.
\<close>

lemma remove_frees_all:
  assumes "lazy_kfree E" and "driver_ok E B0 M0 s"
  shows "\<exists>s'. remove_buffers E (kset_list s) s = Some s' \<and> blocks (mem s') = B0 \<and> pinned (mem s') = M0 \<and>
    (\<forall>a \<in> set (kset_list s). privs s' a = None) \<and> kset_list s' = kset_list s"
  using remove_buffers_frees[of E "kset_list s" s B0 M0] assms
  by (auto simp: driver_ok_def buffers_def comp_def)

section \<open>What the callbacks get wrong\<close>

text \<open>Deletion passes the kobject to \<open>kobject_del\<close> after the structure that contains it was freed.\<close>

lemma delete_uses_freed_kobject:
  assumes "driver_ok E B0 M0 s" and "eager_kfree E"
    and "c_snprintf UIO_PCI_DMA_BUFFER_NAME_SIZE (bytes_string buffer) \<in> set (names s)"
  shows "uio_pci_dma_sysfs_delete_buffer_write E buffer s = None"
  using delete_undefined[OF assms(2,1) refl assms(3)] .

text \<open>\<open>remove\<close> steps from each buffer to the next through the structure it has just freed.\<close>

lemma remove_uses_freed_links:
  assumes "driver_ok E B0 M0 s" and "eager_kfree E" and "kset_list s \<noteq> []"
  shows "remove_buffers E (kset_list s) s = None"
proof -
  obtain a ls where ks: "kset_list s = [] @ a # ls" using assms(3) by (cases "kset_list s") auto
  obtain v where v: "privs s a = Some v" using assms(1) ks by (auto simp: driver_ok_def)
  note t = driver_ok_take[OF assms(1) ks v]
  from t(2) obtain B where "holds E B (kernel_chunks v) (blocks (mem s))" by blast
  from free_registered[OF v t(1) this t(3)] obtain m where
    "uio_pci_dma_free E (Some a) s = Some (UIO_PCI_DMA_SUCCESS, s\<lparr>mem := m, privs := (privs s)(a := None)\<rparr>)" by blast
  then show ?thesis using ks assms(2) by (simp add: readable_def eager_kfree_def)
qed

text \<open>A request of the wrong size unlocks the mutex that it did not lock.\<close>

lemma bad_size_unlocks:
  "length buffer \<noteq> sizeof_private E \<Longrightarrow> \<not> alloc_free_lock s \<Longrightarrow> uio_pci_dma_sysfs_request_buffer_write E buffer s = None"
  by (simp add: uio_pci_dma_sysfs_request_buffer_write_def request_exit_def mutex_unlock_def)

text \<open>
  A request whose memory cannot be allocated frees its structure but leaves the kobject in the list;
  the next search that gets there follows the dangling pointer.
\<close>

lemma failed_request_dangles:
  assumes "\<not> alloc_free_lock s" and "length buffer = sizeof_private E" and "k_zalloc E (sizeof_private E) (kworld (mem s)) = (True, w)"
    and "kset_list s = []" and "CHR ''%'' \<notin> set (pv_name (decode_request buffer))"
    and "k_kobject_add E (pv_name (decode_request buffer)) w = (True, w')"
    and "allocate_memory E ((decode_request buffer)\<lparr>pv_kobj := pv_name (decode_request buffer), pv_length := 0\<rparr>)
           ((mem s)\<lparr>kworld := w'\<rparr>) = Some (UIO_PCI_DMA_ERROR, v, m)"
  shows "\<exists>s'. uio_pci_dma_sysfs_request_buffer_write E buffer s = Some (-1, s') \<and>
    uio_pci_dma_sysfs_delete_buffer_write E other s' = None"
  using assms
  by (auto simp: uio_pci_dma_sysfs_request_buffer_write_def mutex_lock_def kobj_service_def request_body_def Let_def
      request_exit_def mutex_unlock_def uio_pci_dma_sysfs_delete_buffer_write_def)

text \<open>A request for a name in use with other than zero bytes in its pointers passes them to \<open>vfree\<close>.\<close>

lemma refused_request_frees_wild_pointers:
  assumes "driver_ok E B0 M0 s" and "length buffer = sizeof_private E" and "\<forall>n w. fst (k_zalloc E n w)"
    and "pv_name (decode_request buffer) \<in> set (names s)" and "wild_pointers buffer"
  shows "uio_pci_dma_sysfs_request_buffer_write E buffer s = None"
  using assms(1,2)
proof (cases rule: request_cases)
  case (no_memory w)
  then show ?thesis using assms(3) by blast
next
  case (entered w)
  then show ?thesis using assms(4,5) names_find[of s] by (auto simp: request_body_def Let_def)
qed

end
