(* ===== verification/PDA_KernelSpec.thy ===== *)
theory PDA_KernelSpec
  imports PDA_KernelRegistry
begin

text \<open>
  What the two callbacks of the kernel module promise to user space: a registry of buffers by name.
  The specification knows nothing of memory, lists or structures; it says for every call what it
  returns and which buffers there are afterwards. The kernel module refines it on every sequence of
  well-formed calls for which the kernel has the memory. A deletion reads the structure it has freed; the
  refinement is therefore stated for kernels that leave freed structures as they are (\<open>lazy_kfree\<close>).
\<close>

section \<open>The specification\<close>

text \<open>A buffer is its size in bytes, whole pages, and the user address it was made from, or zero.\<close>

type_synonym registry = "string \<rightharpoonup> nat \<times> u64"

datatype call = Request "u8 list" | Delete "u8 list"

definition registry_call :: "nat \<Rightarrow> call \<Rightarrow> registry \<Rightarrow> int \<times> registry" where
  "registry_call request_size c R =
     (case c of
        Request buffer \<Rightarrow>
          let request = decode_request buffer; nm = pv_name request in
          if R nm \<noteq> None then (-1, R)
          else (int request_size, R(nm \<mapsto> ((unat (pv_size request) + 4095) div 4096 * 4096, pv_start request)))
      | Delete buffer \<Rightarrow>
          (int (length buffer), R(c_snprintf UIO_PCI_DMA_BUFFER_NAME_SIZE (bytes_string buffer) := None)))"

section \<open>The calls on the model\<close>

definition driver_call :: "'w kenv \<Rightarrow> call \<Rightarrow> 'w dstate \<Rightarrow> (int \<times> 'w dstate) option" where
  "driver_call E c s =
     (case c of
        Request buffer \<Rightarrow> uio_pci_dma_sysfs_request_buffer_write E buffer s
      | Delete buffer \<Rightarrow> uio_pci_dma_sysfs_delete_buffer_write E buffer s)"

definition registry_of :: "'w dstate \<Rightarrow> registry" where
  "registry_of s = map_of (map (\<lambda>v. (pv_kobj v, (unat (pv_size v), pv_start v))) (buffers s))"

text \<open>Requests of the right size and form; every deletion is allowed.\<close>

definition well_formed :: "'w kenv \<Rightarrow> call \<Rightarrow> bool" where
  "well_formed E c \<longleftrightarrow>
     (case c of
        Request buffer \<Rightarrow> length buffer = sizeof_private E \<and> within_limits buffer \<and> \<not> wild_pointers buffer \<and>
          CHR ''%'' \<notin> set (pv_name (decode_request buffer)) \<and>
          pv_size (decode_request buffer) \<noteq> 0 \<and> pv_start (decode_request buffer) mod KPAGE_SIZE = 0
      | Delete buffer \<Rightarrow> True)"

text \<open>The pages a call may take.\<close>

definition call_pages :: "call \<Rightarrow> nat" where
  "call_pages c = (case c of Request buffer \<Rightarrow> new_pages (decode_request buffer) | Delete buffer \<Rightarrow> 0)"

definition supplied ::
  "'w kenv \<Rightarrow> (u64 \<rightharpoonup> nat) \<Rightarrow> u64 multiset \<Rightarrow> ((u64 \<rightharpoonup> nat) \<Rightarrow> 'w \<Rightarrow> nat \<Rightarrow> bool) \<Rightarrow> nat \<Rightarrow> 'w dstate \<Rightarrow> bool" where
  "supplied E B0 M0 avail n s \<longleftrightarrow> kernel_ok E \<and> plentiful E avail \<and> (\<forall>n w. fst (k_zalloc E n w)) \<and> driver_ok E B0 M0 s \<and>
     avail (blocks (mem s)) (kworld (mem s)) n"

section \<open>Refinement\<close>

lemma registry_of_None: "registry_of s nm \<noteq> None \<longleftrightarrow> nm \<in> set (names s)"
  by (force simp: registry_of_def names_def map_of_eq_None_iff image_image)

lemma registry_of_add:
  assumes "buffers s' = buffers s @ [v]" and "nm \<notin> set (names s)" and "pv_kobj v = nm"
  shows "registry_of s' = (registry_of s)(nm \<mapsto> (unat (pv_size v), pv_start v))"
  using assms registry_of_None[of s nm] by (auto simp: registry_of_def map_add_def fun_eq_iff split: option.splits)

lemma registry_of_filter:
  "buffers s' = filter (\<lambda>v. pv_kobj v \<noteq> nm) (buffers s) \<Longrightarrow> registry_of s' = (registry_of s)(nm := None)"
proof -
  assume *: "buffers s' = filter (\<lambda>v. pv_kobj v \<noteq> nm) (buffers s)"
  have "map_of (map f (filter (\<lambda>v. fst (f v) \<noteq> k) xs)) = (map_of (map f xs))(k := None)" for f :: "uio_pci_dma_private \<Rightarrow> string \<times> nat \<times> u64" and k xs
    by (induction xs) (auto simp: fun_eq_iff)
  from this[of "\<lambda>v. (pv_kobj v, (unat (pv_size v), pv_start v))" nm "buffers s"] * show ?thesis by (simp add: registry_of_def)
qed

text \<open>Releasing leaves the world of the kernel alone and blocks the fewer.\<close>

lemma free_chunks_le: "free_chunks E sg i n s = Some s' \<Longrightarrow> kworld s' = kworld s \<and> blocks s' \<subseteq>\<^sub>m blocks s"
proof (induction E sg i n s rule: free_chunks.induct)
  case (2 E sg i n s)
  then obtain j e s1 where 1: "i = Some j" "list_get sg j = Some e" "free_chunk E e s = Some s1"
    "free_chunks E sg (sg_after sg j) n s1 = Some s'" by (auto simp: bind_eq_Some_conv)
  have "kworld s1 = kworld s" "blocks s1 \<subseteq>\<^sub>m blocks s"
    using 1(3) by (auto simp: free_chunk_def Let_def free_pages_def map_le_def split: if_splits)
  then show ?case using 2(1)[OF 1] by (auto intro: map_le_trans)
qed simp

lemma put_pages_le: "put_pages pl i n s = Some s' \<Longrightarrow> kworld s' = kworld s \<and> blocks s' = blocks s"
  by (induction pl i n s rule: put_pages.induct) (auto simp: bind_eq_Some_conv split: if_splits)

lemma free_memory_le:
  "uio_pci_dma_free_kernel_memory E v m = Some (c, m') \<Longrightarrow> kworld m' = kworld m \<and> blocks m' \<subseteq>\<^sub>m blocks m"
  "uio_pci_dma_free_user_memory v m = Some (c, m') \<Longrightarrow> kworld m' = kworld m \<and> blocks m' \<subseteq>\<^sub>m blocks m"
  by (auto simp: uio_pci_dma_free_kernel_memory_def uio_pci_dma_free_user_memory_def bind_eq_Some_conv
      dest!: free_chunks_le put_pages_le split: if_splits option.splits)

lemma free_le:
  assumes "uio_pci_dma_free E (Some a) s = Some (r, s')" and "plentiful E avail" and "avail (blocks (mem s)) (kworld (mem s)) n"
  shows "avail (blocks (mem s')) (kworld (mem s')) n"
proof -
  obtain v where v: "privs s a = Some v" using assms(1) by (auto simp: uio_pci_dma_free_def bind_eq_Some_conv)
  show ?thesis
  proof (cases "pv_sg v")
    case None
    then show ?thesis using assms(1,3) v by (auto simp: uio_pci_dma_free_def)
  next
    case (Some sg)
    let ?w = "k_dma_unmap_sg E sg (unat (pv_old_length v)) (kworld (mem s))"
    obtain c m where "(if pv_start v = 0 then uio_pci_dma_free_kernel_memory E v ((mem s)\<lparr>kworld := ?w\<rparr>)
        else uio_pci_dma_free_user_memory v ((mem s)\<lparr>kworld := ?w\<rparr>)) = Some (c, m)" and m: "mem s' = m"
      using assms(1) v Some by (auto simp: uio_pci_dma_free_def Let_def bind_eq_Some_conv split: if_splits)
    then have "kworld m = ?w \<and> blocks m \<subseteq>\<^sub>m blocks (mem s)"
      using free_memory_le[where v = v and m = "(mem s)\<lparr>kworld := ?w\<rparr>" and c = c and m' = m] by (auto split: if_splits)
    then show ?thesis
      using plentiful_laws(7)[OF assms(2) plentiful_laws(8)[OF assms(2,3)], of "blocks m" n] m by simp
  qed
qed

lemma kobj_void_avail:
  "avail (blocks (mem (kobj_void f s))) (kworld (mem (kobj_void f s))) n \<longleftrightarrow> avail (blocks (mem s)) (f (kworld (mem s))) n"
  by (simp add: kobj_void_def)

lemma delete_avail:
  assumes "uio_pci_dma_sysfs_delete_buffer_write E buffer s = Some (r, s')" and "plentiful E avail"
    and "avail (blocks (mem s)) (kworld (mem s)) n"
  shows "avail (blocks (mem s')) (kworld (mem s')) n"
proof -
  let ?nm = "c_snprintf UIO_PCI_DMA_BUFFER_NAME_SIZE (bytes_string buffer)"
  let ?s = "s\<lparr>alloc_free_lock := True\<rparr>"
  obtain k where k: "KSET_FIND (privs s) (kset_list s) ?nm = Some k" and lock: "mutex_lock s = Some ?s"
    using assms(1) by (auto simp: uio_pci_dma_sysfs_delete_buffer_write_def mutex_lock_def bind_eq_Some_conv Let_def split: if_splits)
  show ?thesis
  proof (cases k)
    case None
    then show ?thesis using assms(1,3) k lock
      by (auto simp: uio_pci_dma_sysfs_delete_buffer_write_def mutex_unlock_def)
  next
    case (Some a)
    let ?s1 = "kobj_void (k_remove_bin_file E ?nm ''sg'') (kobj_void (k_remove_bin_file E ?nm ''map'') ?s)"
    have a1: "avail (blocks (mem ?s1)) (kworld (mem ?s1)) n"
      using plentiful_laws(10)[OF assms(2) plentiful_laws(10)[OF assms(2,3)]] by (simp add: kobj_void_def)
    obtain c s2 s3 where 2: "uio_pci_dma_free E (Some a) ?s1 = Some (c, s2)" "kobject_del E a ?nm s2 = Some s3" "s' = s3\<lparr>alloc_free_lock := False\<rparr>"
      using assms(1) k lock Some by (auto simp: uio_pci_dma_sysfs_delete_buffer_write_def mutex_unlock_def bind_eq_Some_conv Let_def split: if_splits)
    from plentiful_laws(9)[OF assms(2) free_le[OF 2(1) assms(2) a1]] show ?thesis
      using 2(2) by (auto simp: 2(3) kobject_del_def kobj_void_def split: if_splits)
  qed
qed

lemma refused_avail:
  assumes "driver_ok E B0 M0 s" and "length buffer = sizeof_private E" and "pv_name (decode_request buffer) \<in> set (names s)"
    and run: "uio_pci_dma_sysfs_request_buffer_write E buffer s = Some (r, s')" and plenty: "plentiful E avail" "avail (blocks (mem s)) (kworld (mem s)) n"
  shows "avail (blocks (mem s')) (kworld (mem s')) n"
  using assms(1,2)
proof (cases rule: request_cases)
  case (no_memory w)
  then show ?thesis using plentiful_laws(1)[OF plenty, of "sizeof_private E"] by auto
next
  case (entered w)
  then have "avail (blocks (mem s)) w n" using plentiful_laws(1)[OF plenty, of "sizeof_private E"] by auto
  with entered(1) run assms(3) names_find[of s] show ?thesis
    by (auto simp: request_body_def Let_def request_exit_outside request_entered_def split: if_splits)
qed

text \<open>A request needs nothing of freed structures; a deletion does.\<close>

lemma driver_request_step:
  assumes "supplied E B0 M0 avail (call_pages (Request buffer) + n) s" and "well_formed E (Request buffer)"
  shows "\<exists>r s'. driver_call E (Request buffer) s = Some (r, s') \<and>
    registry_call (sizeof_private E) (Request buffer) (registry_of s) = (r, registry_of s') \<and> supplied E B0 M0 avail n s'"
proof -
  let ?v = "decode_request buffer"
  have s: "kernel_ok E" "\<forall>n w. fst (k_zalloc E n w)" "plentiful E avail" "driver_ok E B0 M0 s" "avail (blocks (mem s)) (kworld (mem s)) (new_pages ?v + n)"
    using assms(1) by (simp_all add: supplied_def call_pages_def)
  have f: "length buffer = sizeof_private E" "within_limits buffer" "\<not> wild_pointers buffer" "CHR ''%'' \<notin> set (pv_name ?v)"
    "affordable avail n ?v (mem s)" using assms(2) s(5) by (simp_all add: well_formed_def affordable_def)
  obtain r s' where run: "uio_pci_dma_sysfs_request_buffer_write E buffer s = Some (r, s')"
    using request_defined[OF s(1,2,4) f(2,1,3,4)] by auto
  show ?thesis
  proof (cases "pv_name ?v \<in> set (names s)")
    case True
    note ref = request_refused[OF s(4) f(1) True run]
    then have "registry_of s' = registry_of s" by (simp add: registry_of_def)
    moreover have "avail (blocks (mem s')) (kworld (mem s')) n"
      using refused_avail[OF s(4) f(1) True run s(3), of n] plentiful_laws(7)[OF s(3,5), of "blocks (mem s)" n] by simp
    ultimately show ?thesis
      using True ref run s registry_of_None[of s "pv_name ?v"]
      by (auto simp: driver_call_def registry_call_def supplied_def Let_def)
  next
    case False
    note p = request_plentiful[OF s(1,3) f(5) s(4) f(2,1) False run]
    then have "r \<noteq> -1" by simp
    from request_registers[OF s(1,4) f(2) run this] obtain v where
      v: "driver_ok E B0 M0 s'" "buffers s' = buffers s @ [v]" "describes (?v\<lparr>pv_kobj := pv_name ?v\<rparr>) v" by blast
    from registry_of_add[OF v(2) False] v(3) have "registry_of s' = (registry_of s)(pv_name ?v \<mapsto>
        ((unat (pv_size ?v) + 4095) div 4096 * 4096, pv_start ?v))" by (simp add: describes_def)
    with False p run s v(1) registry_of_None[of s "pv_name ?v"] show ?thesis
      by (auto simp: driver_call_def registry_call_def supplied_def Let_def)
  qed
qed

lemma driver_delete_step:
  assumes "lazy_kfree E" and "supplied E B0 M0 avail n s"
  shows "\<exists>r s'. driver_call E (Delete buffer) s = Some (r, s') \<and>
    registry_call (sizeof_private E) (Delete buffer) (registry_of s) = (r, registry_of s') \<and> supplied E B0 M0 avail n s'"
proof -
  have s: "plentiful E avail" "driver_ok E B0 M0 s" "avail (blocks (mem s)) (kworld (mem s)) n"
    using assms(2) by (simp_all add: supplied_def)
  from delete_buffers[OF assms(1) s(2) refl, of buffer] obtain s' where
    s': "uio_pci_dma_sysfs_delete_buffer_write E buffer s = Some (int (length buffer), s')" "driver_ok E B0 M0 s'"
      "buffers s' = filter (\<lambda>v. pv_kobj v \<noteq> c_snprintf UIO_PCI_DMA_BUFFER_NAME_SIZE (bytes_string buffer)) (buffers s)" by blast
  from delete_avail[OF s'(1) s(1,3)] registry_of_filter[OF s'(3)] s' assms(2) show ?thesis
    by (simp add: driver_call_def registry_call_def supplied_def)
qed

lemma driver_call_step:
  assumes "lazy_kfree E" and "supplied E B0 M0 avail (call_pages c + n) s" and "well_formed E c"
  shows "\<exists>r s'. driver_call E c s = Some (r, s') \<and> registry_call (sizeof_private E) c (registry_of s) = (r, registry_of s') \<and>
    supplied E B0 M0 avail n s'"
proof (cases c)
  case (Request buffer)
  then show ?thesis using driver_request_step assms(2,3) by blast
next
  case (Delete buffer)
  then show ?thesis using driver_delete_step[OF assms(1), of B0 M0 avail n s buffer] assms(2) by (simp add: call_pages_def)
qed

interpretation driver_spec: call_refinement "driver_call E" "registry_call (sizeof_private E)"
  "\<lambda>n s R. lazy_kfree E \<and> supplied E B0 M0 avail n s \<and> registry_of s = R" call_pages "\<lambda>c R. well_formed E c"
  by unfold_locales (use driver_call_step in blast)


lemma demo_call: "well_formed demo_kernel (Request demo_write)" "call_pages (Request demo_write) = 3"
proof -
  have d: "pv_size (decode_request demo_write) = 12000" "pv_start (decode_request demo_write) = 0"
    using arg_cong[OF demo_write_decoded, of pv_size] arg_cong[OF demo_write_decoded, of pv_start] by (simp_all add: demo_request_def)
  then show "call_pages (Request demo_write) = 3" by (simp add: call_pages_def new_pages_def)
  show "well_formed demo_kernel (Request demo_write)" using d demo_write_facts demo_kernel_ok(3) by (simp add: well_formed_def)
qed


end
