(* ===== verification/PDA_Link.thy ===== *)
theory PDA_Link
  imports PDA_BufferLife PDA_KernelSpec
begin

text \<open>
  The library on top of the kernel module. The files \<open>request\<close> and \<open>free\<close> of a device lead from the
  \<open>write\<close> of the library to the callbacks of the module; what sysfs adds in between is a law. With it a
  request of the library is an entry in the registry of the module, and the release of a buffer takes
  the entry out.
\<close>

section \<open>The files of the module\<close>

text \<open>
  The state of the module is a part \<open>drv\<close> of the world of the library, \<open>opened\<close> the files behind its
  descriptors. Opening gives a new descriptor, closing returns it, and no other call but a \<open>write\<close> to one
  of the two files reaches the module. A \<open>write\<close> to the file \<open>request\<close> is cut to the size of the attribute; a negative result of
  the callback becomes the error of the call.
\<close>

definition quiet :: "('w \<Rightarrow> 'k dstate) \<Rightarrow> ('w \<Rightarrow> int \<Rightarrow> string option) \<Rightarrow> ('w \<Rightarrow> 'r \<times> 'w) \<Rightarrow> bool" where
  "quiet drv opened f \<longleftrightarrow> (\<forall>w. drv (snd (f w)) = drv w \<and> opened (snd (f w)) = opened w)"

definition sysfs_driver ::
  "'w env \<Rightarrow> 'k kenv \<Rightarrow> ('w \<Rightarrow> 'k dstate) \<Rightarrow> ('w \<Rightarrow> int \<Rightarrow> string option) \<Rightarrow> string \<Rightarrow> string \<Rightarrow> bool" where
  "sysfs_driver L K drv opened request free \<longleftrightarrow>
     (\<forall>path mode w. \<exists>fd w'. sys_open L path mode w = (Inr fd, w') \<and> drv w' = drv w \<and>
        opened w (int fd) = None \<and> opened w' = (opened w)(int fd \<mapsto> path)) \<and>
     (\<forall>fd w r w'. sys_close L fd w = (r, w') \<longrightarrow> drv w' = drv w \<and> opened w' = (opened w)(fd := None)) \<and>
     (\<forall>n. quiet drv opened (sys_alloc L n)) \<and> (\<forall>fd m. quiet drv opened (sys_flock L fd m)) \<and>
     (\<forall>path. quiet drv opened (sys_stat_size L path)) \<and> (\<forall>a n fd. quiet drv opened (sys_mmap L a n fd)) \<and>
     (\<forall>a n. quiet drv opened (sys_munmap L a n) \<and> quiet drv opened (sys_mlock L a n) \<and> quiet drv opened (sys_munlock L a n)) \<and>
     (\<forall>fd bs w r k. opened w fd = Some request \<longrightarrow>
        uio_pci_dma_sysfs_request_buffer_write K (take (sizeof_private K) bs) (drv w) = Some (r, k) \<longrightarrow>
        (\<exists>w'. sys_write L fd bs w = (if r < 0 then Inl (- r) else Inr (nat r), w') \<and> drv w' = k \<and> opened w' = opened w)) \<and>
     (\<forall>fd bs w r k. opened w fd = Some free \<longrightarrow>
        uio_pci_dma_sysfs_delete_buffer_write K bs (drv w) = Some (r, k) \<longrightarrow>
        (\<exists>w'. sys_write L fd bs w = (if r < 0 then Inl (- r) else Inr (nat r), w') \<and> drv w' = k \<and> opened w' = opened w))"

lemma sysfs_laws:
  assumes "sysfs_driver L K drv opened request free"
  shows "\<exists>fd w'. sys_open L path mode w = (Inr fd, w') \<and> drv w' = drv w \<and> opened w (int fd) = None \<and> opened w' = (opened w)(int fd \<mapsto> path)"
    and "sys_close L d w = (c, w') \<Longrightarrow> drv w' = drv w \<and> opened w' = (opened w)(d := None)"
    and "opened w d = Some request \<Longrightarrow> uio_pci_dma_sysfs_request_buffer_write K (take (sizeof_private K) bs) (drv w) = Some (r, k) \<Longrightarrow>
      \<exists>w'. sys_write L d bs w = (if r < 0 then Inl (- r) else Inr (nat r), w') \<and> drv w' = k \<and> opened w' = opened w"
    and "opened w d = Some free \<Longrightarrow> uio_pci_dma_sysfs_delete_buffer_write K bs (drv w) = Some (r, k) \<Longrightarrow>
      \<exists>w'. sys_write L d bs w = (if r < 0 then Inl (- r) else Inr (nat r), w') \<and> drv w' = k \<and> opened w' = opened w"
  using assms unfolding sysfs_driver_def by simp_all

lemma sysfs_open:
  assumes "sysfs_driver L K drv opened request free"
  obtains fd w where "pda_spinOpen L path mode PDA_OPEN_DEFAULT_SPIN s = (int fd, s\<lparr>world := w\<rparr>)" "drv w = drv (world s)"
    "opened (world s) (int fd) = None" "opened w = (opened (world s))(int fd \<mapsto> path)"
proof -
  obtain fd w where o: "sys_open L path mode (world s) = (Inr fd, w)" "drv w = drv (world s)" "opened (world s) (int fd) = None"
    "opened w = (opened (world s))(int fd \<mapsto> path)" using sysfs_laws(1)[OF assms] by blast
  then have "pda_spinOpen L path mode PDA_OPEN_DEFAULT_SPIN s = (int fd, s\<lparr>world := w\<rparr>)"
    by (simp add: pda_spinOpen_def pda_spinOpen_loop.simps[of L path mode _ 0] PDA_OPEN_DEFAULT_SPIN_def c_open_def)
  with o(2-4) show thesis using that by blast
qed

lemma sysfs_close:
  assumes "sysfs_driver L K drv opened request free"
  shows "drv (world (snd (c_close L fd s))) = drv (world s) \<and> opened (world (snd (c_close L fd s))) = (opened (world s))(fd := None)"
proof -
  obtain r w where c: "sys_close L fd (world s) = (r, w)" by fastforce
  then have "drv w = drv (world s) \<and> opened w = (opened (world s))(fd := None)" using sysfs_laws(2)[OF assms] by blast
  with c show ?thesis by (cases r) (simp_all add: c_close_def)
qed

lemma sysfs_quiet:
  assumes "sysfs_driver L K drv opened request free"
  shows "quiet drv opened (sys_alloc L n)" "quiet drv opened (sys_flock L fd m)" "quiet drv opened (sys_stat_size L path)"
    "quiet drv opened (sys_mmap L a len fd)" "quiet drv opened (sys_munmap L a len)" "quiet drv opened (sys_mlock L a len)"
    "quiet drv opened (sys_munlock L a len)"
  using assms unfolding sysfs_driver_def by simp_all

definition same_driver :: "('w \<Rightarrow> 'k dstate) \<Rightarrow> ('w \<Rightarrow> int \<Rightarrow> string option) \<Rightarrow> 'w pstate \<Rightarrow> 'w pstate \<Rightarrow> bool" where
  "same_driver drv opened s s' \<longleftrightarrow> drv (world s') = drv (world s) \<and> opened (world s') = opened (world s)"

lemma same_driver_refl [simp]: "same_driver drv opened s s"
  by (simp add: same_driver_def)

lemma same_driver_trans: "same_driver drv opened s s1 \<Longrightarrow> same_driver drv opened s1 s2 \<Longrightarrow> same_driver drv opened s s2"
  by (simp add: same_driver_def)

lemma quiet_sys: "quiet drv opened f \<Longrightarrow> c_sys f s = (r, s') \<Longrightarrow> same_driver drv opened s s'"
  unfolding quiet_def same_driver_def
  by (cases "f (world s)") (auto simp: c_sys_def split: sum.splits dest: spec[of _ "world s"])

lemma quiet_mmap: "quiet drv opened f \<Longrightarrow> c_mmap f s = (m, s') \<Longrightarrow> same_driver drv opened s s'"
  unfolding quiet_def same_driver_def
  by (cases "f (world s)") (auto simp: c_mmap_def c_sys_def split: sum.splits dest: spec[of _ "world s"])

lemma quiet_alloc: "quiet drv opened (sys_alloc L n) \<Longrightarrow> c_alloc L n s = (ok, s') \<Longrightarrow> same_driver drv opened s s'"
  unfolding quiet_def same_driver_def
  by (cases "sys_alloc L n (world s)") (auto simp: c_alloc_def split: bool.splits dest: spec[of _ "world s"])

lemma sysfs_write:
  assumes "sysfs_driver L K drv opened request free"
    and "(opened (world s) fd = Some request \<and> uio_pci_dma_sysfs_request_buffer_write K (take (sizeof_private K) bs) (drv (world s)) = Some (r, k)) \<or>
      (opened (world s) fd = Some free \<and> uio_pci_dma_sysfs_delete_buffer_write K bs (drv (world s)) = Some (r, k))"
  obtains w where "c_sys (sys_write L fd bs) s = (if r < 0 then (None, s\<lparr>world := w, errno := - r\<rparr>) else (Some (nat r), s\<lparr>world := w\<rparr>))"
    "drv w = k" "opened w = opened (world s)"
proof -
  obtain w where "sys_write L fd bs (world s) = (if r < 0 then Inl (- r) else Inr (nat r), w)" "drv w = k" "opened w = opened (world s)"
    using assms(2) sysfs_laws(3,4)[OF assms(1)] by blast
  then show thesis using that[of w] by (simp add: c_sys_def)
qed

section \<open>Requests\<close>

text \<open>What the module is asked for when the library requests the memory of a buffer.\<close>

definition library_request :: "'k kenv \<Rightarrow> string \<Rightarrow> u64 \<Rightarrow> int \<Rightarrow> u64 \<Rightarrow> call" where
  "library_request K nm len numa start = Request (take (sizeof_private K) (request_bytes nm len numa start))"

lemma library_request_well_formed:
  assumes "1108 \<le> sizeof_private K" "sizeof_private K \<le> 3164" and nm: "char_of (0 :: nat) \<notin> set nm" "CHR ''%'' \<notin> set nm"
    and "len \<noteq> 0" and "start mod KPAGE_SIZE = 0"
    and lim: "if start = 0 then unat len \<le> 2 ^ 64 - 4096 else unat len < 2 ^ 42"
  shows "well_formed K (library_request K nm len numa start)"
    and "call_pages (library_request K nm len numa start) = (if start = 0 then (unat len + 4095) div 4096 else 0)"
    and "registry_call n (library_request K nm len numa start) R =
      (let nm' = c_snprintf UIO_PCI_DMA_BUFFER_NAME_SIZE nm in
       if R nm' \<noteq> None then (-1, R) else (int n, R(nm' \<mapsto> ((unat len + 4095) div 4096 * 4096, start))))"
proof -
  define bs where "bs = take (sizeof_private K) (request_bytes nm len numa start)"
  note d = decode_request_bytes[OF nm(1) assms(1,2), of len numa start, folded bs_def]
  have "CHR ''%'' \<notin> set (c_snprintf UIO_PCI_DMA_BUFFER_NAME_SIZE nm)" using nm(2) by (auto simp: c_snprintf_def dest: in_set_takeD)
  with d assms show "well_formed K (library_request K nm len numa start)"
    by (simp add: well_formed_def library_request_def within_limits_def Let_def split: if_splits flip: bs_def)
  show "call_pages (library_request K nm len numa start) = (if start = 0 then (unat len + 4095) div 4096 else 0)"
    using d by (simp add: call_pages_def library_request_def new_pages_def flip: bs_def)
  show "registry_call n (library_request K nm len numa start) R =
      (let nm' = c_snprintf UIO_PCI_DMA_BUFFER_NAME_SIZE nm in
       if R nm' \<noteq> None then (-1, R) else (int n, R(nm' \<mapsto> ((unat len + 4095) div 4096 * 4096, start))))"
    using d by (simp add: registry_call_def library_request_def Let_def flip: bs_def)
qed

text \<open>
  A request of the library reaches the registry of the module. With the files of the device
  leading to the module and enough memory in the kernel, \<open>DMABuffer_requestMemory\<close> succeeds exactly if no
  buffer of that name is registered; then one is, with the length of the buffer object in whole pages and the
  start address given, and all others are as before. Otherwise it returns an error and the registry stays as it was. Of the buffer object only the
  descriptor changes, and no descriptor that was open is closed.
\<close>

lemma requestMemory_registers:
  assumes link: "sysfs_driver L K drv opened request free" and K: "1108 \<le> sizeof_private K" "sizeof_private K \<le> 3164"
    and buf: "bufs s a = Some b" "internal b = Some i" "uio_filepath_request i = request"
    and dev: "devs s d = Some dv" "dev_internal dv = Some wp"
    and nm: "char_of (0 :: nat) \<notin> set (name i)" "CHR ''%'' \<notin> set (name i)"
    and size: "buf_length b \<noteq> 0" "start mod KPAGE_SIZE = 0"
      "if start = 0 then unat (buf_length b) \<le> 2 ^ 64 - 4096 else unat (buf_length b) < 2 ^ 42"
    and drv: "supplied K B0 M0 avail ((if start = 0 then (unat (buf_length b) + 4095) div 4096 else 0) + n) (drv (world s))"
  shows "\<exists>r s'. DMABuffer_requestMemory L d a start s = Some (r, s') \<and> supplied K B0 M0 avail n (drv (world s')) \<and>
    (\<exists>fd. bufs s' a = Some (b\<lparr>internal := Some (i\<lparr>alloc_fd := fd\<rparr>)\<rparr>) \<and> (r = PDA_SUCCESS \<longrightarrow> fd = -1)) \<and>
    opened (world s) \<subseteq>\<^sub>m opened (world s') \<and>
    (let R = registry_of (drv (world s)); nm = c_snprintf UIO_PCI_DMA_BUFFER_NAME_SIZE (name i) in
     if R nm = None
     then r = PDA_SUCCESS \<and> registry_of (drv (world s')) = R(nm \<mapsto> ((unat (buf_length b) + 4095) div 4096 * 4096, start))
     else 0 < r \<and> registry_of (drv (world s')) = R)"
proof -
  define numa where "numa = (if cfg_NUMA_AVAIL L then numa_node wp else -1)"
  have numa: "(if cfg_NUMA_AVAIL L then PciDevice_getNumaNode L d s else Some (-1)) = Some numa"
    using dev by (simp add: PciDevice_getNumaNode_def get_workp_def numa_def)
  let ?bs = "request_bytes (name i) (buf_length b) numa start"
  obtain fd w1 where o: "pda_spinOpen L request O_WRONLY PDA_OPEN_DEFAULT_SPIN s = (int fd, s\<lparr>world := w1\<rparr>)"
    "drv w1 = drv (world s)" "opened w1 = (opened (world s))(int fd \<mapsto> request)" "opened (world s) (int fd) = None" by (rule sysfs_open[OF link])
  define s2 where "s2 = s\<lparr>world := w1, bufs := (bufs s)(a \<mapsto> b\<lparr>internal := Some (i\<lparr>alloc_fd := int fd\<rparr>)\<rparr>)\<rparr>"
  note wf = library_request_well_formed[OF K nm size, where numa = numa]
  obtain r k where c: "uio_pci_dma_sysfs_request_buffer_write K (take (sizeof_private K) ?bs) (drv (world s)) = Some (r, k)"
    "registry_call (sizeof_private K) (library_request K (name i) (buf_length b) numa start) (registry_of (drv (world s))) = (r, registry_of k)"
    "supplied K B0 M0 avail n k"
    using driver_request_step[OF drv[folded wf(2), unfolded library_request_def] wf(1)[unfolded library_request_def]]
    by (auto simp: driver_call_def library_request_def)
  have "opened (world s2) (int fd) = Some request \<and> uio_pci_dma_sysfs_request_buffer_write K (take (sizeof_private K) ?bs) (drv (world s2)) = Some (r, k)"
    using o(2,3) c(1) by (simp add: s2_def)
  then obtain w3 where w: "c_sys (sys_write L (int fd) ?bs) s2 = (if r < 0 then (None, s2\<lparr>world := w3, errno := - r\<rparr>) else (Some (nat r), s2\<lparr>world := w3\<rparr>))"
    "drv w3 = k" "opened w3 = opened (world s2)" by (rule sysfs_write[OF link disjI1])
  have run: "DMABuffer_requestMemory L d a start s = (if r < 0 then Some (- r, s2\<lparr>world := w3, errno := - r\<rparr>)
      else if nat r = 0 then Some (errno s2, s2\<lparr>world := w3\<rparr>)
      else do { s \<leftarrow> upd_int a (\<lambda>i. i\<lparr>alloc_fd := -1\<rparr>) (snd (c_close L (int fd) (s2\<lparr>world := w3\<rparr>))); Some (PDA_SUCCESS, s) })"
    using buf o(1) w(1) numa by (simp add: DMABuffer_requestMemory_def upd_int_def Let_def s2_def)
  have "bufs (snd (c_close L (int fd) (s2\<lparr>world := w3\<rparr>))) = bufs s2" using c_close_heaps[of L "int fd" "s2\<lparr>world := w3\<rparr>"]
    by (auto simp: same_heaps_def intro: prod.collapse[symmetric])
  then obtain s4 where s4: "upd_int a (\<lambda>i. i\<lparr>alloc_fd := -1\<rparr>) (snd (c_close L (int fd) (s2\<lparr>world := w3\<rparr>))) = Some s4"
    "world s4 = world (snd (c_close L (int fd) (s2\<lparr>world := w3\<rparr>)))" "bufs s4 a = Some (b\<lparr>internal := Some (i\<lparr>alloc_fd := -1\<rparr>)\<rparr>)"
    by (simp add: upd_int_def s2_def)
  have d4: "drv (world s4) = k" "opened (world s4) = opened (world s)"
    using sysfs_close[OF link, of "int fd" "s2\<lparr>world := w3\<rparr>"] s4(2) w(2,3) o(3,4) by (auto simp: s2_def)
  have op: "opened (world s) \<subseteq>\<^sub>m opened w3" using w(3) o(3,4) by (auto simp: s2_def map_le_def)
  show ?thesis
  proof (cases "registry_of (drv (world s)) (c_snprintf UIO_PCI_DMA_BUFFER_NAME_SIZE (name i)) = None")
    case True
    then have "r = int (sizeof_private K)" "registry_of k = (registry_of (drv (world s)))(c_snprintf UIO_PCI_DMA_BUFFER_NAME_SIZE (name i)
        \<mapsto> ((unat (buf_length b) + 4095) div 4096 * 4096, start))" using c(2) wf(3)[where n = "sizeof_private K" and R = "registry_of (drv (world s))"] by (auto simp: Let_def)
    with True run s4(1,3) d4 c(3) K(1) show ?thesis by (auto simp: Let_def)
  next
    case False
    then have "r = -1" "registry_of k = registry_of (drv (world s))"
      using c(2) wf(3)[where n = "sizeof_private K" and R = "registry_of (drv (world s))"] by (auto simp: Let_def)
    with False run w(2) c(3) op show ?thesis by (auto simp: Let_def s2_def)
  qed
qed

section \<open>Release\<close>

text \<open>The open files after those of a buffer were closed.\<close>

definition closing :: "DMABufferInternal \<Rightarrow> (int \<Rightarrow> string option) \<Rightarrow> int \<Rightarrow> string option" where
  "closing i f fd = (if 0 \<le> fd \<and> (fd = alloc_fd i \<or> fd = map_fd i) then None else f fd)"

lemma closeFiles_link:
  assumes link: "sysfs_driver L K drv opened request free" and b: "bufs s a = Some b" "internal b = Some i"
  obtains s' i' where "DMABuffer_closeFiles L a s = Some s'" "drv (world s') = drv (world s)" "opened (world s') = closing i (opened (world s))"
    "bufs s' a = Some (b\<lparr>internal := Some i'\<rparr>)" "alloc_fd i' < 0" "map_fd i' < 0"
proof -
  define s1 where "s1 = (if 0 \<le> alloc_fd i then snd (c_close L (alloc_fd i) s) else s)"
  define s2 where "s2 = (if 0 \<le> map_fd i then snd (c_close L (map_fd i) s1) else s1)"
  define i' where "i' = i\<lparr>alloc_fd := if 0 \<le> alloc_fd i then -1 else alloc_fd i, map_fd := if 0 \<le> map_fd i then -1 else map_fd i\<rparr>"
  have "drv (world s2) = drv (world s)" "opened (world s2) = closing i (opened (world s))"
    using sysfs_close[OF link, of "alloc_fd i" s] sysfs_close[OF link, of "map_fd i" s1] by (auto simp: s1_def s2_def closing_def fun_eq_iff)
  moreover have "DMABuffer_closeFiles L a s = Some (s2\<lparr>bufs := (bufs s2)(a \<mapsto> b\<lparr>internal := Some i'\<rparr>)\<rparr>)"
    using b by (auto simp: DMABuffer_closeFiles_def Let_def s2_def s1_def i'_def)
  ultimately show thesis using that[of "s2\<lparr>bufs := (bufs s2)(a \<mapsto> b\<lparr>internal := Some i'\<rparr>)\<rparr>" i'] by (simp add: i'_def)
qed

text \<open>
  The release of a buffer by the library takes its name out of the registry of the module, and nothing
  else, whatever the registry holds: the second half of \<open>DMABuffer_free\<close>, once the lock on the mapping is
  granted, opens the file, closes those of the buffer, writes the name and reports success. The module reads the structure
  it has freed for this; hence the premise on the kernel.
\<close>

lemma free_driver_unregisters:
  assumes link: "sysfs_driver L K drv opened request free" and lazy: "lazy_kfree K" and drv: "driver_ok K B0 M0 (drv (world s))"
    and buf: "bufs s a = Some b" "internal b = Some i" "uio_filepath_delete i = free"
    and fds: "0 \<le> alloc_fd i \<longrightarrow> opened (world s) (alloc_fd i) \<noteq> None" "0 \<le> map_fd i \<longrightarrow> opened (world s) (map_fd i) \<noteq> None"
    and nm: "char_of (0 :: nat) \<notin> set (name i)" and lock: "\<forall>fd m. granted (sys_flock L fd m)"
  obtains s' i' where "free_driver L a PDA_DELETE s = Some (True, s')" "driver_ok K B0 M0 (drv (world s'))"
    "registry_of (drv (world s')) = (registry_of (drv (world s)))(c_snprintf UIO_PCI_DMA_BUFFER_NAME_SIZE (name i) := None)"
    "opened (world s') = closing i (opened (world s))" "bufs s' a = Some (b\<lparr>internal := Some i'\<rparr>)" "alloc_fd i' < 0" "map_fd i' < 0"
    "\<forall>avail n. supplied K B0 M0 avail n (drv (world s)) \<longrightarrow> supplied K B0 M0 avail n (drv (world s'))"
proof -
  obtain r s1 where f: "c_sys (sys_flock L (map_fd i) LOCK_EX) s = (r, s1)" by fastforce
  then obtain u where r: "r = Some u" using c_sys_granted[OF _ f] lock by blast
  have w1: "drv (world s1) = drv (world s)" "opened (world s1) = opened (world s)"
    using quiet_sys[OF sysfs_quiet(2)[OF link] f] by (auto simp: same_driver_def)
  have b1: "bufs s1 = bufs s" using c_sys_heaps[OF f] by (simp add: same_heaps_def)
  obtain fd w2 where o: "pda_spinOpen L free O_WRONLY PDA_OPEN_DEFAULT_SPIN s1 = (int fd, s1\<lparr>world := w2\<rparr>)"
    "drv w2 = drv (world s1)" "opened (world s1) (int fd) = None" "opened w2 = (opened (world s1))(int fd \<mapsto> free)" by (rule sysfs_open[OF link])
  have fd: "int fd \<noteq> alloc_fd i" "int fd \<noteq> map_fd i" using fds o(3) w1(2) by auto
  have "bufs (s1\<lparr>world := w2\<rparr>) a = Some b" using buf(1) b1 by simp
  then obtain s3 i' where c: "DMABuffer_closeFiles L a (s1\<lparr>world := w2\<rparr>) = Some s3" "drv (world s3) = drv (world (s1\<lparr>world := w2\<rparr>))"
    "opened (world s3) = closing i (opened (world (s1\<lparr>world := w2\<rparr>)))" "bufs s3 a = Some (b\<lparr>internal := Some i'\<rparr>)" "alloc_fd i' < 0" "map_fd i' < 0"
    using buf(2) by (rule closeFiles_link[OF link])
  have d3: "drv (world s3) = drv (world s)" using c(2) o(2) w1(1) by simp
  let ?bs = "c_string_bytes (name i)"
  have n: "bytes_string ?bs = name i" using bytes_string_char_bytes[OF nm, of 1] by (simp add: c_string_bytes_def)
  from delete_buffers[OF lazy drv refl, of ?bs] obtain k where k: "uio_pci_dma_sysfs_delete_buffer_write K ?bs (drv (world s)) = Some (int (length ?bs), k)"
    "driver_ok K B0 M0 k" "buffers k = filter (\<lambda>v. pv_kobj v \<noteq> c_snprintf UIO_PCI_DMA_BUFFER_NAME_SIZE (name i)) (buffers (drv (world s)))"
    unfolding n by blast
  have "opened (world s3) (int fd) = Some free \<and> uio_pci_dma_sysfs_delete_buffer_write K ?bs (drv (world s3)) = Some (int (length ?bs), k)"
    using c(3) d3 k(1) o(4) fd by (simp add: closing_def)
  then obtain w4 where w: "c_sys (sys_write L (int fd) ?bs) s3 = (Some (nat (int (length ?bs))), s3\<lparr>world := w4\<rparr>)" "drv w4 = k" "opened w4 = opened (world s3)"
    using sysfs_write[OF link disjI2, of s3 "int fd" ?bs "int (length ?bs)" k] by auto
  obtain x s5 where cl: "c_close L (int fd) (s3\<lparr>world := w4\<rparr>) = (x, s5)" by fastforce
  have run: "free_driver L a PDA_DELETE s = Some (True, s5)"
    using buf f r o(1) c(1) w(1) cl by (simp add: free_driver_def Let_def)
  have s5: "drv (world s5) = k" "opened (world s5) = closing i (opened (world s))" "bufs s5 a = Some (b\<lparr>internal := Some i'\<rparr>)"
    using sysfs_close[OF link, of "int fd" "s3\<lparr>world := w4\<rparr>"] w(2,3) c(3,4) o(3,4) w1(2) fd cl c_close_heaps[OF cl]
    by (auto simp: closing_def fun_eq_iff same_heaps_def)
  have "supplied K B0 M0 avail n k" if "supplied K B0 M0 avail n (drv (world s))" for avail n
    using that k(2) delete_avail[OF k(1), of avail n] by (simp add: supplied_def)
  with run k(2) registry_of_filter[OF k(3)] s5 c(5,6) show thesis using that[of s5 i'] by simp
qed

section \<open>A module behind two files\<close>

text \<open>A world with the demonstration kernel's module and a table of open files.\<close>

type_synonym linked_world = "nat dstate \<times> (int \<times> string) list"

definition new_fd :: "(int \<times> string) list \<Rightarrow> nat" where
  "new_fd fs = nat (foldr max (map fst fs) (-1) + 1)"

lemma new_fd_fresh: "map_of fs (int (new_fd fs)) = None"
proof -
  have le: "(fd, p) \<in> set fs \<Longrightarrow> fd \<le> foldr max (map fst fs) (-1)" for fd p by (induction fs) auto
  have "- 1 \<le> foldr max (map fst fs) (-1)" by (induction fs) auto
  then have "int (new_fd fs) = foldr max (map fst fs) (-1) + 1" by (simp add: new_fd_def)
  then show ?thesis using le by (force simp: map_of_eq_None_iff)
qed

definition demo_request_path :: string where "demo_request_path = dma_path (dev_bdf demo_device) ''request''"
definition demo_free_path :: string where "demo_free_path = dma_path (dev_bdf demo_device) ''free''"

lemma demo_paths_differ: "demo_free_path \<noteq> demo_request_path"
  by code_simp

definition driver_write :: "int \<Rightarrow> u8 list \<Rightarrow> linked_world \<Rightarrow> (int + nat) \<times> linked_world" where
  "driver_write fd bs w =
     (case (if map_of (snd w) fd = Some demo_request_path
            then uio_pci_dma_sysfs_request_buffer_write demo_kernel (take (sizeof_private demo_kernel) bs) (fst w)
            else if map_of (snd w) fd = Some demo_free_path
            then uio_pci_dma_sysfs_delete_buffer_write demo_kernel bs (fst w)
            else Some (int (length bs), fst w)) of
        None \<Rightarrow> (Inl EINVAL, w)
      | Some (r, k) \<Rightarrow> (if r < 0 then Inl (- r) else Inr (nat r), (k, snd w)))"

definition linked_env :: "linked_world env" where
  "linked_env = calm_env\<lparr>
     sys_open := (\<lambda>path mode w. (Inr (new_fd (snd w)), (fst w, (int (new_fd (snd w)), path) # snd w))),
     sys_close := (\<lambda>fd w. (Inr (), (fst w, filter (\<lambda>f. fst f \<noteq> fd) (snd w)))),
     sys_write := driver_write\<rparr>"

lemma map_of_filter_key: "map_of (filter (\<lambda>f. fst f \<noteq> k) fs) = (map_of fs)(k := None)"
  by (induction fs) (auto simp: fun_eq_iff)

lemma linked_env_law: "sysfs_driver linked_env demo_kernel fst (\<lambda>w. map_of (snd w)) demo_request_path demo_free_path"
  unfolding sysfs_driver_def
  by (simp add: quiet_def linked_env_def calm_env_def new_fd_fresh map_of_filter_key driver_write_def demo_paths_differ)

text \<open>A process with a device and no buffers.\<close>

definition linked_process :: "linked_world pstate" where
  "linked_process = \<lparr>errno = 0, debug_mask = 0, activated = 0, channel = [], world = (demo_dstate, []),
     bufs = Map.empty, bars = Map.empty, devs = [1 \<mapsto> demo_device], brk = 10, uio_sysfs_dir = []\<rparr>"

lemma demo_supplied: "n < 2 ^ 57 \<Longrightarrow> supplied demo_kernel Map.empty {#} demo_avail n demo_dstate"
  using demo_kernel_ok(1,2) demo_kernel_plentiful demo_dstate_ok(1) demo_kstate_avail[of n]
  by (simp add: supplied_def) (simp add: demo_dstate_def)

end
