(* ===== verification/PDA_LinkLife.thy ===== *)
theory PDA_LinkLife
  imports PDA_Link
begin

text \<open>
  The life of a buffer across the library and the kernel module: \<open>DMABuffer_new\<close> of a kernel or user
  buffer is an insertion into the registry of the module together with the list of the device,
  \<open>DMABuffer_free\<close> the deletion from both.
\<close>

section \<open>Names\<close>

lemma digit_char_plain:
  assumes "d < 10"
  shows "digit_char d \<noteq> char_of (0 :: nat) \<and> digit_char d \<noteq> CHR ''%''"
proof -
  have "char_digit (char_of (0 :: nat)) = None" "char_digit (CHR ''%'') = None" by (simp_all add: char_digit_def Let_def)
  then show ?thesis using char_digit_digit_char[of d] assms by auto
qed

lemma fmt_dec_plain: "char_of (0 :: nat) \<notin> set (fmt_dec n) \<and> CHR ''%'' \<notin> set (fmt_dec n)"
  using nat_digits_less[of 10 _ n] digit_char_plain by (force simp: fmt_dec_def print_nat_def)

lemma fmt_dec_short:
  assumes "20 < k"
  shows "c_snprintf k (fmt_dec (unat (x :: u64))) = fmt_dec (unat x)"
proof -
  have "unat x < 10 ^ 20" using unat_bound[of x] by simp
  then have "length (fmt_dec (unat x)) \<le> 20" using length_nat_digits[of 10 "unat x" 20] by (simp add: fmt_dec_def print_nat_def)
  with assms show ?thesis by (simp add: c_snprintf_def)
qed


section \<open>Creation\<close>

text \<open>Every call but \<open>write\<close> and \<open>close\<close> that creation makes is granted.\<close>

definition obliging :: "'w env \<Rightarrow> bool" where
  "obliging L \<longleftrightarrow> (\<forall>n w. fst (sys_alloc L n w)) \<and> (\<forall>fd m. granted (sys_flock L fd m)) \<and> (\<forall>path. granted (sys_stat_size L path)) \<and>
     (\<forall>a n fd. granted (sys_mmap L a n fd)) \<and> (\<forall>a n. granted (sys_mlock L a n))"

text \<open>The object at \<open>a\<close> stands for the buffer of the given name in the module; its descriptors are open.\<close>

definition connected :: "('w \<Rightarrow> int \<Rightarrow> string option) \<Rightarrow> string \<Rightarrow> string \<Rightarrow> addr \<Rightarrow> 'w pstate \<Rightarrow> bool" where
  "connected opened free nm a s \<longleftrightarrow> (\<exists>b i. bufs s a = Some b \<and> internal b = Some i \<and> name i = nm \<and> uio_filepath_delete i = free \<and>
     (0 \<le> alloc_fd i \<longrightarrow> opened (world s) (alloc_fd i) \<noteq> None) \<and> (0 \<le> map_fd i \<longrightarrow> opened (world s) (map_fd i) \<noteq> None))"

text \<open>As creation leaves it: the descriptor of the request is closed, that of the mapping is \<open>fd\<close>.\<close>

definition held :: "('w \<Rightarrow> int \<Rightarrow> string option) \<Rightarrow> string \<Rightarrow> string \<Rightarrow> int \<Rightarrow> addr \<Rightarrow> 'w pstate \<Rightarrow> bool" where
  "held opened free nm fd a s \<longleftrightarrow> (\<exists>b i. bufs s a = Some b \<and> internal b = Some i \<and> name i = nm \<and> uio_filepath_delete i = free \<and>
     alloc_fd i = -1 \<and> map_fd i = fd \<and> opened (world s) fd \<noteq> None)"

lemma held_connected: "held opened free nm fd a s \<Longrightarrow> connected opened free nm a s"
  by (auto simp: held_def connected_def)

lemma map_link:
  assumes link: "sysfs_driver L K drv opened request free" and L: "obliging L" "posix_env L"
    and b: "bufs s a = Some b" "internal b = Some i"
  shows "\<exists>s' fd. DMABuffer_map L a s = Some (PDA_SUCCESS, s') \<and> drv (world s') = drv (world s) \<and>
    opened (world s) fd = None \<and> opened (world s') = (opened (world s))(fd \<mapsto> uio_filepath_map i) \<and>
    (\<exists>b'. bufs s' a = Some b' \<and> internal b' = Some (i\<lparr>map_fd := fd\<rparr>)) \<and>
    (alloc_fd i = -1 \<longrightarrow> held opened (uio_filepath_delete i) (name i) fd a s')"
proof -
  define s1 where "s1 = s\<lparr>bufs := (bufs s)(a \<mapsto> b\<lparr>internal := Some (i\<lparr>map_fd := -1\<rparr>)\<rparr>)\<rparr>"
  obtain fd w where o: "pda_spinOpen L (uio_filepath_map i) O_RDWR PDA_OPEN_DEFAULT_SPIN s1 = (int fd, s1\<lparr>world := w\<rparr>)" "drv w = drv (world s1)"
    "opened w = (opened (world s1))(int fd \<mapsto> uio_filepath_map i)" "opened (world s1) (int fd) = None" by (rule sysfs_open[OF link])
  define s2 where "s2 = s1\<lparr>world := w, bufs := (bufs s)(a \<mapsto> b\<lparr>internal := Some (i\<lparr>map_fd := int fd\<rparr>)\<rparr>)\<rparr>"
  obtain r3 s3 where 3: "c_sys (sys_flock L (int fd) LOCK_SH) s2 = (r3, s3)" by fastforce
  obtain r4 s4 where 4: "c_sys (sys_stat_size L (uio_filepath_map i)) s3 = (r4, s4)" by fastforce
  obtain u sz where g: "r3 = Some u" "r4 = Some sz" using c_sys_granted[OF _ 3] c_sys_granted[OF _ 4] L(1) by (auto simp: obliging_def)
  obtain m s5 where 5: "c_mmap (sys_mmap L 0 sz (int fd)) s4 = (m, s5)" by fastforce
  have m: "m \<noteq> MAP_FAILED" using 5 L(1) posix_mmap(2)[OF L(2), of 0 sz "int fd"] unfolding obliging_def granted_def
    by (cases "sys_mmap L 0 sz (int fd) (world s4)") (auto simp: c_mmap_def c_sys_def split: sum.splits)
  have q: "same_driver drv opened s2 s5"
    using quiet_sys[OF sysfs_quiet(2)[OF link] 3] quiet_sys[OF sysfs_quiet(3)[OF link] 4] quiet_mmap[OF sysfs_quiet(4)[OF link] 5]
    by (blast intro: same_driver_trans)
  have bs: "bufs s5 = bufs s2" using c_sys_heaps[OF 3] c_sys_heaps[OF 4] c_mmap_heaps[OF 5] by (simp add: same_heaps_def)
  define s6 where "s6 = s5\<lparr>bufs := (bufs s5)(a \<mapsto> b\<lparr>internal := Some (i\<lparr>map_fd := int fd\<rparr>), buf_map := m, buf_length := sz\<rparr>)\<rparr>"
  have "DMABuffer_map L a s = Some (PDA_SUCCESS, s6)"
    using b o(1) 3 4 5 g m bs unfolding DMABuffer_map_def s6_def
    by (simp add: upd_int_def get_int_def upd_buf_def s1_def s2_def Let_def heap_upd_def)
  moreover have "drv (world s6) = drv (world s)" "opened (world s6) = (opened (world s))(int fd \<mapsto> uio_filepath_map i)"
    using q o by (simp_all add: same_driver_def s6_def s2_def s1_def)
  ultimately show ?thesis using o(4) by (intro exI[of _ s6] exI[of _ "int fd"]) (simp add: held_def s6_def s1_def)
qed

lemma mapUser_link:
  assumes link: "sysfs_driver L K drv opened request free" and b: "bufs s a = Some b" "internal b = Some i" "alloc_fd i = -1"
  shows "\<exists>s' fd. DMABuffer_mapUser L a start s = Some (PDA_SUCCESS, s') \<and> drv (world s') = drv (world s) \<and>
    opened (world s) fd = None \<and> opened (world s') = (opened (world s))(fd \<mapsto> uio_filepath_map i) \<and>
    held opened (uio_filepath_delete i) (name i) fd a s'"
proof -
  define s1 where "s1 = s\<lparr>bufs := (bufs s)(a \<mapsto> b\<lparr>buf_map := start\<rparr>)\<rparr>"
  obtain fd w where o: "pda_spinOpen L (uio_filepath_map i) O_RDWR PDA_OPEN_DEFAULT_SPIN s1 = (int fd, s1\<lparr>world := w\<rparr>)" "drv w = drv (world s1)"
    "opened w = (opened (world s1))(int fd \<mapsto> uio_filepath_map i)" "opened (world s1) (int fd) = None" by (rule sysfs_open[OF link])
  define s2 where "s2 = s1\<lparr>world := w, bufs := (bufs s)(a \<mapsto> b\<lparr>buf_map := start, internal := Some (i\<lparr>map_fd := int fd\<rparr>)\<rparr>)\<rparr>"
  have "DMABuffer_mapUser L a start s = Some (PDA_SUCCESS, s2)"
    using b(1,2) o(1) unfolding DMABuffer_mapUser_def s2_def by (simp add: upd_int_def get_int_def upd_buf_def s1_def Let_def heap_upd_def)
  with o b(3) show ?thesis by (intro exI[of _ s2] exI[of _ "int fd"]) (simp add: held_def s2_def s1_def)
qed

lemma generatePaths_link:
  assumes "bufs s a = Some b" "internal b = Some i" "devs s d = Some dev"
  obtains i' where "DMABuffer_generatePaths L a (Some d) s = Some (PDA_SUCCESS, s\<lparr>bufs := (bufs s)(a \<mapsto> b\<lparr>internal := Some i'\<rparr>)\<rparr>)"
    "name i' = fmt_dec (unat (buf_index b))" "uio_filepath_request i' = dma_path (dev_bdf dev) ''request''"
    "uio_filepath_delete i' = dma_path (dev_bdf dev) ''free''" "alloc_fd i' = alloc_fd i"
proof -
  have "c_snprintf PDA_STRING_LIMIT (fmt_dec (unat (buf_index b))) = fmt_dec (unat (buf_index b))"
    by (rule fmt_dec_short) (simp add: PDA_STRING_LIMIT_def)
  with assms show thesis by (intro that[of "i\<lparr>name := fmt_dec (unat (buf_index b)), uio_filepath_request := dma_path (dev_bdf dev) ''request'',
      uio_filepath_delete := dma_path (dev_bdf dev) ''free'', uio_filepath_map := dma_path (dev_bdf dev) (fmt_dec (unat (buf_index b)) @ ''/map''),
      uio_filepath_folder := dma_path (dev_bdf dev) (fmt_dec (unat (buf_index b)) @ ''/'')\<rparr>"])
    (simp_all add: DMABuffer_generatePaths_def upd_int_def DMABuffer_get_ids_def Let_def)
qed

text \<open>
  The outcome of a creation on the registry: with the name free, success and the new entry; otherwise a
  failure and no change.
\<close>

definition inserts :: "registry \<Rightarrow> string \<Rightarrow> nat \<times> u64 \<Rightarrow> bool \<Rightarrow> registry \<Rightarrow> bool" where
  "inserts R nm v ok R' \<longleftrightarrow> (if R nm = None then ok \<and> R' = R(nm \<mapsto> v) else \<not> ok \<and> R' = R)"

text \<open>What creation assumes of the system, the module and the arguments.\<close>

definition linked :: "'w env \<Rightarrow> 'k kenv \<Rightarrow> ('w \<Rightarrow> 'k dstate) \<Rightarrow> ('w \<Rightarrow> int \<Rightarrow> string option) \<Rightarrow> PciDevice \<Rightarrow> bool" where
  "linked L K drv opened dev \<longleftrightarrow>
     sysfs_driver L K drv opened (dma_path (dev_bdf dev) ''request'') (dma_path (dev_bdf dev) ''free'') \<and>
     1108 \<le> sizeof_private K \<and> sizeof_private K \<le> 3164 \<and> posix_env L \<and> obliging L"

definition proper :: "u64 \<Rightarrow> u64 \<Rightarrow> bool" where
  "proper start len \<longleftrightarrow> len \<noteq> 0 \<and> start mod KPAGE_SIZE = 0 \<and>
     (if start = 0 then unat len \<le> 2 ^ 64 - 4096 else unat len < 2 ^ 42)"

definition pages_needed :: "u64 \<Rightarrow> u64 \<Rightarrow> nat" where
  "pages_needed start len = (if start = 0 then (unat len + 4095) div 4096 else 0)"

lemma request_link:
  fixes idx :: u64
  assumes link: "linked L K drv opened dev" and buf: "bufs s a = Some b" "internal b = Some i" "name i = fmt_dec (unat idx)"
      "uio_filepath_request i = dma_path (dev_bdf dev) ''request''"
    and dev: "devs s d = Some dev" "dev_internal dev = Some wp" and arg: "proper start (buf_length b)"
    and drv: "supplied K B0 M0 avail (pages_needed start (buf_length b) + n) (drv (world s))"
  obtains r s' fd where "DMABuffer_requestMemory L d a start s = Some (r, s')" "supplied K B0 M0 avail n (drv (world s'))"
    "bufs s' a = Some (b\<lparr>internal := Some (i\<lparr>alloc_fd := fd\<rparr>)\<rparr>)" "r = PDA_SUCCESS \<longrightarrow> fd = -1" "0 \<le> r"
    "opened (world s) \<subseteq>\<^sub>m opened (world s')"
    "inserts (registry_of (drv (world s))) (fmt_dec (unat idx)) ((unat (buf_length b) + 4095) div 4096 * 4096, start)
       (r = PDA_SUCCESS) (registry_of (drv (world s')))"
proof -
  have nm: "c_snprintf UIO_PCI_DMA_BUFFER_NAME_SIZE (name i) = fmt_dec (unat idx)" unfolding buf(3)
    by (rule fmt_dec_short) (simp add: UIO_PCI_DMA_BUFFER_NAME_SIZE_def)
  note l = link[unfolded linked_def] and a = arg[unfolded proper_def]
  have plain: "char_of (0 :: nat) \<notin> set (name i)" "CHR ''%'' \<notin> set (name i)" using fmt_dec_plain[of "unat idx"] buf(3) by simp_all
  obtain r s' fd where r: "DMABuffer_requestMemory L d a start s = Some (r, s')" "supplied K B0 M0 avail n (drv (world s'))"
    "bufs s' a = Some (b\<lparr>internal := Some (i\<lparr>alloc_fd := fd\<rparr>)\<rparr>)" "r = PDA_SUCCESS \<longrightarrow> fd = -1"
    "opened (world s) \<subseteq>\<^sub>m opened (world s')"
    "let R = registry_of (drv (world s)); nm = c_snprintf UIO_PCI_DMA_BUFFER_NAME_SIZE (name i) in
     if R nm = None
     then r = PDA_SUCCESS \<and> registry_of (drv (world s')) = R(nm \<mapsto> ((unat (buf_length b) + 4095) div 4096 * 4096, start))
     else 0 < r \<and> registry_of (drv (world s')) = R"
    using requestMemory_registers[OF conjunct1[OF l] _ _ buf(1,2,4) dev plain _ _ _ drv[unfolded pages_needed_def]] l a by blast
  have "0 \<le> r" "inserts (registry_of (drv (world s))) (fmt_dec (unat idx)) ((unat (buf_length b) + 4095) div 4096 * 4096, start)
       (r = PDA_SUCCESS) (registry_of (drv (world s')))" using r(6) by (auto simp: inserts_def nm Let_def split: if_splits)
  with r(1-5) show thesis using that by blast
qed

text \<open>What each kind of buffer leaves: the registry, and on success an object connected to it.\<close>

definition body_links :: "('w \<Rightarrow> 'k dstate) \<Rightarrow> ('w \<Rightarrow> int \<Rightarrow> string option) \<Rightarrow> PciDevice \<Rightarrow> addr \<Rightarrow> u64 \<Rightarrow>
    (nat \<times> u64) \<Rightarrow> ('k dstate \<Rightarrow> bool) \<Rightarrow> 'w pstate \<Rightarrow> ((bool \<times> PdaDebugReturnCode) \<times> 'w pstate) option \<Rightarrow> bool" where
  "body_links drv opened dev a idx v ok s res \<longleftrightarrow> (\<exists>jump r s'. res = Some ((jump, r), s') \<and> ok (drv (world s')) \<and>
     inserts (registry_of (drv (world s))) (fmt_dec (unat idx)) v (\<not> jump \<and> r = PDA_SUCCESS) (registry_of (drv (world s'))) \<and>
     opened (world s) \<subseteq>\<^sub>m opened (world s') \<and>
     (\<not> jump \<and> r = PDA_SUCCESS \<longrightarrow>
        (\<exists>fd. held opened (dma_path (dev_bdf dev) ''free'') (fmt_dec (unat idx)) fd a s' \<and> opened (world s) fd = None)))"

lemma body_linksI:
  assumes "ok (drv (world s'))"
    and "inserts (registry_of (drv (world s))) (fmt_dec (unat idx)) v (\<not> jump \<and> r = PDA_SUCCESS) (registry_of (drv (world s')))"
    and "opened (world s) \<subseteq>\<^sub>m opened (world s')"
    and "\<not> jump \<and> r = PDA_SUCCESS \<Longrightarrow>
      \<exists>fd. held opened (dma_path (dev_bdf dev) ''free'') (fmt_dec (unat idx)) fd a s' \<and> opened (world s) fd = None"
  shows "body_links drv opened dev a idx v ok s (Some ((jump, r), s'))"
  using assms by (auto simp: body_links_def)

lemma map_le_opens:
  "f \<subseteq>\<^sub>m g \<Longrightarrow> g k = None \<Longrightarrow> f \<subseteq>\<^sub>m g(k \<mapsto> v)" "f \<subseteq>\<^sub>m g \<Longrightarrow> g k = None \<Longrightarrow> f k = None"
  by (fastforce simp: map_le_def dom_def)+

lemma new_kernel_link:
  assumes link: "linked L K drv opened dev" and buf: "bufs s a = Some b" "internal b = Some i"
    and dev: "devs s d = Some dev" "dev_internal dev = Some wp" and arg: "creatable L start (buf_length b) PDA_BUFFER_KERNEL" "proper start (buf_length b)"
    and drv: "supplied K B0 M0 avail (pages_needed start (buf_length b) + n) (drv (world s))"
  shows "body_links drv opened dev a (buf_index b) ((unat (buf_length b) + 4095) div 4096 * 4096, start) (supplied K B0 M0 avail n) s
    (new_body L d a start (buf_length b) PDA_BUFFER_KERNEL s)"
proof -
  obtain i1 where 1: "DMABuffer_generatePaths L a (Some d) s = Some (PDA_SUCCESS, s\<lparr>bufs := (bufs s)(a \<mapsto> b\<lparr>internal := Some i1\<rparr>)\<rparr>)"
    and i1: "name i1 = fmt_dec (unat (buf_index b))" "uio_filepath_request i1 = dma_path (dev_bdf dev) ''request''"
      "uio_filepath_delete i1 = dma_path (dev_bdf dev) ''free''" "alloc_fd i1 = alloc_fd i"
    by (rule generatePaths_link[OF buf dev(1)])
  define s1 where "s1 = s\<lparr>bufs := (bufs s)(a \<mapsto> b\<lparr>internal := Some i1\<rparr>)\<rparr>"
  have b1: "bufs s1 a = Some (b\<lparr>internal := Some i1\<rparr>)" "devs s1 d = Some dev" "world s1 = world s" using dev by (simp_all add: s1_def)
  obtain r s2 fd where 2: "DMABuffer_requestMemory L d a start s1 = Some (r, s2)" "supplied K B0 M0 avail n (drv (world s2))"
    "bufs s2 a = Some (b\<lparr>internal := Some (i1\<lparr>alloc_fd := fd\<rparr>)\<rparr>)" "r = PDA_SUCCESS \<longrightarrow> fd = -1" "0 \<le> r"
    "opened (world s) \<subseteq>\<^sub>m opened (world s2)"
    "inserts (registry_of (drv (world s))) (fmt_dec (unat (buf_index b))) ((unat (buf_length b) + 4095) div 4096 * 4096, start)
       (r = PDA_SUCCESS) (registry_of (drv (world s2)))"
    using request_link[OF link b1(1) _ _ _ b1(2) dev(2), of i1 "buf_index b" start B0 M0 avail n] i1 arg(2) drv b1(3) by auto
  from link have "sysfs_driver L K drv opened (dma_path (dev_bdf dev) ''request'') (dma_path (dev_bdf dev) ''free'')" "obliging L" "posix_env L"
    by (simp_all add: linked_def)
  from map_link[OF this 2(3)] obtain s3 mfd where 3: "DMABuffer_map L a s2 = Some (PDA_SUCCESS, s3)" "drv (world s3) = drv (world s2)"
    "opened (world s2) mfd = None" "opened (world s3) = (opened (world s2))(mfd \<mapsto> uio_filepath_map i1)"
    "fd = -1 \<longrightarrow> held opened (uio_filepath_delete i1) (name i1) mfd a s3" by auto
  have op: "opened (world s) \<subseteq>\<^sub>m opened (world s3)" "opened (world s) mfd = None" using 2(6) 3(3,4) by (auto intro: map_le_opens)
  have "new_body L d a start (buf_length b) PDA_BUFFER_KERNEL s = Some ((False, r), s3)"
    using arg(1) 1 2(1) 3(1) by (simp add: new_body_def new_kernel_def creatable_def DMABuffer_isEnoughMemoryAvailable_def flip: s1_def)
  with 2(2,4,7) 3(2,5) op i1 show ?thesis by (auto intro!: body_linksI)
qed

lemma new_user_link:
  assumes link: "linked L K drv opened dev" and buf: "bufs s a = Some b" "internal b = Some i"
    and dev: "devs s d = Some dev" "dev_internal dev = Some wp" and arg: "creatable L start (buf_length b) PDA_BUFFER_USER" "proper start (buf_length b)"
    and drv: "supplied K B0 M0 avail (pages_needed start (buf_length b) + n) (drv (world s))"
  shows "body_links drv opened dev a (buf_index b) ((unat (buf_length b) + 4095) div 4096 * 4096, start) (supplied K B0 M0 avail n) s
    (new_body L d a start len PDA_BUFFER_USER s)"
proof -
  obtain i1 where 1: "DMABuffer_generatePaths L a (Some d) s = Some (PDA_SUCCESS, s\<lparr>bufs := (bufs s)(a \<mapsto> b\<lparr>internal := Some i1\<rparr>)\<rparr>)"
    and i1: "name i1 = fmt_dec (unat (buf_index b))" "uio_filepath_request i1 = dma_path (dev_bdf dev) ''request''"
      "uio_filepath_delete i1 = dma_path (dev_bdf dev) ''free''" "alloc_fd i1 = alloc_fd i"
    by (rule generatePaths_link[OF buf dev(1)])
  define s1 where "s1 = s\<lparr>bufs := (bufs s)(a \<mapsto> b\<lparr>internal := Some i1\<rparr>)\<rparr>"
  from link have l: "sysfs_driver L K drv opened (dma_path (dev_bdf dev) ''request'') (dma_path (dev_bdf dev) ''free'')" "obliging L"
    by (simp_all add: linked_def)
  obtain u s2 where m: "c_sys (sys_mlock L start (buf_length b)) s1 = (u, s2)" by fastforce
  then have u: "u \<noteq> None" using c_sys_granted[OF _ m] l(2) by (simp add: obliging_def)
  have b2: "bufs s2 a = Some (b\<lparr>internal := Some i1\<rparr>)" "devs s2 d = Some dev" "drv (world s2) = drv (world s)" "opened (world s2) = opened (world s)"
    using c_sys_heaps[OF m] quiet_sys[OF sysfs_quiet(6)[OF l(1)] m] dev by (simp_all add: s1_def same_heaps_def same_driver_def)
  then have 2: "DMABuffer_lockUserBuffer L start a s1 = Some (PDA_SUCCESS, s2)"
    using m u by (auto simp: DMABuffer_lockUserBuffer_def s1_def)
  obtain r s3 fd where 3: "DMABuffer_requestMemory L d a start s2 = Some (r, s3)" "supplied K B0 M0 avail n (drv (world s3))"
    "bufs s3 a = Some (b\<lparr>internal := Some (i1\<lparr>alloc_fd := fd\<rparr>)\<rparr>)" "r = PDA_SUCCESS \<longrightarrow> fd = -1" "0 \<le> r"
    "opened (world s) \<subseteq>\<^sub>m opened (world s3)"
    "inserts (registry_of (drv (world s))) (fmt_dec (unat (buf_index b))) ((unat (buf_length b) + 4095) div 4096 * 4096, start)
       (r = PDA_SUCCESS) (registry_of (drv (world s3)))"
    using request_link[OF link b2(1) _ _ _ b2(2) dev(2), of i1 "buf_index b" start B0 M0 avail n] i1 arg(2) drv b2(3,4) by auto
  have body: "new_body L d a start len PDA_BUFFER_USER s =
      (if r \<noteq> PDA_SUCCESS then Some ((True, 0), snd (ERROR L (errno s3) s3))
       else do { (r, s) \<leftarrow> DMABuffer_mapUser L a start s3;
                 if r \<noteq> PDA_SUCCESS then Some ((True, 0), snd (ERROR L (errno s) s)) else Some ((False, PDA_SUCCESS), s) })"
    using arg(1) 1 2 3(1) by (simp add: new_body_def new_user_def creatable_def flip: s1_def)
  show ?thesis
  proof (cases "r = PDA_SUCCESS")
    case True
    then obtain s4 mfd where 4: "DMABuffer_mapUser L a start s3 = Some (PDA_SUCCESS, s4)" "drv (world s4) = drv (world s3)" "opened (world s3) mfd = None"
      "opened (world s4) = (opened (world s3))(mfd \<mapsto> uio_filepath_map i1)" "held opened (uio_filepath_delete i1) (name i1) mfd a s4"
      using mapUser_link[OF l(1) 3(3), of "i1\<lparr>alloc_fd := fd\<rparr>" start] 3(4) by auto
    have op: "opened (world s) \<subseteq>\<^sub>m opened (world s4)" "opened (world s) mfd = None" using 3(6) 4(3,4) by (auto intro: map_le_opens)
    with True body 3(2,7) 4(1,2,5) i1 show ?thesis by (auto intro!: body_linksI)
  next
    case False
    with body 3(2,6,7) show ?thesis by (auto intro!: body_linksI)
  qed
qed

lemma new_exit_world: "DMABuffer_new_exit E p s = Some (r, s') \<Longrightarrow> world s' = world s"
  by (auto simp: DMABuffer_new_exit_def bind_eq_Some_conv Let_def dest: arg_cong[where f = "\<lambda>x. world (snd x)"])

lemma alloc_link:
  assumes "sysfs_driver L K drv opened request free" and "DMABuffer_alloc L len dp s = Some ((PDA_SUCCESS, Some a), s')" and "obliging L"
  shows "drv (world s') = drv (world s) \<and> opened (world s') = opened (world s)"
proof -
  obtain ok1 s1 where 1: "c_alloc L sizeof_DMABuffer s = (ok1, s1)" by fastforce
  define s2 where "s2 = s1\<lparr>brk := Suc (brk s1), bufs := (bufs s1)(brk s1 \<mapsto> zero_DMABuffer\<lparr>internal := None, buf_length := len, buf_device := dp,
                    buf_map := MAP_FAILED, map_two := MAP_FAILED\<rparr>)\<rparr>"
  obtain ok2 s3 where 2: "c_alloc L sizeof_DMABufferInternal s2 = (ok2, s3)" by fastforce
  have ok: "ok1" "ok2" using 1 2 assms(3) c_alloc_ok[of L _ s] c_alloc_ok[of L _ s2] by (auto simp: obliging_def)
  have "\<exists>h. s' = s3\<lparr>bufs := h\<rparr>" using assms(2) 1 2 ok by (auto simp: DMABuffer_alloc_def c_new_def s2_def upd_buf_def Let_def bind_eq_Some_conv)
  moreover have "drv (world s3) = drv (world s) \<and> opened (world s3) = opened (world s)"
    using quiet_alloc[OF sysfs_quiet(1)[OF assms(1)] 1] quiet_alloc[OF sysfs_quiet(1)[OF assms(1)] 2] by (simp add: same_driver_def s2_def)
  ultimately show ?thesis by auto
qed

lemma new_end_link:
  assumes "new_end L d a dev s jump r s3 = Some (r', s')" and "buffer_list s d xs" and "building a s s3" and "devs s d = Some dev"
    and "jump \<or> r \<noteq> PDA_SUCCESS \<longrightarrow> 0 < errno s3"
  shows "world s' = world s3" and "r' = PDA_SUCCESS \<longleftrightarrow> \<not> jump \<and> r = PDA_SUCCESS"
    and "\<not> jump \<and> r = PDA_SUCCESS \<Longrightarrow> held opened free nm fd a s3 \<Longrightarrow> held opened free nm fd a s'"
proof -
  obtain h where h: "DMABuffer_addNode (dma_buffer_list dev) (Some a) (bufs s3) = Some (head_ptr (xs @ [a]), h)"
    "map_option internal (h a) = map_option internal (bufs s3 a)"
    using building_link[OF assms(2-4)] by blast
  show w: "world s' = world s3" using assms(1) h(1) new_exit_world[of L "Some a" _ r' s'] by (auto simp: new_end_def split: if_splits)
  have "building a s (snd (ERROR L (errno s3) s3))" using assms(3) by (auto simp: building_def raw_buffer_def)
  then show "r' = PDA_SUCCESS \<longleftrightarrow> \<not> jump \<and> r = PDA_SUCCESS"
    using assms(1,5) h(1) building_undo[OF assms(2,3), of L] building_undo[OF assms(2), of a "snd (ERROR L (errno s3) s3)" L]
    by (auto simp: new_end_def split: if_splits)
  show "held opened free nm fd a s'" if "\<not> jump \<and> r = PDA_SUCCESS" "held opened free nm fd a s3"
  proof -
    have "map_option internal (bufs s' a) = map_option internal (bufs s3 a)" using assms(1) h that(1) by (auto simp: new_end_def)
    with that(2) w show ?thesis by (fastforce simp: held_def)
  qed
qed

lemma new_end_objects:
  assumes "new_end L d a dev s jump r s3 = Some (r', s')" and "building a s s3"
  shows "brk s' = Suc (brk s)" and "\<not> jump \<and> r = PDA_SUCCESS \<Longrightarrow> \<exists>p. devs s' d = Some (dev\<lparr>dma_buffer_list := p\<rparr>)"
proof -
  have "DMABuffer_new_exit L (Some a) z = Some (r', s') \<Longrightarrow> brk s' = brk z" for z
    by (auto simp: DMABuffer_new_exit_def bind_eq_Some_conv Let_def dest: arg_cong[where f = "\<lambda>x. brk (snd x)"])
  then show "brk s' = Suc (brk s)" using assms by (auto simp: new_end_def building_def bind_eq_Some_conv split: if_splits)
  show "\<not> jump \<and> r = PDA_SUCCESS \<Longrightarrow> \<exists>p. devs s' d = Some (dev\<lparr>dma_buffer_list := p\<rparr>)"
    using assms by (auto simp: new_end_def bind_eq_Some_conv)
qed

text \<open>The run of \<open>DMABuffer_new\<close> up to its end.\<close>

lemma new_link:
  assumes link: "linked L K drv opened dev" "\<not> cfg_DEBUG L" and inv: "buffer_list s d xs" "0 \<le> errno s" "devs s d = Some dev"
    and arg: "ty \<noteq> PDA_BUFFER_LOOKUP" "creatable L start len ty" "proper start len"
    and drv: "supplied K B0 M0 avail (pages_needed start len + n) (drv (world s))"
  obtains idx jump r s3 where "index \<noteq> PDA_BUFFER_INDEX_UNDEFINED \<longrightarrow> idx = index"
    "DMABuffer_new L d index start len ty s = new_end L d (brk s) dev s jump r s3" "building (brk s) s s3" "jump \<or> r \<noteq> PDA_SUCCESS \<longrightarrow> 0 < errno s3"
    "supplied K B0 M0 avail n (drv (world s3))"
    "inserts (registry_of (drv (world s))) (fmt_dec (unat idx)) ((unat len + 4095) div 4096 * 4096, start)
       (\<not> jump \<and> r = PDA_SUCCESS) (registry_of (drv (world s3)))"
    "opened (world s) \<subseteq>\<^sub>m opened (world s3)"
    "\<not> jump \<and> r = PDA_SUCCESS \<longrightarrow>
       (\<exists>fd. held opened (dma_path (dev_bdf dev) ''free'') (fmt_dec (unat idx)) fd (brk s) s3 \<and> opened (world s) fd = None)"
proof -
  let ?a = "brk s"
  from link(1) have l: "sysfs_driver L K drv opened (dma_path (dev_bdf dev) ''request'') (dma_path (dev_bdf dev) ''free'')" "obliging L" "posix_env L"
    by (simp_all add: linked_def)
  from l(2) have al: "\<forall>n w. fst (sys_alloc L n w)" by (simp add: obliging_def)
  obtain dev' wp idx s1 s2 where dev: "devs s d = Some dev'" "dev_internal dev' = Some wp" "dma_buffer_list dev' = head_ptr xs"
    and s1: "DMABuffer_alloc L len (Some d) s = Some ((PDA_SUCCESS, Some ?a), s1)"
    and s2: "s2 = s1\<lparr>bufs := (bufs s)(?a \<mapsto> (blank_buffer len (Some d))\<lparr>buf_type := ty, buf_index := idx\<rparr>)\<rparr>" "devs s1 = devs s" "errno s1 = errno s"
    and bld: "building ?a s s2" and idx: "index \<noteq> PDA_BUFFER_INDEX_UNDEFINED \<longrightarrow> idx = index"
    and run: "\<forall>jump r s3. new_body L d ?a start len ty s2 = Some ((jump, r), s3) \<and> devs s3 = devs s \<longrightarrow>
       DMABuffer_new L d index start len ty s = new_end L d ?a dev' s jump r s3"
    by (rule DMABuffer_new_unfold[OF al inv(1), of len ty index start]) blast
  define b where "b = (blank_buffer len (Some d))\<lparr>buf_type := ty, buf_index := idx\<rparr>"
  have b: "bufs s2 ?a = Some b" "internal b = Some zero_DMABufferInternal" "buf_length b = len" "buf_index b = idx" "devs s2 d = Some dev"
    "drv (world s2) = drv (world s)" "dev' = dev" "dev_internal dev = Some wp" "opened (world s2) = opened (world s)"
    using s2 inv(3) dev alloc_link[OF l(1) s1 l(2)] by (simp_all add: b_def blank_buffer_def)
  have "body_links drv opened dev ?a idx ((unat len + 4095) div 4096 * 4096, start) (supplied K B0 M0 avail n) s2 (new_body L d ?a start len ty s2)"
    using new_kernel_link[OF link(1) b(1,2,5,8), of start B0 M0 avail n] new_user_link[OF link(1) b(1,2,5,8), of start B0 M0 avail n len]
      arg drv b(3,4,6) by (cases ty) auto
  then obtain jump r s3 where s3: "new_body L d ?a start len ty s2 = Some ((jump, r), s3)" "supplied K B0 M0 avail n (drv (world s3))"
    "inserts (registry_of (drv (world s))) (fmt_dec (unat idx)) ((unat len + 4095) div 4096 * 4096, start)
       (\<not> jump \<and> r = PDA_SUCCESS) (registry_of (drv (world s3)))" "opened (world s) \<subseteq>\<^sub>m opened (world s3)"
    "\<not> jump \<and> r = PDA_SUCCESS \<longrightarrow>
       (\<exists>fd. held opened (dma_path (dev_bdf dev) ''free'') (fmt_dec (unat idx)) fd ?a s3 \<and> opened (world s) fd = None)"
    unfolding body_links_def b(6,9) by blast
  have raw: "raw_buffer ?a s2" "unmapped ?a s2" "0 \<le> errno s2"
    using s2 inv(2) by (auto simp: raw_buffer_def unmapped_def blank_buffer_def)
  have t3: "touches ?a s2 s3" "jump \<or> r \<noteq> PDA_SUCCESS \<longrightarrow> 0 < errno s3"
    using new_body_step[OF l(3) link(2) raw(1,2) b(5,8) raw(3), of start len ty] s3(1) by (auto simp: new_body_ok_def)
  have "building ?a s s3" "devs s3 = devs s" using building_touches[OF bld t3(1)] by (auto simp: building_def)
  with that[OF idx _ _ t3(2) s3(2-5)] run s3(1) b(7) show thesis by blast
qed

text \<open>What \<open>DMABuffer_new\<close> leaves, the other objects and the open files included.\<close>

definition creates :: "('w \<Rightarrow> 'k dstate) \<Rightarrow> ('w \<Rightarrow> int \<Rightarrow> string option) \<Rightarrow> PciDevice \<Rightarrow> addr \<Rightarrow> addr list \<Rightarrow> u64 \<Rightarrow> u64 \<Rightarrow> u64 \<Rightarrow>
    'w pstate \<Rightarrow> PdaDebugReturnCode \<Rightarrow> 'w pstate \<Rightarrow> bool" where
  "creates drv opened dev d xs idx start len s r s' \<longleftrightarrow>
     inserts (registry_of (drv (world s))) (fmt_dec (unat idx)) ((unat len + 4095) div 4096 * 4096, start)
       (r = PDA_SUCCESS) (registry_of (drv (world s'))) \<and>
     brk s' = Suc (brk s) \<and> 0 \<le> errno s' \<and> opened (world s) \<subseteq>\<^sub>m opened (world s') \<and>
     (\<exists>dev'. devs s' d = Some dev' \<and> dev_bdf dev' = dev_bdf dev) \<and>
     (\<forall>a. a \<noteq> brk s \<longrightarrow> map_option payload (bufs s' a) = map_option payload (bufs s a)) \<and>
     (if r = PDA_SUCCESS
      then buffer_list s' d (xs @ [brk s]) \<and>
        (\<exists>fd. held opened (dma_path (dev_bdf dev) ''free'') (fmt_dec (unat idx)) fd (brk s) s' \<and> opened (world s) fd = None)
      else buffer_list s' d xs \<and> bufs s' = bufs s)"

lemma new_links:
  assumes link: "linked L K drv opened dev" "\<not> cfg_DEBUG L" and inv: "buffer_list s d xs" "0 \<le> errno s" "devs s d = Some dev"
    and arg: "ty \<noteq> PDA_BUFFER_LOOKUP" "creatable L start len ty" "proper start len"
    and drv: "supplied K B0 M0 avail (pages_needed start len + n) (drv (world s))"
  obtains idx r s' where "DMABuffer_new L d index start len ty s = Some (r, s')" "index \<noteq> PDA_BUFFER_INDEX_UNDEFINED \<longrightarrow> idx = index"
    "supplied K B0 M0 avail n (drv (world s'))" "creates drv opened dev d xs idx start len s r s'"
    "r = PDA_SUCCESS \<and> index \<noteq> PDA_BUFFER_INDEX_UNDEFINED \<longrightarrow> map_option buf_index (bufs s' (brk s)) = Some index"
proof -
  obtain idx jump r s3 where 1: "index \<noteq> PDA_BUFFER_INDEX_UNDEFINED \<longrightarrow> idx = index"
    "DMABuffer_new L d index start len ty s = new_end L d (brk s) dev s jump r s3" "building (brk s) s s3" "jump \<or> r \<noteq> PDA_SUCCESS \<longrightarrow> 0 < errno s3"
    "supplied K B0 M0 avail n (drv (world s3))"
    "inserts (registry_of (drv (world s))) (fmt_dec (unat idx)) ((unat len + 4095) div 4096 * 4096, start)
       (\<not> jump \<and> r = PDA_SUCCESS) (registry_of (drv (world s3)))" "opened (world s) \<subseteq>\<^sub>m opened (world s3)"
    "\<not> jump \<and> r = PDA_SUCCESS \<longrightarrow>
       (\<exists>fd. held opened (dma_path (dev_bdf dev) ''free'') (fmt_dec (unat idx)) fd (brk s) s3 \<and> opened (world s) fd = None)"
    by (rule new_link[OF assms])
  from link(1) have "posix_env L" "\<forall>n w. fst (sys_alloc L n w)" by (simp_all add: linked_def obliging_def)
  from DMABuffer_new_outcome[OF this(1) link(2) this(2) inv(1,2), of index start len ty] obtain r' s' where
    2: "DMABuffer_new L d index start len ty s = Some (r', s')" "0 \<le> errno s'"
    "if r' = PDA_SUCCESS then buffer_list s' d (xs @ [brk s]) \<and>
        (\<forall>a. a \<noteq> brk s \<longrightarrow> map_option payload (bufs s' a) = map_option payload (bufs s a)) \<and>
        (index \<noteq> PDA_BUFFER_INDEX_UNDEFINED \<longrightarrow> map_option buf_index (bufs s' (brk s)) = Some index)
      else buffer_list s' d xs \<and> bufs s' = bufs s \<and> devs s' = devs s" by blast
  from 1(2) 2(1) have run: "new_end L d (brk s) dev s jump r s3 = Some (r', s')" by simp
  note e = new_end_link[OF run inv(1) 1(3) inv(3) 1(4)]
  note o = new_end_objects[OF run 1(3)]
  have d: "\<exists>dev'. devs s' d = Some dev' \<and> dev_bdf dev' = dev_bdf dev"
  proof (cases "r' = PDA_SUCCESS")
    case True
    then have "\<not> jump \<and> r = PDA_SUCCESS" using e(2) by blast
    from o(2)[OF this] show ?thesis by (auto simp: dev_bdf_def)
  qed (use 2(3) inv(3) in simp)
  have "creates drv opened dev d xs idx start len s r' s'"
  proof (cases "r' = PDA_SUCCESS")
    case True
    with e(2) 1(8) obtain fd where "held opened (dma_path (dev_bdf dev) ''free'') (fmt_dec (unat idx)) fd (brk s) s'" "opened (world s) fd = None"
      using e(3) by blast
    with True 1(6)[folded e(2)] 1(7) 2(2,3) d o(1) e(1) show ?thesis unfolding creates_def by auto
  next
    case False
    with 1(6)[folded e(2)] 1(7) 2(2,3) d o(1) e(1) show ?thesis unfolding creates_def by simp
  qed
  with that[OF 2(1) 1(1)] 2(3) 1(5) e(1) show thesis by simp
qed

text \<open>
  C5. A buffer created by the library is a buffer of the module. With the files of the device leading to
  the module, the other system calls granted and enough memory in the kernel, \<open>DMABuffer_new\<close> of a
  kernel or user buffer with proper arguments returns. If no buffer of its name, the index in decimal, is
  registered, it succeeds: the object is last in the list of the device, and the registry of the
  module has gained exactly an entry of that name with the length in whole pages and the start
  address. Otherwise it fails, and list and registry are as before.
\<close>

theorem DMABuffer_new_registers:
  assumes link: "linked L K drv opened dev" "\<not> cfg_DEBUG L" and inv: "buffer_list s d xs" "0 \<le> errno s" "devs s d = Some dev"
    and arg: "ty \<noteq> PDA_BUFFER_LOOKUP" "creatable L start len ty" "proper start len"
    and drv: "supplied K B0 M0 avail (pages_needed start len + n) (drv (world s))"
  shows "\<exists>idx r s'. DMABuffer_new L d index start len ty s = Some (r, s') \<and> (index \<noteq> PDA_BUFFER_INDEX_UNDEFINED \<longrightarrow> idx = index) \<and>
    supplied K B0 M0 avail n (drv (world s')) \<and>
    (let R = registry_of (drv (world s)); nm = fmt_dec (unat idx) in
     if R nm = None
     then r = PDA_SUCCESS \<and> buffer_list s' d (xs @ [brk s]) \<and> connected opened (dma_path (dev_bdf dev) ''free'') nm (brk s) s' \<and>
       registry_of (drv (world s')) = R(nm \<mapsto> ((unat len + 4095) div 4096 * 4096, start))
     else r \<noteq> PDA_SUCCESS \<and> buffer_list s' d xs \<and> bufs s' = bufs s \<and> registry_of (drv (world s')) = R)"
proof -
  obtain idx r s' where n: "DMABuffer_new L d index start len ty s = Some (r, s')" "index \<noteq> PDA_BUFFER_INDEX_UNDEFINED \<longrightarrow> idx = index"
    "supplied K B0 M0 avail n (drv (world s'))" "creates drv opened dev d xs idx start len s r s'"
    by (rule new_links[OF assms]) blast
  then show ?thesis
    by (intro exI[of _ idx] exI[of _ r] exI[of _ s']) (auto simp: creates_def inserts_def Let_def intro: held_connected split: if_splits)
qed

section \<open>Release\<close>

lemma unmap_link:
  assumes link: "sysfs_driver L K drv opened request free" and b: "bufs s a = Some b"
  shows "\<exists>s' b'. unmap_two L a s = Some s' \<and> same_driver drv opened s s' \<and> bufs s' a = Some b' \<and> internal b' = internal b"
    and "\<exists>s' b'. unmap_one L a s = Some s' \<and> same_driver drv opened s s' \<and> bufs s' a = Some b' \<and> internal b' = internal b"
proof -
  have v: "same_driver drv opened s (c_void (sys_munmap L m n) s) \<and> bufs (c_void (sys_munmap L m n) s) = bufs s" for m n
  proof -
    obtain r s1 where c: "c_sys (sys_munmap L m n) s = (r, s1)" by fastforce
    with quiet_sys[OF sysfs_quiet(5)[OF link] c] c_sys_heaps[OF c] show ?thesis by (simp add: c_void_def same_heaps_def)
  qed
  show "\<exists>s' b'. unmap_two L a s = Some s' \<and> same_driver drv opened s s' \<and> bufs s' a = Some b' \<and> internal b' = internal b"
    "\<exists>s' b'. unmap_one L a s = Some s' \<and> same_driver drv opened s s' \<and> bufs s' a = Some b' \<and> internal b' = internal b"
    using b v by (auto simp: unmap_two_def unmap_one_def upd_buf_def heap_upd_def same_driver_def)
qed

lemma free_unmap_link:
  assumes link: "sysfs_driver L K drv opened request free" and unlock: "\<forall>m n. granted (sys_munlock L m n)" and b: "bufs s a = Some b"
  obtains s' b' where "free_unmap L a PDA_DELETE s = Some ((True, PDA_DELETE), s')" "same_driver drv opened s s'" "bufs s' a = Some b'"
    "internal b' = internal b"
proof (cases "buf_type b")
  case PDA_BUFFER_KERNEL
  obtain s1 b1 where 1: "unmap_two L a s = Some s1" "same_driver drv opened s s1" "bufs s1 a = Some b1" "internal b1 = internal b"
    using unmap_link(1)[OF link b] by blast
  obtain s2 b2 where 2: "unmap_one L a s1 = Some s2" "same_driver drv opened s1 s2" "bufs s2 a = Some b2" "internal b2 = internal b1"
    using unmap_link(2)[OF link 1(3)] by blast
  show thesis using that[of s2 b2] PDA_BUFFER_KERNEL b 1 2 same_driver_trans[OF 1(2) 2(2)] by (simp add: free_unmap_def)
next
  case PDA_BUFFER_USER
  obtain s1 b1 where 1: "unmap_two L a s = Some s1" "same_driver drv opened s s1" "bufs s1 a = Some b1" "internal b1 = internal b"
    using unmap_link(1)[OF link b] by blast
  obtain r s2 where 2: "c_sys (sys_munlock L (buf_map b) (buf_length b)) s1 = (r, s2)" by fastforce
  have "r \<noteq> None" "same_driver drv opened s1 s2" "bufs s2 = bufs s1"
    using c_sys_granted[OF _ 2] unlock quiet_sys[OF sysfs_quiet(7)[OF link] 2] c_sys_heaps[OF 2] by (auto simp: same_heaps_def)
  with PDA_BUFFER_USER b 1 2 show thesis
    by (intro that[of "s2\<lparr>bufs := (bufs s2)(a \<mapsto> b1\<lparr>buf_map := MAP_FAILED\<rparr>)\<rparr>" "b1\<lparr>buf_map := MAP_FAILED\<rparr>"])
      (auto simp: free_unmap_def upd_buf_def heap_upd_def same_driver_def)
next
  case PDA_BUFFER_LOOKUP
  with b show thesis by (intro that[of s b]) (simp_all add: free_unmap_def)
qed

text \<open>What \<open>DMABuffer_free\<close> leaves, the other objects and the open files included.\<close>

lemma free_links:
  assumes link: "sysfs_driver L K drv opened request free" "posix_env L" and lazy: "lazy_kfree K" and drv: "driver_ok K B0 M0 (drv (world s))"
    and dll: "dll (bufs s) (xs @ a # ys)" and b: "bufs s a = Some b" "internal b = Some i" "name i = nm" "uio_filepath_delete i = free"
      "0 \<le> alloc_fd i \<longrightarrow> opened (world s) (alloc_fd i) \<noteq> None" "0 \<le> map_fd i \<longrightarrow> opened (world s) (map_fd i) \<noteq> None"
    and nm: "char_of (0 :: nat) \<notin> set nm"
    and lock: "\<forall>fd m. granted (sys_flock L fd m)" "\<forall>m n. granted (sys_munlock L m n)"
  obtains s' where "DMABuffer_free L (Some a) PDA_DELETE s = Some (PDA_SUCCESS, s')" "freed xs a ys s s'" "driver_ok K B0 M0 (drv (world s'))"
    "registry_of (drv (world s')) = (registry_of (drv (world s)))(c_snprintf UIO_PCI_DMA_BUFFER_NAME_SIZE nm := None)"
    "opened (world s') = closing i (opened (world s))" "devs s' = devs s" "brk s' = brk s" "errno_step s s'"
    "\<forall>avail n. supplied K B0 M0 avail n (drv (world s)) \<longrightarrow> supplied K B0 M0 avail n (drv (world s'))"
proof -
  obtain s1 b1 where 1: "free_unmap L a PDA_DELETE s = Some ((True, PDA_DELETE), s1)" "same_driver drv opened s s1" "bufs s1 a = Some b1"
    "internal b1 = internal b" by (rule free_unmap_link[OF link(1) lock(2) b(1)])
  have w1: "drv (world s1) = drv (world s)" "opened (world s1) = opened (world s)" using 1(2) by (simp_all add: same_driver_def)
  have "driver_ok K B0 M0 (drv (world s1))" "internal b1 = Some i" "char_of (0 :: nat) \<notin> set (name i)"
    "0 \<le> alloc_fd i \<longrightarrow> opened (world s1) (alloc_fd i) \<noteq> None" "0 \<le> map_fd i \<longrightarrow> opened (world s1) (map_fd i) \<noteq> None"
    using drv b nm 1(4) w1 by simp_all
  from free_driver_unregisters[OF link(1) lazy this(1) 1(3) this(2) b(4) this(4,5,3) lock(1)] obtain s2 i' where
    2: "free_driver L a PDA_DELETE s1 = Some (True, s2)" "driver_ok K B0 M0 (drv (world s2))"
    "registry_of (drv (world s2)) = (registry_of (drv (world s)))(c_snprintf UIO_PCI_DMA_BUFFER_NAME_SIZE nm := None)"
    "opened (world s2) = closing i (opened (world s))" "bufs s2 a = Some (b1\<lparr>internal := Some i'\<rparr>)" "alloc_fd i' < 0" "map_fd i' < 0"
    "\<forall>avail n. supplied K B0 M0 avail n (drv (world s)) \<longrightarrow> supplied K B0 M0 avail n (drv (world s2))"
    unfolding w1 b(3) by blast
  obtain s3 where 3: "DMABuffer_closeFiles L a s2 = Some s3" "drv (world s3) = drv (world s2)" "opened (world s3) = closing i' (opened (world s2))"
    by (rule closeFiles_link[OF link(1) 2(5)]) auto
  have c: "closing i' f = f" for f using 2(6,7) by (auto simp: closing_def fun_eq_iff)
  from DMABuffer_free_outcome[OF link(2) dll, of PDA_DELETE] obtain r s' where 4: "DMABuffer_free L (Some a) PDA_DELETE s = Some (r, s')"
    "devs s' = devs s" "brk s' = brk s" "errno_step s s'" "freed xs a ys s s' \<or> unlock_fails L" by blast
  have "\<not> unlock_fails L" using lock(2) by (auto simp: unlock_fails_def granted_def)
  moreover have "r = PDA_SUCCESS" "world s' = world s3" using 4(1) 1(1) 2(1) 3(1) by (auto simp: DMABuffer_free_def free_object_def upd_buf_def bind_eq_Some_conv)
  ultimately show thesis using that[of s'] 4 2(2-4,8) 3(2,3) c by simp
qed


section \<open>A buffer created and released\<close>

lemma linked_env_linked: "linked linked_env demo_kernel fst (\<lambda>w. map_of (snd w)) demo_device"
proof -
  have "errno_law (driver_write fd bs)" for fd bs by (auto simp: errno_law_def driver_write_def split: option.splits prod.splits if_splits)
  then have "posix_env linked_env" by (simp add: posix_env_def linked_env_def calm_env_def) (simp add: errno_law_def)
  moreover have "obliging linked_env" by (simp add: obliging_def granted_def linked_env_def calm_env_def)
  ultimately show ?thesis using linked_env_law demo_kernel_ok(3) by (simp add: linked_def demo_request_path_def demo_free_path_def)
qed

lemma linked_process_ready:
  "buffer_list linked_process 1 []" "\<not> cfg_DEBUG linked_env" "devs linked_process 1 = Some demo_device" "0 \<le> errno linked_process"
  "brk linked_process = 10" "fst (world linked_process) = demo_dstate" "registry_of demo_dstate = Map.empty"
  by (simp_all add: buffer_list_def linked_process_def demo_device_def dll_def linked_env_def calm_env_def registry_of_def buffers_def demo_dstate_def
      zero_PciDevice_def)

theorem DMABuffer_new_registers_witness:
  "\<exists>s'. DMABuffer_new linked_env 1 3 0 12000 PDA_BUFFER_KERNEL linked_process = Some (PDA_SUCCESS, s') \<and> buffer_list s' 1 [10] \<and>
    registry_of (fst (world s')) = [fmt_dec 3 \<mapsto> (12288, 0)]"
proof -
  have arg: "creatable linked_env 0 12000 PDA_BUFFER_KERNEL" "proper 0 12000" "pages_needed 0 12000 = 3"
    by (simp_all add: creatable_def linked_env_def calm_env_def proper_def pages_needed_def)
  then have "supplied demo_kernel Map.empty {#} demo_avail (pages_needed 0 12000 + 0) (fst (world linked_process))"
    using demo_supplied[of 3] by (simp add: linked_process_ready)
  from DMABuffer_new_registers[OF linked_env_linked linked_process_ready(2,1,4,3) _ arg(1,2) this, of 3] show ?thesis
    by (auto simp: linked_process_ready PDA_BUFFER_INDEX_UNDEFINED_def Let_def)
qed

text \<open>The module with a buffer \<open>3\<close>, and a process with its object.\<close>

lemma demo_linked_driver: "\<exists>k. registry_of k = [''3'' \<mapsto> (12288, 0)] \<and> driver_ok demo_kernel Map.empty {#} k"
proof -
  have d: "pv_size (decode_request demo_write) = 12000" "pv_start (decode_request demo_write) = 0" "pv_name (decode_request demo_write) = ''3''"
    using arg_cong[OF demo_write_decoded, of pv_size] arg_cong[OF demo_write_decoded, of pv_start] demo_write_facts(1) by (simp_all add: demo_request_def)
  have "supplied demo_kernel Map.empty {#} demo_avail (call_pages (Request demo_write) + 0) demo_dstate"
    using demo_supplied[of 3] by (simp add: demo_call(2))
  from driver_request_step[OF this demo_call(1)] show ?thesis by (auto simp: registry_call_def Let_def linked_process_ready(7) d supplied_def)
qed

definition linked_buffer :: DMABuffer where
  "linked_buffer = (blank_buffer 12288 (Some 1))\<lparr>buf_index := 3, buf_map := 0x7f0000000000, internal := Some (zero_DMABufferInternal\<lparr>alloc_fd := -1,
     map_fd := 4, name := ''3'', uio_filepath_delete := demo_free_path\<rparr>)\<rparr>"


end
