(* ===== verification/PDA_Service.thy ===== *)
theory PDA_Service
  imports PDA_LinkLife PDA_DeviceBuffers
begin

text \<open>
  The buffers of a device as a service: what a program that calls the interface of the library sees, with the
  kernel module behind it, while other programs use the module too. The specification keeps the handles in the hands of the
  program, with their indices, and the registry of the module; the library on top of the module refines it, call by call.
\<close>

section \<open>The specification\<close>

text \<open>The four calls, and a call of the module by another program in between.\<close>

datatype buffer_op = Alloc u64 u64 | Register u64 u64 u64 | Get u64 | Release addr | Foreign call

record service =
  next_handle :: addr
  handles :: "(addr \<times> u64) list"
  entries :: registry

definition handle_of :: "u64 \<Rightarrow> service \<Rightarrow> addr option" where
  "handle_of idx S = map_option fst (find (\<lambda>h. snd h = idx) (handles S))"

text \<open>An attempt to create a buffer uses up a handle; it succeeds if the module has no buffer of that index.\<close>

definition is_free :: "u64 \<Rightarrow> service \<Rightarrow> bool" where
  "is_free idx S \<longleftrightarrow> entries S (fmt_dec (unat idx)) = None"

definition attempt :: "u64 \<Rightarrow> u64 \<Rightarrow> u64 \<Rightarrow> service \<Rightarrow> service" where
  "attempt idx start len S =
     (if is_free idx S
      then S\<lparr>next_handle := Suc (next_handle S), handles := handles S @ [(next_handle S, idx)],
             entries := (entries S)(fmt_dec (unat idx) \<mapsto> ((unat len + 4095) div 4096 * 4096, start))\<rparr>
      else S\<lparr>next_handle := Suc (next_handle S)\<rparr>)"

fun service_call :: "buffer_op \<Rightarrow> service \<Rightarrow> (bool \<times> addr option) \<times> service" where
  "service_call (Alloc idx len) S =
     ((is_free idx S, if is_free idx S then Some (next_handle S) else None), attempt idx 0 len S)"
| "service_call (Register idx start len) S =
     ((is_free idx S, if is_free idx S then Some (next_handle S) else handle_of idx S), attempt idx start len S)"
| "service_call (Get idx) S = ((True, handle_of idx S), S)"
| "service_call (Release a) S =
     ((True, None), S\<lparr>handles := filter (\<lambda>h. fst h \<noteq> a) (handles S),
        entries := (case map_of (handles S) a of None \<Rightarrow> entries S | Some idx \<Rightarrow> (entries S)(fmt_dec (unat idx) := None))\<rparr>)"
| "service_call (Foreign c) S = ((True, None), S\<lparr>entries := snd (registry_call 0 c (entries S))\<rparr>)"

text \<open>
  What a program may call: creation with an index and sizes within the limits, registration of a name that is free or
  its own, and lookup and release of what it holds. The other programs make well-formed requests and do not delete its buffers.
\<close>

fun deletes :: "string \<Rightarrow> call \<Rightarrow> bool" where
  "deletes nm (Delete buffer) \<longleftrightarrow> c_snprintf UIO_PCI_DMA_BUFFER_NAME_SIZE (bytes_string buffer) = nm"
| "deletes nm (Request buffer) \<longleftrightarrow> False"

fun allowed :: "'w env \<Rightarrow> 'k kenv \<Rightarrow> buffer_op \<Rightarrow> service \<Rightarrow> bool" where
  "allowed L K (Alloc idx len) S \<longleftrightarrow>
     idx \<noteq> PDA_BUFFER_INDEX_UNDEFINED \<and> creatable L 0 len PDA_BUFFER_KERNEL \<and> proper 0 len"
| "allowed L K (Register idx start len) S \<longleftrightarrow>
     idx \<noteq> PDA_BUFFER_INDEX_UNDEFINED \<and> start \<noteq> 0 \<and> creatable L start len PDA_BUFFER_USER \<and> proper start len \<and>
     (is_free idx S \<or> handle_of idx S \<noteq> None)"
| "allowed L K (Get idx) S \<longleftrightarrow> handle_of idx S \<noteq> None"
| "allowed L K (Release a) S \<longleftrightarrow> a \<in> fst ` set (handles S)"
| "allowed L K (Foreign c) S \<longleftrightarrow> well_formed K c \<and> (\<forall>h \<in> set (handles S). \<not> deletes (fmt_dec (unat (snd h))) c)"

text \<open>The memory of the kernel a call needs.\<close>

fun op_pages :: "buffer_op \<Rightarrow> nat" where
  "op_pages (Alloc idx len) = pages_needed 0 len"
| "op_pages (Register idx start len) = pages_needed start len"
| "op_pages (Foreign c) = call_pages c"
| "op_pages _ = 0"

section \<open>The implementation\<close>

text \<open>
  The calls of the interface; a code is read as success or failure. What a call of another program does to the world is
  a parameter.
\<close>

definition outcome :: "((PdaDebugReturnCode \<times> ptr option) \<times> 'w pstate) option \<Rightarrow> ((bool \<times> addr option) \<times> 'w pstate) option" where
  "outcome res = map_option (\<lambda>((r, p), s). ((r = PDA_SUCCESS, Option.bind p id), s)) res"

fun device_op :: "(call \<Rightarrow> 'w \<Rightarrow> 'w) \<Rightarrow> 'w env \<Rightarrow> addr \<Rightarrow> buffer_op \<Rightarrow> 'w pstate \<Rightarrow> ((bool \<times> addr option) \<times> 'w pstate) option" where
  "device_op other L d (Alloc idx len) s = outcome (PciDevice_allocDMABuffer L (Some d) idx len s)"
| "device_op other L d (Register idx start len) s = outcome (PciDevice_registerDMABuffer L (Some d) idx start len s)"
| "device_op other L d (Get idx) s = outcome (PciDevice_getDMABuffer L d idx s)"
| "device_op other L d (Release a) s = map_option (\<lambda>(r, s). ((r = PDA_SUCCESS, None), s)) (PciDevice_deleteDMABuffer L (Some d) (Some a) s)"
| "device_op other L d (Foreign c) s = Some ((True, None), s\<lparr>world := other c (world s)\<rparr>)"

text \<open>The other programs reach the module as this one does, and leave the descriptors of this one alone.\<close>

definition interference :: "'k kenv \<Rightarrow> ('w \<Rightarrow> 'k dstate) \<Rightarrow> ('w \<Rightarrow> int \<Rightarrow> string option) \<Rightarrow> (call \<Rightarrow> 'w \<Rightarrow> 'w) \<Rightarrow> bool" where
  "interference K drv opened other \<longleftrightarrow>
     (\<forall>c w r k. driver_call K c (drv w) = Some (r, k) \<longrightarrow> drv (other c w) = k \<and> opened (other c w) = opened w)"

text \<open>
  The states that implement a state of the service: the list of the device consists of the handles, each the object of a registered
  buffer with an open descriptor of its own, and the module has the entries and the memory for what is to come.
\<close>

definition in_hand :: "('w \<Rightarrow> int \<Rightarrow> string option) \<Rightarrow> string \<Rightarrow> registry \<Rightarrow> (addr \<Rightarrow> int) \<Rightarrow> 'w pstate \<Rightarrow> (addr \<times> u64) list \<Rightarrow> bool" where
  "in_hand opened free R F s hs \<longleftrightarrow> inj_on F (fst ` set hs) \<and>
     (\<forall>(a, idx) \<in> set hs. held opened free (fmt_dec (unat idx)) (F a) a s \<and> has_index (bufs s) idx a \<and> R (fmt_dec (unat idx)) \<noteq> None)"

definition serves :: "'w env \<Rightarrow> 'k kenv \<Rightarrow> ('w \<Rightarrow> 'k dstate) \<Rightarrow> ('w \<Rightarrow> int \<Rightarrow> string option) \<Rightarrow> addr \<Rightarrow> ('k dstate \<Rightarrow> bool) \<Rightarrow>
    'w pstate \<Rightarrow> service \<Rightarrow> bool" where
  "serves L K drv opened d ok s S \<longleftrightarrow> \<not> cfg_DEBUG L \<and> (\<forall>m n. granted (sys_munlock L m n)) \<and>
     (\<exists>dev F. devs s d = Some dev \<and> linked L K drv opened dev \<and> in_hand opened (dma_path (dev_bdf dev) ''free'') (entries S) F s (handles S)) \<and>
     buffer_list s d (map fst (handles S)) \<and> distinct (map snd (handles S)) \<and> 0 \<le> errno s \<and> brk s = next_handle S \<and>
     ok (drv (world s)) \<and> registry_of (drv (world s)) = entries S"

section \<open>Handles across calls\<close>

lemma fmt_dec_inject: "fmt_dec (unat (i :: u64)) = fmt_dec (unat j) \<longleftrightarrow> i = j"
  by (metis buffer_name_roundtrip option.inject)

lemma linked_bdf: "linked L K drv opened dev \<Longrightarrow> dev_bdf dev' = dev_bdf dev \<Longrightarrow> linked L K drv opened dev'"
  by (simp add: linked_def)

lemma held_frame:
  assumes "held opened free nm fd a s" and "map_option payload (bufs s' a) = map_option payload (bufs s a)"
    and "opened (world s) fd \<noteq> None \<Longrightarrow> opened (world s') fd \<noteq> None"
  shows "held opened free nm fd a s'"
proof -
  have "map_option internal (bufs s' a) = map_option internal (bufs s a)"
    using arg_cong[OF assms(2), of "map_option internal"] by (simp add: option.map_comp comp_def internal_payload)
  with assms(1,3) show ?thesis by (fastforce simp: held_def)
qed

lemma in_hand_frame:
  assumes "in_hand opened free R F s hs" and "set hs' \<subseteq> set hs"
    and "\<forall>(a, idx) \<in> set hs'. map_option payload (bufs s' a) = map_option payload (bufs s a) \<and> opened (world s') (F a) = opened (world s) (F a) \<and>
      R' (fmt_dec (unat idx)) = R (fmt_dec (unat idx))"
  shows "in_hand opened free R' F s' hs'"
proof -
  have "inj_on F (fst ` set hs')" using assms(1,2) by (auto simp: in_hand_def intro: inj_on_subset)
  moreover have "held opened free (fmt_dec (unat idx)) (F a) a s' \<and> has_index (bufs s') idx a \<and> R' (fmt_dec (unat idx)) \<noteq> None"
    if "(a, idx) \<in> set hs'" for a idx
  proof -
    have h: "held opened free (fmt_dec (unat idx)) (F a) a s" "has_index (bufs s) idx a" "R (fmt_dec (unat idx)) \<noteq> None"
      using assms(1,2) that by (auto simp: in_hand_def)
    have k: "map_option payload (bufs s' a) = map_option payload (bufs s a)" "opened (world s') (F a) = opened (world s) (F a)"
      "R' (fmt_dec (unat idx)) = R (fmt_dec (unat idx))" using assms(3) that by auto
    show ?thesis using held_frame[OF h(1) k(1)] k h(2,3) has_index_payload[where h = "bufs s" and h' = "bufs s'" and a = a] by simp
  qed
  ultimately show ?thesis by (auto simp: in_hand_def)
qed

text \<open>A new handle has a descriptor of its own: it was not open before.\<close>

lemma in_hand_append:
  assumes "in_hand opened free R F s hs" and "held opened free (fmt_dec (unat idx)) fd a s" and "has_index (bufs s) idx a"
    and "R (fmt_dec (unat idx)) \<noteq> None" and "a \<notin> fst ` set hs" and "\<forall>h \<in> set hs. F (fst h) \<noteq> fd"
  shows "in_hand opened free R (F(a := fd)) s (hs @ [(a, idx)])"
proof -
  have "inj_on (F(a := fd)) (insert a (fst ` set hs))"
    using assms(1,5,6) by (auto simp: in_hand_def inj_on_def)
  moreover have "\<forall>(x, i) \<in> set hs. x \<noteq> a" using assms(5) by force
  ultimately show ?thesis using assms(1-4) by (auto simp: in_hand_def)
qed

text \<open>The search of the library finds the handle of the specification.\<close>

lemma find_handle:
  assumes "in_hand opened free R F s hs"
  shows "find (has_index (bufs s) idx) (map fst hs) = map_option fst (find (\<lambda>h. snd h = idx) hs)"
  using assms
proof (induction hs)
  case (Cons h hs)
  have "in_hand opened free R F s hs" using in_hand_frame[OF Cons.prems, of hs s R] by auto
  moreover have "has_index (bufs s) idx (fst h) \<longleftrightarrow> snd h = idx" using Cons.prems by (auto simp: in_hand_def has_index_def)
  ultimately show ?case using Cons.IH by simp
qed simp

lemma serves_errno: "serves L K drv opened d ok s S \<Longrightarrow> 0 \<le> e \<Longrightarrow> serves L K drv opened d ok (s\<lparr>errno := e\<rparr>) S"
  by (simp add: serves_def in_hand_def held_def buffer_list_def raw_buffer_def)

section \<open>The calls\<close>

lemma attempt_kept:
  assumes S: "in_hand opened free (entries S) F s (handles S)" and c: "creates drv opened dev d xs idx start len s r s'"
    and R: "registry_of (drv (world s)) = entries S" and new: "brk s \<notin> fst ` set (handles S)"
  shows "in_hand opened free (registry_of (drv (world s'))) F s' (handles S)"
proof (rule in_hand_frame[OF S subset_refl], clarify, intro conjI)
  fix a i assume a: "(a, i) \<in> set (handles S)"
  then have k: "held opened free (fmt_dec (unat i)) (F a) a s" "entries S (fmt_dec (unat i)) \<noteq> None" using S by (auto simp: in_hand_def)
  have c': "inserts (entries S) (fmt_dec (unat idx)) ((unat len + 4095) div 4096 * 4096, start) (r = PDA_SUCCESS) (registry_of (drv (world s')))"
    "opened (world s) \<subseteq>\<^sub>m opened (world s')" "\<forall>a. a \<noteq> brk s \<longrightarrow> map_option payload (bufs s' a) = map_option payload (bufs s a)"
    using c R by (simp_all add: creates_def)
  show "map_option payload (bufs s' a) = map_option payload (bufs s a)" using a new c'(3) by force
  have "opened (world s) (F a) \<noteq> None" using k(1) by (auto simp: held_def)
  then show "opened (world s') (F a) = opened (world s) (F a)" using c'(2) by (auto simp: map_le_def dom_def)
  show "registry_of (drv (world s')) (fmt_dec (unat i)) = entries S (fmt_dec (unat i))"
    using c'(1) k(2) by (auto simp: inserts_def split: if_splits)
qed

lemma attempt_step:
  assumes S: "serves L K drv opened d (supplied K B0 M0 avail (pages_needed start len + n)) s S"
    and arg: "idx \<noteq> PDA_BUFFER_INDEX_UNDEFINED" "ty \<noteq> PDA_BUFFER_LOOKUP" "creatable L start len ty" "proper start len"
  obtains r s' where "DMABuffer_new L d idx start len ty s = Some (r, s')" "r = PDA_SUCCESS \<longleftrightarrow> is_free idx S"
    "serves L K drv opened d (supplied K B0 M0 avail n) s' (attempt idx start len S)"
proof -
  obtain dev F where dev: "devs s d = Some dev" "linked L K drv opened dev" and F: "in_hand opened (dma_path (dev_bdf dev) ''free'') (entries S) F s (handles S)"
    using S by (auto simp: serves_def)
  have s: "\<not> cfg_DEBUG L" "buffer_list s d (map fst (handles S))" "0 \<le> errno s" "brk s = next_handle S" "distinct (map snd (handles S))"
    "supplied K B0 M0 avail (pages_needed start len + n) (drv (world s))" "registry_of (drv (world s)) = entries S" "\<forall>m n. granted (sys_munlock L m n)"
    using S by (simp_all add: serves_def)
  obtain i r s' where new: "DMABuffer_new L d idx start len ty s = Some (r, s')" "i = idx" "supplied K B0 M0 avail n (drv (world s'))"
    "creates drv opened dev d (map fst (handles S)) i start len s r s'" "r = PDA_SUCCESS \<longrightarrow> has_index (bufs s') idx (brk s)"
    by (rule new_links[OF dev(2) s(1-3) dev(1) arg(2-4) s(6)]) (use arg(1) in \<open>auto simp: has_index_def\<close>)
  note c = new(4)[unfolded new(2) creates_def, folded s(7)]
  have r: "r = PDA_SUCCESS \<longleftrightarrow> is_free idx S" using c s(7) by (auto simp: inserts_def is_free_def split: if_splits)
  obtain dev' where dev': "devs s' d = Some dev'" "dev_bdf dev' = dev_bdf dev" using c by blast
  have fresh: "brk s \<notin> fst ` set (handles S)" using s(2) by (force simp: buffer_list_def raw_buffer_def)
  note kept = attempt_kept[OF F new(4) s(7) fresh]
  have "serves L K drv opened d (supplied K B0 M0 avail n) s' (attempt idx start len S)"
  proof (cases "is_free idx S")
    case True
    with r c obtain fd where fd: "held opened (dma_path (dev_bdf dev) ''free'') (fmt_dec (unat idx)) fd (brk s) s'" "opened (world s) fd = None"
      "buffer_list s' d (map fst (handles S) @ [brk s])" by auto
    have R: "registry_of (drv (world s')) = (entries S)(fmt_dec (unat idx) \<mapsto> ((unat len + 4095) div 4096 * 4096, start))"
      using c True s(7) by (simp add: inserts_def is_free_def)
    have "idx \<notin> snd ` set (handles S)" using True F by (auto simp: in_hand_def is_free_def)
    moreover have "\<forall>h \<in> set (handles S). F (fst h) \<noteq> fd" using F fd(2) by (fastforce simp: in_hand_def held_def)
    from in_hand_append[OF kept fd(1) _ _ fresh this] have "in_hand opened (dma_path (dev_bdf dev) ''free'') (registry_of (drv (world s'))) (F(brk s := fd)) s'
        (handles S @ [(brk s, idx)])" using new(5) r True R by simp
    ultimately show ?thesis using True R c s new(3) fd(3) dev' linked_bdf[OF dev(2) dev'(2)]
      by (auto simp: serves_def attempt_def)
  next
    case False
    then have "registry_of (drv (world s')) = entries S" using c s(7) by (simp add: inserts_def is_free_def)
    with False kept r c s new(3) dev' linked_bdf[OF dev(2) dev'(2)] show ?thesis by (auto simp: serves_def attempt_def)
  qed
  with that new(1) r show thesis by blast
qed

lemma serves_parts:
  assumes "serves L K drv opened d ok s S"
  obtains dev F where "devs s d = Some dev" "linked L K drv opened dev" "in_hand opened (dma_path (dev_bdf dev) ''free'') (entries S) F s (handles S)"
    "buffer_list s d (map fst (handles S))"
  using assms by (auto simp: serves_def)

lemma get_step:
  assumes S: "serves L K drv opened d ok s S" and "handle_of idx S = Some a"
  shows "PciDevice_getDMABuffer L d idx s = Some ((PDA_SUCCESS, Some (Some a)), s)"
proof -
  obtain dev F where "in_hand opened (dma_path (dev_bdf dev) ''free'') (entries S) F s (handles S)" "buffer_list s d (map fst (handles S))"
    using serves_parts[OF S] by blast
  with find_handle[OF this(1), of idx] assms(2) show ?thesis by (intro getDMABuffer_hit) (auto simp: handle_of_def)
qed

lemma find_append: "find P (xs @ ys) = (case find P xs of None \<Rightarrow> find P ys | Some x \<Rightarrow> Some x)"
  by (induction xs) auto

lemma handle_of_attempt:
  assumes S: "serves L K drv opened d ok s S" and "is_free idx S"
  shows "handle_of idx (attempt idx start len S) = Some (next_handle S)"
proof -
  obtain dev F where "in_hand opened (dma_path (dev_bdf dev) ''free'') (entries S) F s (handles S)" using serves_parts[OF S] by blast
  then have "find (\<lambda>h. snd h = idx) (handles S) = None" using assms(2) by (auto simp: find_None_iff in_hand_def is_free_def)
  with assms(2) show ?thesis by (simp add: handle_of_def attempt_def find_append)
qed

lemma alloc_step:
  assumes S: "serves L K drv opened d (supplied K B0 M0 avail (op_pages (Alloc idx len) + n)) s S" and "allowed L K (Alloc idx len) S"
  shows "\<exists>res s' S'. device_op other L d (Alloc idx len) s = Some (res, s') \<and> service_call (Alloc idx len) S = (res, S') \<and>
    serves L K drv opened d (supplied K B0 M0 avail n) s' S'"
proof -
  obtain r s' where new: "DMABuffer_new L d idx 0 len PDA_BUFFER_KERNEL s = Some (r, s')" "r = PDA_SUCCESS \<longleftrightarrow> is_free idx S"
    "serves L K drv opened d (supplied K B0 M0 avail n) s' (attempt idx 0 len S)"
    by (rule attempt_step[OF S[unfolded op_pages.simps], of idx PDA_BUFFER_KERNEL]) (use assms(2) in auto)
  have l: "\<not> cfg_DEBUG L" using S by (simp add: serves_def)
  show ?thesis
  proof (cases "is_free idx S")
    case True
    with new(3) have "buffer_list s' d (map fst (handles S) @ [next_handle S])" by (simp add: serves_def attempt_def)
    from buffer_list_getTail[OF this] new True show ?thesis by (auto simp: PciDevice_allocDMABuffer_def outcome_def)
  next
    case False
    with new serves_errno[OF new(3), of EINVAL] l show ?thesis by (auto simp: PciDevice_allocDMABuffer_def outcome_def)
  qed
qed

lemma register_step:
  assumes S: "serves L K drv opened d (supplied K B0 M0 avail (op_pages (Register idx start len) + n)) s S" and "allowed L K (Register idx start len) S"
  shows "\<exists>res s' S'. device_op other L d (Register idx start len) s = Some (res, s') \<and> service_call (Register idx start len) S = (res, S') \<and>
    serves L K drv opened d (supplied K B0 M0 avail n) s' S'"
proof -
  obtain r s' where new: "DMABuffer_new L d idx start len PDA_BUFFER_USER s = Some (r, s')" "r = PDA_SUCCESS \<longleftrightarrow> is_free idx S"
    "serves L K drv opened d (supplied K B0 M0 avail n) s' (attempt idx start len S)"
    by (rule attempt_step[OF S[unfolded op_pages.simps], of idx PDA_BUFFER_USER]) (use assms(2) in auto)
  have l: "\<not> cfg_DEBUG L" "start \<noteq> 0" using S assms(2) by (simp_all add: serves_def)
  obtain a where a: "handle_of idx (attempt idx start len S) = Some a" "a = (if is_free idx S then next_handle S else the (handle_of idx S))"
    using handle_of_attempt[OF S, of idx start len] assms(2) by (cases "is_free idx S") (auto simp: attempt_def handle_of_def)
  note get = get_step[OF new(3) a(1)]
  show ?thesis
  proof (cases "is_free idx S")
    case True
    with new get l a(2) show ?thesis by (auto simp: PciDevice_registerDMABuffer_def outcome_def Let_def)
  next
    case False
    with new get l a serves_errno[OF new(3), of EINVAL] assms(2) show ?thesis by (auto simp: PciDevice_registerDMABuffer_def outcome_def Let_def)
  qed
qed

text \<open>A handle among the others.\<close>

lemma handle_split:
  assumes "a \<in> fst ` set H" and "distinct (map fst H)" and "distinct (map snd H)"
  obtains hs gs idx where "H = hs @ (a, idx) # gs" "map_of H a = Some idx" "filter (\<lambda>h. fst h \<noteq> a) H = hs @ gs"
    "\<forall>(x, j) \<in> set (hs @ gs). x \<noteq> a \<and> j \<noteq> idx"
proof -
  from assms(1) obtain idx where "(a, idx) \<in> set H" by auto
  then obtain hs gs where H: "H = hs @ (a, idx) # gs" by (meson split_list)
  have "a \<notin> set (map fst (hs @ gs))" "idx \<notin> set (map snd (hs @ gs))" using assms(2,3) unfolding H by simp_all
  then have o: "\<forall>(x, j) \<in> set (hs @ gs). x \<noteq> a \<and> j \<noteq> idx" by force
  have "filter (\<lambda>h. fst h \<noteq> a) (hs @ gs) = hs @ gs" using o by (intro filter_True) auto
  then have "filter (\<lambda>h. fst h \<noteq> a) H = hs @ gs" by (simp add: H)
  moreover have "map_of H a = Some idx" using map_of_is_SomeI[OF assms(2)] by (simp add: H)
  ultimately show thesis using that H o by blast
qed

text \<open>The state after a release: the object is gone, and so is its descriptor, which no other handle shares.\<close>

lemma release_kept:
  assumes F: "in_hand opened free R F s (hs @ (a, idx) # gs)" and o: "\<forall>(x, j) \<in> set (hs @ gs). x \<noteq> a \<and> j \<noteq> idx"
    and i: "bufs s a = Some b" "internal b = Some i" and fr: "freed xs a ys s s'" and op: "opened (world s') = closing i (opened (world s))"
  shows "in_hand opened free (R(fmt_dec (unat idx) := None)) F s' (hs @ gs)"
proof (rule in_hand_frame[OF F])
  have "held opened free (fmt_dec (unat idx)) (F a) a s" using F by (simp add: in_hand_def)
  then have fd: "alloc_fd i = -1" "map_fd i = F a" using i by (auto simp: held_def)
  have F': "F x \<noteq> F a" if "(x, j) \<in> set (hs @ gs)" for x j
  proof -
    have "x \<in> fst ` set (hs @ (a, idx) # gs)" "a \<in> fst ` set (hs @ (a, idx) # gs)" "x \<noteq> a" using that o by force+
    then show ?thesis using F unfolding in_hand_def inj_on_def by blast
  qed
  show "\<forall>(x, j) \<in> set (hs @ gs). map_option payload (bufs s' x) = map_option payload (bufs s x) \<and> opened (world s') (F x) = opened (world s) (F x) \<and>
      (R(fmt_dec (unat idx) := None)) (fmt_dec (unat j)) = R (fmt_dec (unat j))"
  proof (clarify, intro conjI)
    fix x j assume x: "(x, j) \<in> set (hs @ gs)"
    with o have n: "x \<noteq> a" "j \<noteq> idx" by auto
    show "map_option payload (bufs s' x) = map_option payload (bufs s x)" using fr n(1) by (simp add: freed_def)
    show "opened (world s') (F x) = opened (world s) (F x)" using op fd F'[OF x] by (auto simp: closing_def)
    show "(R(fmt_dec (unat idx) := None)) (fmt_dec (unat j)) = R (fmt_dec (unat j))" using n(2) by (simp add: fmt_dec_inject)
  qed
qed auto

lemma delete_head_facts:
  assumes "dma_buffer_list dev = head_ptr (xs @ a # ys)"
  shows "dma_buffer_list (delete_head dev xs ys) = head_ptr (xs @ ys)" "dev_internal (delete_head dev xs ys) = dev_internal dev"
    "dev_bdf (delete_head dev xs ys) = dev_bdf dev"
  using assms by (cases xs; simp add: delete_head_def dev_bdf_def)+

text \<open>\<open>PciDevice_deleteDMABuffer\<close> of a handle, on the objects and on the module.\<close>

lemma delete_links:
  assumes link: "linked L K drv opened dev" "\<forall>m n. granted (sys_munlock L m n)" and lazy: "lazy_kfree K" and ok: "driver_ok K B0 M0 (drv (world s))"
    and bl: "buffer_list s d (xs @ a # ys)" and dev: "devs s d = Some dev"
    and h: "bufs s a = Some b" "internal b = Some i" "name i = fmt_dec (unat (idx :: u64))" "uio_filepath_delete i = dma_path (dev_bdf dev) ''free''"
      "0 \<le> alloc_fd i \<longrightarrow> opened (world s) (alloc_fd i) \<noteq> None" "0 \<le> map_fd i \<longrightarrow> opened (world s) (map_fd i) \<noteq> None"
    and err: "0 \<le> errno s"
  obtains s' dev' where "PciDevice_deleteDMABuffer L (Some d) (Some a) s = Some (PDA_SUCCESS, s')" "buffer_list s' d (xs @ ys)"
    "freed xs a ys s s'" "opened (world s') = closing i (opened (world s))"
    "registry_of (drv (world s')) = (registry_of (drv (world s)))(fmt_dec (unat idx) := None)"
    "devs s' d = Some dev'" "dev_bdf dev' = dev_bdf dev" "brk s' = brk s" "0 \<le> errno s'"
    "\<forall>avail n. supplied K B0 M0 avail n (drv (world s)) \<longrightarrow> supplied K B0 M0 avail n (drv (world s'))"
proof -
  obtain w where w: "dev_internal dev = Some w" "dma_buffer_list dev = head_ptr (xs @ a # ys)" using bl dev by (auto simp: buffer_list_def)
  define s1 where "s1 = s\<lparr>devs := (devs s)(d \<mapsto> delete_head dev xs ys)\<rparr>"
  note dh = delete_head_facts[OF w(2)]
  have b: "bufs s1 a = Some b" "0 \<le> alloc_fd i \<longrightarrow> opened (world s1) (alloc_fd i) \<noteq> None" "0 \<le> map_fd i \<longrightarrow> opened (world s1) (map_fd i) \<noteq> None"
    using h by (simp_all add: s1_def)
  have l: "sysfs_driver L K drv opened (dma_path (dev_bdf dev) ''request'') (dma_path (dev_bdf dev) ''free'')" "posix_env L"
    "driver_ok K B0 M0 (drv (world s1))" "dll (bufs s1) (xs @ a # ys)" "char_of (0 :: nat) \<notin> set (fmt_dec (unat idx))" "\<forall>fd m. granted (sys_flock L fd m)"
    using link(1) ok bl fmt_dec_plain by (simp_all add: linked_def obliging_def buffer_list_def s1_def)
  obtain s' where fr: "DMABuffer_free L (Some a) PDA_DELETE s1 = Some (PDA_SUCCESS, s')" "freed xs a ys s1 s'"
    "registry_of (drv (world s')) = (registry_of (drv (world s1)))(c_snprintf UIO_PCI_DMA_BUFFER_NAME_SIZE (fmt_dec (unat idx)) := None)"
    "opened (world s') = closing i (opened (world s1))" "devs s' = devs s1" "brk s' = brk s1" "errno_step s1 s'"
    "\<forall>avail n. supplied K B0 M0 avail n (drv (world s1)) \<longrightarrow> supplied K B0 M0 avail n (drv (world s'))"
    by (rule free_links[OF l(1,2) lazy l(3,4) b(1) h(2-4) b(2,3) l(5,6) link(2)])
  have nm: "c_snprintf UIO_PCI_DMA_BUFFER_NAME_SIZE (fmt_dec (unat idx)) = fmt_dec (unat idx)"
    by (rule fmt_dec_short) (simp add: UIO_PCI_DMA_BUFFER_NAME_SIZE_def)
  have w1: "world s1 = world s" "bufs s1 = bufs s" "brk s1 = brk s" "errno s1 = errno s" "devs s' d = Some (delete_head dev xs ys)"
    using fr(5) by (simp_all add: s1_def)
  have "buffer_list s' d (xs @ ys)" using buffer_list_freed[OF bl fr(2) w1(2,5) _ dh(1)] dh(2) w(1) fr(6) w1(3) by simp
  moreover have "PciDevice_deleteDMABuffer L (Some d) (Some a) s = Some (PDA_SUCCESS, s')"
    using deleteDMABuffer_eq[OF bl dev, of L] fr(1) by (simp add: s1_def)
  moreover have "0 \<le> errno s'" using fr(7) err w1(4) by (auto simp: errno_step_def)
  moreover have "freed xs a ys s s'" using fr(2) w1(2) by (simp add: freed_def)
  ultimately show thesis using that[of s' "delete_head dev xs ys"] fr(3,4,6,8) w1 dh(3) nm by simp
qed

lemma release_step:
  assumes S: "serves L K drv opened d (supplied K B0 M0 avail n) s S" and "allowed L K (Release a) S" and lazy: "lazy_kfree K"
  shows "\<exists>res s' S'. device_op other L d (Release a) s = Some (res, s') \<and> service_call (Release a) S = (res, S') \<and>
    serves L K drv opened d (supplied K B0 M0 avail n) s' S'"
proof -
  obtain dev F where dev: "devs s d = Some dev" "linked L K drv opened dev" and F: "in_hand opened (dma_path (dev_bdf dev) ''free'') (entries S) F s (handles S)"
    and bl: "buffer_list s d (map fst (handles S))" by (rule serves_parts[OF S])
  have s: "supplied K B0 M0 avail n (drv (world s))" "\<forall>m n. granted (sys_munlock L m n)" "0 \<le> errno s" "distinct (map snd (handles S))"
    "brk s = next_handle S" "registry_of (drv (world s)) = entries S" "\<not> cfg_DEBUG L" using S by (simp_all add: serves_def)
  have a: "a \<in> fst ` set (handles S)" "distinct (map fst (handles S))" using assms(2) bl by (simp_all add: buffer_list_def dll_def)
  obtain hs gs idx where H: "handles S = hs @ (a, idx) # gs" "map_of (handles S) a = Some idx"
    "filter (\<lambda>h. fst h \<noteq> a) (handles S) = hs @ gs" "\<forall>(x, j) \<in> set (hs @ gs). x \<noteq> a \<and> j \<noteq> idx"
    by (rule handle_split[OF a s(4)])
  have bl': "buffer_list s d (map fst hs @ a # map fst gs)" and h: "held opened (dma_path (dev_bdf dev) ''free'') (fmt_dec (unat idx)) (F a) a s"
    and ok: "driver_ok K B0 M0 (drv (world s))" using bl F s(1) H(1) by (simp_all add: in_hand_def supplied_def)
  obtain b i where b: "bufs s a = Some b" "internal b = Some i" "name i = fmt_dec (unat idx)" "uio_filepath_delete i = dma_path (dev_bdf dev) ''free''"
    "0 \<le> alloc_fd i \<longrightarrow> opened (world s) (alloc_fd i) \<noteq> None" "0 \<le> map_fd i \<longrightarrow> opened (world s) (map_fd i) \<noteq> None"
    using h by (auto simp: held_def)
  obtain s' dev' where d: "PciDevice_deleteDMABuffer L (Some d) (Some a) s = Some (PDA_SUCCESS, s')" "buffer_list s' d (map fst hs @ map fst gs)"
    "freed (map fst hs) a (map fst gs) s s'" "opened (world s') = closing i (opened (world s))"
    "registry_of (drv (world s')) = (registry_of (drv (world s)))(fmt_dec (unat idx) := None)"
    "devs s' d = Some dev'" "dev_bdf dev' = dev_bdf dev" "brk s' = brk s" "0 \<le> errno s'"
    "\<forall>avail n. supplied K B0 M0 avail n (drv (world s)) \<longrightarrow> supplied K B0 M0 avail n (drv (world s'))"
    by (rule delete_links[OF dev(2) s(2) lazy ok bl' dev(1) b s(3)])
  have "in_hand opened (dma_path (dev_bdf dev') ''free'') ((entries S)(fmt_dec (unat idx) := None)) F s' (hs @ gs)"
    using release_kept[OF F[unfolded H(1)] H(4) b(1,2) d(3,4)] d(7) by simp
  moreover have "distinct (map snd (hs @ gs))" using s(4) H(1) by auto
  ultimately have "serves L K drv opened d (supplied K B0 M0 avail n) s'
      (S\<lparr>handles := hs @ gs, entries := (entries S)(fmt_dec (unat idx) := None)\<rparr>)"
    using d(2,5,6,8-10) s(1,2,5-7) linked_bdf[OF dev(2) d(7)] by (auto simp: serves_def)
  with d(1) H(2,3) show ?thesis by auto
qed

lemma registry_call_size: "snd (registry_call m c R) = snd (registry_call n c R)"
  by (simp add: registry_call_def Let_def split: call.split)

lemma registry_call_other: "\<not> deletes nm c \<Longrightarrow> R nm \<noteq> None \<Longrightarrow> snd (registry_call n c R) nm = R nm"
  by (auto simp: registry_call_def Let_def split: call.split)

lemma foreign_step:
  assumes other: "interference K drv opened other" and lazy: "lazy_kfree K"
    and S: "serves L K drv opened d (supplied K B0 M0 avail (op_pages (Foreign c) + n)) s S" and ok: "allowed L K (Foreign c) S"
  shows "\<exists>res s' S'. device_op other L d (Foreign c) s = Some (res, s') \<and> service_call (Foreign c) S = (res, S') \<and>
    serves L K drv opened d (supplied K B0 M0 avail n) s' S'"
proof -
  let ?s = "s\<lparr>world := other c (world s)\<rparr>"
  have s: "supplied K B0 M0 avail (call_pages c + n) (drv (world s))" "registry_of (drv (world s)) = entries S" using S by (simp_all add: serves_def)
  from driver_call_step[OF lazy s(1)] ok obtain r k where k: "driver_call K c (drv (world s)) = Some (r, k)"
    "registry_call (sizeof_private K) c (entries S) = (r, registry_of k)" "supplied K B0 M0 avail n k" using s(2) by auto
  have R: "registry_of k = snd (registry_call 0 c (entries S))" using k(2) registry_call_size[of "sizeof_private K" c "entries S" 0] by simp
  have w: "drv (world ?s) = k" "opened (world ?s) = opened (world s)" using other k(1) by (auto simp: interference_def)
  obtain dev F where dev: "devs s d = Some dev" "linked L K drv opened dev" and F: "in_hand opened (dma_path (dev_bdf dev) ''free'') (entries S) F s (handles S)"
    using serves_parts[OF S] by blast
  have "in_hand opened (dma_path (dev_bdf dev) ''free'') (registry_of k) F ?s (handles S)"
  proof (rule in_hand_frame[OF F subset_refl], clarify, intro conjI)
    fix a i assume a: "(a, i) \<in> set (handles S)"
    show "registry_of k (fmt_dec (unat i)) = entries S (fmt_dec (unat i))"
      using a ok F registry_call_other[of "fmt_dec (unat i)" c "entries S" 0] unfolding R by (fastforce simp: in_hand_def)
  qed (simp, simp only: w(2))
  then have "serves L K drv opened d (supplied K B0 M0 avail n) ?s (S\<lparr>entries := registry_of k\<rparr>)"
    using S dev k(3) w by (auto simp: serves_def buffer_list_def raw_buffer_def)
  then show ?thesis unfolding R by auto
qed

lemma device_op_step:
  assumes "lazy_kfree K \<and> interference K drv opened other \<and> serves L K drv opened d (supplied K B0 M0 avail (op_pages c + n)) s S" and "allowed L K c S"
  shows "\<exists>res s' S'. device_op other L d c s = Some (res, s') \<and> service_call c S = (res, S') \<and>
    lazy_kfree K \<and> interference K drv opened other \<and> serves L K drv opened d (supplied K B0 M0 avail n) s' S'"
proof -
  from assms(1) have lazy: "lazy_kfree K" and i: "interference K drv opened other" and S: "serves L K drv opened d (supplied K B0 M0 avail (op_pages c + n)) s S" by simp_all
  have "\<exists>res s' S'. device_op other L d c s = Some (res, s') \<and> service_call c S = (res, S') \<and> serves L K drv opened d (supplied K B0 M0 avail n) s' S'"
  proof (cases c)
    case (Alloc idx len)
    with S assms(2) alloc_step show ?thesis by blast
  next
    case (Register idx start len)
    with S assms(2) register_step show ?thesis by blast
  next
    case (Foreign c')
    with foreign_step[OF i lazy, of L d B0 M0 avail c' n s S] S assms(2) show ?thesis by simp
  next
    case (Get idx)
    with assms(2) obtain a where "handle_of idx S = Some a" by auto
    with get_step[OF S this] Get S show ?thesis by (auto simp: outcome_def)
  next
    case (Release a)
    then have "serves L K drv opened d (supplied K B0 M0 avail n) s S" "allowed L K (Release a) S" using S assms(2) by simp_all
    from release_step[OF this lazy] Release show ?thesis by simp
  qed
  with i lazy show ?thesis by blast
qed

interpretation device_service: call_refinement "device_op other L d" service_call
  "\<lambda>n s S. lazy_kfree K \<and> interference K drv opened other \<and> serves L K drv opened d (supplied K B0 M0 avail n) s S" op_pages "allowed L K"
  by unfold_locales (rule device_op_step)


text \<open>
  A program that creates a buffer, finds index 3 taken by another program, gets it once the other has deleted its
  buffer, looks it up, registers memory of its own, and releases its first buffer.
\<close>

definition other_program :: "call \<Rightarrow> linked_world \<Rightarrow> linked_world" where
  "other_program c w = (case driver_call demo_kernel c (fst w) of None \<Rightarrow> w | Some (r, k) \<Rightarrow> (k, snd w))"

lemma other_program_law: "interference demo_kernel fst (\<lambda>w. map_of (snd w)) other_program"
  by (simp add: interference_def other_program_def)

definition demo_ops :: "buffer_op list" where
  "demo_ops = [Alloc 5 12000, Foreign (Request demo_write), Alloc 3 4096, Foreign (Delete (char_bytes ''3'')), Alloc 3 4096, Get 3,
     Register 7 0x7f0000000000 8192, Release 10]"

definition demo_results :: "(bool \<times> addr option) list" where
  "demo_results = [(True, Some 10), (True, None), (False, None), (True, None), (True, Some 12), (True, Some 12), (True, Some 13), (True, None)]"

lemma fmt_dec_digits: "fmt_dec 3 = ''3''" "fmt_dec 5 = ''5''" "fmt_dec 7 = ''7''"
  by code_simp+

lemma demo_ops_permitted:
  "permitted service_call (allowed linked_env demo_kernel) demo_ops \<lparr>next_handle = 10, handles = [], entries = Map.empty\<rparr>"
  "spec_calls service_call demo_ops \<lparr>next_handle = 10, handles = [], entries = Map.empty\<rparr> =
     (demo_results, \<lparr>next_handle = 14, handles = [(12, 3), (13, 7)], entries = [''3'' \<mapsto> (4096, 0), ''7'' \<mapsto> (8192, 0x7f0000000000)]\<rparr>)"
  "(\<Sum>c\<leftarrow>demo_ops. op_pages c) = 8"
proof -
  have d: "pv_size (decode_request demo_write) = 12000" "pv_start (decode_request demo_write) = 0" "pv_name (decode_request demo_write) = ''3''"
    using arg_cong[OF demo_write_decoded, of pv_size] arg_cong[OF demo_write_decoded, of pv_start] demo_write_facts(1) by (simp_all add: demo_request_def)
  have "char_of (0 :: nat) \<notin> set ''3''" by (simp add: char_of_def)
  from bytes_string_char_bytes[OF this, of 0] have nm: "c_snprintf UIO_PCI_DMA_BUFFER_NAME_SIZE (bytes_string (char_bytes ''3'')) = ''3''"
    by (simp add: c_snprintf_def UIO_PCI_DMA_BUFFER_NAME_SIZE_def)
  have w: "well_formed demo_kernel (Delete (char_bytes ''3''))" by (simp add: well_formed_def)
  note defs = demo_ops_def creatable_def linked_env_def calm_env_def proper_def attempt_def is_free_def handle_of_def PDA_BUFFER_INDEX_UNDEFINED_def
    KPAGE_SIZE_def registry_call_def fmt_dec_digits d nm w demo_call Let_def
  show "permitted service_call (allowed linked_env demo_kernel) demo_ops \<lparr>next_handle = 10, handles = [], entries = Map.empty\<rparr>"
    by (simp add: defs)
  show "spec_calls service_call demo_ops \<lparr>next_handle = 10, handles = [], entries = Map.empty\<rparr> =
     (demo_results, \<lparr>next_handle = 14, handles = [(12, 3), (13, 7)], entries = [''3'' \<mapsto> (4096, 0), ''7'' \<mapsto> (8192, 0x7f0000000000)]\<rparr>)"
  proof -
    let ?S = "\<lambda>n hs R. \<lparr>next_handle = n, handles = hs, entries = R\<rparr>"
    let ?five = "(''5'', (12288 :: nat, 0 :: u64))" and ?three = "(''3'', (4096 :: nat, 0 :: u64))" and ?seven = "(''7'', (8192 :: nat, 0x7f0000000000 :: u64))"
    have 1: "service_call (Alloc 5 12000) (?S 10 [] Map.empty) = ((True, Some 10), ?S 11 [(10, 5)] (map_of [?five]))" by (simp add: defs)
    have 2: "service_call (Foreign (Request demo_write)) (?S 11 [(10, 5)] (map_of [?five]))
      = ((True, None), ?S 11 [(10, 5)] (map_of [(''3'', (12288, 0)), ?five]))" by (simp add: defs)
    have 3: "service_call (Alloc 3 4096) (?S 11 [(10, 5)] (map_of [(''3'', (12288, 0)), ?five]))
      = ((False, None), ?S 12 [(10, 5)] (map_of [(''3'', (12288, 0)), ?five]))" by (simp add: defs)
    have 4: "service_call (Foreign (Delete (char_bytes ''3''))) (?S 12 [(10, 5)] (map_of [(''3'', (12288, 0)), ?five]))
      = ((True, None), ?S 12 [(10, 5)] (map_of [?five]))" by (auto simp: defs)
    have 5: "service_call (Alloc 3 4096) (?S 12 [(10, 5)] (map_of [?five])) = ((True, Some 12), ?S 13 [(10, 5), (12, 3)] (map_of [?three, ?five]))"
      by (simp add: defs)
    have 6: "service_call (Get 3) (?S 13 [(10, 5), (12, 3)] (map_of [?three, ?five])) = ((True, Some 12), ?S 13 [(10, 5), (12, 3)] (map_of [?three, ?five]))"
      by (simp add: defs)
    have 7: "service_call (Register 7 0x7f0000000000 8192) (?S 13 [(10, 5), (12, 3)] (map_of [?three, ?five]))
      = ((True, Some 13), ?S 14 [(10, 5), (12, 3), (13, 7)] (map_of [?seven, ?three, ?five]))" by (simp add: defs)
    have 8: "service_call (Release 10) (?S 14 [(10, 5), (12, 3), (13, 7)] (map_of [?seven, ?three, ?five]))
      = ((True, None), ?S 14 [(12, 3), (13, 7)] (map_of [?three, ?seven]))" by (auto simp: defs)
    have "map_of [?three, ?seven] = [''3'' \<mapsto> (4096, 0), ''7'' \<mapsto> (8192, 0x7f0000000000)]" by auto
    then show ?thesis by (simp only: demo_ops_def demo_results_def spec_calls.simps 1 2 3 4 5 6 7 8 prod.case)
  qed
  show "(\<Sum>c\<leftarrow>demo_ops. op_pages c) = 8" by (simp add: demo_ops_def pages_needed_def demo_call call_pages_def[of "Delete _"])
qed


section \<open>Objects of lookups\<close>

text \<open>
  A lookup attaches a buffer of the module without a request for memory, so the descriptor \<open>alloc_fd\<close> of the new
  object keeps the value 0 it has from \<open>calloc\<close>.
\<close>

lemma lookup_body:
  assumes link: "linked L K drv opened dev" and b: "bufs s a = Some b" "internal b = Some i" "devs s d = Some dev"
  obtains s' b' i' where "new_body L d a start len PDA_BUFFER_LOOKUP s = Some ((False, PDA_SUCCESS), s')" "drv (world s') = drv (world s)"
    "opened (world s) \<subseteq>\<^sub>m opened (world s')" "bufs s' a = Some b'" "internal b' = Some i'" "alloc_fd i' = alloc_fd i"
    "opened (world s') (map_fd i') \<noteq> None" "name i' = fmt_dec (unat (buf_index b))" "uio_filepath_delete i' = dma_path (dev_bdf dev) ''free''"
proof -
  from link have l: "sysfs_driver L K drv opened (dma_path (dev_bdf dev) ''request'') (dma_path (dev_bdf dev) ''free'')" "obliging L" "posix_env L"
    by (simp_all add: linked_def)
  obtain i1 where 1: "DMABuffer_generatePaths L a (Some d) s = Some (PDA_SUCCESS, s\<lparr>bufs := (bufs s)(a \<mapsto> b\<lparr>internal := Some i1\<rparr>)\<rparr>)"
    and i1: "name i1 = fmt_dec (unat (buf_index b))" "uio_filepath_request i1 = dma_path (dev_bdf dev) ''request''"
      "uio_filepath_delete i1 = dma_path (dev_bdf dev) ''free''" "alloc_fd i1 = alloc_fd i"
    by (rule generatePaths_link[OF b])
  define s1 where "s1 = s\<lparr>bufs := (bufs s)(a \<mapsto> b\<lparr>internal := Some i1\<rparr>)\<rparr>"
  obtain r s2 where 2: "c_sys (sys_stat_size L (uio_filepath_folder i1)) s1 = (r, s2)" by fastforce
  have r: "r \<noteq> None" using c_sys_granted[OF _ 2] l(2) by (auto simp: obliging_def)
  have s2: "bufs s2 a = Some (b\<lparr>internal := Some i1\<rparr>)" "drv (world s2) = drv (world s)" "opened (world s2) = opened (world s)"
    using c_sys_heaps[OF 2] quiet_sys[OF sysfs_quiet(3)[OF l(1)] 2] by (simp_all add: s1_def same_heaps_def same_driver_def)
  from map_link[OF l s2(1)] obtain s3 fd b' where 3: "DMABuffer_map L a s2 = Some (PDA_SUCCESS, s3)" "drv (world s3) = drv (world s2)"
    "opened (world s2) fd = None" "opened (world s3) = (opened (world s2))(fd \<mapsto> uio_filepath_map i1)" "bufs s3 a = Some b'"
    "internal b' = Some (i1\<lparr>map_fd := fd\<rparr>)" by auto
  define s4 where "s4 = s3\<lparr>bufs := (bufs s3)(a \<mapsto> b'\<lparr>buf_type := PDA_BUFFER_KERNEL\<rparr>)\<rparr>"
  have "new_body L d a start len PDA_BUFFER_LOOKUP s = Some ((False, PDA_SUCCESS), s4)"
    using 1 2 r 3(1,5) by (simp add: new_body_def new_lookup_def DMABuffer_exists_def get_int_def upd_buf_def s4_def s1_def)
  moreover have "opened (world s) \<subseteq>\<^sub>m opened (world s4)" using 3(3,4) s2(3) by (auto simp: s4_def map_le_def)
  ultimately show thesis
    using that[of s4 "b'\<lparr>buf_type := PDA_BUFFER_KERNEL\<rparr>" "i1\<lparr>map_fd := fd\<rparr>"] i1 3 s2 by (simp add: s4_def)
qed

lemma lookup_links:
  assumes link: "linked L K drv opened dev" "\<not> cfg_DEBUG L" and inv: "buffer_list s d xs" "devs s d = Some dev" "0 \<le> errno s"
    and idx: "idx \<noteq> PDA_BUFFER_INDEX_UNDEFINED"
  obtains s' b i dev' where "DMABuffer_new L d idx 0 0 PDA_BUFFER_LOOKUP s = Some (PDA_SUCCESS, s')" "drv (world s') = drv (world s)"
    "opened (world s) \<subseteq>\<^sub>m opened (world s')" "buffer_list s' d (xs @ [brk s])" "has_index (bufs s') idx (brk s)"
    "\<forall>x. x \<noteq> brk s \<longrightarrow> map_option payload (bufs s' x) = map_option payload (bufs s x)"
    "bufs s' (brk s) = Some b" "internal b = Some i" "alloc_fd i = 0" "opened (world s') (map_fd i) \<noteq> None"
    "name i = fmt_dec (unat idx)" "uio_filepath_delete i = dma_path (dev_bdf dev) ''free''"
    "devs s' d = Some dev'" "dev_bdf dev' = dev_bdf dev" "0 \<le> errno s'"
proof -
  from link(1) have l: "sysfs_driver L K drv opened (dma_path (dev_bdf dev) ''request'') (dma_path (dev_bdf dev) ''free'')" "obliging L" "posix_env L"
    by (simp_all add: linked_def)
  then have al: "\<forall>n w. fst (sys_alloc L n w)" by (simp add: obliging_def)
  obtain dev' wp idx' s1 s2 where dev: "devs s d = Some dev'" "dev_internal dev' = Some wp" "dma_buffer_list dev' = head_ptr xs"
    and s1: "DMABuffer_alloc L 0 (Some d) s = Some ((PDA_SUCCESS, Some (brk s)), s1)"
    and s2: "s2 = s1\<lparr>bufs := (bufs s)(brk s \<mapsto> (blank_buffer 0 (Some d))\<lparr>buf_type := PDA_BUFFER_LOOKUP, buf_index := idx'\<rparr>)\<rparr>" "devs s1 = devs s"
      "errno s1 = errno s"
    and bld: "building (brk s) s s2" and i: "idx \<noteq> PDA_BUFFER_INDEX_UNDEFINED \<longrightarrow> idx' = idx"
    and run: "\<forall>jump r s3. new_body L d (brk s) 0 0 PDA_BUFFER_LOOKUP s2 = Some ((jump, r), s3) \<and> devs s3 = devs s \<longrightarrow>
       DMABuffer_new L d idx 0 0 PDA_BUFFER_LOOKUP s = new_end L d (brk s) dev' s jump r s3"
    by (rule DMABuffer_new_unfold[OF al inv(1), of 0 PDA_BUFFER_LOOKUP idx 0]) blast
  define b where "b = (blank_buffer 0 (Some d))\<lparr>buf_type := PDA_BUFFER_LOOKUP, buf_index := idx\<rparr>"
  have b: "bufs s2 (brk s) = Some b" "internal b = Some zero_DMABufferInternal" "devs s2 d = Some dev" "dev' = dev" "buf_index b = idx"
    "drv (world s2) = drv (world s)" "opened (world s2) = opened (world s)"
    using s2 inv(2) dev(1) i idx alloc_link[OF l(1) s1 l(2)] by (simp_all add: b_def blank_buffer_def)
  have z: "alloc_fd zero_DMABufferInternal = 0" by (simp add: zero_DMABufferInternal_def)
  obtain s3 b3 i3 where
    3: "new_body L d (brk s) 0 0 PDA_BUFFER_LOOKUP s2 = Some ((False, PDA_SUCCESS), s3)" "drv (world s3) = drv (world s)"
      "opened (world s) \<subseteq>\<^sub>m opened (world s3)" "bufs s3 (brk s) = Some b3" "internal b3 = Some i3" "alloc_fd i3 = 0"
      "opened (world s3) (map_fd i3) \<noteq> None" "name i3 = fmt_dec (unat idx)" "uio_filepath_delete i3 = dma_path (dev_bdf dev) ''free''"
    by (rule lookup_body[OF link(1) b(1-3), of 0 0, unfolded b(5-7) z])
  have "raw_buffer (brk s) s2" "unmapped (brk s) s2" "0 \<le> errno s2" using b(1) s2 inv(3) by (auto simp: raw_buffer_def unmapped_def b_def blank_buffer_def)
  from new_body_step[OF l(3) link(2) this(1,2) b(3) dev(2)[unfolded b(4)] this(3), of 0 0 PDA_BUFFER_LOOKUP] 3(1)
  have "touches (brk s) s2 s3" by (auto simp: new_body_ok_def)
  from building_touches[OF bld this] have bld3: "building (brk s) s s3" .
  from building_link[OF inv(1) bld3 inv(2)] obtain h where
    4: "DMABuffer_addNode (dma_buffer_list dev) (Some (brk s)) (bufs s3) = Some (head_ptr (xs @ [brk s]), h)"
    "map_option internal (h (brk s)) = map_option internal (bufs s3 (brk s))" by blast
  from DMABuffer_new_outcome[OF l(3) link(2) al inv(1,3), of idx 0 0 PDA_BUFFER_LOOKUP] obtain r s' where
    5: "DMABuffer_new L d idx 0 0 PDA_BUFFER_LOOKUP s = Some (r, s')" "0 \<le> errno s'" "r = PDA_SUCCESS \<Longrightarrow> buffer_list s' d (xs @ [brk s]) \<and>
      (\<forall>a. a \<noteq> brk s \<longrightarrow> map_option payload (bufs s' a) = map_option payload (bufs s a)) \<and> has_index (bufs s') idx (brk s)"
    using idx by (auto simp: has_index_def split: if_splits)
  have "DMABuffer_new L d idx 0 0 PDA_BUFFER_LOOKUP s = new_end L d (brk s) dev s False PDA_SUCCESS s3"
    using run[rule_format, of False PDA_SUCCESS s3] 3(1) bld3 b(4) by (simp add: building_def)
  with 5(1) 4(1) have r: "r = PDA_SUCCESS" "world s' = world s3" "bufs s' = h" "devs s' d = Some (dev\<lparr>dma_buffer_list := head_ptr (xs @ [brk s])\<rparr>)"
    by (auto simp: new_end_def)
  obtain b' where "h (brk s) = Some b'" "internal b' = Some i3" using 4(2) 3(4,5) by auto
  with that[OF 5(1)[unfolded r(1)], of b' i3 "dev\<lparr>dma_buffer_list := head_ptr (xs @ [brk s])\<rparr>"] 5(2) 5(3)[OF r(1)] r 3
  show thesis by (simp add: dev_bdf_def)
qed

text \<open>
  So the release of an object that a lookup has attached closes descriptor 0, the standard input of the program.
\<close>

lemma lookup_release_closes_stdin:
  assumes link: "linked L K drv opened dev" "\<not> cfg_DEBUG L" "\<forall>m n. granted (sys_munlock L m n)" and lazy: "lazy_kfree K" and drv: "driver_ok K B0 M0 (drv (world s))"
    and inv: "buffer_list s d xs" "devs s d = Some dev" "0 \<le> errno s" and idx: "idx \<noteq> PDA_BUFFER_INDEX_UNDEFINED"
    and new: "\<forall>a \<in> set xs. \<not> has_index (bufs s) idx a" and stdin: "opened (world s) 0 \<noteq> None"
  shows "\<exists>s1 s2. PciDevice_getDMABuffer L d idx s = Some ((PDA_SUCCESS, Some (Some (brk s))), s1) \<and> opened (world s1) 0 \<noteq> None \<and>
    PciDevice_deleteDMABuffer L (Some d) (Some (brk s)) s1 = Some (PDA_SUCCESS, s2) \<and> opened (world s2) 0 = None"
proof -
  obtain s1 b i dev' where 1: "DMABuffer_new L d idx 0 0 PDA_BUFFER_LOOKUP s = Some (PDA_SUCCESS, s1)" "drv (world s1) = drv (world s)"
    "opened (world s) \<subseteq>\<^sub>m opened (world s1)" "buffer_list s1 d (xs @ [brk s])" "has_index (bufs s1) idx (brk s)"
    "\<forall>x. x \<noteq> brk s \<longrightarrow> map_option payload (bufs s1 x) = map_option payload (bufs s x)"
    "bufs s1 (brk s) = Some b" "internal b = Some i" "alloc_fd i = 0" "opened (world s1) (map_fd i) \<noteq> None"
    "name i = fmt_dec (unat idx)" "uio_filepath_delete i = dma_path (dev_bdf dev) ''free''" "devs s1 d = Some dev'" "dev_bdf dev' = dev_bdf dev" "0 \<le> errno s1"
    by (rule lookup_links[OF link(1,2) inv idx])
  have "brk s \<notin> set xs" using inv(1) by (auto simp: buffer_list_def raw_buffer_def)
  from find_appended[OF 1(6,5) new this] have hit: "find (has_index (bufs s1) idx) (xs @ [brk s]) = Some (brk s)" .
  have "find (has_index (bufs s) idx) xs = None" using new by (simp add: find_None_iff)
  from getDMABuffer_miss[OF inv(1) this, of L] getDMABuffer_hit[OF 1(4) hit, of L] 1(1)
  have get: "PciDevice_getDMABuffer L d idx s = Some ((PDA_SUCCESS, Some (Some (brk s))), s1)" by simp
  have o: "opened (world s1) 0 \<noteq> None" using stdin 1(3) by (fastforce simp: map_le_def dom_def)
  obtain s2 dev2 where "PciDevice_deleteDMABuffer L (Some d) (Some (brk s)) s1 = Some (PDA_SUCCESS, s2)" "opened (world s2) = closing i (opened (world s1))"
    by (rule delete_links[OF linked_bdf[OF link(1) 1(14)] link(3) lazy, of B0 M0 s1 d xs "brk s" "[]" b i idx])
      (use drv o 1 in \<open>simp_all\<close>)
  with get o 1(9) show ?thesis by (auto simp: closing_def)
qed

text \<open>
  \<open>PciDevice_registerDMABuffer\<close> looks the index up even if the creation before has failed. With a buffer of that index in the
  module that the process does not hold, the call reports an error but has set \<open>*buffer\<close> to a new object and
  linked it into the list of the device.
\<close>

lemma failed_registration_attaches:
  assumes S: "serves L K drv opened d (supplied K B0 M0 avail (pages_needed start len + n)) s S"
    and idx: "idx \<noteq> PDA_BUFFER_INDEX_UNDEFINED" "start \<noteq> 0" "creatable L start len PDA_BUFFER_USER" "proper start len"
    and foreign: "\<not> is_free idx S" "handle_of idx S = None"
  shows "\<exists>r a s'. PciDevice_registerDMABuffer L (Some d) idx start len s = Some ((r, Some (Some a)), s') \<and> r \<noteq> PDA_SUCCESS \<and>
    buffer_list s' d (map fst (handles S) @ [a])"
proof -
  obtain r s1 where 1: "DMABuffer_new L d idx start len PDA_BUFFER_USER s = Some (r, s1)" "r \<noteq> PDA_SUCCESS"
    "serves L K drv opened d (supplied K B0 M0 avail n) s1 (attempt idx start len S)"
    by (rule attempt_step[OF S idx(1) _ idx(3,4)]) (use foreign(1) in auto)
  have H: "handles (attempt idx start len S) = handles S" using foreign(1) by (simp add: attempt_def)
  obtain dev F where dev: "devs s1 d = Some dev" "linked L K drv opened dev" "in_hand opened (dma_path (dev_bdf dev) ''free'') (entries (attempt idx start len S)) F s1 (handles S)"
    "buffer_list s1 d (map fst (handles S))" using serves_parts[OF 1(3)] unfolding H by blast
  have l: "\<not> cfg_DEBUG L" "0 \<le> errno s1" using 1(3) by (simp_all add: serves_def)
  obtain s2 where 2: "DMABuffer_new L d idx 0 0 PDA_BUFFER_LOOKUP s1 = Some (PDA_SUCCESS, s2)" "buffer_list s2 d (map fst (handles S) @ [brk s1])"
    "has_index (bufs s2) idx (brk s1)" "\<forall>x. x \<noteq> brk s1 \<longrightarrow> map_option payload (bufs s2 x) = map_option payload (bufs s1 x)"
    by (rule lookup_links[OF dev(2) l(1) dev(4,1) l(2) idx(1)]) blast
  have none: "find (has_index (bufs s1) idx) (map fst (handles S)) = None"
    using find_handle[OF dev(3), of idx] foreign(2) by (simp add: handle_of_def)
  then have "\<forall>a \<in> set (map fst (handles S)). \<not> has_index (bufs s1) idx a" by (auto simp: find_None_iff)
  moreover have "brk s1 \<notin> set (map fst (handles S))" using dev(4) by (auto simp: buffer_list_def raw_buffer_def)
  ultimately have "find (has_index (bufs s2) idx) (map fst (handles S) @ [brk s1]) = Some (brk s1)" by (rule find_appended[OF 2(4,3)])
  from getDMABuffer_miss[OF dev(4) none, of L] getDMABuffer_hit[OF 2(2) this, of L] 2(1)
  have "PciDevice_getDMABuffer L d idx s1 = Some ((PDA_SUCCESS, Some (Some (brk s1))), s2)" by simp
  moreover have "buffer_list (snd (ERROR L EINVAL s2)) d (map fst (handles S) @ [brk s1])"
    using 2(2) l(1) by (simp add: buffer_list_def raw_buffer_def)
  ultimately show ?thesis using 1(1,2) idx(2) by (auto simp: PciDevice_registerDMABuffer_def Let_def)
qed

end
