(* ===== verification/PDA_KernelFault.thy ===== *)
theory PDA_KernelFault
  imports PDA_KernelMap
begin

text \<open>
  The build of the kernel module with \<open>UIO_PDA_USE_PAGEFAULT_HANDLER\<close>: \<open>map\<close> maps nothing itself, the
  pages are inserted one by one when the process touches them. For this a buffer carries the list of
  its pages and of their frame numbers. The field \<open>pfn_list\<close> of the private structure is used in this
  build only and is passed along beside the record; it is \<open>None\<close> while the pointer is \<open>NULL\<close>.
  \<open>vm_insert_mixed\<close> is a service of the kernel and an argument of the handler.
\<close>

section \<open>The lists of a buffer\<close>

definition nth_page :: "u64 \<Rightarrow> nat \<Rightarrow> u64" where
  "nth_page page n = page + sizeof_page * of_nat n"

type_synonym page_lists = "u64 list \<times> u64 list"

text \<open>One write into both lists.\<close>

definition list_page :: "'w kenv \<Rightarrow> nat \<Rightarrow> u64 \<Rightarrow> page_lists \<Rightarrow> page_lists option" where
  "list_page E page_index current_page ls =
     do {
       page_list \<leftarrow> list_put (fst ls) page_index current_page;
       pfn_list \<leftarrow> list_put (snd ls) page_index (page_to_pfn E current_page);
       Some (page_list, pfn_list)
     }"

fun list_chunk :: "'w kenv \<Rightarrow> u64 \<Rightarrow> nat \<Rightarrow> nat \<Rightarrow> nat \<Rightarrow> page_lists \<Rightarrow> (nat \<times> page_lists) option" where
  "list_chunk E page j 0 page_index ls = Some (page_index, ls)"
| "list_chunk E page j (Suc n) page_index ls =
     do {
       ls \<leftarrow> list_page E page_index (nth_page page j) ls;
       list_chunk E page (Suc j) n (Suc page_index) ls
     }"

fun list_chunks :: "'w kenv \<Rightarrow> scatterlist list \<Rightarrow> nat \<Rightarrow> nat \<Rightarrow> nat \<Rightarrow> page_lists \<Rightarrow> page_lists option" where
  "list_chunks E sg i 0 page_index ls = Some ls"
| "list_chunks E sg i (Suc n) page_index ls =
     do {
       e \<leftarrow> list_get sg i;
       let pages = drop_bit 12 (ucast (dma_length e) :: u64);
       (page_index, ls) \<leftarrow> list_chunk E (sg_page e) 0 (unat pages) page_index ls;
       list_chunks E sg (Suc i) n page_index ls
     }"

definition list_pages :: "'w kenv \<Rightarrow> uio_pci_dma_private \<Rightarrow> page_lists option" where
  "list_pages E priv =
     do {
       sg \<leftarrow> pv_sg priv;
       let zeros = replicate (unat (pv_pages priv)) 0;
       list_chunks E sg 0 (unat (pv_length priv)) 0 (zeros, zeros)
     }"

type_synonym 'w fault_result = "(int \<times> uio_pci_dma_private \<times> u64 list option \<times> 'w kstate) option"

definition fault_exit :: "'w kenv \<Rightarrow> uio_pci_dma_private \<Rightarrow> 'w kstate \<Rightarrow> 'w fault_result" where
  "fault_exit E priv s = do { (r, priv, s) \<leftarrow> allocate_kernel_exit E priv s; Some (r, priv, None, s) }"

text \<open>The block at the end of \<open>uio_pci_dma_allocate_kernel_memory\<close>.\<close>

definition allocate_page_lists :: "'w kenv \<Rightarrow> uio_pci_dma_private \<Rightarrow> 'w kstate \<Rightarrow> 'w fault_result" where
  "allocate_page_lists E priv s =
     (case kalloc E (unat (pv_pages priv * 8)) s of
        (False, s) \<Rightarrow> fault_exit E (priv\<lparr>pv_page_list := None\<rparr>) s
      | (True, s) \<Rightarrow>
          let priv = priv\<lparr>pv_page_list := Some (replicate (unat (pv_pages priv)) 0)\<rparr> in
          (case kalloc E (unat (pv_pages priv * 8)) s of
             (False, s) \<Rightarrow> fault_exit E priv s
           | (True, s) \<Rightarrow>
               do {
                 (page_list, pfn_list) \<leftarrow> list_pages E priv;
                 Some (UIO_PCI_DMA_SUCCESS, priv\<lparr>pv_page_list := Some page_list\<rparr>, Some pfn_list, s)
               }))"

definition allocate_kernel_memory_fault :: "'w kenv \<Rightarrow> uio_pci_dma_private \<Rightarrow> 'w kstate \<Rightarrow> 'w fault_result" where
  "allocate_kernel_memory_fault E priv s =
     do {
       (r, priv, s) \<leftarrow> uio_pci_dma_allocate_kernel_memory E priv s;
       if r \<noteq> UIO_PCI_DMA_SUCCESS then Some (r, priv, None, s) else allocate_page_lists E priv s
     }"

text \<open>User memory: the loop that enters the pages into the table notes their frames as well.\<close>

fun put_into_lists ::
  "'w kenv \<Rightarrow> u64 list \<Rightarrow> nat \<Rightarrow> nat \<Rightarrow> scatterlist list \<Rightarrow> u64 list \<Rightarrow> (scatterlist list \<times> u64 list) option" where
  "put_into_lists E page_list i 0 sg pfn_list = Some (sg, pfn_list)"
| "put_into_lists E page_list i (Suc n) sg pfn_list =
     do {
       current_page \<leftarrow> list_get page_list i;
       e \<leftarrow> list_get sg i;
       pfn_list \<leftarrow> list_put pfn_list i (page_to_pfn E current_page);
       if current_page AND 3 \<noteq> 0 then None
       else put_into_lists E page_list (Suc i) n (sg[i := sg_set_page e current_page (ucast KPAGE_SIZE) 0]) pfn_list
     }"

definition allocate_user_memory_fault :: "'w kenv \<Rightarrow> uio_pci_dma_private \<Rightarrow> 'w kstate \<Rightarrow> 'w fault_result" where
  "allocate_user_memory_fault E priv s =
     (if pv_size priv < 1 then Some (UIO_PCI_DMA_ERROR, priv, None, s)
      else let (pages, sz) = user_pages (pv_size priv);
               n = (scast pages :: u64);
               priv = priv\<lparr>pv_size := sz, pv_length := n, pv_pages := n\<rparr> in
        if pv_start priv mod KPAGE_SIZE \<noteq> 0 then Some (UIO_PCI_DMA_ERROR, priv, None, s)
        else (case kalloc E (unat (n * 8)) s of
           (False, s) \<Rightarrow> Some (UIO_PCI_DMA_ERROR, priv\<lparr>pv_page_list := None\<rparr>, None, s)
         | (True, s) \<Rightarrow>
             (case kalloc E (unat (n * 8)) s of
                (False, s) \<Rightarrow> Some (UIO_PCI_DMA_ERROR, priv\<lparr>pv_page_list := Some (replicate (unat n) 0)\<rparr>, None, s)
              | (True, s) \<Rightarrow>
                  (case k_get_user_pages E (pv_start priv) n (kworld s) of
                     ((pages_mapped, page_list), w) \<Rightarrow>
                       let s = s\<lparr>kworld := w, pinned := pinned s + mset page_list\<rparr>;
                           priv = priv\<lparr>pv_page_list := Some page_list\<rparr>;
                           pfn_list = replicate (unat n) 0 in
                       if pages_mapped \<noteq> sint pages then Some (UIO_PCI_DMA_ERROR, priv, Some pfn_list, s)
                       else (case kalloc E (unat (n * of_nat sizeof_scatterlist)) s of
                          (False, s) \<Rightarrow> Some (UIO_PCI_DMA_ERROR, priv\<lparr>pv_sg := None\<rparr>, Some pfn_list, s)
                        | (True, s) \<Rightarrow>
                            do {
                              (sg, pfn_list) \<leftarrow> put_into_lists E page_list 0 (unat n) (sg_init_table (unat n)) pfn_list;
                              (r, priv, s) \<leftarrow> allocate_user_tail E (priv\<lparr>pv_sg := Some sg\<rparr>) s;
                              Some (r, priv, Some pfn_list, s)
                            })))))"

section \<open>The handler\<close>

datatype vm_fault_code = VM_FAULT_NOPAGE | VM_FAULT_OOM | VM_FAULT_SIGBUS

abbreviation (input) ERESTARTSYS :: int where "ERESTARTSYS \<equiv> 512"
abbreviation (input) EINTR :: int where "EINTR \<equiv> 4"

text \<open>The page that was inserted is part of the result, as (user address, frame).\<close>

definition page_fault_handler ::
  "(u64 \<Rightarrow> u64 \<Rightarrow> 'w \<Rightarrow> int \<times> 'w) \<Rightarrow> uio_pci_dma_private \<Rightarrow> u64 list option \<Rightarrow> u64 \<Rightarrow> u64 \<Rightarrow> 'w kstate
   \<Rightarrow> (vm_fault_code \<times> (u64 \<times> u64) list \<times> 'w kstate) option" where
  "page_fault_handler vm_insert_mixed priv pfn_list virtual_address pgoff s =
     do {
       pfns \<leftarrow> pfn_list;
       pfn \<leftarrow> (if pv_pages priv = 0 then None else list_get pfns (unat (pgoff mod pv_pages priv)));
       (case vm_insert_mixed virtual_address pfn (kworld s) of
          (ret, w) \<Rightarrow>
            Some (if ret = 0 \<or> ret = - ERESTARTSYS \<or> ret = - EINTR then VM_FAULT_NOPAGE
                  else if ret = - ENOMEM then VM_FAULT_OOM else VM_FAULT_SIGBUS,
                  (if ret = 0 then [(virtual_address, pfn)] else []), s\<lparr>kworld := w\<rparr>))
     }"

definition VM_PFNMAP :: u64 where "VM_PFNMAP = 0x400"
definition VM_MIXEDMAP :: u64 where "VM_MIXEDMAP = 0x10000000"

text \<open>
  \<open>map\<close> in this build; the buffer becomes the private data of the area, \<open>None\<close> stands for an area
  without the handler.
\<close>

definition map_fault ::
  "uio_pci_dma_private option \<Rightarrow> vm_area_struct \<Rightarrow> int \<times> vm_area_struct \<times> uio_pci_dma_private option" where
  "map_fault kobj vma =
     (case kobj of
        None \<Rightarrow> (UIO_PCI_DMA_ERROR, vma, None)
      | Some priv \<Rightarrow>
          if vm_flags vma AND (VM_SHARED OR VM_MAYWRITE) = VM_MAYWRITE then (UIO_PCI_DMA_ERROR, vma, None)
          else (0, vma\<lparr>vm_flags := (vm_flags vma AND NOT VM_PFNMAP) OR VM_MIXEDMAP\<rparr>, Some priv))"

section \<open>What the lists hold\<close>

definition entry_list :: "scatterlist \<Rightarrow> u64 list" where
  "entry_list e = map (nth_page (sg_page e)) [0..<entry_size e div 4096]"

definition table_list :: "scatterlist list \<Rightarrow> u64 list" where
  "table_list xs = concat (map entry_list xs)"

text \<open>The lists are filled up to \<open>page_index\<close>.\<close>

definition filled :: "'w kenv \<Rightarrow> nat \<Rightarrow> u64 list \<Rightarrow> page_lists" where
  "filled E n ps = (ps @ replicate (n - length ps) 0, map (page_to_pfn E) ps @ replicate (n - length ps) 0)"

lemma list_page_filled:
  assumes "length ps < n"
  shows "list_page E (length ps) p (filled E n ps) = Some (filled E n (ps @ [p]))"
proof -
  obtain k where "n - length ps = Suc k" using assms by (metis Suc_diff_Suc)
  moreover from this have "n - Suc (length ps) = k" by simp
  ultimately show ?thesis by (simp add: list_page_def filled_def list_put_def list_update_append)
qed

lemma list_chunk_filled:
  "length ps + m \<le> n \<Longrightarrow> list_chunk E page j m (length ps) (filled E n ps)
     = Some (length ps + m, filled E n (ps @ map (nth_page page) [j..<j + m]))"
proof (induction m arbitrary: j ps)
  case (Suc m)
  have "[j..<j + Suc m] = j # [Suc j..<Suc j + m]" by (simp add: upt_rec)
  then show ?case using Suc.IH[of "ps @ [nth_page page j]" "Suc j"] Suc.prems list_page_filled[of ps n E] by simp
qed simp

lemma unat_page_count: "unat (drop_bit 12 (ucast (w :: u32) :: u64)) = unat w div 4096"
  by (simp add: drop_bit_eq_div unat_div_distrib unat_ucast_up)

lemma list_chunks_filled:
  assumes "i + m \<le> length sg" and "\<forall>e \<in> set (take m (drop i sg)). dma_length e = sl_length e"
    and "length ps + length (table_list (take m (drop i sg))) \<le> n"
  shows "list_chunks E sg i m (length ps) (filled E n ps) = Some (filled E n (ps @ table_list (take m (drop i sg))))"
  using assms
proof (induction m arbitrary: i ps)
  case (Suc m)
  then have i: "i < length sg" by simp
  then have split: "take (Suc m) (drop i sg) = sg ! i # take m (drop (Suc i) sg)" by (simp add: drop_eq_Cons_nth)
  let ?qs = "entry_list (sg ! i)"
  have c: "list_chunk E (sg_page (sg ! i)) 0 (unat (drop_bit 12 (ucast (dma_length (sg ! i)) :: u64))) (length ps) (filled E n ps)
      = Some (length (ps @ ?qs), filled E n (ps @ ?qs))"
    using list_chunk_filled[of ps "entry_size (sg ! i) div 4096" n E "sg_page (sg ! i)" 0] Suc.prems
    by (simp add: split table_list_def entry_list_def entry_size_def unat_page_count)
  have "list_chunks E sg (Suc i) m (length (ps @ ?qs)) (filled E n (ps @ ?qs))
      = Some (filled E n ((ps @ ?qs) @ table_list (take m (drop (Suc i) sg))))"
    using Suc.prems by (intro Suc.IH) (auto simp: split table_list_def)
  then show ?case using i c by (simp add: split table_list_def)
qed (simp add: table_list_def)

lemma length_table_list: "length (table_list xs) = length (frames E xs)"
  by (induction xs) (simp_all add: table_list_def frames_def entry_list_def entry_frames_def)

lemma list_pages_exported:
  assumes "exported v xs"
  shows "list_pages E v = Some (table_list xs, map (page_to_pfn E) (table_list xs))" and "length (table_list xs) = unat (pv_pages v)"
proof -
  show len: "length (table_list xs) = unat (pv_pages v)"
    using exported_pages(2)[OF assms, of demo_kernel] length_table_list[of xs demo_kernel] by simp
  obtain sg where sg: "pv_sg v = Some sg" "xs = take (unat (pv_length v)) sg" "marked sg (unat (pv_length v))"
    "\<forall>e \<in> set xs. dma_length e = sl_length e" using assms by (auto simp: exported_def)
  then show "list_pages E v = Some (table_list xs, map (page_to_pfn E) (table_list xs))"
    using list_chunks_filled[of 0 "unat (pv_length v)" sg "[]" "unat (pv_pages v)" E] len
    by (simp add: list_pages_def filled_def marked_def)
qed

text \<open>The blocks of the page allocator are physically contiguous.\<close>

definition contiguous :: "'w kenv \<Rightarrow> scatterlist list \<Rightarrow> bool" where
  "contiguous E xs \<longleftrightarrow>
     (\<forall>e \<in> set xs. \<forall>k < entry_size e div 4096. page_to_pfn E (nth_page (sg_page e) k) = page_to_pfn E (sg_page e) + of_nat k)"

lemma contiguous_frames: "contiguous E xs \<Longrightarrow> map (page_to_pfn E) (table_list xs) = frames E xs"
  by (induction xs) (auto simp: contiguous_def table_list_def frames_def entry_list_def entry_frames_def)

section \<open>The handler and the mapping agree\<close>

lemma fault_frame:
  assumes v: "exported v xs" "contiguous E xs" and j: "j < 2 ^ 64" and ins: "fst (vm_insert_mixed a (frames E xs ! (j mod unat (pv_pages v))) (kworld s)) = 0"
  shows "\<exists>w. page_fault_handler vm_insert_mixed v (map_option snd (list_pages E v)) a (of_nat j) s
    = Some (VM_FAULT_NOPAGE, [(a, frames E xs ! (j mod unat (pv_pages v)))], s\<lparr>kworld := w\<rparr>)"
proof -
  note l = list_pages_exported(1)[OF v(1), of E]
  have pages: "0 < unat (pv_pages v)" using v(1) exported_pages(3)[OF v(1)] exported_pages(1)[OF v(1)] entry_offset_pos[of xs "length xs"]
    by (auto simp: exported_def whole_pages_def)
  then have nz: "pv_pages v \<noteq> 0" by auto
  have "unat ((of_nat j :: u64) mod pv_pages v) = j mod unat (pv_pages v)" using j by (simp add: unat_mod_distrib unat_of_nat)
  then have "list_get (map (page_to_pfn E) (table_list xs)) (unat ((of_nat j :: u64) mod pv_pages v)) = Some (frames E xs ! (j mod unat (pv_pages v)))"
    using exported_pages(2)[OF v(1), of E] pages contiguous_frames[OF v(2)] by simp
  with l nz ins show ?thesis by (cases "vm_insert_mixed a (frames E xs ! (j mod unat (pv_pages v))) (kworld s)") (simp add: page_fault_handler_def, blast)
qed

text \<open>
  C17. The page fault handler puts at every page of an area exactly the frame that \<open>map\<close> puts there in
  the other build, also beyond the end of the buffer, where both wrap around; the frame lists behind it are
  filled for every buffer whose table was exported, without writing outside of them.
\<close>

theorem page_fault_equals_map:
  assumes "exported v xs" and "contiguous E xs" and "\<forall>a p l w. fst (k_remap_pfn_range E a p l w) = 0"
    and "\<forall>a p w. fst (vm_insert_mixed a p w) = 0" and "vm_flags vma AND (VM_SHARED OR VM_MAYWRITE) \<noteq> VM_MAYWRITE"
    and "unat (vm_end vma - vm_start vma) = m * unat (pv_size v)" and "j < m * unat (pv_pages v)"
  shows "\<exists>lists vma' rs s1 s2. list_pages E v = Some lists \<and> map_fault (Some v) vma = (0, vma', Some v) \<and>
    uio_pci_dma_sysfs_map E (Some v) vma s = Some (0, rs, s1) \<and>
    page_fault_handler vm_insert_mixed v (Some (snd lists)) (vm_start vma + 4096 * of_nat j) (of_nat j) s
      = Some (VM_FAULT_NOPAGE, [remap_pages rs ! j], s2)"
proof -
  obtain rs s1 where map: "uio_pci_dma_sysfs_map E (Some v) vma s = Some (0, rs, s1)"
    "remap_pages rs = map (\<lambda>j. (vm_start vma + 4096 * of_nat j, frames E xs ! (j mod unat (pv_pages v)))) [0..<m * unat (pv_pages v)]"
    using map_outcome[OF assms(1,3,5,6)] by blast
  have "m * unat (pv_pages v) \<le> m * unat (pv_size v)" using assms(1) by (simp add: exported_def)
  also have "\<dots> < 2 ^ 64" using assms(6) unat_bound[of "vm_end vma - vm_start vma"] by simp
  finally have "j < 2 ^ 64" using assms(7) by simp
  from fault_frame[OF assms(1,2) this, of vm_insert_mixed "vm_start vma + 4096 * of_nat j" s] assms(4)
  obtain w where "page_fault_handler vm_insert_mixed v (map_option snd (list_pages E v)) (vm_start vma + 4096 * of_nat j) (of_nat j) s
    = Some (VM_FAULT_NOPAGE, [remap_pages rs ! j], s\<lparr>kworld := w\<rparr>)" using map(2) assms(7) by auto
  then show ?thesis using map(1) assms(5) list_pages_exported(1)[OF assms(1), of E] by (auto simp: map_fault_def)
qed

text \<open>The allocation in this build keeps the contract of the other one.\<close>

lemma allocate_page_lists_outcome:
  assumes "kernel_buffer E B v (blocks s)"
  shows "\<exists>r v' fl s'. allocate_page_lists E v s = Some (r, v', fl, s') \<and> pinned s' = pinned s \<and>
    (if r = UIO_PCI_DMA_SUCCESS
     then kernel_buffer E B v' (blocks s') \<and> fl = map_option snd (list_pages E v') \<and> pv_page_list v' = map_option fst (list_pages E v') \<and> pv_size v' = pv_size v
     else r = UIO_PCI_DMA_ERROR \<and> blocks s' = B)"
proof -
  have x: "exported (w\<lparr>pv_page_list := p\<rparr>) xs = exported w xs" for w p xs by (simp add: exported_def)
  then have kb: "kernel_buffer E B (v\<lparr>pv_page_list := p\<rparr>) B' = kernel_buffer E B v B'" for p B' by (simp add: kernel_buffer_def)
  have lp: "list_pages E (v\<lparr>pv_page_list := p\<rparr>) = list_pages E v" for p by (simp add: list_pages_def)
  obtain xs where xs: "exported v xs" using assms by (auto simp: kernel_buffer_def)
  obtain ok1 s1 where 1: "kalloc E (unat (pv_pages v * 8)) s = (ok1, s1)" by fastforce
  obtain ok2 s2 where 2: "kalloc E (unat (pv_pages v * 8)) s1 = (ok2, s2)" by fastforce
  have k: "blocks s1 = blocks s" "blocks s2 = blocks s" "pinned s1 = pinned s" "pinned s2 = pinned s"
    using 1 2 by (auto simp: kalloc_def split: prod.splits)
  have exit: "\<exists>R. fault_exit E (v\<lparr>pv_page_list := p\<rparr>) t = Some (UIO_PCI_DMA_ERROR, v\<lparr>pv_page_list := p\<rparr>, None, t\<lparr>blocks := B, reserved := R\<rparr>)"
    if "blocks t = blocks s" for p t
    using allocate_kernel_exit_releases[OF kernel_buffer_releasable, of E B "v\<lparr>pv_page_list := p\<rparr>" t] assms that
    by (auto simp: kb fault_exit_def)
  show ?thesis
  proof (cases "ok1 \<and> ok2")
    case True
    then show ?thesis
      using 1 2 k assms list_pages_exported(1)[OF xs, of E]
      by (simp add: allocate_page_lists_def Let_def lp kb)
  next
    case False
    obtain R1 R2 where "fault_exit E (v\<lparr>pv_page_list := None\<rparr>) s1 = Some (UIO_PCI_DMA_ERROR, v\<lparr>pv_page_list := None\<rparr>, None, s1\<lparr>blocks := B, reserved := R1\<rparr>)"
      "fault_exit E (v\<lparr>pv_page_list := Some (replicate (unat (pv_pages v)) 0)\<rparr>) s2
        = Some (UIO_PCI_DMA_ERROR, v\<lparr>pv_page_list := Some (replicate (unat (pv_pages v)) 0)\<rparr>, None, s2\<lparr>blocks := B, reserved := R2\<rparr>)"
      using exit k(1,2) by blast
    with False 1 2 k show ?thesis
      by (cases ok1) (simp_all add: allocate_page_lists_def Let_def)
  qed
qed

lemma allocate_kernel_memory_fault_outcome:
  assumes "kernel_laws E" and "direct_mapping E" and "pv_sg v = None" and "pv_length v = 0" and "unat (pv_size v) \<le> 2 ^ 64 - 4096"
  shows "\<exists>r v' fl s'. allocate_kernel_memory_fault E v s = Some (r, v', fl, s') \<and>
    (if r = UIO_PCI_DMA_SUCCESS
     then kernel_buffer E (blocks s) v' (blocks s') \<and> fl = map_option snd (list_pages E v') \<and> pv_page_list v' = map_option fst (list_pages E v')
     else r = UIO_PCI_DMA_ERROR \<and> blocks s' = blocks s)"
proof -
  obtain r v1 s1 v0 where a: "uio_pci_dma_allocate_kernel_memory E v s = Some (r, v1, s1)" "kernel_outcome E v0 s r v1 s1"
    using allocate_kernel_memory_outcome[OF assms] by blast
  show ?thesis
  proof (cases "r = UIO_PCI_DMA_SUCCESS")
    case True
    then have k: "kernel_buffer E (blocks s) v1 (blocks s1)" using a(2) by (auto simp: kernel_outcome_def)
    have "allocate_kernel_memory_fault E v s = allocate_page_lists E v1 s1" using True a(1) by (simp add: allocate_kernel_memory_fault_def)
    then show ?thesis using allocate_page_lists_outcome[OF k] by metis
  next
    case False
    with a show ?thesis by (auto simp: allocate_kernel_memory_fault_def kernel_outcome_def)
  qed
qed

section \<open>User memory\<close>

lemma put_into_lists_put:
  "i + n \<le> length pl \<Longrightarrow> i + n \<le> length fl \<Longrightarrow> put_into_lists E pl i n sg fl =
     map_option (\<lambda>sg. (sg, take i fl @ map (page_to_pfn E) (take n (drop i pl)) @ drop (i + n) fl)) (put_into_list pl i n sg)"
proof (induction n arbitrary: i sg fl)
  case (Suc n)
  let ?f = "page_to_pfn E (pl ! i)"
  have split: "take (Suc n) (drop i pl) = pl ! i # take n (drop (Suc i) pl)" using Suc.prems by (simp add: drop_eq_Cons_nth)
  have t: "take (Suc i) (fl[i := ?f]) = take i fl @ [?f]" using Suc.prems by (simp add: take_Suc_snoc)
  show ?case
    using Suc.prems Suc.IH[of "Suc i" "fl[i := ?f]"]
    by (auto simp: list_put_def split t list_get_def)
qed simp

text \<open>A buffer of the user and its frames: those that \<open>map\<close> uses.\<close>

lemma user_frames_list:
  assumes "map sg_page xs = pl" and "\<forall>e \<in> set xs. unat (sl_length e) = 4096"
  shows "frames E xs = map (page_to_pfn E) pl" and "contiguous E xs"
  using assms by (induction xs arbitrary: pl) (auto simp: frames_def entry_frames_def entry_size_def contiguous_def nth_page_def)

lemma allocate_user_memory_fault_run:
  assumes "pv_size v \<noteq> 0" and "pv_start v mod KPAGE_SIZE = 0" and "user_pages (pv_size v) = (pages, sz)"
    and "unat (scast pages :: u64) = n" and "sint pages = int n"
    and "kalloc E (unat ((scast pages :: u64) * 8)) s = (ok, s0)" and "kalloc E (unat ((scast pages :: u64) * 8)) s0 = (ok1, s1)"
    and "k_get_user_pages E (pv_start v) (scast pages) (kworld s1) = ((m, pl), w)"
    and "s2 = s1\<lparr>kworld := w, pinned := pinned s1 + mset pl\<rparr>"
    and "kalloc E (unat ((scast pages :: u64) * of_nat sizeof_scatterlist)) s2 = (ok2, s3)"
    and "v1 = v\<lparr>pv_size := sz, pv_length := scast pages, pv_pages := scast pages\<rparr>" and "v2 = v1\<lparr>pv_page_list := Some pl\<rparr>"
  shows "allocate_user_memory_fault E v s =
    (if \<not> ok then Some (UIO_PCI_DMA_ERROR, v1\<lparr>pv_page_list := None\<rparr>, None, s0)
     else if \<not> ok1 then Some (UIO_PCI_DMA_ERROR, v1\<lparr>pv_page_list := Some (replicate n 0)\<rparr>, None, s1)
     else if m \<noteq> int n then Some (UIO_PCI_DMA_ERROR, v2, Some (replicate n 0), s2)
     else if \<not> ok2 then Some (UIO_PCI_DMA_ERROR, v2\<lparr>pv_sg := None\<rparr>, Some (replicate n 0), s3)
     else do {
       (sg, fl) \<leftarrow> put_into_lists E pl 0 n (sg_init_table n) (replicate n 0);
       (r, v, s) \<leftarrow> allocate_user_tail E (v2\<lparr>pv_sg := Some sg\<rparr>) s3;
       Some (r, v, Some fl, s)
     })"
  using assms by (simp add: allocate_user_memory_fault_def word_less_1 Let_def)

lemma allocate_user_memory_fault_outcome:
  assumes E: "kernel_laws E" "direct_mapping E" "gup_law E" and size: "unat (pv_size v) < 2 ^ 42"
    and v: "pv_size v \<noteq> 0" "pv_start v mod KPAGE_SIZE = 0"
  shows "\<exists>r v' fl s'. allocate_user_memory_fault E v s = Some (r, v', fl, s') \<and> blocks s' = blocks s \<and>
    (r = UIO_PCI_DMA_ERROR \<or> r = UIO_PCI_DMA_SUCCESS \<and>
     (\<exists>pl xs. user_buffer v' pl \<and> pinned s' = pinned s + mset pl \<and> exported v' xs \<and> contiguous E xs \<and> fl = Some (frames E xs)))"
proof -
  obtain pages sz where u: "user_pages (pv_size v) = (pages, sz)" by fastforce
  define n where "n = (unat (pv_size v) + 4095) div 4096"
  have b: "unat (scast pages :: u64) = n" "sint pages = int n" "unat sz = n * 4096" "0 < n"
    using user_pages_bounds[OF u v(1) size] by (simp_all add: n_def)
  define v1 where "v1 = v\<lparr>pv_size := sz, pv_length := scast pages, pv_pages := scast pages\<rparr>"
  obtain ok s0 where a0: "kalloc E (unat ((scast pages :: u64) * 8)) s = (ok, s0)" by fastforce
  obtain ok1 s1 where a1: "kalloc E (unat ((scast pages :: u64) * 8)) s0 = (ok1, s1)" by fastforce
  obtain m pl w where g: "k_get_user_pages E (pv_start v) (scast pages) (kworld s1) = ((m, pl), w)" by (metis surj_pair)
  define s2 where "s2 = s1\<lparr>kworld := w, pinned := pinned s1 + mset pl\<rparr>"
  obtain ok2 s3 where a2: "kalloc E (unat ((scast pages :: u64) * of_nat sizeof_scatterlist)) s2 = (ok2, s3)" by fastforce
  define v2 where "v2 = v1\<lparr>pv_page_list := Some pl\<rparr>"
  have k: "blocks s0 = blocks s" "blocks s1 = blocks s" "blocks s3 = blocks s" "pinned s3 = pinned s + mset pl" "blocks s2 = blocks s"
    using a0 a1 a2 by (auto simp: kalloc_def s2_def split: prod.splits)
  note run = allocate_user_memory_fault_run[OF v u b(1,2) a0 a1 g s2_def a2 v1_def v2_def]
  show ?thesis
  proof (cases "ok \<and> ok1 \<and> m = int n \<and> ok2")
    case False
    then show ?thesis using k by (auto simp: run)
  next
    case True
    then have pl: "\<forall>p \<in> set pl. p AND 3 = 0" "n = length pl" using E(3) g unfolding gup_law_def by force+
    from user_table[OF this] obtain sg where sg: "put_into_list pl 0 n (sg_init_table n) = Some sg" "length sg = n"
      "map sg_page sg = pl" "\<forall>e \<in> set sg. unat (sl_length e) = 4096" "marked sg n" by metis
    have put: "put_into_lists E pl 0 n (sg_init_table n) (replicate n 0) = Some (sg, map (page_to_pfn E) pl)"
      using put_into_lists_put[of 0 n pl "replicate n 0" E "sg_init_table n"] pl(2) sg(1) by simp
    have v2: "pv_page_list v2 = Some pl" "unat (pv_length v2) = n" "unat (pv_pages v2) = n" "unat (pv_size v2) = n * 4096"
      using b by (simp_all add: v2_def v1_def)
    from user_tail_outcome[OF E(1,2) b(4) sg(2-5) v2, of s3] obtain r v' s' where
      t: "allocate_user_tail E (v2\<lparr>pv_sg := Some sg\<rparr>) s3 = Some (r, v', s')" "blocks s' = blocks s3" "pinned s' = pinned s3"
        "r = UIO_PCI_DMA_ERROR \<or> r = UIO_PCI_DMA_SUCCESS \<and> user_buffer v' pl" by blast
    have eq: "allocate_user_memory_fault E v s = Some (r, v', Some (map (page_to_pfn E) pl), s')"
      using True put t(1) by (simp add: run)
    moreover have "\<exists>xs. exported v' xs \<and> contiguous E xs \<and> map (page_to_pfn E) pl = frames E xs" if "user_buffer v' pl"
      using that user_frames_list[of _ pl E] by (auto simp: user_buffer_def)
    ultimately show ?thesis using t(2-4) k by auto
  qed
qed

section \<open>A buffer of two chunks\<close>

definition two_chunks :: "scatterlist list" where
  "two_chunks = [\<lparr>page_link = 64, sl_offset = 0, sl_length = 8192, dma_address = 4096, dma_length = 8192\<rparr>,
     \<lparr>page_link = 642, sl_offset = 0, sl_length = 4096, dma_address = 40960, dma_length = 4096\<rparr>]"

definition two_chunk_buffer :: uio_pci_dma_private where
  "two_chunk_buffer = demo_request\<lparr>pv_size := 12288, pv_sg := Some two_chunks, pv_scatter := Some (map convert_entry two_chunks),
     pv_length := 2, pv_old_length := 2, pv_pages := 3\<rparr>"

lemma two_chunk_facts:
  "exported two_chunk_buffer two_chunks" "contiguous demo_kernel two_chunks" "frames demo_kernel two_chunks = [1, 2, 10]"
proof -
  have "marked two_chunks 2" by (auto simp: marked_def two_chunks_def sg_is_last_def less_2_cases_iff)
  then show "exported two_chunk_buffer two_chunks"
    by (simp add: exported_def two_chunk_buffer_def two_chunks_def chunk_pages_def)
  show "contiguous demo_kernel two_chunks"
    by (auto simp: contiguous_def two_chunks_def entry_size_def less_2_cases_iff nth_page_def sizeof_page_def sg_page_def demo_kernel_def)
  show "frames demo_kernel two_chunks = [1, 2, 10]"
    by (simp add: frames_def entry_frames_def two_chunks_def entry_size_def sg_page_def demo_kernel_def sizeof_page_def upt_rec)
qed

theorem page_fault_equals_map_witness:
  "\<exists>vma' s2. map_fault (Some two_chunk_buffer) \<lparr>vm_start = 0x7f0000000000, vm_end = 0x7f0000006000, vm_flags = 0xb\<rparr> = (0, vma', Some two_chunk_buffer) \<and>
    page_fault_handler (\<lambda>a pfn w. (0, w)) two_chunk_buffer (map_option snd (list_pages demo_kernel two_chunk_buffer)) 0x7f0000004000 4 demo_kstate
      = Some (VM_FAULT_NOPAGE, [(0x7f0000004000, 2)], s2)"
proof -
  let ?vma = "\<lparr>vm_start = 0x7f0000000000, vm_end = 0x7f0000006000, vm_flags = 0xb\<rparr>"
  have v: "unat (pv_size two_chunk_buffer) = 12288" "unat (pv_pages two_chunk_buffer) = 3" by (simp_all add: two_chunk_buffer_def)
  have r: "\<forall>a p l w. fst (k_remap_pfn_range demo_kernel a p l w) = 0" by (simp add: demo_kernel_def)
  have f: "vm_flags ?vma AND (VM_SHARED OR VM_MAYWRITE) \<noteq> VM_MAYWRITE" by (simp add: VM_SHARED_def VM_MAYWRITE_def)
  have z: "unat (vm_end ?vma - vm_start ?vma) = 2 * unat (pv_size two_chunk_buffer)" by (simp add: v)
  obtain rs s1 where m: "uio_pci_dma_sysfs_map demo_kernel (Some two_chunk_buffer) ?vma demo_kstate = Some (0, rs, s1)"
    "remap_pages rs ! 4 = (0x7f0000004000, 2)"
    using map_outcome[OF two_chunk_facts(1) r f z, of demo_kstate] by (auto simp: v two_chunk_facts(3))
  from page_fault_equals_map[OF two_chunk_facts(1,2) r _ f z, of "\<lambda>a pfn w. (0, w)" 4 demo_kstate] m show ?thesis by (auto simp: v)
qed

end
