(* ===== verification/PDA_KernelDevice.thy ===== *)
theory PDA_KernelDevice
  imports PDA_KernelMap
begin

text \<open>
  The device side of the kernel module (\<open>patches/linux_uio/uio_pci_dma.c\<close>): masking of legacy
  interrupts, the interrupt handler, the PCI Express limits, and the binding and unbinding of a
  device with the resources they take and give back.
\<close>

section \<open>Legacy interrupts\<close>

text \<open>
  The command and status registers of a device, and whether user access to the configuration space
  is blocked. How the device takes a write to its command register is a parameter: the old value and
  the written value give the new one.
\<close>

record pci_csr =
  csr_command :: u16
  csr_status :: u16
  cfg_blocked :: bool

definition PCI_COMMAND_INTX_DISABLE :: u16 where "PCI_COMMAND_INTX_DISABLE = 0x400"
definition PCI_STATUS_INTERRUPT :: u16 where "PCI_STATUS_INTERRUPT = 0x08"

definition pci_write_command :: "(u16 \<Rightarrow> u16 \<Rightarrow> u16) \<Rightarrow> u16 \<Rightarrow> pci_csr \<Rightarrow> pci_csr" where
  "pci_write_command dev v s = s\<lparr>csr_command := dev (csr_command s) v\<rparr>"

text \<open>The double word at \<open>PCI_COMMAND\<close>: the status in the upper half, the command in the lower.\<close>

definition pci_read_csr :: "pci_csr \<Rightarrow> u32" where
  "pci_read_csr s = push_bit 16 (ucast (csr_status s)) OR ucast (csr_command s)"

definition pci_check_and_mask_intx :: "(u16 \<Rightarrow> u16 \<Rightarrow> u16) \<Rightarrow> pci_csr \<Rightarrow> bool \<times> pci_csr" where
  "pci_check_and_mask_intx dev s =
     (let s = s\<lparr>cfg_blocked := True\<rparr>;
          csr = pci_read_csr s;
          command = (ucast csr :: u16);
          status = (ucast (drop_bit 16 csr) :: u16);
          disable = command OR PCI_COMMAND_INTX_DISABLE;
          s = (if status AND PCI_STATUS_INTERRUPT = 0 then s
               else if disable \<noteq> command then pci_write_command dev disable s else s) in
      (True, s\<lparr>cfg_blocked := False\<rparr>))"

definition pci_intx_mask_supported :: "(u16 \<Rightarrow> u16 \<Rightarrow> u16) \<Rightarrow> pci_csr \<Rightarrow> bool \<times> pci_csr" where
  "pci_intx_mask_supported dev s =
     (let s = s\<lparr>cfg_blocked := True\<rparr>;
          csr_before = csr_command s;
          s = pci_write_command dev (csr_before XOR PCI_COMMAND_INTX_DISABLE) s;
          csr_after = csr_command s;
          (ret, s) = (if (csr_before XOR csr_after) AND NOT PCI_COMMAND_INTX_DISABLE \<noteq> 0 then (False, s)
                      else if (csr_before XOR csr_after) AND PCI_COMMAND_INTX_DISABLE \<noteq> 0
                      then (True, pci_write_command dev csr_before s) else (False, s)) in
      (ret, s\<lparr>cfg_blocked := False\<rparr>))"

datatype irqreturn_t = IRQ_NONE | IRQ_HANDLED

definition irqhandler :: "(u16 \<Rightarrow> u16 \<Rightarrow> u16) \<Rightarrow> bool \<Rightarrow> pci_csr \<Rightarrow> irqreturn_t \<times> pci_csr" where
  "irqhandler dev msi_enabled s =
     (if msi_enabled then (IRQ_HANDLED, s)
      else (case pci_check_and_mask_intx dev s of
          (False, s) \<Rightarrow> (IRQ_NONE, s)
        | (True, s) \<Rightarrow> (IRQ_HANDLED, s)))"

section \<open>PCI Express limits\<close>

text \<open>
  What the limits depend on: the version of the kernel, the offset of the capability as a search (\<open>pci_find_capability\<close>) or the
  field \<open>pcie_cap\<close> give it, the configuration space, and the limits of kernels that read them themselves
  (\<open>pcie_get_mps\<close>, \<open>pcie_get_readrq\<close>).
\<close>

record pcie_device =
  LINUX_VERSION_CODE :: nat
  found_capability :: nat
  pcie_cap :: nat
  config_word :: "nat \<Rightarrow> u16"
  kernel_mps :: u32
  kernel_readrq :: u32

definition KERNEL_VERSION :: "nat \<Rightarrow> nat \<Rightarrow> nat \<Rightarrow> nat" where
  "KERNEL_VERSION a b c = a * 65536 + b * 256 + c"

definition PCI_EXP_DEVCTL :: nat where "PCI_EXP_DEVCTL = 8"
definition PCI_EXP_DEVCTL_READRQ :: u16 where "PCI_EXP_DEVCTL_READRQ = 0x7000"

definition pcie_get_cap_offset :: "pcie_device \<Rightarrow> nat" where
  "pcie_get_cap_offset d =
     (if LINUX_VERSION_CODE d < KERNEL_VERSION 3 0 0 then found_capability d
      else if LINUX_VERSION_CODE d < KERNEL_VERSION 3 13 0 then pcie_cap d else 0)"

definition pcie_get_ctrl :: "pcie_device \<Rightarrow> u16" where
  "pcie_get_ctrl d =
     (let pcie_cap = pcie_get_cap_offset d in if pcie_cap = 0 then 0 else config_word d (pcie_cap + PCI_EXP_DEVCTL))"

definition pcie_get_max_payload :: "pcie_device \<Rightarrow> u32" where
  "pcie_get_max_payload d =
     (if LINUX_VERSION_CODE d < KERNEL_VERSION 3 13 0
      then let ctrl = pcie_get_ctrl d in
        if ctrl = 0 then 0 else push_bit (unat ((drop_bit 5 ctrl AND 0x07) + 7)) 1
      else kernel_mps d)"

definition pcie_get_max_read_request :: "pcie_device \<Rightarrow> u32" where
  "pcie_get_max_read_request d =
     (if LINUX_VERSION_CODE d < KERNEL_VERSION 3 13 0
      then let ctrl = pcie_get_ctrl d in
        if ctrl = 0 then 0 else push_bit (unat (drop_bit 12 (ctrl AND PCI_EXP_DEVCTL_READRQ))) 128
      else kernel_readrq d)"

text \<open>The read callbacks put the limit into the first word of the buffer and return its size.\<close>

definition uio_pci_dma_sysfs_mps :: "pcie_device \<Rightarrow> u32 \<times> int" where
  "uio_pci_dma_sysfs_mps d = (pcie_get_max_payload d, 4)"

definition uio_pci_dma_sysfs_readrq :: "pcie_device \<Rightarrow> u32 \<times> int" where
  "uio_pci_dma_sysfs_readrq d = (pcie_get_max_read_request d, 4)"

definition uio_pci_dma_sysfs_mock :: "u64 \<Rightarrow> u64" where
  "uio_pci_dma_sysfs_mock n = n"

section \<open>Binding and unbinding\<close>

text \<open>What a device can hold.\<close>

datatype resource = Enabled | MSI | DmaDevice | Kset | Sysfs string | Attr string | Regions | BarName nat | BarFile nat | Uio

text \<open>
  The answers of the kernel and of the device to the calls of \<open>probe\<close>; \<open>0\<close> is success. Both
  expansions of \<open>DMA_MASK\<close> fall back to \<open>dma_set_mask\<close> with 32 bits, in two calls with an answer each.
\<close>

record probe_env =
  p_attr_alloc :: "string \<Rightarrow> bool"
  p_enable_device :: int
  p_irq :: bool
  p_enable_msi :: int
  p_write_command :: "u16 \<Rightarrow> u16 \<Rightarrow> u16"
  p_csr :: pci_csr
  p_zalloc :: bool
  p_set_mask64 :: int
  p_set_coherent_mask64 :: int
  p_set_mask32 :: int
  p_set_coherent_mask32 :: int
  p_kset :: bool
  p_create :: "string \<Rightarrow> int"
  p_request_regions :: int
  p_mem :: "nat \<Rightarrow> bool"
  p_bar_name :: "nat \<Rightarrow> bool"
  p_bar_create :: "nat \<Rightarrow> int"
  p_uio_register :: int

definition attr_names :: "string list" where
  "attr_names = [''request'', ''free'', ''max_payload_size'', ''max_read_request_size'']"

text \<open>
  The \<open>exit\<close> block: the device structure, MSI and the attributes are given back, as far as they were
  obtained. Of the kset only \<open>kobject_del\<close> is called: the directory goes, with the files in it, but no reference is
  dropped, and the structure stays.
\<close>

definition probe_exit :: "int \<Rightarrow> resource set \<Rightarrow> (int \<times> resource set) option" where
  "probe_exit err held =
     Some (err, (if Kset \<in> held then held - range Sysfs else held) - {DmaDevice, MSI} - Attr ` set attr_names)"

definition exit_request :: "int \<Rightarrow> resource set \<Rightarrow> (int \<times> resource set) option" where
  "exit_request err held = probe_exit err (held - {Sysfs ''request''})"

definition exit_free :: "int \<Rightarrow> resource set \<Rightarrow> (int \<times> resource set) option" where
  "exit_free err held = exit_request err (held - {Sysfs ''free''})"

definition exit_max_payload_size :: "int \<Rightarrow> resource set \<Rightarrow> (int \<times> resource set) option" where
  "exit_max_payload_size err held = exit_free err (held - {Sysfs ''max_payload_size''})"

definition exit_max_read_request_size :: "int \<Rightarrow> resource set \<Rightarrow> (int \<times> resource set) option" where
  "exit_max_read_request_size err held = exit_max_payload_size err (held - {Sysfs ''max_read_request_size''})"

text \<open>\<open>DMA_MASK\<close>: the error code, \<open>0\<close> if one of the masks was accepted.\<close>

definition DMA_MASK :: "int \<Rightarrow> int \<Rightarrow> int" where
  "DMA_MASK err64 err32 = (if err64 \<noteq> 0 then err32 else 0)"

text \<open>
  The attributes of the register spaces. The memory for a name is written to without a check. After a failure the code jumps to \<open>exit_bars\<close>, whose loop
  counts an unsigned variable down while it is not negative and does not end.
\<close>

fun probe_bars :: "probe_env \<Rightarrow> nat list \<Rightarrow> resource set \<Rightarrow> resource set option" where
  "probe_bars P [] held = Some held"
| "probe_bars P (i # is) held =
     (if p_mem P i
      then (if \<not> p_bar_name P i then None else if p_bar_create P i \<noteq> 0 then None else probe_bars P is (held \<union> {BarName i, BarFile i}))
      else probe_bars P is held)"

definition probe_attributes :: "probe_env \<Rightarrow> resource set \<Rightarrow> (int \<times> resource set) option" where
  "probe_attributes P held =
     (if p_create P ''request'' \<noteq> 0 then exit_request (p_create P ''request'') held
      else let held = insert (Sysfs ''request'') held in
      if p_create P ''free'' \<noteq> 0 then exit_free (p_create P ''free'') held
      else let held = insert (Sysfs ''free'') held in
      if p_create P ''max_payload_size'' \<noteq> 0 then exit_max_payload_size (p_create P ''max_payload_size'') held
      else let held = insert (Sysfs ''max_payload_size'') held in
      if p_create P ''max_read_request_size'' \<noteq> 0
      then exit_max_read_request_size (p_create P ''max_read_request_size'') held
      else let held = insert (Sysfs ''max_read_request_size'') held in
      if p_request_regions P \<noteq> 0 then probe_exit 0 held
      else do {
        held \<leftarrow> probe_bars P [0..<PCI_NUM_RESOURCES] (insert Regions held);
        if p_uio_register P \<noteq> 0 then exit_max_read_request_size 0 held
        else Some (UIO_PCI_DMA_SUCCESS, insert Uio held)
      })"

definition probe :: "probe_env \<Rightarrow> (int \<times> resource set) option" where
  "probe P =
     (if \<exists>n \<in> set attr_names. \<not> p_attr_alloc P n then None
      else let held = Attr ` set attr_names in
      if p_enable_device P \<noteq> 0 then probe_exit (p_enable_device P) held
      else let held = insert Enabled held in
      if \<not> p_irq P then probe_exit (- ENODEV) held
      else if p_enable_msi P \<noteq> 0 \<and> \<not> fst (pci_intx_mask_supported (p_write_command P) (p_csr P)) then probe_exit (- ENODEV) held
      else let held = (if p_enable_msi P = 0 then insert MSI held else held) in
      if \<not> p_zalloc P then probe_exit (- ENOMEM) held
      else let held = insert DmaDevice held in
      if DMA_MASK (p_set_mask64 P) (p_set_mask32 P) \<noteq> 0 then probe_exit (p_set_mask32 P) held
      else if DMA_MASK (p_set_coherent_mask64 P) (p_set_coherent_mask32 P) \<noteq> 0
      then probe_exit (p_set_coherent_mask32 P) held
      else if \<not> p_kset P then None
      else probe_attributes P (insert Kset held))"

text \<open>
  The end of \<open>remove\<close>, after the buffers were freed. Every kobject still in the kset holds references on it, which
  \<open>remove\<close> does not drop; then \<open>kset_unregister\<close> does not release the structure of the kset.
\<close>

definition remove_device :: "probe_env \<Rightarrow> bool \<Rightarrow> resource set \<Rightarrow> resource set" where
  "remove_device P children held =
     (if children then held else held - {Kset}) - range Sysfs - BarFile ` {i. i < PCI_NUM_RESOURCES \<and> p_mem P i} - BarName ` {..<PCI_NUM_RESOURCES}
       - {Uio, MSI, Regions, Enabled, DmaDevice}"

section \<open>The limits of PCI Express\<close>

lemma limit_shifts:
  assumes "n < 8"
  shows "unat (push_bit (n + 7) 1 :: u32) = 128 * 2 ^ n" "unat (push_bit n 128 :: u32) = 128 * 2 ^ n"
proof -
  have "n \<in> {0, 1, 2, 3, 4, 5, 6, 7}" using assms by auto
  then show "unat (push_bit (n + 7) 1 :: u32) = 128 * 2 ^ n" "unat (push_bit n 128 :: u32) = 128 * 2 ^ n"
    by (elim insertE; simp)+
qed

lemma three_bits: "unat ((x :: u16) AND 7) < 8"
proof -
  have "x AND 7 \<le> 7" by (rule word_and_le1)
  then show ?thesis by (simp add: word_le_nat_alt)
qed

text \<open>
  On the older kernels the two limits are what the PCI Express specification encodes in three bits of the device control register: 128
  bytes times a power of two, at most 16 kB. On the later ones they are those of the kernel.
\<close>

lemma pcie_limits:
  shows "LINUX_VERSION_CODE d < KERNEL_VERSION 3 13 0 \<Longrightarrow> pcie_get_ctrl d \<noteq> 0 \<Longrightarrow>
      unat (fst (uio_pci_dma_sysfs_mps d)) = 128 * 2 ^ unat (drop_bit 5 (pcie_get_ctrl d) AND 7) \<and>
      unat (fst (uio_pci_dma_sysfs_readrq d)) = 128 * 2 ^ unat (drop_bit 12 (pcie_get_ctrl d) AND 7)"
    and "LINUX_VERSION_CODE d < KERNEL_VERSION 3 13 0 \<Longrightarrow>
      unat (fst (uio_pci_dma_sysfs_mps d)) \<le> 16384 \<and> unat (fst (uio_pci_dma_sysfs_readrq d)) \<le> 16384"
    and "KERNEL_VERSION 3 13 0 \<le> LINUX_VERSION_CODE d \<Longrightarrow>
      fst (uio_pci_dma_sysfs_mps d) = kernel_mps d \<and> fst (uio_pci_dma_sysfs_readrq d) = kernel_readrq d"
proof -
  let ?c = "pcie_get_ctrl d"
  have "drop_bit 12 (?c AND PCI_EXP_DEVCTL_READRQ) = drop_bit 12 ?c AND 7" by (simp add: PCI_EXP_DEVCTL_READRQ_def)
  moreover have "unat ((drop_bit 5 ?c AND 7) + 7) = unat (drop_bit 5 ?c AND 7) + 7"
    using three_bits[of "drop_bit 5 ?c"] by (subst unat_add_no_wrap) simp_all
  ultimately show 1: "LINUX_VERSION_CODE d < KERNEL_VERSION 3 13 0 \<Longrightarrow> ?c \<noteq> 0 \<Longrightarrow>
      unat (fst (uio_pci_dma_sysfs_mps d)) = 128 * 2 ^ unat (drop_bit 5 ?c AND 7) \<and>
      unat (fst (uio_pci_dma_sysfs_readrq d)) = 128 * 2 ^ unat (drop_bit 12 ?c AND 7)"
    using limit_shifts(1)[OF three_bits[of "drop_bit 5 ?c"]] limit_shifts(2)[OF three_bits[of "drop_bit 12 ?c"]]
    by (simp add: uio_pci_dma_sysfs_mps_def uio_pci_dma_sysfs_readrq_def pcie_get_max_payload_def pcie_get_max_read_request_def Let_def)
  have b: "128 * 2 ^ unat (x AND 7) \<le> (16384 :: nat)" for x :: u16
    using power_increasing[of "unat (x AND 7)" 7 "2 :: nat"] three_bits[of x] by simp
  show "LINUX_VERSION_CODE d < KERNEL_VERSION 3 13 0 \<Longrightarrow>
      unat (fst (uio_pci_dma_sysfs_mps d)) \<le> 16384 \<and> unat (fst (uio_pci_dma_sysfs_readrq d)) \<le> 16384"
    using 1 b by (cases "?c = 0") (simp_all add: uio_pci_dma_sysfs_mps_def uio_pci_dma_sysfs_readrq_def
        pcie_get_max_payload_def pcie_get_max_read_request_def Let_def)
qed (simp add: uio_pci_dma_sysfs_mps_def uio_pci_dma_sysfs_readrq_def pcie_get_max_payload_def pcie_get_max_read_request_def)

text \<open>
  A device control register of 0 is taken for a missing capability: the limits of a device with both fields at their
  smallest value, 128 bytes each, are reported as 0.
\<close>

lemma zero_control_no_limits:
  assumes "LINUX_VERSION_CODE d < KERNEL_VERSION 3 13 0" and "pcie_get_cap_offset d \<noteq> 0" and "config_word d (pcie_get_cap_offset d + PCI_EXP_DEVCTL) = 0"
  shows "uio_pci_dma_sysfs_mps d = (0, 4)" and "uio_pci_dma_sysfs_readrq d = (0, 4)"
  using assms by (simp_all add: uio_pci_dma_sysfs_mps_def uio_pci_dma_sysfs_readrq_def pcie_get_max_payload_def pcie_get_max_read_request_def
      pcie_get_ctrl_def Let_def)

section \<open>Masking legacy interrupts\<close>

text \<open>A device whose command register has the given writable bits, the others being fixed.\<close>

definition writable :: "u16 \<Rightarrow> u16 \<Rightarrow> u16 \<Rightarrow> u16" where
  "writable wbits old v = (old AND NOT wbits) OR (v AND wbits)"

lemma writable_toggle:
  "c XOR writable wbits c (c XOR b) = b AND wbits" "writable wbits (writable wbits c v) c = c"
  by (rule bit_word_eqI, auto simp: writable_def bit_simps)+

lemma intx_mask_outcome:
  "pci_intx_mask_supported (writable wbits) s = (wbits AND PCI_COMMAND_INTX_DISABLE \<noteq> 0, s\<lparr>cfg_blocked := False\<rparr>)"
proof -
  let ?b = PCI_COMMAND_INTX_DISABLE and ?c = "csr_command s"
  have d: "?c XOR writable wbits ?c (?c XOR ?b) = ?b AND wbits" by (rule writable_toggle)
  have "(?b AND wbits) AND NOT ?b = 0" by (rule bit_word_eqI) (auto simp: bit_simps)
  moreover have "(?b AND wbits) AND ?b = wbits AND ?b" by (rule bit_word_eqI) (auto simp: bit_simps)
  moreover have "writable wbits ?c (?c XOR ?b) = ?c" if z: "wbits AND ?b = 0"
  proof -
    have "\<not> (bit wbits n \<and> bit ?b n)" for n using z by (metis bit_0_eq bit_and_iff bot_apply bot_bool_def)
    then show ?thesis by (intro bit_word_eqI) (auto simp: writable_def bit_simps)
  qed
  ultimately show ?thesis
    by (auto simp: pci_intx_mask_supported_def pci_write_command_def d writable_toggle Let_def)
qed

text \<open>
  For a device with any set of writable command bits, \<open>pci_intx_mask_supported\<close> answers whether
  the interrupt disable bit is one of them, leaves the command register as it was and releases the
  configuration space. For a device that raised the interrupt, \<open>pci_check_and_mask_intx\<close> then sets
  exactly this bit.
\<close>

lemma intx_masking:
  assumes "csr_status s AND PCI_STATUS_INTERRUPT \<noteq> 0"
  shows "pci_intx_mask_supported (writable wbits) s = (wbits AND PCI_COMMAND_INTX_DISABLE \<noteq> 0, s\<lparr>cfg_blocked := False\<rparr>) \<and>
    snd (pci_check_and_mask_intx (writable wbits) s) =
      s\<lparr>csr_command := csr_command s OR (PCI_COMMAND_INTX_DISABLE AND wbits), cfg_blocked := False\<rparr>"
proof -
  have c: "(ucast (pci_read_csr s) :: u16) = csr_command s" "(ucast (drop_bit 16 (pci_read_csr s)) :: u16) = csr_status s" for s
    by (rule bit_word_eqI, auto simp: pci_read_csr_def bit_simps dest: bit_imp_le_length)+
  have "writable wbits a (a OR b) = a OR (b AND wbits)" for a b by (rule bit_word_eqI) (auto simp: writable_def bit_simps)
  moreover have "a OR (b AND wbits) = a" if "a OR b = a" for a b :: u16
  proof (rule bit_word_eqI)
    fix n
    have "bit (a OR b) n = bit a n" using that by simp
    then show "bit (a OR (b AND wbits)) n = bit a n" by (auto simp: bit_or_iff bit_and_iff)
  qed
  ultimately show ?thesis
    using assms intx_mask_outcome[of wbits s]
    by (simp add: pci_check_and_mask_intx_def Let_def c pci_write_command_def)
qed

text \<open>The handler claims every interrupt, also of a device that did not raise it.\<close>

lemma irqhandler_always_handled: "fst (irqhandler dev msi s) = IRQ_HANDLED"
  by (simp add: irqhandler_def pci_check_and_mask_intx_def Let_def)

section \<open>Binding and unbinding give back what they took\<close>

lemma probe_bars_held:
  assumes "probe_bars P is held = Some held'"
  shows "held' = held \<union> BarName ` {i \<in> set is. p_mem P i} \<union> BarFile ` {i \<in> set is. p_mem P i}"
  using assms
proof (induction "is" arbitrary: held)
  case (Cons i "is")
  have split: "{j \<in> set (i # is). p_mem P j} = (if p_mem P i then insert i {j \<in> set is. p_mem P j} else {j \<in> set is. p_mem P j})"
    by auto
  show ?case
  proof (cases "p_mem P i")
    case True
    then have "probe_bars P is (held \<union> {BarName i, BarFile i}) = Some held'" using Cons.prems by (simp split: if_splits)
    from Cons.IH[OF this] show ?thesis using True by (simp only: split) auto
  next
    case False
    then have "probe_bars P is held = Some held'" using Cons.prems by simp
    from Cons.IH[OF this] show ?thesis using False by (simp only: split) simp
  qed
qed simp

text \<open>The resources of a bound device.\<close>

definition bound :: "probe_env \<Rightarrow> resource set" where
  "bound P = Attr ` set attr_names \<union> Sysfs ` set attr_names \<union> {Enabled, DmaDevice, Kset, Regions, Uio}
     \<union> (if p_enable_msi P = 0 then {MSI} else {})
     \<union> BarName ` {i. i < PCI_NUM_RESOURCES \<and> p_mem P i} \<union> BarFile ` {i. i < PCI_NUM_RESOURCES \<and> p_mem P i}"

lemmas probe_exits = probe_exit_def exit_request_def exit_free_def exit_max_payload_size_def exit_max_read_request_size_def

text \<open>Before the kset: an error with at most the device enabled, or everything up to the directory.\<close>

definition prepared :: "probe_env \<Rightarrow> resource set" where
  "prepared P = {Kset, DmaDevice, Enabled} \<union> Attr ` set attr_names \<union> (if p_enable_msi P = 0 then {MSI} else {})"

lemma probe_prepares:
  assumes "probe P = Some (err, held)"
  shows "(err \<noteq> 0 \<and> held \<subseteq> {Enabled}) \<or> probe_attributes P (prepared P) = Some (err, held)"
proof (rule disjCI)
  assume "probe_attributes P (prepared P) \<noteq> Some (err, held)"
  then show "err \<noteq> 0 \<and> held \<subseteq> {Enabled}"
    using assms by (auto simp: probe_def probe_exit_def DMA_MASK_def Let_def prepared_def insert_commute split: if_splits)
qed

text \<open>
  The attributes: all of them with the regions and the UIO device; or none of this but the structure of the kset, with an error or
  because the regions were refused; or a refused UIO device, where the regions and their files stay.
\<close>

lemma probe_attributes_cases:
  assumes "probe_attributes P (prepared P) = Some (err, held)"
  shows "(err = 0 \<and> p_request_regions P = 0 \<and> p_uio_register P = 0 \<and> held = bound P) \<or>
    (held = {Enabled, Kset} \<and> (if err = 0 then p_request_regions P \<noteq> 0 else \<exists>n \<in> set attr_names. p_create P n = err)) \<or>
    (err = 0 \<and> p_request_regions P = 0 \<and> p_uio_register P \<noteq> 0 \<and> Regions \<in> held \<and> DmaDevice \<notin> held)"
proof (cases "(\<exists>n \<in> set attr_names. p_create P n \<noteq> 0) \<or> p_request_regions P \<noteq> 0")
  case True
  then show ?thesis using assms
    by (auto simp: probe_attributes_def probe_exits prepared_def attr_names_def Let_def split: if_splits)
next
  case False
  then obtain h where h: "probe_bars P [0..<PCI_NUM_RESOURCES] (insert Regions (prepared P \<union> Sysfs ` set attr_names)) = Some h"
    using assms by (auto simp: probe_attributes_def attr_names_def Let_def insert_commute split: bind_splits)
  note held = probe_bars_held[OF h]
  have "(if p_uio_register P \<noteq> 0 then exit_max_read_request_size 0 h else Some (UIO_PCI_DMA_SUCCESS, insert Uio h)) = Some (err, held)"
    using assms False h by (simp add: probe_attributes_def attr_names_def Let_def insert_commute)
  then show ?thesis using False held
    by (auto simp: probe_exits bound_def prepared_def split: if_splits)
qed

lemma probe_bars_returns:
  "(\<And>i. p_mem P i \<Longrightarrow> p_bar_name P i \<and> p_bar_create P i = 0) \<Longrightarrow> \<exists>h. probe_bars P is held = Some h"
  by (induction "is" arbitrary: held) auto

lemma probe_returns:
  assumes "\<And>n. p_attr_alloc P n" "p_kset P" "\<And>i. p_mem P i \<Longrightarrow> p_bar_name P i \<and> p_bar_create P i = 0"
  shows "\<exists>err held. probe P = Some (err, held)"
proof -
  obtain f where f: "\<And>is h. probe_bars P is h = Some (f is h)" using probe_bars_returns[of P, OF assms(3)] by metis
  have "\<exists>err held. probe_attributes P h = Some (err, held)" for h
    by (simp add: probe_attributes_def probe_exits Let_def f)
  then show ?thesis by (auto simp: probe_def probe_exit_def Let_def assms(1,2))
qed

lemma remove_bound: "remove_device P children (bound P) = Attr ` set attr_names \<union> (if children then {Kset} else {})"
  by (auto simp: remove_device_def bound_def)

text \<open>
  C24. When the attributes, the directory and the names of the register spaces can be allocated and every register space gets
  its file, \<open>probe\<close> returns. With an error code the device holds nothing, or its enabling only, or, if an attribute file
  could not be created, its enabling and the structure of the kset, which nobody frees. With success, the
  regions and the UIO device granted, it holds all resources of a bound device, and \<open>remove\<close>, with no buffers left, gives all
  of them back but the four attribute structures, which nothing frees.
\<close>

theorem probe_remove_roundtrip:
  assumes "\<And>n. p_attr_alloc P n" "p_kset P" "\<And>i. p_mem P i \<Longrightarrow> p_bar_name P i \<and> p_bar_create P i = 0"
  shows "\<exists>err held. probe P = Some (err, held) \<and>
    (err \<noteq> 0 \<longrightarrow> held \<subseteq> {Enabled} \<or> held = {Enabled, Kset} \<and> (\<exists>n \<in> set attr_names. p_create P n = err)) \<and>
    (err = 0 \<and> p_request_regions P = 0 \<and> p_uio_register P = 0 \<longrightarrow>
       held = bound P \<and> remove_device P False held = Attr ` set attr_names)"
proof -
  obtain err held where p: "probe P = Some (err, held)" using probe_returns[of P, OF assms] by blast
  from probe_prepares[OF p] show ?thesis using p probe_attributes_cases[of P err held] remove_bound[of P False] by auto
qed

definition demo_probe :: probe_env where
  "demo_probe = \<lparr>p_attr_alloc = (\<lambda>_. True), p_enable_device = 0, p_irq = True, p_enable_msi = 1,
     p_write_command = writable 0x547, p_csr = \<lparr>csr_command = 0x7, csr_status = 0x10, cfg_blocked = False\<rparr>,
     p_zalloc = True, p_set_mask64 = 1, p_set_coherent_mask64 = 0, p_set_mask32 = 0, p_set_coherent_mask32 = 0,
     p_kset = True, p_create = (\<lambda>_. 0), p_request_regions = 0, p_mem = (\<lambda>i. i = 0), p_bar_name = (\<lambda>_. True), p_bar_create = (\<lambda>_. 0),
     p_uio_register = 0\<rparr>"

lemma demo_probe_succeeds: "probe demo_probe = Some (err, held) \<Longrightarrow> err = 0"
  by (auto simp: probe_def probe_attributes_def demo_probe_def DMA_MASK_def intx_mask_outcome PCI_COMMAND_INTX_DISABLE_def Let_def
      split: if_splits bind_splits)

theorem probe_remove_roundtrip_witness:
  "\<exists>held. probe demo_probe = Some (0, held) \<and> {Regions, Uio, BarFile 0, Sysfs ''request''} \<subseteq> held \<and>
     remove_device demo_probe False held = Attr ` set attr_names"
proof -
  obtain err held where p: "probe demo_probe = Some (err, held)"
    "err = 0 \<longrightarrow> held = bound demo_probe \<and> remove_device demo_probe False held = Attr ` set attr_names"
    using probe_remove_roundtrip[of demo_probe] by (auto simp: demo_probe_def)
  then show ?thesis using demo_probe_succeeds[OF p(1)]
    by (auto simp: bound_def demo_probe_def attr_names_def PCI_NUM_RESOURCES_def)
qed

text \<open>
  Three failures that the caller cannot see: refused regions and a refused UIO device give the code
  \<open>0\<close>, the latter keeping the regions and the files of the register spaces, whose structures are in the
  freed device structure; and a file of a register space that cannot be created ends in an endless loop. The memory for the name of
  a register space is used without a check, and an attribute that cannot be created leaves the structure of the kset behind.
\<close>

lemma refused_regions_unnoticed: "probe (demo_probe\<lparr>p_request_regions := - 16\<rparr>) = Some (0, {Enabled, Kset})"
proof -
  let ?P = "demo_probe\<lparr>p_request_regions := - 16\<rparr>"
  obtain err held where p: "probe ?P = Some (err, held)"
    using probe_returns[of ?P] by (auto simp: demo_probe_def)
  have "err = 0" using p by (auto simp: probe_def probe_attributes_def probe_exits demo_probe_def DMA_MASK_def intx_mask_outcome
    PCI_COMMAND_INTX_DISABLE_def Let_def split: if_splits)
  then show ?thesis using p probe_prepares[OF p] probe_attributes_cases[of ?P err held] by (auto simp: demo_probe_def)
qed

lemma refused_uio_keeps_regions:
  "\<exists>held. probe (demo_probe\<lparr>p_uio_register := - 12\<rparr>) = Some (0, held) \<and> Regions \<in> held \<and> DmaDevice \<notin> held"
proof -
  let ?P = "demo_probe\<lparr>p_uio_register := - 12\<rparr>"
  obtain err held where p: "probe ?P = Some (err, held)"
    using probe_returns[of ?P] by (auto simp: demo_probe_def)
  have "err = 0" using p by (auto simp: probe_def probe_attributes_def probe_exits demo_probe_def DMA_MASK_def intx_mask_outcome
    PCI_COMMAND_INTX_DISABLE_def Let_def split: if_splits bind_splits)
  then show ?thesis using p probe_prepares[OF p] probe_attributes_cases[of ?P err held] by (auto simp: demo_probe_def)
qed

lemma failed_bar_name_undefined: "probe (demo_probe\<lparr>p_bar_name := \<lambda>_. False\<rparr>) = None"
  by (simp add: probe_def probe_attributes_def demo_probe_def DMA_MASK_def intx_mask_outcome PCI_COMMAND_INTX_DISABLE_def
      PCI_NUM_RESOURCES_def upt_rec Let_def)

lemma failed_attribute_leaks_kset: "probe (demo_probe\<lparr>p_create := \<lambda>_. - 12\<rparr>) = Some (- 12, {Enabled, Kset})"
  by (simp add: probe_def probe_attributes_def probe_exits demo_probe_def DMA_MASK_def intx_mask_outcome PCI_COMMAND_INTX_DISABLE_def
      attr_names_def Let_def) auto

lemma failed_bar_file_hangs: "probe (demo_probe\<lparr>p_bar_create := \<lambda>_. - 12\<rparr>) = None"
  by (simp add: probe_def probe_attributes_def demo_probe_def DMA_MASK_def intx_mask_outcome PCI_COMMAND_INTX_DISABLE_def
      PCI_NUM_RESOURCES_def upt_rec Let_def)

end
