(* ===== verification/PDA_KernelModule.thy ===== *)
theory PDA_KernelModule
  imports PDA_KernelSpec PDA_KernelDevice
begin

text \<open>
  The life of a bound device in the kernel module (\<open>patches/linux_uio/uio_pci_dma.c\<close>): \<open>probe\<close> sets up
  the lock and the registry, user space requests and deletes buffers, \<open>remove\<close> takes everything down. This
  joins the resources of a device (\<open>PDA_KernelDevice\<close>) with its buffers (\<open>PDA_KernelRegistry\<close>).
\<close>

section \<open>Binding and unbinding with buffers\<close>

text \<open>
  \<open>probe\<close> initialises the lock first, whatever follows; a new kset is empty. The lock is a variable of
  the module and not of the device.
\<close>

definition probe_registry :: "probe_env \<Rightarrow> 'w dstate \<Rightarrow> (int \<times> resource set \<times> 'w dstate) option" where
  "probe_registry P s =
     do {
       let s = s\<lparr>alloc_free_lock := False\<rparr>;
       (err, held) \<leftarrow> probe P;
       Some (err, held, if Kset \<in> held then s\<lparr>kset_list := []\<rparr> else s)
     }"

text \<open>
  \<open>remove\<close> first frees the buffers in the kset, without taking their kobjects out of it, then gives back the resources of the
  device.
\<close>

definition remove_registry :: "'w kenv \<Rightarrow> probe_env \<Rightarrow> resource set \<Rightarrow> 'w dstate \<Rightarrow> (resource set \<times> 'w dstate) option" where
  "remove_registry E P held s =
     do {
       s \<leftarrow> remove_buffers E (kset_list s) s;
       Some (remove_device P (kset_list s \<noteq> []) held, s)
     }"

section \<open>The life of a device\<close>

lemma probe_registry_starts:
  assumes "probe_registry P s = Some (0, held, s1)" and "p_request_regions P = 0" and "p_uio_register P = 0"
  shows "held = bound P" and "driver_ok E (blocks (mem s)) (pinned (mem s)) s1" and "buffers s1 = []"
proof -
  obtain held' where p: "probe P = Some (0, held')" and s1: "held = held'" "s1 = (if Kset \<in> held' then s\<lparr>alloc_free_lock := False, kset_list := []\<rparr> else s\<lparr>alloc_free_lock := False\<rparr>)"
    using assms(1) by (auto simp: probe_registry_def Let_def split: bind_splits)
  show b: "held = bound P" using probe_prepares[OF p] probe_attributes_cases[of P 0 held'] assms(2,3) s1(1) by auto
  then have "s1 = s\<lparr>alloc_free_lock := False, kset_list := []\<rparr>" using s1 by (simp add: bound_def)
  then show "driver_ok E (blocks (mem s)) (pinned (mem s)) s1" "buffers s1 = []" by (simp_all add: driver_ok_def buffers_def)
qed

lemma remove_registry_releases:
  assumes "lazy_kfree E" and "driver_ok E B0 M0 s"
  shows "\<exists>s'. remove_registry E P (bound P) s = Some (Attr ` set attr_names \<union> (if kset_list s = [] then {} else {Kset}), s') \<and>
    blocks (mem s') = B0 \<and> pinned (mem s') = M0 \<and> (\<forall>a \<in> set (kset_list s). privs s' a = None)"
proof -
  obtain s' where r: "remove_buffers E (kset_list s) s = Some s'" "blocks (mem s') = B0" "pinned (mem s') = M0"
    "\<forall>a \<in> set (kset_list s). privs s' a = None" "kset_list s' = kset_list s" using remove_frees_all[OF assms] by blast
  have "remove_registry E P (bound P) s = Some (Attr ` set attr_names \<union> (if kset_list s = [] then {} else {Kset}), s')"
    by (simp add: remove_registry_def r(1,5) remove_bound)
  with r(2-4) show ?thesis by blast
qed


lemma demo_probe_registry: "\<exists>held. probe_registry demo_probe (demo_dstate\<lparr>alloc_free_lock := True\<rparr>) = Some (0, held, demo_dstate)"
proof -
  obtain err held where p: "probe demo_probe = Some (err, held)" using probe_returns[of demo_probe] by (auto simp: demo_probe_def)
  with demo_probe_succeeds[OF p] show ?thesis by (simp add: probe_registry_def demo_dstate_def Let_def)
qed


text \<open>Removing a device with registered buffers never releases the structure of its kset.\<close>

lemma remove_leaks_kset:
  assumes "remove_registry E P held s = Some (held', s')" and "kset_list s \<noteq> []" and "Kset \<in> held"
  shows "Kset \<in> held'"
proof -
  have "kset_list t = kset_list s" if "remove_buffers E ks s = Some t" for ks s t
    using that
  proof (induction E ks s rule: remove_buffers.induct)
    case (2 E k ks s)
    have "kset_list u = kset_list s" if "uio_pci_dma_free E (Some k) s = Some (r, u)" for r u
      using that by (auto simp: uio_pci_dma_free_def Let_def bind_eq_Some_conv split: option.splits if_splits)
    with 2 show ?case by (auto simp: bind_eq_Some_conv split: if_splits)
  qed simp
  with assms show ?thesis by (auto simp: remove_registry_def remove_device_def bind_eq_Some_conv)
qed

text \<open>
  Binding a further device frees the lock although a request on the first one holds it: the other
  call may then enter the section the lock protects.
\<close>

lemma probe_breaks_lock:
  assumes "probe_registry P s = Some (err, held, s')"
  shows "mutex_lock s' \<noteq> None"
  using assms by (auto simp: probe_registry_def mutex_lock_def Let_def split: bind_splits if_splits)

end
