(* ===== verification/Spec2Isabelle.thy ===== *)
theory Spec2Isabelle
  imports PDA_Enumeration PDA_Service PDA_KernelFault PDA_KernelModule
begin

text \<open>
  \<^bold>\<open>PDA, the portable driver architecture.\<close>

  PDA lets a user-space program drive PCI devices. A program creates a \<^emph>\<open>device operator\<close> for a list
  of PCI ids; the operator loads the kernel module \<open>uio_pci_dma\<close>, binds the ids to it and creates a
  \<^emph>\<open>device\<close> object for every device it finds in sysfs. A device gives access to its \<^emph>\<open>base address
  registers\<close>, runs an interrupt routine in a thread of its own and owns a list of \<^emph>\<open>DMA buffers\<close>. A
  buffer is requested from the kernel module by writing a structure into the sysfs file \<open>request\<close>; the
  module allocates the memory (or pins the pages of a user buffer), programs the IOMMU and exposes two
  files per buffer: \<open>map\<close>, which maps the memory, and \<open>sg\<close>, which maps the scatter/gather table. The
  library converts the table to a linked list of nodes with user and device addresses and merges
  nodes that are contiguous for the device. Writing a name into the file \<open>free\<close> deletes a buffer.

  \<^bold>\<open>Theories and code.\<close>

  \<^item> \<open>PDA_Prelude\<close>: types, generic lemmas, and the locales \<open>step_system\<close> (invariants of reachable states)
    and \<open>call_refinement\<close> (a specification refined on every sequence of calls), which the call sequences
    of the library and of the kernel module interpret.
  \<^item> \<open>PDA_Strings\<close>: paths and number formats (\<open>src/src/definitions.h\<close>, \<open>src/include/pda/defines.h\<close>).
  \<^item> \<open>PDA_Env\<close>: the process state and the operating system as a record of functions \<open>env\<close>.
  \<^item> \<open>PDA_Debug\<close>: \<open>src/src/debug.c\<close>, error codes, handlers, the macros of \<open>src/include/pda/debug.h\<close> and the retrying open.
  \<^item> \<open>PDA_SGList\<close>: the list of nodes and \<open>DMABuffer_coalesqueSGlist\<close> (\<open>src/src/dma_buffer.c\<close>).
  \<^item> \<open>PDA_BufferList\<close>: buffer objects in a heap and the doubly linked list of a device
    (\<open>src/src/dma_buffer.c\<close>, \<open>src/src/dma_buffer_int.h\<close>).
  \<^item> \<open>PDA_Objects\<close>: devices, registers and their getters; the whole state of a process.
  \<^item> \<open>PDA_Bar\<close>, \<open>PDA_PciBars\<close>: registers (\<open>src/src/bar.c\<close>, \<open>bar_inc.c\<close>) and their discovery in the
    configuration header and through libpci (\<open>src/src/pci.c\<close>, \<open>pci_inc.c\<close>).
  \<^item> \<open>PDA_DMABuffer\<close>, \<open>PDA_SGLoad\<close>, \<open>PDA_BufferLife\<close>: creation, mapping, loading of the table, rediscovery,
    wrap mapping and release of buffers (\<open>src/arch/linux_x86_uio/dma_buffer_inc.c\<close>).
  \<^item> \<open>PDA_Pci\<close>, \<open>PDA_DeviceBuffers\<close>, \<open>PDA_DeviceLife\<close>: devices, their buffers, interrupt thread and
    deletion (\<open>src/src/pci.c\<close>, \<open>pci_inc.c\<close>).
  \<^item> \<open>PDA_DeviceOperator\<close>: \<open>src/src/device_operator.c\<close> and \<open>device_operator_inc.c\<close>.
    \<open>PDA_Enumeration\<close>: which devices an operator finds in the directory of the driver.
  \<^item> \<open>PDA_KernelMem\<close>, \<open>PDA_KernelAlloc\<close>: the memory of buffers in \<open>src/patches/linux_uio/uio_pci_dma.c\<close>.
  \<^item> \<open>PDA_KernelMap\<close>: its mapping callbacks. \<open>PDA_KernelRegistry\<close>: its registry of buffers with the
    request and free callbacks. \<open>PDA_KernelDevice\<close>: interrupts, PCI Express limits, \<open>probe\<close> and \<open>remove\<close>.
    \<open>PDA_KernelFault\<close>: its build with a page fault handler (\<open>UIO_PDA_USE_PAGEFAULT_HANDLER\<close>).
    \<open>PDA_KernelModule\<close>: \<open>probe\<close> and \<open>remove\<close> with the buffers requested in between.
  \<^item> \<open>PDA_KernelSpec\<close>: the registry of the module as a specification, a map from names to buffers, and
    its refinement. \<open>PDA_Link\<close>, \<open>PDA_LinkLife\<close>: the library and the module joined by the files
    \<open>request\<close> and \<open>free\<close>, from the single request to the creation and release of buffers.
  \<^item> \<open>PDA_Service\<close>: the buffer calls of a device, with the module behind them, as a service for a program that
    holds handles: its specification, the refinement, and what lookups of foreign buffers do to it.

  The definitions keep the names of the C functions; a loop or an exit block that is a definition of
  its own carries the name of its function or label. C structures are records, pointers to objects
  are addresses into a heap (\<open>None\<close> is \<open>NULL\<close>), machine integers are words, error codes are integers.

  \<^bold>\<open>Conventions.\<close> A function that can follow an invalid pointer, leave an array, or not end returns an
  option, where \<open>None\<close> is this undefined outcome; every error the code reports is a value inside
  \<open>Some\<close>. Loops whose end depends on the data are \<open>partial_function (option)\<close> or terminate by a
  measure, so there is no fuel; that they return is part of the theorems. System calls, libpci, libkmod,
  the services of the kernel and the answers of a device are fields of \<open>env\<close>, \<open>kenv\<close> and
  \<open>probe_env\<close>, over an abstract world they may change. What a theorem assumes of them is a named law:
  \<open>posix_env\<close> (a failing call sets a non-zero \<open>errno\<close>), \<open>kernel_laws\<close> (the page allocator hands out free
  aligned blocks, \<open>sort\<close> sorts, \<open>get_order\<close>), \<open>direct_mapping\<close> (the IOMMU maps the entries one to one)
  and \<open>gup_law\<close>. The module reads structures it has freed, in a deletion and in \<open>remove\<close>; this is undefined, too, unless the kernel
  says that the contents are still there (\<open>k_freed_intact\<close>). Theorems that need it have the law \<open>lazy_kfree\<close>, a kernel without poisoning
  in which nobody takes the memory in between, as a premise; for a kernel that clears what it frees (\<open>eager_kfree\<close>) the calls are
  shown to be undefined. \<open>uio_interrupts\<close> says how UIO delivers and masks legacy interrupts, \<open>mappings\<close> what a process sees
  in a mapping. That a call succeeds is stated under laws that the system has what is asked for:
  \<open>granting\<close> (every system call the library makes is granted), \<open>plentiful\<close> with a budget \<open>avail\<close> of
  pages (the kernel serves every allocation within the budget). \<open>sysfs_devices\<close> says what a driver
  directory shows, and \<open>sysfs_driver\<close> that writing to two files, and nothing else, reaches the callbacks of the module; each
  law has a concrete instance in the witness of the theorem that uses it. The primitives of the kernel headers that only arrange data (\<open>sg_set_page\<close>,
  \<open>sg_init_table\<close>, \<open>sg_next\<close>, the mutex) are defined as documented.

  \<^bold>\<open>What is shown.\<close>

  \<^item> End to end (here): a byte of a loaded list is the same physical byte for the process and for the
    device; it rests on the loading and coalescing theorems (\<open>PDA_SGLoad\<close>, \<open>PDA_SGList\<close>) and on the
    mapping theorem of the module (\<open>PDA_KernelMap\<close>).
  \<^item> Refinement: on every sequence of well-formed requests and deletions the module behaves as a map
    from names to buffers (\<open>PDA_KernelSpec\<close>); the library's creation and release of a buffer are an insertion
    and a deletion in this map, in step with the list of the device (\<open>PDA_LinkLife\<close>). On every sequence of
    permitted allocations, registrations, lookups and releases, with calls of the module by other programs in
    between, the library on top of the module behaves as the service of \<open>PDA_Service\<close>, results included.
  \<^item> Equivalence: the page fault handler inserts the frames that the other build maps at once
    (\<open>PDA_KernelFault\<close>); coalescing is the maximal merge of contiguous entries (\<open>PDA_SGList\<close>).
  \<^item> Invariants: every sequence of buffer calls keeps the list of a device well formed and each call
    is defined (\<open>PDA_DeviceBuffers\<close>); every sequence of served requests and deletions keeps the
    registry of the module consistent with the pages it holds (\<open>PDA_KernelRegistry\<close>), and after any such
    sequence \<open>remove\<close> gives back all memory taken since \<open>probe\<close> (\<open>PDA_KernelModule\<close>).
  \<^item> Outcomes on every branch: creation and release of buffers, registers, devices and operators,
    allocation and release of memory in the module, requests and deletions, binding and unbinding;
    where the system grants what is asked for, that they succeed. An operator finds exactly the devices
    asked for (\<open>PDA_Enumeration\<close>).
  \<^item> Round trips: the request written by the library as decoded by the module, register access,
    pinned user pages, binding of a device.
  \<^item> Termination and liveness: the traversals of the buffer list; the interrupt thread, which re-enables the interrupt
    the module masks and so serves every one. Mapping: the two mappings of a wrap mapping show the same memory (\<open>PDA_DeviceLife\<close>).
  \<^item> Lemmas next to the definitions show defects of the code on concrete states, such as dangling
    list heads, uses of freed kobjects and error paths that report success.

  \<^bold>\<open>Not modelled.\<close> The trace of the library in the functions that carry it: the macros are in \<open>PDA_Debug\<close>, which shows that
  leaving them out changes nothing but the output; the macros of the module that only call \<open>printk\<close>; concurrency, beyond the interrupt thread and the lock of the module: calls run one after the other, those of several programs in any order;
  the branches for other kernel versions, except those of the PCI Express limits; reference counts of kobjects, apart from what keeps a kset alive in \<open>remove\<close>; requests that fail for want of memory in the call
  sequences of the module, after which the kset holds a dangling kobject (their outcome is part of the theorem on requests, the
  consequence a lemma); devices in use when an operator is deleted; module registration, which only calls the kernel; tests,
  packaging and build files.
\<close>

section \<open>The process and the device see the same memory\<close>

text \<open>
  The IOMMU as \<open>dma_map_sg\<close> programmed it for the entries of a table: device address \<open>dma_address + j\<close>
  is byte \<open>j\<close> of the pages of the entry.
\<close>

definition device_sees :: "'w kenv \<Rightarrow> (u64 \<Rightarrow> u64) \<Rightarrow> scatterlist list \<Rightarrow> bool" where
  "device_sees E iommu xs \<longleftrightarrow> (\<forall>e \<in> set xs. \<forall>j < entry_size e.
     iommu (dma_address e + of_nat j) = page_to_pfn E (sg_page e) * 4096 + of_nat j)"

text \<open>The physical address of a user address after the given calls of \<open>remap_pfn_range\<close>.\<close>

definition process_sees :: "remap list \<Rightarrow> u64 \<Rightarrow> u64 option" where
  "process_sees rs a = map_option (\<lambda>f. f * 4096 + a mod 4096) (map_of (remap_pages rs) (a - a mod 4096))"

lemma page_split:
  fixes base :: u64
  assumes "unat base mod 4096 = 0" and "unat base + n < 2 ^ 64"
  shows "(base + of_nat n) mod 4096 = of_nat (n mod 4096)"
    and "base + of_nat n - (base + of_nat n) mod 4096 = base + 4096 * of_nat (n div 4096)"
proof -
  have u: "unat (base + of_nat n) = unat base + n" using assms(2) by (simp add: unat_word_ariths unat_of_nat)
  have "unat ((base + of_nat n) mod 4096) = n mod 4096"
    using u assms(1) unat_mod_distrib[of "base + of_nat n" 4096] by (simp add: mod_add_left_eq[symmetric])
  then have "of_nat (unat ((base + of_nat n) mod 4096)) = (of_nat (n mod 4096) :: u64)" by (rule arg_cong)
  then show m: "(base + of_nat n) mod 4096 = of_nat (n mod 4096)" by simp
  have "(of_nat n :: u64) = of_nat (4096 * (n div 4096) + n mod 4096)" by simp
  then have "(of_nat n :: u64) = 4096 * of_nat (n div 4096) + of_nat (n mod 4096)" by (simp only: of_nat_add of_nat_mult of_nat_numeral)
  with m show "base + of_nat n - (base + of_nat n) mod 4096 = base + 4096 * of_nat (n div 4096)" by simp
qed

lemma map_of_pages:
  assumes "unat base + 4096 * n \<le> 2 ^ 64" and "j < n"
  shows "map_of (map (\<lambda>i. (base + 4096 * of_nat i :: u64, f i)) [0..<n]) (base + 4096 * of_nat j) = Some (f j)"
proof (rule map_of_is_SomeI)
  have u: "unat (base + 4096 * of_nat i) = unat base + 4096 * i" if "i < n" for i
  proof -
    have i: "unat base + 4096 * i < 2 ^ 64" using assms(1) that by simp
    then have "unat (4096 * of_nat i :: u64) = 4096 * i" by (simp add: unat_word_ariths unat_of_nat)
    then show ?thesis using unat_add_no_wrap[of base "4096 * of_nat i"] i by simp
  qed
  have "inj_on (\<lambda>i. base + 4096 * of_nat i) (set [0..<n])"
    by (rule inj_onI) (metis u add_left_cancel atLeastLessThan_iff mult_left_cancel set_upt zero_neq_numeral)
  then show "distinct (map fst (map (\<lambda>i. (base + 4096 * of_nat i, f i)) [0..<n]))" by (simp add: distinct_map comp_def)
  show "(base + 4096 * of_nat j, f j) \<in> set (map (\<lambda>i. (base + 4096 * of_nat i, f i)) [0..<n])" using assms(2) by auto
qed

text \<open>A byte of the table: its user address and its device address reach the same physical byte.\<close>

lemma byte_agrees:
  assumes ex: "exported v xs" and dev: "device_sees E iommu xs" and i: "i < length xs" "k < entry_size (xs ! i)"
    and base: "unat base mod 4096 = 0" "unat base + m * unat (pv_size v) \<le> 2 ^ 64" and m: "0 < m"
    and rs: "remap_pages rs = map (\<lambda>j. (base + 4096 * of_nat j, frames E xs ! (j mod unat (pv_pages v)))) [0..<m * unat (pv_pages v)]"
  shows "process_sees rs (base + of_nat (entry_offset xs i + k)) = Some (iommu (dma_address (xs ! i) + of_nat k))"
proof -
  let ?n = "entry_offset xs i + k" and ?N = "unat (pv_pages v)"
  note p = exported_pages[OF ex]
  have size: "unat (pv_size v) = ?N * 4096" using ex by (simp add: exported_def)
  have off: "entry_offset xs i mod 4096 = 0" "entry_offset xs i div 4096 = length (frames E (take i xs))"
    using entry_offset_pages(1)[OF p(1)] entry_offset_pages(2)[OF p(1), of i E] by auto
  have sz: "entry_size (xs ! i) mod 4096 = 0" using p(1) i(1) by (simp add: whole_pages_def)
  then have kq: "k div 4096 < entry_size (xs ! i) div 4096" using i(2) by (auto simp: div_less_iff_less_mult elim!: dvdE)
  have d: "?n div 4096 = length (frames E (take i xs)) + k div 4096" "?n mod 4096 = k mod 4096"
    using off by (auto elim!: dvdE)
  have less: "?n div 4096 < ?N" using frames_less[OF i(1) kq, of E] p(2)[of E] d(1) by simp
  then have bound: "unat base + ?n < 2 ^ 64"
  proof -
    have "?n < ?N * 4096" using less by (simp add: div_less_iff_less_mult)
    also have "\<dots> \<le> m * unat (pv_size v)" using m size by simp
    finally show ?thesis using base(2) by simp
  qed
  have "?n div 4096 < m * ?N" using less m by (metis less_le_trans mult_le_mono1 mult_1 Suc_leI One_nat_def)
  then have "map_of (remap_pages rs) (base + 4096 * of_nat (?n div 4096)) = Some (frames E xs ! (?n div 4096 mod ?N))"
    unfolding rs using base(2) size
      map_of_pages[of base "m * ?N" "?n div 4096" "\<lambda>j. frames E xs ! (j mod ?N)"] by (simp add: mult.assoc mult.commute)
  moreover have "frames E xs ! (?n div 4096 mod ?N) = page_to_pfn E (sg_page (xs ! i)) + of_nat (k div 4096)"
    using less frames_nth[OF i(1) kq, of E] d(1) by simp
  ultimately have "process_sees rs (base + of_nat ?n) =
      Some ((page_to_pfn E (sg_page (xs ! i)) + of_nat (k div 4096)) * 4096 + of_nat (k mod 4096))"
    unfolding process_sees_def page_split(2)[OF base(1) bound] unfolding page_split(1)[OF base(1) bound] d(2) by simp
  also have "\<dots> = Some (page_to_pfn E (sg_page (xs ! i)) * 4096 + of_nat k)"
  proof -
    have "(of_nat k :: u64) = of_nat (k div 4096 * 4096 + k mod 4096)" by simp
    then have "(of_nat k :: u64) = of_nat (k div 4096) * 4096 + of_nat (k mod 4096)" by (simp only: of_nat_add of_nat_mult of_nat_numeral)
    then show ?thesis by (simp add: distrib_right add.assoc)
  qed
  also have "\<dots> = Some (iommu (dma_address (xs ! i) + of_nat k))" using dev i nth_mem[OF i(1)] by (simp add: device_sees_def)
  finally show ?thesis .
qed

lemma exported_table:
  assumes "exported v xs" and "pv_scatter v = Some sc" and "\<forall>k < length sc. tab k = sc ! k"
  shows "length sc = length xs" and "i \<le> length xs \<Longrightarrow> table_offset tab i = entry_offset xs i"
    and "i < length xs \<Longrightarrow> unat (sc_length (tab i)) = entry_size (xs ! i) \<and> sc_dma_address (tab i) = dma_address (xs ! i)"
    and "table_ok tab (length xs)"
proof -
  have sc: "sc = map convert_entry xs" using assms(1,2) by (auto simp: exported_def)
  then show len: "length sc = length xs" by simp
  show e: "unat (sc_length (tab i)) = entry_size (xs ! i) \<and> sc_dma_address (tab i) = dma_address (xs ! i)" if "i < length xs" for i
    using that assms(1,3) sc by (auto simp: convert_entry_def entry_size_def exported_def)
  show off: "table_offset tab i = entry_offset xs i" if "i \<le> length xs" for i
    using that by (induction i) (auto simp: table_offset_def entry_offset_def take_Suc_snoc e)
  have "entry_size (xs ! i) \<noteq> 0" if "i < length xs" for i
    using exported_pages(1)[OF assms(1)] that by (auto simp: whole_pages_def)
  then have "\<forall>i < length xs. sc_length (tab i) \<noteq> 0" using e by (metis unat_eq_0)
  moreover have "table_offset tab (length xs) < 2 ^ 64" using off[of "length xs"] exported_pages(3)[OF assms(1)] unat_bound[of "pv_size v"] by simp
  ultimately show "table_ok tab (length xs)" using assms(1) by (simp add: table_ok_def exported_def)
qed

lemma table_agrees:
  assumes ex: "exported v xs" and dev: "device_sees E iommu xs" and sc: "pv_scatter v = Some sc"
    and tab: "\<forall>k < length sc. tab k = sc ! k"
    and base: "unat base mod 4096 = 0" "unat base + m * unat (pv_size v) \<le> 2 ^ 64" "0 < m"
    and rs: "remap_pages rs = map (\<lambda>j. (base + 4096 * of_nat j, frames E xs ! (j mod unat (pv_pages v)))) [0..<m * unat (pv_pages v)]"
  shows "\<forall>(u, d) \<in> set (table_translation base tab (length xs)). process_sees rs u = Some (iommu d)"
proof -
  note t = exported_table[OF ex sc tab]
  have "process_sees rs (base + of_nat (table_offset tab i + k)) = Some (iommu (sc_dma_address (tab i) + of_nat k))"
    if "i < length xs" "k < unat (sc_length (tab i))" for i k
    using byte_agrees[OF ex dev that(1) _ base rs, of k] t(2)[of i] t(3)[OF that(1)] that by simp
  then show ?thesis by (auto simp: table_translation_def)
qed

lemma exported_entries:
  assumes "exported v xs"
  shows "length xs < 2 ^ 52"
proof -
  have w: "\<forall>e \<in> set xs. 4096 \<le> entry_size e" using exported_pages(1)[OF assms] by (auto simp: whole_pages_def intro: dvd_imp_le)
  have "4096 * length xs \<le> entry_offset xs (length xs)"
    using w unfolding entry_offset_def take_all[OF order_refl] by (induction xs) auto
  then show ?thesis using exported_pages(3)[OF assms] unat_bound[of "pv_size v"] by simp
qed

text \<open>
  C1. End to end: let the kernel module have allocated a buffer and mapped it, once or several times in a
  row, at the address the library keeps in the buffer object, and let the library load the list
  from the table the module exports for it. Loading always ends, and succeeds if the system grants its
  calls; when it succeeds, every byte of the
  list is the same physical byte for the process at the user address and for the device at the
  device address.
\<close>

theorem process_and_device_agree:
  assumes lib: "posix_env L" "\<forall>n w. fst (sys_alloc L n w)" "bufs s a = Some b" "internal b = Some i" "devs s d = Some dev"
      "path = sg_path (dev_bdf dev) (name i)"
    and drv: "exported v xs" "pv_scatter v = Some sc" "device_sees E iommu xs"
      "\<forall>a p l w. fst (k_remap_pfn_range E a p l w) = 0"
    and vma: "vm_start vma = buf_map b" "unat (vm_start vma) mod 4096 = 0" "unat (vm_end vma - vm_start vma) = m * unat (pv_size v)"
      "0 < m" "unat (vm_start vma) + m * unat (pv_size v) \<le> 2 ^ 64" "vm_flags vma AND (VM_SHARED OR VM_MAYWRITE) \<noteq> VM_MAYWRITE"
    and sysfs: "\<forall>w sz w'. sys_stat_size L path w = (Inr sz, w') \<longrightarrow> sz = pv_length v * 24"
      "\<forall>t k w. k < length sc \<longrightarrow> sys_scatter L t k w = sc ! k"
  shows "\<exists>rs k' r s'. uio_pci_dma_sysfs_map E (Some v) vma k = Some (0, rs, k') \<and>
    DMABuffer_loadSGList L a (Some d) s = Some (r, s') \<and>
    (r = PDA_SUCCESS \<longrightarrow> (\<exists>b' blk. bufs s' a = Some b' \<and> sglist b' = Some blk \<and>
       (\<forall>(u, dv) \<in> set (sg_translation blk). process_sees rs u = Some (iommu dv)))) \<and>
    (granting L \<longrightarrow> r = PDA_SUCCESS)"
proof -
  have n: "unat (pv_length v) = length xs" using drv(1) by (auto simp: exported_def marked_def)
  have sz: "unat (pv_length v * 24 div sizeof_scatter) = length xs"
    using exported_entries[OF drv(1)] n unat_mult_distrib_small[of "pv_length v" 24]
    by (simp add: sizeof_scatter_def unat_div_distrib)
  have sc: "length sc = length xs" using exported_table(1)[OF drv(1,2)] by blast
  have ok: "table_ok (\<lambda>k. sys_scatter L t k w) (length xs)" for t w
    by (rule exported_table(4)[OF drv(1,2)]) (use sysfs(2) in auto)
  have "\<forall>sz w w' t w1. sys_stat_size L path w = (Inr sz, w') \<longrightarrow> table_ok (\<lambda>k. sys_scatter L t k w1) (unat (sz div sizeof_scatter))"
    using sysfs(1) ok sz by metis
  from load_outcome_total[OF lib this] obtain r s' where l: "DMABuffer_loadSGList L a (Some d) s = Some (r, s')"
    "load_outcome L a b path s r s'" "granting L \<longrightarrow> r = PDA_SUCCESS" by blast
  obtain rs k' where mp: "uio_pci_dma_sysfs_map E (Some v) vma k = Some (0, rs, k')"
    "remap_pages rs = map (\<lambda>j. (vm_start vma + 4096 * of_nat j, frames E xs ! (j mod unat (pv_pages v)))) [0..<m * unat (pv_pages v)]"
    using map_outcome[OF drv(1,4) vma(6,3), of k] by blast
  have "process_sees rs u = Some (iommu dv)" 
    if ld: "sg_loaded L (buf_map b) path blk" and el: "(u, dv) \<in> set (sg_translation blk)" for blk u dv
  proof -
    obtain size w0 w0' t w where st: "sys_stat_size L path w0 = (Inr size, w0')"
      and tr: "sg_translation blk = table_translation (buf_map b) (\<lambda>k. sys_scatter L t k w) (unat (size div sizeof_scatter))"
      using ld unfolding sg_loaded_def by blast
    have "size = pv_length v * 24" using sysfs(1) st by blast
    with tr sz have "sg_translation blk = table_translation (buf_map b) (\<lambda>k. sys_scatter L t k w) (length xs)" by simp
    moreover have "\<forall>(u, d) \<in> set (table_translation (buf_map b) (\<lambda>k. sys_scatter L t k w) (length xs)). process_sees rs u = Some (iommu d)"
      using table_agrees[OF drv(1,3,2), of "\<lambda>k. sys_scatter L t k w" "buf_map b" m rs] sysfs(2) vma mp(2) by simp
    ultimately show ?thesis using el by auto
  qed
  note agrees = this
  from l(2) obtain b' where "bufs s' a = Some b'" "r = PDA_SUCCESS \<longrightarrow> (\<exists>blk. sglist b' = Some blk \<and> sg_loaded L (buf_map b) path blk)"
    by (auto simp: load_outcome_def)
  with agrees have "r = PDA_SUCCESS \<longrightarrow> (\<exists>b' blk. bufs s' a = Some b' \<and> sglist b' = Some blk \<and>
      (\<forall>(u, dv) \<in> set (sg_translation blk). process_sees rs u = Some (iommu dv)))" by blast
  then show ?thesis using mp(1) l(1,3) by blast
qed

text \<open>A buffer of three pages in two chunks, mapped twice in a row.\<close>

definition demo_chunks :: "scatterlist list" where
  "demo_chunks =
     [\<lparr>page_link = 0x40, sl_offset = 0, sl_length = 4096, dma_address = 0x1000, dma_length = 4096\<rparr>,
      \<lparr>page_link = 0x100, sl_offset = 0, sl_length = 8192, dma_address = 0x4000, dma_length = 8192\<rparr>]"

definition demo_buffer :: uio_pci_dma_private where
  "demo_buffer = demo_request\<lparr>pv_size := 12288, pv_pages := 3, pv_length := 2, pv_old_length := 2,
     pv_sg := Some (demo_chunks @ [zero_sg\<lparr>page_link := 2\<rparr>]), pv_scatter := Some (map convert_entry demo_chunks)\<rparr>"

definition demo_library :: "unit env" where
  "demo_library = calm_env\<lparr>sys_stat_size := (\<lambda>_ w. (Inr 48, w)), sys_scatter := (\<lambda>_ k _. map convert_entry demo_chunks ! k)\<rparr>"

lemma demo_buffer_exported: "exported demo_buffer demo_chunks"
  by (simp add: exported_def demo_buffer_def demo_chunks_def marked_def sg_is_last_def chunk_pages_def less_Suc_eq)

lemma demo_buffer_seen: "device_sees demo_kernel (\<lambda>a. a) demo_chunks"
  by (simp add: device_sees_def demo_chunks_def demo_kernel_def sg_page_def sizeof_page_def)

lemma demo_library_posix: "posix_env demo_library" "\<forall>n w. fst (sys_alloc demo_library n w)"
  by (simp_all add: posix_env_def errno_law_def demo_library_def calm_env_def)

lemma demo_library_granting: "granting demo_library"
  using calm_granting[where ?'a = unit] by (simp add: granting_def granted_def demo_library_def)

theorem process_and_device_agree_witness:
  "\<exists>rs k' s'. uio_pci_dma_sysfs_map demo_kernel (Some demo_buffer)
      \<lparr>vm_start = 0x7f0000000000, vm_end = 0x7f0000006000, vm_flags = 0xb\<rparr> demo_kstate = Some (0, rs, k') \<and>
    DMABuffer_loadSGList demo_library 7 (Some 1) buffer_process = Some (PDA_SUCCESS, s') \<and>
    (\<exists>b' blk. bufs s' 7 = Some b' \<and> sglist b' = Some blk \<and>
       (\<forall>(u, dv) \<in> set (sg_translation blk). process_sees rs u = Some dv))"
proof -
  let ?vma = "\<lparr>vm_start = 0x7f0000000000, vm_end = 0x7f0000006000, vm_flags = 0xb\<rparr>"
  have b: "bufs buffer_process 7 = Some mapped_buffer" "internal mapped_buffer = Some zero_DMABufferInternal" "devs buffer_process 1 = Some demo_device"
    "unat (vm_end ?vma - vm_start ?vma) = 2 * unat (pv_size demo_buffer)" "unat (vm_start ?vma) + 2 * unat (pv_size demo_buffer) \<le> 2 ^ 64"
    "pv_scatter demo_buffer = Some (map convert_entry demo_chunks)"
    by (simp_all add: buffer_process_def mapped_buffer_def demo_process_def demo_buffer_def)
  have "\<exists>rs k' r s'. uio_pci_dma_sysfs_map demo_kernel (Some demo_buffer) ?vma demo_kstate = Some (0, rs, k') \<and>
    DMABuffer_loadSGList demo_library 7 (Some 1) buffer_process = Some (r, s') \<and>
    (r = PDA_SUCCESS \<longrightarrow> (\<exists>b' blk. bufs s' 7 = Some b' \<and> sglist b' = Some blk \<and>
       (\<forall>(u, dv) \<in> set (sg_translation blk). process_sees rs u = Some dv))) \<and> (granting demo_library \<longrightarrow> r = PDA_SUCCESS)"
    by (rule process_and_device_agree[OF demo_library_posix b(1-3) refl demo_buffer_exported b(6) demo_buffer_seen _ _ _ b(4) _ b(5)])
      (simp_all add: demo_kernel_def mapped_buffer_def VM_SHARED_def VM_MAYWRITE_def demo_library_def demo_buffer_def)
  with demo_library_granting show ?thesis by blast
qed

end
